(* ===== verification/Prelude.thy ===== *)
theory Prelude
  imports Main "HOL-Library.Multiset" "HOL-Library.AList" "HOL-Library.Sublist" "HOL-Library.Char_ord" "HOL-Library.List_Lexorder"
begin

text \<open>
  Shared vocabulary of the development.

  It holds what every component of the program uses of the TypeScript language and its
  standard library: numbers and values of type \<open>unknown\<close>, insertion-ordered \<open>Map\<close>s,
  \<open>Array.prototype.sort\<close> with a comparison function, and the error objects of
  \<open>apps/server/src/http/errors.ts\<close> with the codes of \<open>packages/contracts/src/errors.ts\<close>.

  Instants and durations are integers (milliseconds), as \<open>Date.now()\<close> returns them.
\<close>

section \<open>Names shared by the components\<close>

type_synonym millis = int
type_synonym account_id = string

named_theorems step_simps "equations that unfold one step of a component"
named_theorems inv_intros "an operation keeps the invariant of its component"

abbreviation max_safe_integer :: int where
  "max_safe_integer \<equiv> 9007199254740991"

abbreviation one_minute :: millis where "one_minute \<equiv> 60000"
abbreviation one_hour :: millis where "one_hour \<equiv> 3600000"
abbreviation one_day :: millis where "one_day \<equiv> 86400000"

section \<open>Numbers and values of type unknown\<close>

text \<open>
  A value of the static type \<open>number\<close>: \<open>Whole k\<close> is a number for which
  \<open>Number.isInteger\<close> holds, \<open>Fractional\<close> stands for every other one (fractions, the
  infinities, \<open>NaN\<close>), which the code only ever rejects.
\<close>

datatype js_number = Whole int | Fractional

definition is_safe_int :: "int \<Rightarrow> bool" where
  "is_safe_int k \<longleftrightarrow> \<bar>k\<bar> \<le> max_safe_integer"

fun is_safe_integer :: "js_number \<Rightarrow> bool" where
  "is_safe_integer (Whole k) = is_safe_int k"
| "is_safe_integer Fractional = False"

fun is_integer :: "js_number \<Rightarrow> bool" where
  "is_integer (Whole k) = True"
| "is_integer Fractional = False"

text \<open>
  A value of type \<open>unknown\<close> (parsed from a response). A number is given by its decimal
  rendering (\<open>Number::toString\<close>), an array or object by the text \<open>String(value)\<close> makes
  of it; \<open>-0\<close> renders as \<open>0\<close>, as in the language.
\<close>

datatype unknown =
  Undefined
| Null
| Bool bool
| Num string
| Str string
| Obj string

fun js_string :: "unknown \<Rightarrow> string" where
  "js_string Undefined = ''undefined''"
| "js_string Null = ''null''"
| "js_string (Bool b) = (if b then ''true'' else ''false'')"
| "js_string (Num s) = s"
| "js_string (Str s) = s"
| "js_string (Obj s) = s"

text \<open>The operator \<open>a ?? b\<close>.\<close>

fun nullish :: "unknown \<Rightarrow> unknown \<Rightarrow> unknown" where
  "nullish Undefined d = d"
| "nullish Null d = d"
| "nullish v d = v"

text \<open>The integer of a number that \<open>Number.isSafeInteger\<close> has accepted.\<close>

fun int_of :: "js_number \<Rightarrow> int" where
  "int_of (Whole k) = k"
| "int_of Fractional = 0"

section \<open>Digits\<close>

definition is_digit :: "char \<Rightarrow> bool" where
  "is_digit c \<longleftrightarrow> c \<in> set ''0123456789''"

definition digit_value :: "char \<Rightarrow> int" where
  "digit_value c = int (of_char c) - 48"

text \<open>\<open>BigInt(s)\<close> and \<open>Number(s)\<close> for a string of decimal digits.\<close>

definition digits_value :: "string \<Rightarrow> int" where
  "digits_value s = foldl (\<lambda>n c. 10 * n + digit_value c) 0 s"

definition is_digits :: "string \<Rightarrow> bool" where
  "is_digits s \<longleftrightarrow> s \<noteq> [] \<and> list_all is_digit s"

lemma digit_value_range: "is_digit c \<Longrightarrow> 0 \<le> digit_value c \<and> digit_value c \<le> 9"
  by (auto simp: is_digit_def digit_value_def)

lemma foldl_digits_nonneg:
  "0 \<le> n \<Longrightarrow> list_all is_digit s \<Longrightarrow> 0 \<le> foldl (\<lambda>n c. 10 * n + digit_value c) n s"
proof (induction s arbitrary: n)
  case Nil
  then show ?case by simp
next
  case (Cons c s)
  then have "0 \<le> 10 * n + digit_value c"
    using digit_value_range [of c] by auto
  with Cons show ?case by simp
qed

lemma digits_value_nonneg: "list_all is_digit s \<Longrightarrow> 0 \<le> digits_value s"
  by (simp add: digits_value_def foldl_digits_nonneg)

section \<open>Errors\<close>

datatype error_code =
  internal | validation | notFound | unauthorized | invalidCsrf | setupRequired
| setupComplete | setupTokenInvalid | loginInvalid | currentPasswordInvalid
| currentSessionProtected | accountNotFound | presetNotFound | scheduleNotFound
| steamNotConnected | inventoryPriceContextExpired | inventoryPriceContextTooLarge
| conflict | rateLimited

text \<open>A result is \<open>Inl\<close> of what was thrown or \<open>Inr\<close> of the value returned.\<close>

definition and_then :: "'e + 'a \<Rightarrow> ('a \<Rightarrow> 'e + 'b) \<Rightarrow> 'e + 'b" where
  "and_then m k = (case m of Inl e \<Rightarrow> Inl e | Inr x \<Rightarrow> k x)"

lemma and_then_Inl [simp]: "and_then (Inl e) k = Inl e"
  by (simp add: and_then_def)

lemma and_then_Inr [simp]: "and_then (Inr x) k = k x"
  by (simp add: and_then_def)

lemma and_then_eq_Inr: "and_then m k = Inr y \<longleftrightarrow> (\<exists>x. m = Inr x \<and> k x = Inr y)"
  by (cases m) auto

lemma and_thenE:
  assumes "and_then m k = Inr y"
  obtains x where "m = Inr x" and "k x = Inr y"
  using assms by (auto simp: and_then_eq_Inr)

lemma if_InlE:
  assumes "(if c then Inl e else k) = Inr y"
  obtains "\<not> c" and "k = Inr y"
  using assms by (auto split: if_splits)

lemma case_option_InlE:
  assumes "(case x of None \<Rightarrow> Inl e | Some z \<Rightarrow> k z) = Inr y"
  obtains z where "x = Some z" and "k z = Inr y"
  using assms by (auto split: option.splits)

lemmas result_elims = and_thenE if_InlE case_option_InlE

lemma and_then_eq_Inl: "and_then m k = Inl e \<longleftrightarrow> m = Inl e \<or> (\<exists>x. m = Inr x \<and> k x = Inl e)"
  by (cases m) auto

section \<open>Insertion-ordered maps\<close>

text \<open>
  A \<open>Map\<close> (and an object used as one) is an association list with distinct keys in
  insertion order: \<open>get\<close> is \<open>map_of\<close>, \<open>set\<close> is \<open>AList.update\<close>, which overwrites in
  place or appends, and \<open>delete\<close> is \<open>AList.delete\<close>.
\<close>

type_synonym ('k, 'v) js_map = "('k \<times> 'v) list"

abbreviation js_set :: "'k \<Rightarrow> 'v \<Rightarrow> ('k, 'v) js_map \<Rightarrow> ('k, 'v) js_map" where
  "js_set \<equiv> AList.update"

abbreviation js_delete :: "'k \<Rightarrow> ('k, 'v) js_map \<Rightarrow> ('k, 'v) js_map" where
  "js_delete \<equiv> AList.delete"

abbreviation js_get :: "('k, 'v) js_map \<Rightarrow> 'k \<Rightarrow> 'v option" where
  "js_get \<equiv> map_of"

definition js_keys :: "('k, 'v) js_map \<Rightarrow> 'k list" where
  "js_keys m = map fst m"

definition js_map_ok :: "('k, 'v) js_map \<Rightarrow> bool" where
  "js_map_ok m \<longleftrightarrow> distinct (map fst m)"

lemma js_get_set [simp]: "js_get (js_set k v m) = (js_get m)(k \<mapsto> v)"
  by (simp add: update_conv')

lemma js_get_delete [simp]: "js_get (js_delete k m) = (js_get m)(k := None)"
  by (simp add: delete_conv')

lemma js_map_ok_set [simp, intro]: "js_map_ok m \<Longrightarrow> js_map_ok (js_set k v m)"
  by (simp add: js_map_ok_def distinct_update)

lemma js_map_ok_delete [simp, intro]: "js_map_ok m \<Longrightarrow> js_map_ok (js_delete k m)"
  by (simp add: js_map_ok_def distinct_delete)

lemma js_map_ok_filter [simp, intro]: "js_map_ok m \<Longrightarrow> js_map_ok (filter P m)"
  by (simp add: js_map_ok_def distinct_map_filter)

lemma js_map_ok_Nil [simp]: "js_map_ok []"
  by (simp add: js_map_ok_def)

lemma js_get_filter:
  "js_map_ok m \<Longrightarrow>
   js_get (filter P m) k =
     (case js_get m k of None \<Rightarrow> None | Some v \<Rightarrow> if P (k, v) then Some v else None)"
proof (induction m)
  case Nil
  then show ?case by simp
next
  case (Cons p m)
  then have "js_map_ok m" and "fst p \<notin> fst ` set m"
    by (auto simp: js_map_ok_def)
  moreover from this have "js_get m (fst p) = None"
    by (simp add: map_of_eq_None_iff)
  ultimately show ?case
    using Cons.IH by (cases p) (auto split: option.splits)
qed

lemma js_get_filter_Some:
  "js_map_ok m \<Longrightarrow> js_get (filter P m) k = Some v \<longleftrightarrow> js_get m k = Some v \<and> P (k, v)"
  by (auto simp: js_get_filter split: option.splits)

lemma length_js_set: "length (js_set k v m) \<le> Suc (length m)"
  by (induction m) auto

lemma length_js_set_present: "js_get m k \<noteq> None \<Longrightarrow> length (js_set k v m) = length m"
  by (induction m) auto

text \<open>An entry is present and satisfies a test.\<close>

definition holds_at :: "('k, 'v) js_map \<Rightarrow> 'k \<Rightarrow> ('v \<Rightarrow> bool) \<Rightarrow> bool" where
  "holds_at m k P = (case js_get m k of None \<Rightarrow> False | Some v \<Rightarrow> P v)"

lemma holds_at_iff: "holds_at m k P \<longleftrightarrow> (\<exists>v. js_get m k = Some v \<and> P v)"
  by (simp add: holds_at_def split: option.split)

lemma js_set_same: "js_get m k = Some v \<Longrightarrow> js_set k v m = m"
  by (induction m) (auto split: if_splits)

section \<open>Array.prototype.sort with a comparison function\<close>

text \<open>
  The sort is stable. Its result is determined by the specification whenever the comparison
  function is a consistent total preorder (locale below), so insertion sort computes it.
\<close>

fun js_insert :: "('a \<Rightarrow> 'a \<Rightarrow> int) \<Rightarrow> 'a \<Rightarrow> 'a list \<Rightarrow> 'a list" where
  "js_insert cmp x [] = [x]"
| "js_insert cmp x (y # ys) = (if cmp x y \<le> 0 then x # y # ys else y # js_insert cmp x ys)"

primrec js_sort :: "('a \<Rightarrow> 'a \<Rightarrow> int) \<Rightarrow> 'a list \<Rightarrow> 'a list" where
  "js_sort cmp [] = []"
| "js_sort cmp (x # xs) = js_insert cmp x (js_sort cmp xs)"

text \<open>The operator \<open>a || b\<close> on comparison results.\<close>

definition or_else :: "int \<Rightarrow> int \<Rightarrow> int" where
  "or_else a b = (if a \<noteq> 0 then a else b)"

lemma mset_js_insert [simp]: "mset (js_insert cmp x xs) = add_mset x (mset xs)"
  by (induction xs) auto

lemma mset_js_sort [simp]: "mset (js_sort cmp xs) = mset xs"
  by (induction xs) auto

lemma set_js_sort [simp]: "set (js_sort cmp xs) = set xs"
  by (metis mset_js_sort set_mset_mset)

lemma length_js_sort [simp]: "length (js_sort cmp xs) = length xs"
  by (metis mset_js_sort size_mset)

lemma subseq_distinctD: "subseq xs ys \<Longrightarrow> distinct ys \<Longrightarrow> distinct xs"
  by (induction rule: list_emb.induct) (auto dest: list_emb_set)

lemma js_sort_eq_Nil [simp]: "js_sort cmp xs = [] \<longleftrightarrow> xs = []"
  by (metis length_0_conv length_js_sort)

locale js_comparator =
  fixes cmp :: "'a \<Rightarrow> 'a \<Rightarrow> int"
  assumes cmp_sgn: "sgn (cmp x y) = - sgn (cmp y x)"
    and cmp_trans: "cmp x y \<le> 0 \<Longrightarrow> cmp y z \<le> 0 \<Longrightarrow> cmp x z \<le> 0"
begin

lemma cmp_refl: "cmp x x = 0"
  using cmp_sgn [of x x] by (simp add: sgn_if split: if_splits)

lemma cmp_total: "\<not> cmp x y \<le> 0 \<Longrightarrow> cmp y x \<le> 0"
  using cmp_sgn [of x y] by (simp add: sgn_if split: if_splits)

lemma cmp_eq_sym: "cmp x y = 0 \<longleftrightarrow> cmp y x = 0"
  using cmp_sgn [of x y] by (simp add: sgn_if split: if_splits)

lemma cmp_eq_trans: "cmp x y = 0 \<Longrightarrow> cmp y z = 0 \<Longrightarrow> cmp x z = 0"
proof -
  assume xy: "cmp x y = 0" and yz: "cmp y z = 0"
  then have "cmp x z \<le> 0" by (intro cmp_trans [of x y z]) simp_all
  moreover from xy yz have "cmp y x = 0" "cmp z y = 0" by (simp_all add: cmp_eq_sym)
  then have "cmp z x \<le> 0" by (intro cmp_trans [of z y x]) simp_all
  ultimately show ?thesis
    using cmp_sgn [of x z] by (simp add: sgn_if split: if_splits)
qed

lemma cmp_neg_swap: "cmp x y < 0 \<longleftrightarrow> 0 < cmp y x"
  using cmp_sgn [of x y] by (simp add: sgn_if split: if_splits)

lemma cmp_trans_strict: "cmp x y < 0 \<Longrightarrow> cmp y z \<le> 0 \<Longrightarrow> cmp x z < 0"
proof -
  assume xy: "cmp x y < 0" and yz: "cmp y z \<le> 0"
  show ?thesis
  proof (rule ccontr)
    assume "\<not> cmp x z < 0"
    then have "cmp z x \<le> 0" using cmp_sgn [of x z] by (simp add: sgn_if split: if_splits)
    with yz have "cmp y x \<le> 0" by (blast intro: cmp_trans)
    with xy show False by (simp add: cmp_neg_swap)
  qed
qed

lemma sorted_js_insert:
  "sorted_wrt (\<lambda>x y. cmp x y \<le> 0) xs \<Longrightarrow> sorted_wrt (\<lambda>x y. cmp x y \<le> 0) (js_insert cmp x xs)"
proof (induction xs)
  case Nil
  then show ?case by simp
next
  case (Cons y ys)
  have "\<forall>z\<in>set (js_insert cmp x ys). z = x \<or> z \<in> set ys"
    by (induction ys) auto
  with Cons show ?case
    by (auto intro: cmp_trans dest: cmp_total)
qed

lemma sorted_js_sort: "sorted_wrt (\<lambda>x y. cmp x y \<le> 0) (js_sort cmp xs)"
  by (induction xs) (auto intro: sorted_js_insert)

lemma js_sort_hd_least:
  "js_sort cmp xs = y # ys \<Longrightarrow> x \<in> set xs \<Longrightarrow> cmp y x \<le> 0"
proof -
  assume eq: "js_sort cmp xs = y # ys" and x: "x \<in> set xs"
  have "sorted_wrt (\<lambda>x y. cmp x y \<le> 0) (y # ys)"
    using sorted_js_sort [of xs] by (simp add: eq)
  moreover have "x \<in> set (y # ys)" using x eq by (metis set_js_sort)
  ultimately show ?thesis by (auto simp: cmp_refl)
qed

lemma js_insert_stable:
  "filter (\<lambda>y. cmp a y = 0) (js_insert cmp x xs) =
     (if cmp a x = 0 then x # filter (\<lambda>y. cmp a y = 0) xs else filter (\<lambda>y. cmp a y = 0) xs)"
proof (induction xs)
  case Nil
  then show ?case by simp
next
  case (Cons y ys)
  have "cmp x y \<le> 0" if "cmp a x = 0" and "cmp a y = 0"
    using that cmp_eq_trans [of x a y] by (simp add: cmp_eq_sym [of a x])
  with Cons show ?case by auto
qed

lemma js_sort_stable:
  "filter (\<lambda>y. cmp a y = 0) (js_sort cmp xs) = filter (\<lambda>y. cmp a y = 0) xs"
  by (induction xs) (auto simp: js_insert_stable)

end

lemma js_comparator_or_else:
  assumes f: "js_comparator f" and g: "js_comparator g"
  shows "js_comparator (\<lambda>x y. or_else (f x y) (g x y))"
proof
  fix x y
  show "sgn (or_else (f x y) (g x y)) = - sgn (or_else (f y x) (g y x))"
    using js_comparator.cmp_sgn [OF f, of x y] js_comparator.cmp_sgn [OF g, of x y]
    by (auto simp: or_else_def sgn_if split: if_splits)
next
  fix x y z
  assume xy: "or_else (f x y) (g x y) \<le> 0" and yz: "or_else (f y z) (g y z) \<le> 0"
  then have le: "f x y \<le> 0" "f y z \<le> 0"
    by (auto simp: or_else_def split: if_splits)
  then have xz: "f x z \<le> 0" by (blast intro: js_comparator.cmp_trans [OF f])
  show "or_else (f x z) (g x z) \<le> 0"
  proof (cases "f x z = 0")
    case False
    with xz show ?thesis by (simp add: or_else_def)
  next
    case True
    have "f x y = 0" and "f y z = 0"
      using True le js_comparator.cmp_trans_strict [OF f, of x y z]
        js_comparator.cmp_trans [OF f, of z x y] js_comparator.cmp_eq_sym [OF f, of x z]
        js_comparator.cmp_neg_swap [OF f, of y z]
      by (auto simp: le_less)
    with xy yz have "g x z \<le> 0"
      by (auto simp: or_else_def intro: js_comparator.cmp_trans [OF g])
    with True show ?thesis by (simp add: or_else_def)
  qed
qed

lemma js_comparator_ascending: "js_comparator (\<lambda>x y. f x - (f y :: int))"
  by unfold_locales (auto simp: sgn_if)

lemma js_comparator_descending: "js_comparator (\<lambda>x y. f y - (f x :: int))"
  by unfold_locales (auto simp: sgn_if)

lemma js_comparator_const: "js_comparator (\<lambda>x y. 0)"
  by unfold_locales auto

text \<open>Comparison of the values of a linear order, for example of texts by code units.\<close>

definition order_compare :: "'a :: linorder \<Rightarrow> 'a \<Rightarrow> int" where
  "order_compare x y = (if x < y then - 1 else if x = y then 0 else 1)"

lemma order_compare_eq [simp]: "order_compare x y = 0 \<longleftrightarrow> x = y"
  by (simp add: order_compare_def)

lemma order_compare_le [simp]: "order_compare x y \<le> 0 \<longleftrightarrow> x \<le> y"
  by (auto simp: order_compare_def)

lemma order_compare_less [simp]: "order_compare x y < 0 \<longleftrightarrow> x < y"
  by (auto simp: order_compare_def)

interpretation code_units: js_comparator "order_compare :: string \<Rightarrow> string \<Rightarrow> int"
proof
  show "sgn (order_compare x y) = - sgn (order_compare y x)" for x y :: string
    by (auto simp: order_compare_def)
qed (auto intro: order_trans)

lemma js_comparator_flip:
  assumes "js_comparator f"
  shows "js_comparator (\<lambda>x y. f y x)"
proof
  show "sgn (f y x) = - sgn (f x y)" for x y
    by (rule js_comparator.cmp_sgn [OF assms])
  show "f y x \<le> 0 \<Longrightarrow> f z y \<le> 0 \<Longrightarrow> f z x \<le> 0" for x y z
    by (blast intro: js_comparator.cmp_trans [OF assms])
qed

lemma js_comparator_image:
  assumes "js_comparator f"
  shows "js_comparator (\<lambda>x y. f (h x) (h y))"
proof
  show "sgn (f (h x) (h y)) = - sgn (f (h y) (h x))" for x y
    by (rule js_comparator.cmp_sgn [OF assms])
  show "f (h x) (h y) \<le> 0 \<Longrightarrow> f (h y) (h z) \<le> 0 \<Longrightarrow> f (h x) (h z) \<le> 0" for x y z
    by (rule js_comparator.cmp_trans [OF assms])
qed

lemmas js_comparator_rules =
  js_comparator_or_else js_comparator_ascending js_comparator_descending
  js_comparator_const js_comparator_flip js_comparator_image

section \<open>Lists\<close>

text \<open>\<open>[...new Set(xs)]\<close>: the first occurrence of each element is kept.\<close>

definition js_unique :: "'a list \<Rightarrow> 'a list" where
  "js_unique xs = rev (remdups (rev xs))"

lemma set_js_unique [simp]: "set (js_unique xs) = set xs"
  by (simp add: js_unique_def)

lemma distinct_js_unique [simp]: "distinct (js_unique xs)"
  by (simp add: js_unique_def)

lemma js_unique_eq_Nil [simp]: "js_unique xs = [] \<longleftrightarrow> xs = []"
  by (metis set_empty set_js_unique)

lemma length_filter_update:
  "i < length xs \<Longrightarrow>
   int (length (filter P (xs[i := x]))) =
     int (length (filter P xs)) + (if P x then 1 else 0) - (if P (xs ! i) then 1 else 0)"
proof (induction xs arbitrary: i)
  case Nil
  then show ?case by simp
next
  case (Cons y ys)
  show ?case
  proof (cases i)
    case (Suc k)
    with Cons.prems Cons.IH [of k] show ?thesis by (auto split: if_splits)
  qed simp
qed

lemma filter_upt_Suc:
  "filter P [0..<Suc i] = (if P i then filter P [0..<i] @ [i] else filter P [0..<i])"
  by simp

lemma prefix_filter_upt: "i \<le> n \<Longrightarrow> prefix (filter P [0..<i]) (filter P [0..<n])"
proof -
  assume "i \<le> n"
  then have "[0..<n] = [0..<i] @ [i..<n]" by (metis le_Suc_ex upt_add_eq_append zero_le)
  then show ?thesis by simp
qed

lemma strict_sorted_filter_upt: "sorted_wrt (<) (filter P [i..<n :: nat])"
  by (simp add: sorted_wrt_filter)

lemma prefix_sorted_wrt: "prefix xs ys \<Longrightarrow> sorted_wrt r ys \<Longrightarrow> sorted_wrt r xs"
  by (auto simp: prefix_def sorted_wrt_append)

section \<open>Effects\<close>

text \<open>
  An awaited operation on a state \<open>'s\<close> that resolves to an \<open>'a\<close> or rejects with an \<open>'e\<close>, the
  state it leaves behind included in both cases; \<open>then_do\<close> is \<open>await\<close> followed by the rest of
  the function, \<open>catching\<close> is \<open>try\<close> with its \<open>catch\<close>.
\<close>

type_synonym ('s, 'e, 'a) action = "'s \<Rightarrow> ('e + 'a) \<times> 's"

definition pure :: "'a \<Rightarrow> ('s, 'e, 'a) action" where
  "pure x = (\<lambda>s. (Inr x, s))"

definition reject :: "'e \<Rightarrow> ('s, 'e, 'a) action" where
  "reject e = (\<lambda>s. (Inl e, s))"

definition then_do ::
    "('s, 'e, 'a) action \<Rightarrow> ('a \<Rightarrow> ('s, 'e, 'b) action) \<Rightarrow> ('s, 'e, 'b) action" where
  "then_do m k = (\<lambda>s. case m s of (Inl e, s') \<Rightarrow> (Inl e, s') | (Inr x, s') \<Rightarrow> k x s')"

definition catching ::
    "('s, 'e, 'a) action \<Rightarrow> ('e \<Rightarrow> ('s, 'e, 'a) action) \<Rightarrow> ('s, 'e, 'a) action" where
  "catching m h = (\<lambda>s. case m s of (Inl e, s') \<Rightarrow> h e s' | (Inr x, s') \<Rightarrow> (Inr x, s'))"

definition modify :: "('s \<Rightarrow> 's) \<Rightarrow> ('s, 'e, unit) action" where
  "modify f = (\<lambda>s. (Inr (), f s))"

definition reading :: "('s \<Rightarrow> 'a) \<Rightarrow> ('s, 'e, 'a) action" where
  "reading f = (\<lambda>s. (Inr (f s), s))"

primrec for_each :: "('a \<Rightarrow> ('s, 'e, unit) action) \<Rightarrow> 'a list \<Rightarrow> ('s, 'e, unit) action" where
  "for_each f [] = pure ()"
| "for_each f (x # xs) = then_do (f x) (\<lambda>_. for_each f xs)"

lemma action_simps:
  "pure x s = (Inr x, s)" "reject e s = (Inl e, s)" "modify f s = (Inr (), f s)"
  "reading g s = (Inr (g s), s)"
  by (simp_all add: pure_def reject_def modify_def reading_def)

lemma then_do_apply:
  "then_do m k s = (case m s of (Inl e, s') \<Rightarrow> (Inl e, s') | (Inr x, s') \<Rightarrow> k x s')"
  by (simp add: then_do_def)

lemma then_do_pure [simp]: "then_do (pure x) k = k x"
  by (simp add: then_do_def pure_def)

lemma then_do_known:
  "m s = (Inr x, s') \<Longrightarrow> then_do m k s = k x s'" "m s = (Inl e, s') \<Longrightarrow> then_do m k s = (Inl e, s')"
  by (simp_all add: then_do_def)

lemma then_do_reading [simp]: "then_do (reading f) k s = k (f s) s"
  by (simp add: then_do_def action_simps)

lemma then_do_modify [simp]: "then_do (modify g) k s = k () (g s)"
  by (simp add: then_do_def action_simps)

lemma then_do_reject [simp]: "then_do (reject e) k s = (Inl e, s)"
  by (simp add: then_do_def action_simps)

lemma then_do_InrE:
  assumes "then_do m k s = (Inr y, s')"
  obtains x s1 where "m s = (Inr x, s1)" "k x s1 = (Inr y, s')"
  using assms by (auto simp: then_do_def split: prod.splits sum.splits)

lemma catching_known:
  "m s = (Inr x, s') \<Longrightarrow> catching m h s = (Inr x, s')"
  "m s = (Inl e, s') \<Longrightarrow> catching m h s = h e s'"
  by (simp_all add: catching_def)

text \<open>A relation between the state before and after, kept by every way an action can end.\<close>

definition keeps :: "('s \<Rightarrow> 's \<Rightarrow> bool) \<Rightarrow> ('s, 'e, 'a) action \<Rightarrow> bool" where
  "keeps r m \<longleftrightarrow> (\<forall>s. r s (snd (m s)))"

lemma keepsD: "keeps r m \<Longrightarrow> m s = (x, s') \<Longrightarrow> r s s'"
  unfolding keeps_def by (metis snd_conv)

lemma keeps_basic:
  "reflp r \<Longrightarrow> keeps r (pure x)" "reflp r \<Longrightarrow> keeps r (reject e)"
  "reflp r \<Longrightarrow> keeps r (reading f)" "(\<And>s. r s (g s)) \<Longrightarrow> keeps r (modify g)"
  by (simp_all add: keeps_def action_simps reflpD)

lemma keeps_then_do:
  "transp r \<Longrightarrow> keeps r m \<Longrightarrow> (\<And>x. keeps r (k x)) \<Longrightarrow> keeps r (then_do m k)"
  unfolding keeps_def then_do_def by (auto split: prod.split sum.split elim: transpE) (metis snd_conv transpE)+

lemma keeps_catching:
  "transp r \<Longrightarrow> keeps r m \<Longrightarrow> (\<And>e. keeps r (h e)) \<Longrightarrow> keeps r (catching m h)"
  unfolding keeps_def catching_def by (auto split: prod.split sum.split elim: transpE) (metis snd_conv transpE)+

end
