(* ===== verification/Money.thy ===== *)
theory Money
  imports Prelude
begin

text \<open>
  Market pricing, from \<open>apps/server/src/inventory/money.ts\<close>: the wallet a Steam page
  describes, conversion between Steam hundredths and ISO minor units, validation of the
  user's price rules, and the search for the highest seller price under a buyer price cap.

  \<open>BigInt\<close> arithmetic is integer arithmetic. \<open>Number\<close> arithmetic is integer arithmetic too:
  \<open>quote_amounts_safe\<close> shows that every amount of a quote is a safe integer.
  The number of fraction digits of a currency comes from \<open>Intl.NumberFormat\<close>
  and is the parameter \<open>fraction_digits\<close>.
\<close>

section \<open>Data\<close>

record rate =
  numerator :: int
  denominator :: int

record market_currency =
  currency_id :: int
  code :: string
  minorUnit :: int
  priceStep :: "int option"

record wallet =
  currency :: market_currency
  country :: string
  minimum :: int
  increment :: int
  steamRate :: rate
  publisherRate :: rate
  steamBase :: int

record price_settings =
  priceMode :: string
  adjustment :: js_number
  minBuyerPrice :: "js_number option"
  maxBuyerPrice :: "js_number option"
  delaySeconds :: js_number
  currencyId :: "js_number option"

record quote =
  base :: int
  steamFee :: int
  publisherFee :: int
  buyerPays :: int

text \<open>
  What the module throws. \<open>money_status\<close> is the HTTP status of the \<open>appError\<close>; the three
  reasons the price overview displays carry a \<open>displayReason\<close>.
\<close>

datatype money_error =
  Unsupported_fee
| Invalid_integer
| Wallet_unavailable
| Currency_unsupported
| Increments_unsupported
| Outside_precision
| Exceeds_limit
| Not_representable
| Not_exact_integer
| Settings_invalid
| Bind_currency
| Currency_mismatch
| Bounds_reversed
| Off_increment
| Reference_unsupported
| Cap_out_of_range
| Outside_price_limits
| Below_minimum_fees

fun money_status :: "money_error \<Rightarrow> int" where
  "money_status Unsupported_fee = 502"
| "money_status Invalid_integer = 502"
| "money_status Settings_invalid = 400"
| "money_status Bounds_reversed = 400"
| "money_status _ = 409"

definition currency_codes :: "(int \<times> string) list" where
  "currency_codes =
     [(1, ''USD''), (2, ''GBP''), (3, ''EUR''), (4, ''CHF''), (5, ''RUB''), (6, ''PLN''),
      (7, ''BRL''), (8, ''JPY''), (9, ''NOK''), (10, ''IDR''), (11, ''MYR''), (12, ''PHP''),
      (13, ''SGD''), (14, ''THB''), (15, ''VND''), (16, ''KRW''), (17, ''TRY''), (18, ''UAH''),
      (19, ''MXN''), (20, ''CAD''), (21, ''AUD''), (22, ''NZD''), (23, ''CNY''), (24, ''INR''),
      (25, ''CLP''), (26, ''PEN''), (27, ''COP''), (28, ''ZAR''), (29, ''HKD''), (30, ''TWD''),
      (31, ''SAR''), (32, ''AED''), (33, ''SEK''), (34, ''ARS''), (35, ''ILS''), (36, ''BYN''),
      (37, ''KZT''), (38, ''KWD''), (39, ''QAR''), (40, ''CRC''), (41, ''UYU''), (42, ''BGN'')]"

section \<open>Reading a wallet\<close>

text \<open>The pattern \<open>^(?:0|1)(?:\.\d{1,8})?$\<close>.\<close>

definition is_rate_text :: "string \<Rightarrow> bool" where
  "is_rate_text raw \<longleftrightarrow>
     raw \<noteq> [] \<and> (hd raw = CHR ''0'' \<or> hd raw = CHR ''1'') \<and>
     (tl raw = [] \<or>
      (hd (tl raw) = CHR ''.'' \<and> 1 \<le> length (drop 2 raw) \<and> length (drop 2 raw) \<le> 8 \<and>
       list_all is_digit (drop 2 raw)))"

definition parseRate :: "unknown \<Rightarrow> money_error + rate" where
  "parseRate v =
     (let raw = js_string v in
      if \<not> is_rate_text raw then Inl Unsupported_fee
      else
        let whole = take 1 raw; fraction = drop 2 raw;
            num = digits_value (whole @ fraction); den = 10 ^ length fraction
        in if num > den then Inl Unsupported_fee
           else Inr \<lparr>numerator = num, denominator = den\<rparr>)"

definition integer :: "unknown \<Rightarrow> int \<Rightarrow> money_error + int" where
  "integer v lim =
     (if \<not> is_digits (js_string v) then Inl Invalid_integer
      else
        let result = digits_value (js_string v)
        in if \<not> is_safe_int result \<or> result > lim then Inl Invalid_integer else Inr result)"

abbreviation amount_limit :: int where "amount_limit \<equiv> 1000000000"

definition assertMoneyInput :: "int \<Rightarrow> market_currency \<Rightarrow> money_error + unit" where
  "assertMoneyInput amount cur =
     (if \<not> is_safe_int amount \<or> minorUnit cur < 0 \<or> minorUnit cur > 3
      then Inl Not_exact_integer else Inr ())"

definition toMinorUnits :: "int \<Rightarrow> market_currency \<Rightarrow> money_error + int" where
  "toMinorUnits steamAmount cur =
     and_then (assertMoneyInput steamAmount cur) (\<lambda>_.
       let num = steamAmount * 10 ^ nat (minorUnit cur) in
       if num mod 100 \<noteq> 0 then Inl Outside_precision
       else if \<not> is_safe_int (num div 100) then Inl Exceeds_limit
       else Inr (num div 100))"

definition fromMinorUnits :: "int \<Rightarrow> market_currency \<Rightarrow> money_error + int" where
  "fromMinorUnits amount cur =
     and_then (assertMoneyInput amount cur) (\<lambda>_.
       let num = amount * 100; den = 10 ^ nat (minorUnit cur) in
       if num mod den \<noteq> 0 then Inl Not_representable
       else if \<not> is_safe_int (num div den) then Inl Exceeds_limit
       else Inr (num div den))"

text \<open>The pattern \<open>^[A-Z]{2}$\<close> of a country, which has to be a string.\<close>

definition is_country :: "unknown \<Rightarrow> bool" where
  "is_country v \<longleftrightarrow>
     (case v of
        Str s \<Rightarrow> length s = 2 \<and> list_all (\<lambda>c. c \<in> set ''ABCDEFGHIJKLMNOPQRSTUVWXYZ'') s
      | _ \<Rightarrow> False)"

definition parseWallet ::
    "(string \<Rightarrow> int option) \<Rightarrow> (string \<Rightarrow> unknown) \<Rightarrow> money_error + wallet" where
  "parseWallet fraction_digits v =
     and_then (integer (v ''wallet_currency'') 1000) (\<lambda>cid.
     case map_of currency_codes cid of
       None \<Rightarrow> Inl Wallet_unavailable
     | Some ccode \<Rightarrow>
     if \<not> is_country (v ''wallet_country'') then Inl Wallet_unavailable
     else case fraction_digits ccode of
       None \<Rightarrow> Inl Currency_unsupported
     | Some unit \<Rightarrow>
     and_then (integer (nullish (v ''wallet_market_minimum'') (v ''wallet_fee_minimum''))
                 amount_limit) (\<lambda>mini.
     and_then (integer (nullish (v ''wallet_currency_increment'') (Num ''1'')) amount_limit) (\<lambda>inc.
     if mini < 1 \<or> inc < 1 \<or> mini mod inc \<noteq> 0 then Inl Increments_unsupported
     else
     and_then (if v ''wallet_fee'' = Num ''0'' \<or> v ''wallet_fee'' = Str ''0''
               then parseRate (Str ''0'') else parseRate (v ''wallet_fee_percent'')) (\<lambda>sr.
     and_then (parseRate (v ''wallet_publisher_fee_percent_default'')) (\<lambda>pr.
     and_then (if v ''wallet_market_minimum'' \<noteq> Undefined then Inr 0
               else integer (nullish (v ''wallet_fee_base'') (Num ''0'')) amount_limit) (\<lambda>sb.
     let cur = \<lparr>currency_id = cid, code = ccode, minorUnit = unit, priceStep = None\<rparr>;
         w = \<lparr>currency = cur, country = js_string (v ''wallet_country''), minimum = mini,
              increment = inc, steamRate = sr, publisherRate = pr, steamBase = sb\<rparr>
     in and_then (toMinorUnits mini cur) (\<lambda>_.
        and_then (toMinorUnits inc cur) (\<lambda>step.
          Inr (w\<lparr>currency := cur\<lparr>priceStep := Some step\<rparr>\<rparr>)))))))))"

section \<open>Validation of the price rules\<close>

definition optional_amounts :: "price_settings \<Rightarrow> js_number list" where
  "optional_amounts st =
     adjustment st # (case minBuyerPrice st of None \<Rightarrow> [] | Some a \<Rightarrow> [a])
       @ (case maxBuyerPrice st of None \<Rightarrow> [] | Some a \<Rightarrow> [a])"

definition bad_bound :: "js_number option \<Rightarrow> bool" where
  "bad_bound b \<longleftrightarrow>
     (case b of
        None \<Rightarrow> False
      | Some a \<Rightarrow> \<not> is_safe_integer a \<or> int_of a < 0 \<or> int_of a > amount_limit)"

definition settings_malformed :: "price_settings \<Rightarrow> bool" where
  "settings_malformed st \<longleftrightarrow>
     priceMode st \<notin> {''lowestSellOrder'', ''highestBuyOrder''} \<or>
     \<not> is_safe_integer (adjustment st) \<or>
     \<bar>int_of (adjustment st)\<bar> > amount_limit \<or>
     \<not> is_integer (delaySeconds st) \<or>
     int_of (delaySeconds st) < 1 \<or>
     int_of (delaySeconds st) > 60 \<or>
     (case currencyId st of
        None \<Rightarrow> False
      | Some c \<Rightarrow> \<not> is_integer c \<or> int_of c < 1 \<or> int_of c > 1000) \<or>
     bad_bound (minBuyerPrice st) \<or> bad_bound (maxBuyerPrice st)"

fun check_increments :: "wallet \<Rightarrow> js_number list \<Rightarrow> money_error + unit" where
  "check_increments w [] = Inr ()"
| "check_increments w (a # as) =
     and_then (fromMinorUnits (int_of a) (currency w)) (\<lambda>steamAmount.
       if steamAmount mod increment w \<noteq> 0 then Inl Off_increment
       else check_increments w as)"

definition validatePriceSettings :: "wallet \<Rightarrow> price_settings \<Rightarrow> money_error + unit" where
  "validatePriceSettings w st =
     (let moneyCustomized =
        adjustment st \<noteq> Whole 0 \<or> minBuyerPrice st \<noteq> None \<or> maxBuyerPrice st \<noteq> None in
      if settings_malformed st then Inl Settings_invalid
      else if moneyCustomized \<and> currencyId st = None then Inl Bind_currency
      else if currencyId st \<noteq> None \<and> currencyId st \<noteq> Some (Whole (currency_id (currency w)))
      then Inl Currency_mismatch
      else if (case (minBuyerPrice st, maxBuyerPrice st) of
                 (Some lo, Some hi) \<Rightarrow> int_of lo > int_of hi
               | _ \<Rightarrow> False)
      then Inl Bounds_reversed
      else check_increments w (optional_amounts st))"

section \<open>Quotes\<close>

definition fee :: "int \<Rightarrow> rate \<Rightarrow> wallet \<Rightarrow> int" where
  "fee b r w =
     (if numerator r = 0 then 0
      else
        let floor = (b * numerator r) div denominator r
        in if floor \<le> minimum w then minimum w
           else ((2 * floor + increment w) div (2 * increment w)) * increment w)"

definition calculate :: "wallet \<Rightarrow> rate \<Rightarrow> int \<Rightarrow> quote" where
  "calculate w pr b =
     (let sf = fee b (steamRate w) w + steamBase w; pf = fee b pr w
      in \<lparr>base = b, steamFee = sf, publisherFee = pf, buyerPays = b + sf + pf\<rparr>)"

text \<open>
  The binary search of \<open>quoteFromBuyerCap\<close>: \<open>calc\<close> is evaluated at the middle of the range,
  and the last candidate that \<open>fits\<close> is kept.
\<close>

function last_fit :: "(int \<Rightarrow> 'q) \<Rightarrow> ('q \<Rightarrow> bool) \<Rightarrow> int \<Rightarrow> int \<Rightarrow> 'q option \<Rightarrow> 'q option" where
  "last_fit calc fits low high best =
     (if low \<le> high then
        (let middle = (low + high) div 2; q = calc middle in
         if fits q then last_fit calc fits (middle + 1) high (Some q)
         else last_fit calc fits low (middle - 1) best)
      else best)"
  by pat_completeness auto
termination
  by (relation "measure (\<lambda>(calc, fits, low, high, best). nat (high - low + 1))") auto

declare last_fit.simps [simp del]

definition effective_rate :: "wallet \<Rightarrow> unknown \<Rightarrow> money_error + rate" where
  "effective_rate w pfee =
     (if pfee = Null \<or> pfee = Undefined then Inr (publisherRate w) else parseRate pfee)"

definition quoteFromBuyerCap :: "int \<Rightarrow> wallet \<Rightarrow> unknown \<Rightarrow> money_error + quote" where
  "quoteFromBuyerCap buyerCap w pfee =
     and_then (effective_rate w pfee) (\<lambda>pr.
         case last_fit (\<lambda>middle. calculate w pr (middle * increment w))
                (\<lambda>q. buyerPays q \<le> buyerCap)
                (minimum w div increment w) (buyerCap div increment w) None of
           None \<Rightarrow> Inl Below_minimum_fees
         | Some q \<Rightarrow> Inr q)"

definition checkBounds :: "wallet \<Rightarrow> price_settings \<Rightarrow> int \<Rightarrow> money_error + unit" where
  "checkBounds w st steamPrice =
     and_then (toMinorUnits steamPrice (currency w)) (\<lambda>amount.
       if (case minBuyerPrice st of None \<Rightarrow> False | Some lo \<Rightarrow> amount < int_of lo) \<or>
          (case maxBuyerPrice st of None \<Rightarrow> False | Some hi \<Rightarrow> amount > int_of hi)
       then Inl Outside_price_limits else Inr ())"

text \<open>The result is the quote and the buyer price cap it was computed from.\<close>

definition quoteWithRules ::
    "js_number \<Rightarrow> wallet \<Rightarrow> unknown \<Rightarrow> price_settings \<Rightarrow> money_error + (quote \<times> int)" where
  "quoteWithRules reference w pfee st =
     and_then (validatePriceSettings w st) (\<lambda>_.
     if \<not> is_safe_integer reference \<or> int_of reference < 1 \<or> int_of reference > amount_limit \<or>
        int_of reference mod increment w \<noteq> 0
     then Inl Reference_unsupported
     else and_then (fromMinorUnits (int_of (adjustment st)) (currency w)) (\<lambda>adj.
     let buyerCap = int_of reference + adj in
     if \<not> is_safe_int buyerCap \<or> buyerCap < 1 \<or> buyerCap > amount_limit
     then Inl Cap_out_of_range
     else and_then (checkBounds w st buyerCap) (\<lambda>_.
     and_then (quoteFromBuyerCap buyerCap w pfee) (\<lambda>q.
     and_then (checkBounds w st (buyerPays q)) (\<lambda>_. Inr (q, buyerCap))))))"

section \<open>The search: a locale for costs that grow\<close>

text \<open>
  What the binary search needs of the candidates: what fits at one index fits at every
  smaller one. \<open>'w\<close> is the context (wallet, publisher rate and cap) that \<open>ok\<close> admits.
\<close>

locale downward_fit =
  fixes ok :: "'w \<Rightarrow> bool"
    and calc :: "'w \<Rightarrow> int \<Rightarrow> 'q"
    and fits :: "'w \<Rightarrow> 'q \<Rightarrow> bool"
    and least :: "'w \<Rightarrow> int"
  assumes downward:
    "ok w \<Longrightarrow> least w \<le> i \<Longrightarrow> i \<le> j \<Longrightarrow> fits w (calc w j) \<Longrightarrow> fits w (calc w i)"
begin

definition is_last_fit :: "'w \<Rightarrow> int \<Rightarrow> int \<Rightarrow> 'q option \<Rightarrow> 'q option \<Rightarrow> bool" where
  "is_last_fit w low high best r \<longleftrightarrow>
     (r = best \<and> (\<forall>i. low \<le> i \<and> i \<le> high \<longrightarrow> \<not> fits w (calc w i))) \<or>
     (\<exists>m. low \<le> m \<and> m \<le> high \<and> r = Some (calc w m) \<and> fits w (calc w m) \<and>
          (\<forall>i. m < i \<and> i \<le> high \<longrightarrow> \<not> fits w (calc w i)))"

lemma last_fit_is_last:
  assumes "ok w"
  shows "least w \<le> low \<Longrightarrow> is_last_fit w low high best (last_fit (calc w) (fits w) low high best)"
proof (induction "calc w" "fits w" low high best rule: last_fit.induct)
  case (1 low high best)
  let ?m = "(low + high) div 2"
  note lf = last_fit.simps [of "calc w" "fits w" low high best]
  show ?case
  proof (cases "low \<le> high")
    case False
    then show ?thesis by (auto simp: lf is_last_fit_def)
  next
    case True
    then have m: "low \<le> ?m" "?m \<le> high" by auto
    show ?thesis
    proof (cases "fits w (calc w ?m)")
      case fit: True
      have "is_last_fit w (?m + 1) high (Some (calc w ?m))
              (last_fit (calc w) (fits w) (?m + 1) high (Some (calc w ?m)))"
        using "1.hyps"(1) [OF True refl refl] fit m "1.prems" by auto
      then have "is_last_fit w low high best
              (last_fit (calc w) (fits w) (?m + 1) high (Some (calc w ?m)))"
        unfolding is_last_fit_def using m fit by (smt (verit))
      with True fit show ?thesis by (simp add: lf Let_def)
    next
      case unfit: False
      have "is_last_fit w low (?m - 1) best (last_fit (calc w) (fits w) low (?m - 1) best)"
        using "1.hyps"(2) [OF True refl refl] unfit m "1.prems" by auto
      moreover have "\<not> fits w (calc w i)" if "?m \<le> i" for i
        using unfit downward [OF assms, of ?m i] that m "1.prems" by auto
      ultimately have "is_last_fit w low high best (last_fit (calc w) (fits w) low (?m - 1) best)"
        unfolding is_last_fit_def using m by (smt (verit))
      with True unfit show ?thesis by (simp add: lf Let_def)
    qed
  qed
qed

lemma last_fit_Some:
  assumes "ok w" "least w \<le> low" "last_fit (calc w) (fits w) low high None = Some q"
  shows "\<exists>m. low \<le> m \<and> m \<le> high \<and> q = calc w m \<and> fits w q \<and>
           (\<forall>i. m < i \<and> i \<le> high \<longrightarrow> \<not> fits w (calc w i))"
  using last_fit_is_last [OF assms(1,2), of high None] assms(3)
  by (auto simp: is_last_fit_def)

lemma last_fit_None:
  assumes "ok w" "least w \<le> low" "last_fit (calc w) (fits w) low high None = None"
  shows "low \<le> i \<Longrightarrow> i \<le> high \<Longrightarrow> \<not> fits w (calc w i)"
  using last_fit_is_last [OF assms(1,2), of high None] assms(3)
  by (auto simp: is_last_fit_def)

end

section \<open>Wallets, fees and quotes\<close>

definition rate_ok :: "rate \<Rightarrow> bool" where
  "rate_ok r \<longleftrightarrow> 0 \<le> numerator r \<and> numerator r \<le> denominator r \<and> 0 < denominator r"

definition wallet_ok :: "wallet \<Rightarrow> bool" where
  "wallet_ok w \<longleftrightarrow>
     1 \<le> minimum w \<and> minimum w \<le> amount_limit \<and> 1 \<le> increment w \<and> increment w \<le> amount_limit \<and>
     increment w dvd minimum w \<and> rate_ok (steamRate w) \<and> rate_ok (publisherRate w) \<and>
     0 \<le> steamBase w \<and> steamBase w \<le> amount_limit \<and>
     0 \<le> minorUnit (currency w) \<and> minorUnit (currency w) \<le> 3"

lemma rate_text_digits: "is_rate_text raw \<Longrightarrow> list_all is_digit (take 1 raw @ drop 2 raw)"
  by (cases raw; cases "tl raw") (auto simp: is_rate_text_def is_digit_def)

lemma parseRate_ok: "parseRate v = Inr r \<Longrightarrow> rate_ok r"
  using digits_value_nonneg [OF rate_text_digits]
  by (auto simp: parseRate_def rate_ok_def Let_def split: if_splits)

lemma integer_range: "integer v lim = Inr n \<Longrightarrow> 0 \<le> n \<and> n \<le> lim"
  using digits_value_nonneg by (auto simp: integer_def is_digits_def Let_def split: if_splits)

lemma toMinorUnits_unit:
  "toMinorUnits a cur = Inr n \<Longrightarrow> 0 \<le> minorUnit cur \<and> minorUnit cur \<le> 3"
  by (auto simp: toMinorUnits_def and_then_eq_Inr assertMoneyInput_def split: if_splits)

lemma fee_mono:
  assumes w: "wallet_ok w" and r: "rate_ok r" and le: "b \<le> b'"
  shows "fee b r w \<le> fee b' r w"
proof (cases "numerator r = 0")
  case True
  then show ?thesis by (simp add: fee_def)
next
  case False
  let ?f = "(b * numerator r) div denominator r" and ?f' = "(b' * numerator r) div denominator r"
  let ?grid = "\<lambda>f. ((2 * f + increment w) div (2 * increment w)) * increment w"
  have inc: "0 < increment w" using w by (simp add: wallet_ok_def)
  have "b * numerator r \<le> b' * numerator r"
    using le r by (simp add: rate_ok_def mult_right_mono)
  then have ff: "?f \<le> ?f'" using r by (simp add: rate_ok_def zdiv_mono1)
  have grid_mono: "?grid x \<le> ?grid y" if "x \<le> y" for x y
    using that inc by (intro mult_right_mono zdiv_mono1) auto
  obtain k where k: "minimum w = increment w * k"
    using w by (auto simp: wallet_ok_def)
  have "(2 * (increment w * k) + increment w) div (2 * increment w) = k"
    using inc by (intro int_div_pos_eq [where r = "increment w"]) auto
  then have "?grid (minimum w) = minimum w" by (simp add: k mult.commute)
  then have "minimum w \<le> ?grid x" if "minimum w \<le> x" for x
    using grid_mono [OF that] by simp
  with ff grid_mono [OF ff] False show ?thesis
    by (auto simp: fee_def Let_def)
qed

text \<open>The search of \<open>quoteFromBuyerCap\<close> as an instance of the locale.\<close>

definition quote_context_ok :: "wallet \<times> rate \<times> int \<Rightarrow> bool" where
  "quote_context_ok = (\<lambda>(w, pr, cap). wallet_ok w \<and> rate_ok pr)"

definition quote_candidate :: "wallet \<times> rate \<times> int \<Rightarrow> int \<Rightarrow> quote" where
  "quote_candidate = (\<lambda>(w, pr, cap) i. calculate w pr (i * increment w))"

definition quote_fits :: "wallet \<times> rate \<times> int \<Rightarrow> quote \<Rightarrow> bool" where
  "quote_fits = (\<lambda>(w, pr, cap) q. buyerPays q \<le> cap)"

definition quote_least :: "wallet \<times> rate \<times> int \<Rightarrow> int" where
  "quote_least = (\<lambda>(w, pr, cap). minimum w div increment w)"

lemma buyerPays_mono:
  "wallet_ok w \<Longrightarrow> rate_ok pr \<Longrightarrow> b \<le> b' \<Longrightarrow> buyerPays (calculate w pr b) \<le> buyerPays (calculate w pr b')"
  using fee_mono [of w pr b b'] fee_mono [of w "steamRate w" b b']
  by (auto simp: calculate_def Let_def wallet_ok_def)

interpretation market: downward_fit quote_context_ok quote_candidate quote_fits quote_least
proof
  fix x i j
  assume ok: "quote_context_ok x" and le: "i \<le> j" and fits: "quote_fits x (quote_candidate x j)"
  obtain w pr cap where x: "x = (w, pr, cap)" by (cases x)
  have "i * increment w \<le> j * increment w"
    using ok le by (intro mult_right_mono) (auto simp: x quote_context_ok_def wallet_ok_def)
  then show "quote_fits x (quote_candidate x i)"
    using fits ok buyerPays_mono [of w pr "i * increment w" "j * increment w"]
    by (auto simp: x quote_context_ok_def quote_candidate_def quote_fits_def)
qed

lemma fee_nonneg: "wallet_ok w \<Longrightarrow> rate_ok r \<Longrightarrow> 0 \<le> fee b r w"
  by (auto simp: fee_def Let_def wallet_ok_def rate_ok_def not_le intro!: mult_nonneg_nonneg pos_imp_zdiv_nonneg_iff [THEN iffD2])

lemma buyerPays_ge_base: "wallet_ok w \<Longrightarrow> rate_ok pr \<Longrightarrow> b \<le> buyerPays (calculate w pr b)"
  using fee_nonneg [of w pr b] fee_nonneg [of w "steamRate w" b]
  by (auto simp: calculate_def Let_def wallet_ok_def)

lemma base_calculate [simp]: "base (calculate w pr b) = b"
  by (simp add: calculate_def Let_def)

lemma quoteFromBuyerCap_unfold:
  "effective_rate w pfee = Inr pr \<Longrightarrow>
   quoteFromBuyerCap cap w pfee =
     (case last_fit (quote_candidate (w, pr, cap)) (quote_fits (w, pr, cap))
             (minimum w div increment w) (cap div increment w) None of
        None \<Rightarrow> Inl Below_minimum_fees | Some q \<Rightarrow> Inr q)"
  by (simp add: quoteFromBuyerCap_def quote_candidate_def quote_fits_def)

lemma quote_grid_bound:
  assumes "wallet_ok w" "rate_ok pr" "increment w dvd b" "cap div increment w < b div increment w"
  shows "cap < buyerPays (calculate w pr b)"
proof -
  have inc: "0 < increment w" using assms(1) by (simp add: wallet_ok_def)
  have "\<not> b \<le> cap"
  proof
    assume "b \<le> cap"
    then have "b div increment w \<le> cap div increment w" using inc by (rule zdiv_mono1)
    with assms(4) show False by simp
  qed
  then show ?thesis using buyerPays_ge_base [OF assms(1,2), of b] by simp
qed

lemma quoteFromBuyerCap_Inr:
  assumes w: "wallet_ok w" and pr: "effective_rate w pfee = Inr pr" and ok: "rate_ok pr"
    and q: "quoteFromBuyerCap cap w pfee = Inr q"
  shows "increment w dvd base q \<and> minimum w \<le> base q \<and> q = calculate w pr (base q) \<and>
         buyerPays q \<le> cap \<and>
         (\<forall>b. increment w dvd b \<longrightarrow> base q < b \<longrightarrow> cap < buyerPays (calculate w pr b))"
proof -
  let ?x = "(w, pr, cap)"
  have x: "quote_context_ok ?x" "quote_least ?x \<le> minimum w div increment w"
    using w ok by (auto simp: quote_context_ok_def quote_least_def)
  have "last_fit (quote_candidate ?x) (quote_fits ?x) (minimum w div increment w)
          (cap div increment w) None = Some q"
    using q by (simp add: quoteFromBuyerCap_unfold [OF pr] split: option.splits)
  from market.last_fit_Some [OF x this] obtain m where
    m: "minimum w div increment w \<le> m" "m \<le> cap div increment w" "q = quote_candidate ?x m"
      "quote_fits ?x q"
      "\<forall>i. m < i \<and> i \<le> cap div increment w \<longrightarrow> \<not> quote_fits ?x (quote_candidate ?x i)"
    by blast
  have inc: "0 < increment w" and dvd: "increment w dvd minimum w"
    using w by (auto simp: wallet_ok_def)
  have base: "base q = m * increment w" by (simp add: m(3) quote_candidate_def)
  have "(minimum w div increment w) * increment w \<le> m * increment w"
    using m(1) inc by (intro mult_right_mono) auto
  then have "minimum w \<le> base q" using dvd by (simp add: base)
  moreover have "cap < buyerPays (calculate w pr b)"
    if b: "increment w dvd b" "base q < b" for b
  proof (cases "b div increment w \<le> cap div increment w")
    case True
    have eq: "(b div increment w) * increment w = b" using b(1) by simp
    have "m < b div increment w"
      using b(2) inc by (metis base eq mult_less_cancel_right_pos)
    with m(5) True have "\<not> quote_fits ?x (quote_candidate ?x (b div increment w))" by blast
    then show ?thesis by (simp add: quote_fits_def quote_candidate_def eq)
  next
    case False
    then show ?thesis using quote_grid_bound [OF w ok b(1)] by simp
  qed
  ultimately show ?thesis
    using m(3,4) base by (auto simp: quote_candidate_def quote_fits_def)
qed

lemma quoteFromBuyerCap_Inl:
  assumes w: "wallet_ok w" and pr: "effective_rate w pfee = Inr pr" and ok: "rate_ok pr"
    and e: "quoteFromBuyerCap cap w pfee = Inl e"
  shows "e = Below_minimum_fees \<and>
         (\<forall>b. increment w dvd b \<longrightarrow> minimum w \<le> b \<longrightarrow> cap < buyerPays (calculate w pr b))"
proof -
  let ?x = "(w, pr, cap)"
  have x: "quote_context_ok ?x" "quote_least ?x \<le> minimum w div increment w"
    using w ok by (auto simp: quote_context_ok_def quote_least_def)
  have none: "last_fit (quote_candidate ?x) (quote_fits ?x) (minimum w div increment w)
          (cap div increment w) None = None" and "e = Below_minimum_fees"
    using e by (auto simp: quoteFromBuyerCap_unfold [OF pr] split: option.splits)
  have "cap < buyerPays (calculate w pr b)"
    if b: "increment w dvd b" "minimum w \<le> b" for b
  proof (cases "b div increment w \<le> cap div increment w")
    case True
    have "minimum w div increment w \<le> b div increment w"
      using b(2) w by (intro zdiv_mono1) (auto simp: wallet_ok_def)
    with market.last_fit_None [OF x none _ True]
    have "\<not> quote_fits ?x (quote_candidate ?x (b div increment w))" by blast
    moreover have "(b div increment w) * increment w = b" using b(1) by simp
    ultimately show ?thesis by (simp add: quote_fits_def quote_candidate_def)
  next
    case False
    then show ?thesis using quote_grid_bound [OF w ok b(1)] by simp
  qed
  with \<open>e = Below_minimum_fees\<close> show ?thesis by blast
qed

lemma effective_rate_ok: "wallet_ok w \<Longrightarrow> effective_rate w pfee = Inr pr \<Longrightarrow> rate_ok pr"
  by (auto simp: effective_rate_def wallet_ok_def parseRate_ok split: if_splits)

section \<open>Properties\<close>

definition example_wallet :: wallet where
  "example_wallet =
     \<lparr>currency = \<lparr>currency_id = 3, code = ''EUR'', minorUnit = 2, priceStep = Some 1\<rparr>,
      country = ''DE'', minimum = 1, increment = 1,
      steamRate = \<lparr>numerator = 5, denominator = 100\<rparr>,
      publisherRate = \<lparr>numerator = 1, denominator = 10\<rparr>, steamBase = 0\<rparr>"

definition example_settings :: price_settings where
  "example_settings =
     \<lparr>priceMode = ''lowestSellOrder'', adjustment = Whole (- 1), minBuyerPrice = Some (Whole 3),
      maxBuyerPrice = Some (Whole 500), delaySeconds = Whole 10, currencyId = Some (Whole 3)\<rparr>"

lemma example_wallet_ok: "wallet_ok example_wallet"
  by (simp add: wallet_ok_def rate_ok_def example_wallet_def)

text \<open>
  C1: \<open>quoteFromBuyerCap\<close> is optimal. For a well-formed wallet it returns the highest seller
  price on the wallet's price grid whose buyer price, fees included, stays within the cap; it
  reports \<open>BELOW_MINIMUM_FEES\<close> exactly when not even the smallest grid price fits.
\<close>

theorem quote_is_highest:
  assumes "wallet_ok w" and "effective_rate w pfee = Inr pr"
  shows "case quoteFromBuyerCap cap w pfee of
      Inr q \<Rightarrow> increment w dvd base q \<and> minimum w \<le> base q \<and> q = calculate w pr (base q) \<and>
        buyerPays q \<le> cap \<and>
        (\<forall>b. increment w dvd b \<and> base q < b \<longrightarrow> cap < buyerPays (calculate w pr b))
    | Inl e \<Rightarrow> e = Below_minimum_fees \<and>
        (\<forall>b. increment w dvd b \<and> minimum w \<le> b \<longrightarrow> cap < buyerPays (calculate w pr b))"
  using quoteFromBuyerCap_Inr [OF assms effective_rate_ok [OF assms]]
    quoteFromBuyerCap_Inl [OF assms effective_rate_ok [OF assms]]
  by (simp split: sum.split)

theorem quote_is_highest_witness:
  "case quoteFromBuyerCap 100 example_wallet Null of
      Inr q \<Rightarrow> base q = 88 \<and> buyerPays q = 100 \<and>
        100 < buyerPays (calculate example_wallet \<lparr>numerator = 1, denominator = 10\<rparr> 89)
    | Inl e \<Rightarrow> False"
proof -
  have "effective_rate example_wallet Null = Inr \<lparr>numerator = 1, denominator = 10\<rparr>"
    by (simp add: effective_rate_def example_wallet_def)
  note h = quote_is_highest [OF example_wallet_ok this, of 100]
  have "quoteFromBuyerCap 100 example_wallet Null =
    Inr \<lparr>base = 88, steamFee = 4, publisherFee = 8, buyerPays = 100\<rparr>"
    by (simp add: quoteFromBuyerCap_def effective_rate_def example_wallet_def last_fit.simps
        calculate_def fee_def)
  moreover have "increment example_wallet = 1" by (simp add: example_wallet_def)
  ultimately have "\<forall>b. 88 < b \<longrightarrow> 100 < buyerPays (calculate example_wallet \<lparr>numerator = 1, denominator = 10\<rparr> b)"
    using h by simp
  then have "100 < buyerPays (calculate example_wallet \<lparr>numerator = 1, denominator = 10\<rparr> 89)" by simp
  with \<open>quoteFromBuyerCap 100 example_wallet Null = _\<close> show ?thesis by simp
qed

text \<open>
  C2: A quote under price rules honours them. When \<open>quoteWithRules\<close> returns, the buyer cap is the
  reference price plus the exactly converted adjustment, the buyer pays no more than the cap, and
  both the cap and what the buyer pays lie inside the saved minimum and maximum, in minor units.
\<close>

theorem quote_honours_rules:
  assumes "wallet_ok w" and "quoteWithRules ref w pfee st = Inr (q, cap)"
  shows "\<exists>adj paid capped.
    fromMinorUnits (int_of (adjustment st)) (currency w) = Inr adj \<and> cap = int_of ref + adj \<and>
    buyerPays q \<le> cap \<and> minimum w \<le> base q \<and> base q \<le> buyerPays q \<and>
    toMinorUnits (buyerPays q) (currency w) = Inr paid \<and>
    toMinorUnits cap (currency w) = Inr capped \<and>
    (\<forall>lo. minBuyerPrice st = Some lo \<longrightarrow> int_of lo \<le> paid \<and> int_of lo \<le> capped) \<and>
    (\<forall>hi. maxBuyerPrice st = Some hi \<longrightarrow> paid \<le> int_of hi \<and> capped \<le> int_of hi)"
proof -
  from assms(2) obtain adj pr where
    adj: "fromMinorUnits (int_of (adjustment st)) (currency w) = Inr adj" "cap = int_of ref + adj"
    and b1: "checkBounds w st cap = Inr ()" and b2: "checkBounds w st (buyerPays q) = Inr ()"
    and q: "quoteFromBuyerCap cap w pfee = Inr q" and pr: "effective_rate w pfee = Inr pr"
    by (auto simp: quoteWithRules_def and_then_eq_Inr Let_def quoteFromBuyerCap_def split: if_splits)
  note Q = quoteFromBuyerCap_Inr [OF assms(1) pr effective_rate_ok [OF assms(1) pr] q]
  have bounds: "\<exists>n. toMinorUnits a (currency w) = Inr n \<and>
      (\<forall>lo. minBuyerPrice st = Some lo \<longrightarrow> int_of lo \<le> n) \<and>
      (\<forall>hi. maxBuyerPrice st = Some hi \<longrightarrow> n \<le> int_of hi)"
    if "checkBounds w st a = Inr ()" for a
    using that by (auto simp: checkBounds_def and_then_eq_Inr split: if_splits option.splits)
  have "base q \<le> buyerPays q"
    using Q buyerPays_ge_base [OF assms(1) effective_rate_ok [OF assms(1) pr], of "base q"] by metis
  moreover obtain paid capped where
    "toMinorUnits (buyerPays q) (currency w) = Inr paid" "toMinorUnits cap (currency w) = Inr capped"
    "\<forall>lo. minBuyerPrice st = Some lo \<longrightarrow> int_of lo \<le> paid \<and> int_of lo \<le> capped"
    "\<forall>hi. maxBuyerPrice st = Some hi \<longrightarrow> paid \<le> int_of hi \<and> capped \<le> int_of hi"
    using bounds [OF b1] bounds [OF b2] by metis
  ultimately show ?thesis using Q adj by (intro exI conjI) auto
qed

lemma example_quote:
  "quoteWithRules (Whole 101) example_wallet Null example_settings =
     Inr (\<lparr>base = 88, steamFee = 4, publisherFee = 8, buyerPays = 100\<rparr>, 100)"
  by (simp add: quoteWithRules_def validatePriceSettings_def settings_malformed_def bad_bound_def
      is_safe_int_def optional_amounts_def example_settings_def example_wallet_def
      fromMinorUnits_def toMinorUnits_def assertMoneyInput_def checkBounds_def
      quoteFromBuyerCap_def effective_rate_def last_fit.simps calculate_def fee_def)

theorem quote_honours_rules_witness:
  "\<exists>paid. toMinorUnits 100 (currency example_wallet) = Inr paid \<and> 3 \<le> paid \<and> paid \<le> 500"
  using quote_honours_rules [OF example_wallet_ok example_quote]
  by (auto simp: example_settings_def)

text \<open>
  Converting between Steam hundredths and minor units is exact: one conversion returns a value
  precisely when the other takes that value back, so no price is ever rounded.
\<close>

theorem minor_units_roundtrip:
  "toMinorUnits a cur = Inr n \<longleftrightarrow> fromMinorUnits n cur = Inr a"
proof -
  let ?u = "10 ^ nat (minorUnit cur) :: int"
  have u: "0 < ?u" by simp
  have "a * ?u mod 100 = 0 \<and> n = a * ?u div 100 \<longleftrightarrow> a * ?u = n * 100"
    by (auto simp: mod_eq_0_iff_dvd)
  moreover have "n * 100 mod ?u = 0 \<and> a = n * 100 div ?u \<longleftrightarrow> n * 100 = a * ?u"
    using u by (auto simp: mod_eq_0_iff_dvd)
  ultimately show ?thesis
    by (auto simp: toMinorUnits_def fromMinorUnits_def and_then_eq_Inr assertMoneyInput_def Let_def)
qed

text \<open>
  C7: A wallet that \<open>parseWallet\<close> accepts is well-formed: positive minimum on the increment grid,
  fee rates between 0 and 1, and a minimum that minor units represent exactly.
\<close>

theorem parseWallet_ok:
  assumes "parseWallet fraction_digits v = Inr w"
  shows "wallet_ok w \<and> (currency_id (currency w), code (currency w)) \<in> set currency_codes"
  using assms unfolding parseWallet_def Let_def
proof (elim result_elims)
  fix cid ccode unit mini inc sr pr sb m step
  assume cid: "map_of currency_codes cid = Some ccode"
    and mini: "integer (nullish (v ''wallet_market_minimum'') (v ''wallet_fee_minimum''))
                 amount_limit = Inr mini"
    and inc: "integer (nullish (v ''wallet_currency_increment'') (Num ''1'')) amount_limit = Inr inc"
    and grid: "\<not> (mini < 1 \<or> inc < 1 \<or> mini mod inc \<noteq> 0)"
    and sr: "(if v ''wallet_fee'' = Num ''0'' \<or> v ''wallet_fee'' = Str ''0''
              then parseRate (Str ''0'') else parseRate (v ''wallet_fee_percent'')) = Inr sr"
    and pr: "parseRate (v ''wallet_publisher_fee_percent_default'') = Inr pr"
    and sb: "(if v ''wallet_market_minimum'' \<noteq> Undefined then Inr 0
              else integer (nullish (v ''wallet_fee_base'') (Num ''0'')) amount_limit) = Inr sb"
    and m: "toMinorUnits mini \<lparr>currency_id = cid, code = ccode, minorUnit = unit, priceStep = None\<rparr>
              = Inr m"
    and w: "Inr (\<lparr>currency = \<lparr>currency_id = cid, code = ccode, minorUnit = unit, priceStep = None\<rparr>,
                  country = js_string (v ''wallet_country''), minimum = mini, increment = inc,
                  steamRate = sr, publisherRate = pr, steamBase = sb\<rparr>
                 \<lparr>currency := \<lparr>currency_id = cid, code = ccode, minorUnit = unit, priceStep = None\<rparr>
                   \<lparr>priceStep := Some step\<rparr>\<rparr>) = Inr w"
  have "rate_ok sr"
    using sr by (cases "v ''wallet_fee'' = Num ''0'' \<or> v ''wallet_fee'' = Str ''0''")
      (simp_all add: parseRate_ok)
  moreover have "0 \<le> sb \<and> sb \<le> amount_limit"
    using sb integer_range by (cases "v ''wallet_market_minimum'' \<noteq> Undefined") auto
  moreover have "w = \<lparr>currency = \<lparr>currency_id = cid, code = ccode, minorUnit = unit,
      priceStep = Some step\<rparr>, country = js_string (v ''wallet_country''), minimum = mini,
      increment = inc, steamRate = sr, publisherRate = pr, steamBase = sb\<rparr>"
    using w by simp
  ultimately show ?thesis
    using grid integer_range [OF mini] integer_range [OF inc] map_of_SomeD [OF cid]
      toMinorUnits_unit [OF m] parseRate_ok [OF pr]
    by (simp add: wallet_ok_def mod_eq_0_iff_dvd)
qed

definition example_wallet_page :: "string \<Rightarrow> unknown" where
  "example_wallet_page k =
     (if k = ''wallet_currency'' then Num ''3''
      else if k = ''wallet_country'' then Str ''DE''
      else if k = ''wallet_market_minimum'' then Str ''1''
      else if k = ''wallet_fee_percent'' then Str ''0.05''
      else if k = ''wallet_publisher_fee_percent_default'' then Str ''0.10''
      else Undefined)"

theorem parseWallet_ok_witness:
  "\<exists>w. parseWallet (\<lambda>_. Some 2) example_wallet_page = Inr w \<and> wallet_ok w \<and>
     code (currency w) = ''EUR'' \<and> numerator (steamRate w) = 5"
proof -
  have "parseWallet (\<lambda>_. Some 2) example_wallet_page =
    Inr \<lparr>currency = \<lparr>currency_id = 3, code = ''EUR'', minorUnit = 2, priceStep = Some 1\<rparr>,
         country = ''DE'', minimum = 1, increment = 1,
         steamRate = \<lparr>numerator = 5, denominator = 100\<rparr>,
         publisherRate = \<lparr>numerator = 10, denominator = 100\<rparr>, steamBase = 0\<rparr>"
    by code_simp
  from parseWallet_ok [OF this] this show ?thesis by simp
qed

lemma fee_upper:
  assumes w: "wallet_ok w" and r: "rate_ok r" and b: "0 \<le> b"
  shows "fee b r w \<le> max (minimum w) (b + increment w)"
proof -
  let ?f = "(b * numerator r) div denominator r"
  have "?f \<le> (b * denominator r) div denominator r"
    using r b by (intro zdiv_mono1 mult_left_mono) (auto simp: rate_ok_def)
  then have f: "?f \<le> b" using r by (simp add: rate_ok_def)
  have inc: "0 < increment w" using w by (simp add: wallet_ok_def)
  let ?k = "(2 * ?f + increment w) div (2 * increment w)"
  have "x div (2 * increment w) * (2 * increment w) \<le> x" for x
    using pos_mod_sign [of "2 * increment w" x] inc
    by (simp add: minus_mod_eq_div_mult [symmetric])
  from this [of "2 * ?f + increment w"] have "2 * (?k * increment w) \<le> 2 * ?f + increment w"
    by (simp add: ac_simps)
  with f inc show ?thesis using w b by (auto simp: fee_def Let_def wallet_ok_def)
qed

text \<open>
  Every amount a quote is made of is a safe integer, so the code's \<open>Number\<close> arithmetic is exact:
  for any candidate price up to the accepted maximum, base, fees and buyer price are non-negative
  and at most six times that maximum, far below \<open>Number.MAX_SAFE_INTEGER\<close>.
\<close>

theorem quote_amounts_safe:
  assumes "wallet_ok w" and "rate_ok pr" and "0 \<le> b" and "b \<le> amount_limit"
  shows "0 \<le> steamFee (calculate w pr b) \<and> 0 \<le> publisherFee (calculate w pr b) \<and>
    b \<le> buyerPays (calculate w pr b) \<and> buyerPays (calculate w pr b) \<le> 6 * amount_limit \<and>
    is_safe_int (buyerPays (calculate w pr b))"
proof -
  have s: "rate_ok (steamRate w)" using assms(1) by (simp add: wallet_ok_def)
  note f = fee_nonneg [OF assms(1,2), of b] fee_nonneg [OF assms(1) s, of b]
    fee_upper [OF assms(1,2,3)] fee_upper [OF assms(1) s assms(3)]
  have "minimum w \<le> amount_limit" "increment w \<le> amount_limit" "0 \<le> steamBase w"
      "steamBase w \<le> amount_limit"
    using assms(1) by (auto simp: wallet_ok_def)
  with f assms(3,4) show ?thesis
    by (simp add: calculate_def Let_def is_safe_int_def max_def split: if_splits)
qed

theorem quote_amounts_safe_witness:
  "buyerPays (calculate example_wallet (publisherRate example_wallet) amount_limit) = 1150000000 \<and>
   is_safe_int (buyerPays (calculate example_wallet (publisherRate example_wallet) amount_limit))"
proof -
  have "rate_ok (publisherRate example_wallet)" by (simp add: rate_ok_def example_wallet_def)
  from quote_amounts_safe [OF example_wallet_ok this, of amount_limit]
  show ?thesis by (simp add: calculate_def fee_def example_wallet_def)
qed

end
