(* ===== verification/MarketBatch.thy ===== *)
theory MarketBatch
  imports Money
begin

text \<open>
  The market batch queue, from \<open>apps/server/src/inventory/batch.ts\<close>
  (class \<open>MarketBatchQueue\<close>), with the message types of \<open>packages/contracts/src/inventory.ts\<close>.

  A confirmed batch runs as an asynchronous loop. The loop is modelled by its suspension
  points: \<open>At_wait i\<close> is the \<open>await this.wait(...)\<close> before item \<open>i\<close>, \<open>At_execute i\<close> the
  \<open>await command.execute(...)\<close> of item \<open>i\<close>, \<open>Returned\<close> the end of the loop. Between two
  suspension points the code runs without interruption and is one function here. The
  environment resolves an await with any outcome, at any time, interleaved with any other
  operation of the queue. Inside one uninterrupted segment the clock is read once.

  What \<open>execute\<close> does at Steam is not part of this file; a command only says whether it has
  one. \<open>submissions\<close> is a history variable: the indices whose \<open>execute\<close> was called, in order.
  Identifiers made by \<open>randomUUID\<close> are arguments.
\<close>

section \<open>Data\<close>

datatype batch_kind = Sale | Cancel
datatype row_status = Ready | Unavailable
datatype item_status =
  Queued | Running | Listed | Pending_confirmation | Cancelled | Failed | Skipped
datatype job_status = Job_running | Job_waiting | Job_completed | Job_stopped

record batch_row =
  row_assetId :: "string option"
  row_variantId :: "string option"
  row_listingId :: "string option"
  row_name :: string
  row_quantity :: int
  row_buyerPays :: "int option"
  row_sellerReceives :: "int option"
  row_steamFee :: "int option"
  row_publisherFee :: "int option"
  row_status :: row_status
  row_message :: "string option"

record batch_command =
  row :: batch_row
  has_execute :: bool

record batch_preview =
  token :: string
  expiresAt :: millis
  preview_kind :: batch_kind
  preview_currency :: "market_currency option"
  preview_items :: "batch_row list"
  preview_delaySeconds :: int
  totalBuyerPays :: int
  totalSellerReceives :: int

record prepared =
  prep_account :: account_id
  prep_actor :: string
  preview :: batch_preview
  commands :: "batch_command list"

record job_item =
  item_assetId :: "string option"
  item_variantId :: "string option"
  item_listingId :: "string option"
  item_name :: string
  item_quantity :: int
  item_status :: item_status
  item_message :: "string option"

record batch_job =
  job_id :: string
  job_kind :: batch_kind
  job_status :: job_status
  createdAt :: millis
  updatedAt :: millis
  nextActionAt :: "millis option"
  job_items :: "job_item list"
  completedCount :: int
  totalCount :: int
  stopRequested :: bool

datatype suspension = At_wait nat | At_execute nat | Returned

record job =
  job_account :: account_id
  job_actor :: string
  job_value :: batch_job
  aborted :: bool
  finishedAt :: "millis option"
  job_entry :: prepared
  deadline :: millis
  point :: suspension
  submissions :: "nat list"

record batch_queue =
  previews :: "(string, prepared) js_map"
  jobs :: "(string, job) js_map"
  active :: "(account_id, string) js_map"

record action_result =
  res_ok :: bool
  res_listingId :: "string option"
  res_pendingConfirmation :: bool
  res_message :: string

record action_failure =
  fail_message :: "string option"
  notSubmitted :: bool
  stopBatch :: bool
  fail_statusCode :: "int option"

datatype batch_error =
  Too_many_batches | Batch_running | Wrong_item_count | Preview_invalid | Preview_expired
| Nothing_eligible | Batch_not_found

fun batch_status :: "batch_error \<Rightarrow> int" where
  "batch_status Too_many_batches = 429"
| "batch_status Wrong_item_count = 400"
| "batch_status Batch_not_found = 404"
| "batch_status _ = 409"

fun batch_code :: "batch_error \<Rightarrow> error_code" where
  "batch_code Too_many_batches = rateLimited"
| "batch_code Wrong_item_count = validation"
| "batch_code Batch_not_found = notFound"
| "batch_code _ = conflict"

abbreviation set_value :: "(batch_job \<Rightarrow> batch_job) \<Rightarrow> job \<Rightarrow> job" where
  "set_value f j \<equiv> j\<lparr>job_value := f (job_value j)\<rparr>"

section \<open>The run loop\<close>

definition shouldContinue :: "millis \<Rightarrow> job \<Rightarrow> bool" where
  "shouldContinue now j \<longleftrightarrow> \<not> stopRequested (job_value j) \<and> \<not> aborted j \<and> now < deadline j"

definition break_stopped :: "job \<Rightarrow> job" where
  "break_stopped j = (set_value (\<lambda>v. v\<lparr>stopRequested := True\<rparr>) j)\<lparr>point := Returned\<rparr>"

definition start_item :: "millis \<Rightarrow> job \<Rightarrow> nat \<Rightarrow> job" where
  "start_item now j i =
     (set_value (\<lambda>v. v\<lparr>job_items := (job_items v)[i := (job_items v ! i)\<lparr>item_status := Running\<rparr>],
                       job_status := Job_running, nextActionAt := None, updatedAt := now\<rparr>) j)
       \<lparr>point := At_execute i, submissions := submissions j @ [i]\<rparr>"

definition begin_wait :: "millis \<Rightarrow> job \<Rightarrow> nat \<Rightarrow> job" where
  "begin_wait now j i =
     (set_value (\<lambda>v. v\<lparr>job_status := Job_waiting,
                       nextActionAt := Some (now + preview_delaySeconds (preview (job_entry j)) * 1000),
                       updatedAt := now\<rparr>) j)\<lparr>point := At_wait i\<rparr>"

function run_loop :: "millis \<Rightarrow> job \<Rightarrow> nat \<Rightarrow> bool \<Rightarrow> job" where
  "run_loop now j i submitted =
     (if length (commands (job_entry j)) \<le> i then j\<lparr>point := Returned\<rparr>
      else if \<not> has_execute (commands (job_entry j) ! i) then run_loop now j (Suc i) submitted
      else if \<not> shouldContinue now j then break_stopped j
      else if submitted then begin_wait now j i
      else start_item now j i)"
  by pat_completeness auto
termination
  by (relation "measure (\<lambda>(now, j, i, submitted). length (commands (job_entry j)) - i)") auto

declare run_loop.simps [simp del]

definition after_wait :: "millis \<Rightarrow> bool \<Rightarrow> nat \<Rightarrow> job \<Rightarrow> job" where
  "after_wait now resolved i j =
     (if \<not> resolved then break_stopped j
      else if \<not> shouldContinue now j then break_stopped j
      else start_item now j i)"

definition success_status :: "batch_kind \<Rightarrow> action_result \<Rightarrow> item_status" where
  "success_status k r =
     (if \<not> res_ok r then Failed
      else if k = Cancel then Cancelled
      else if res_pendingConfirmation r then Pending_confirmation
      else Listed)"

fun settle_item :: "batch_kind \<Rightarrow> action_failure + action_result \<Rightarrow> job_item \<Rightarrow> job_item" where
  "settle_item k (Inr r) it =
     it\<lparr>item_listingId := (case res_listingId r of None \<Rightarrow> item_listingId it | Some l \<Rightarrow> Some l),
        item_status := success_status k r,
        item_message := Some (res_message r)\<rparr>"
| "settle_item k (Inl e) it =
     it\<lparr>item_status := (if notSubmitted e then Skipped else Failed),
        item_message := Some (case fail_message e of
            Some m \<Rightarrow> take 500 m
          | None \<Rightarrow> ''This market item could not be processed.'')\<rparr>"

fun submitted_after :: "action_failure + action_result \<Rightarrow> bool" where
  "submitted_after (Inr r) = True"
| "submitted_after (Inl e) = (\<not> notSubmitted e)"

fun stop_after :: "action_failure + action_result \<Rightarrow> batch_job \<Rightarrow> bool" where
  "stop_after (Inr r) v = stopRequested v"
| "stop_after (Inl e) v = (stopRequested v \<or> stopBatch e \<or> fail_statusCode e = Some 429)"

definition record_outcome ::
    "millis \<Rightarrow> action_failure + action_result \<Rightarrow> nat \<Rightarrow> job \<Rightarrow> job" where
  "record_outcome now outcome i j =
     set_value (\<lambda>v. v\<lparr>
       job_items := (job_items v)[i := settle_item (job_kind v) outcome (job_items v ! i)],
       stopRequested := stop_after outcome v,
       completedCount := completedCount v + 1, updatedAt := now\<rparr>) j"

definition after_execute ::
    "millis \<Rightarrow> action_failure + action_result \<Rightarrow> nat \<Rightarrow> job \<Rightarrow> job" where
  "after_execute now outcome i j =
     (let j' = record_outcome now outcome i j in
      if stopRequested (job_value j') then j'\<lparr>point := Returned\<rparr>
      else run_loop now j' (Suc i) (submitted_after outcome))"

definition close_item :: "job_item \<Rightarrow> job_item" where
  "close_item it =
     (if item_status it = Queued \<or> item_status it = Running
      then it\<lparr>item_status := Skipped, item_message := Some ''Stopped before this item was submitted.''\<rparr>
      else it)"

definition open_item :: "job_item \<Rightarrow> bool" where
  "open_item it \<longleftrightarrow> item_status it = Queued \<or> item_status it = Running"

definition finish_value :: "millis \<Rightarrow> batch_job \<Rightarrow> batch_job" where
  "finish_value now v =
     (let closed = map close_item (job_items v) in
      v\<lparr>job_items := closed,
        completedCount := int (length (filter (\<lambda>it. \<not> open_item it) closed)),
        job_status := (if stopRequested v then Job_stopped else Job_completed),
        nextActionAt := None, updatedAt := now\<rparr>)"

definition finished_job :: "millis \<Rightarrow> job \<Rightarrow> job" where
  "finished_job now j = j\<lparr>job_value := finish_value now (job_value j), finishedAt := Some now\<rparr>"

definition finish :: "millis \<Rightarrow> string \<Rightarrow> job \<Rightarrow> batch_queue \<Rightarrow> batch_queue" where
  "finish now i j q =
     q\<lparr>jobs := js_set i (finished_job now j) (jobs q),
       active := (if js_get (active q) (job_account j) = Some i
                  then js_delete (job_account j) (active q) else active q)\<rparr>"

text \<open>A segment of the loop has run: store the job, and leave through \<open>finally\<close> at its end.\<close>

definition settle :: "millis \<Rightarrow> string \<Rightarrow> job \<Rightarrow> batch_queue \<Rightarrow> batch_queue" where
  "settle now i j q =
     (if point j = Returned then finish now i j q else q\<lparr>jobs := js_set i j (jobs q)\<rparr>)"

definition wait_settled :: "millis \<Rightarrow> string \<Rightarrow> bool \<Rightarrow> batch_queue \<Rightarrow> batch_queue" where
  "wait_settled now i resolved q =
     (case js_get (jobs q) i of
        Some j \<Rightarrow> (case point j of
            At_wait k \<Rightarrow> settle now i (after_wait now resolved k j) q
          | _ \<Rightarrow> q)
      | None \<Rightarrow> q)"

definition execute_settled ::
    "millis \<Rightarrow> string \<Rightarrow> action_failure + action_result \<Rightarrow> batch_queue \<Rightarrow> batch_queue" where
  "execute_settled now i outcome q =
     (case js_get (jobs q) i of
        Some j \<Rightarrow> (case point j of
            At_execute k \<Rightarrow> settle now i (after_execute now outcome k j) q
          | _ \<Rightarrow> q)
      | None \<Rightarrow> q)"

section \<open>Operations of the queue\<close>

definition expired_job :: "millis \<Rightarrow> job \<Rightarrow> bool" where
  "expired_job now j \<longleftrightarrow>
     (case finishedAt j of None \<Rightarrow> False | Some t \<Rightarrow> now - t \<ge> 60 * one_minute)"

definition prune :: "millis \<Rightarrow> batch_queue \<Rightarrow> batch_queue \<times> (batch_error + unit)" where
  "prune now q =
     (let q' = q\<lparr>previews := filter (\<lambda>(t, e). \<not> expiresAt (preview e) \<le> now) (previews q),
                 jobs := filter (\<lambda>(i, j). \<not> expired_job now j) (jobs q)\<rparr>
      in if length (previews q') \<ge> 200 \<or> length (jobs q') \<ge> 200
         then (q', Inl Too_many_batches) else (q', Inr ()))"

definition assertIdle :: "account_id \<Rightarrow> batch_queue \<Rightarrow> batch_error + unit" where
  "assertIdle a q = (if js_get (active q) a \<noteq> None then Inl Batch_running else Inr ())"

definition optional_sum :: "(batch_row \<Rightarrow> int option) \<Rightarrow> batch_command list \<Rightarrow> int" where
  "optional_sum f cs = foldl (\<lambda>s c. s + (case f (row c) of None \<Rightarrow> 0 | Some n \<Rightarrow> n)) 0 cs"

definition create ::
    "millis \<Rightarrow> string \<Rightarrow> account_id \<Rightarrow> string \<Rightarrow> batch_kind \<Rightarrow> market_currency option \<Rightarrow>
     batch_command list \<Rightarrow> int \<Rightarrow> batch_queue \<Rightarrow> batch_queue \<times> (batch_error + batch_preview)" where
  "create now uuid a actor k cur cs delay q =
     (case assertIdle a q of
        Inl e \<Rightarrow> (q, Inl e)
      | Inr _ \<Rightarrow>
     (case prune now q of
        (q1, Inl e) \<Rightarrow> (q1, Inl e)
      | (q1, Inr _) \<Rightarrow>
     if cs = [] \<or> length cs > 50 then (q1, Inl Wrong_item_count)
     else
       let p = \<lparr>token = uuid, expiresAt = now + 2 * one_minute, preview_kind = k,
                preview_currency = cur, preview_items = map row cs, preview_delaySeconds = delay,
                totalBuyerPays = optional_sum row_buyerPays cs,
                totalSellerReceives = optional_sum row_sellerReceives cs\<rparr>;
           kept = filter (\<lambda>(t, e). \<not> (prep_account e = a \<and> prep_actor e = actor)) (previews q1)
       in (q1\<lparr>previews := js_set uuid \<lparr>prep_account = a, prep_actor = actor, preview = p, commands = cs\<rparr> kept\<rparr>,
           Inr p)))"

definition job_item_of :: "batch_command \<Rightarrow> job_item" where
  "job_item_of c =
     \<lparr>item_assetId = row_assetId (row c), item_variantId = row_variantId (row c),
      item_listingId = row_listingId (row c), item_name = row_name (row c),
      item_quantity = row_quantity (row c),
      item_status = (if has_execute c then Queued else Skipped),
      item_message = row_message (row c)\<rparr>"

definition new_job :: "millis \<Rightarrow> string \<Rightarrow> account_id \<Rightarrow> string \<Rightarrow> prepared \<Rightarrow> job" where
  "new_job now uuid a actor entry =
     \<lparr>job_account = a, job_actor = actor,
      job_value = \<lparr>job_id = uuid, job_kind = preview_kind (preview entry), job_status = Job_running,
                   createdAt = now, updatedAt = now, nextActionAt = None,
                   job_items = map job_item_of (commands entry),
                   completedCount = int (length (filter (\<lambda>c. \<not> has_execute c) (commands entry))),
                   totalCount = int (length (commands entry)), stopRequested = False\<rparr>,
      aborted = False, finishedAt = None, job_entry = entry, deadline = now + 60 * one_minute,
      point = Returned, submissions = []\<rparr>"

definition confirm ::
    "millis \<Rightarrow> string \<Rightarrow> account_id \<Rightarrow> string \<Rightarrow> string \<Rightarrow> batch_queue \<Rightarrow>
     batch_queue \<times> (batch_error + batch_job)" where
  "confirm now uuid a actor tok q =
     (case js_get (previews q) tok of
        None \<Rightarrow> (q, Inl Preview_invalid)
      | Some entry \<Rightarrow>
     if prep_account entry \<noteq> a \<or> prep_actor entry \<noteq> actor then (q, Inl Preview_invalid)
     else
     (let q1 = q\<lparr>previews := js_delete tok (previews q)\<rparr> in
      if expiresAt (preview entry) \<le> now then (q1, Inl Preview_expired)
      else if \<not> list_ex has_execute (commands entry) then (q1, Inl Nothing_eligible)
      else case assertIdle a q1 of
        Inl e \<Rightarrow> (q1, Inl e)
      | Inr _ \<Rightarrow>
     (case prune now q1 of
        (q2, Inl e) \<Rightarrow> (q2, Inl e)
      | (q2, Inr _) \<Rightarrow>
        let j = run_loop now (new_job now uuid a actor entry) 0 False;
            q3 = settle now uuid j (q2\<lparr>active := js_set a uuid (active q2)\<rparr>)
        in (q3, Inr (job_value (if point j = Returned then finished_job now j else j))))))"

definition get ::
    "millis \<Rightarrow> account_id \<Rightarrow> string \<Rightarrow> string \<Rightarrow> batch_queue \<Rightarrow> batch_error + batch_job" where
  "get now a actor i q =
     (case js_get (jobs q) i of
        None \<Rightarrow> Inl Batch_not_found
      | Some j \<Rightarrow>
          if job_account j \<noteq> a \<or> job_actor j \<noteq> actor \<or> expired_job now j
          then Inl Batch_not_found else Inr (job_value j))"

definition current :: "account_id \<Rightarrow> string \<Rightarrow> batch_queue \<Rightarrow> batch_job option" where
  "current a actor q =
     (case js_get (active q) a of
        None \<Rightarrow> None
      | Some i \<Rightarrow> (case js_get (jobs q) i of
            None \<Rightarrow> None
          | Some j \<Rightarrow> if job_actor j = actor then Some (job_value j) else None))"

definition request_stop :: "millis \<Rightarrow> job \<Rightarrow> job" where
  "request_stop now j =
     (set_value (\<lambda>v. v\<lparr>stopRequested := True, updatedAt := now\<rparr>) j)\<lparr>aborted := True\<rparr>"

definition stop ::
    "millis \<Rightarrow> account_id \<Rightarrow> string \<Rightarrow> string \<Rightarrow> batch_queue \<Rightarrow>
     batch_queue \<times> (batch_error + batch_job)" where
  "stop now a actor i q =
     (case get now a actor i q of
        Inl e \<Rightarrow> (q, Inl e)
      | Inr v \<Rightarrow>
     (case js_get (jobs q) i of
        None \<Rightarrow> (q, Inl Batch_not_found)
      | Some j \<Rightarrow>
          let j' = (if finishedAt j = None then request_stop now j else j)
          in (q\<lparr>jobs := js_set i j' (jobs q)\<rparr>, Inr (job_value j'))))"

definition stopAccount :: "millis \<Rightarrow> account_id \<Rightarrow> batch_queue \<Rightarrow> batch_queue" where
  "stopAccount now a q =
     (let q1 = q\<lparr>previews := filter (\<lambda>(t, e). prep_account e \<noteq> a) (previews q)\<rparr> in
      case js_get (active q1) a of
        None \<Rightarrow> q1
      | Some i \<Rightarrow> (case js_get (jobs q1) i of
            None \<Rightarrow> q1
          | Some j \<Rightarrow> q1\<lparr>jobs := js_set i (request_stop now j) (jobs q1)\<rparr>))"

definition shutdown :: "millis \<Rightarrow> batch_queue \<Rightarrow> batch_queue" where
  "shutdown now q = (fold (stopAccount now) (js_keys (active q)) q)\<lparr>previews := []\<rparr>"

section \<open>Steps and reachable queues\<close>

definition empty_queue :: batch_queue where
  "empty_queue = \<lparr>previews = [], jobs = [], active = []\<rparr>"

text \<open>\<open>randomUUID\<close> never returns an identifier that is in use.\<close>

inductive batch_step :: "batch_queue \<Rightarrow> batch_queue \<Rightarrow> bool" where
  step_create: "js_get (previews q) uuid = None \<Longrightarrow>
     batch_step q (fst (create now uuid a actor k cur cs delay q))"
| step_confirm: "js_get (jobs q) uuid = None \<Longrightarrow>
     batch_step q (fst (confirm now uuid a actor tok q))"
| step_wait: "batch_step q (wait_settled now i resolved q)"
| step_execute: "batch_step q (execute_settled now i outcome q)"
| step_stop: "batch_step q (fst (stop now a actor i q))"
| step_stopAccount: "batch_step q (stopAccount now a q)"
| step_shutdown: "batch_step q (shutdown now q)"

inductive batch_reachable :: "batch_queue \<Rightarrow> bool" where
  reach_empty: "batch_reachable empty_queue"
| reach_step: "batch_reachable q \<Longrightarrow> batch_step q q' \<Longrightarrow> batch_reachable q'"

inductive_cases batch_stepE: "batch_step q q'"

section \<open>The invariant of a job\<close>

abbreviation cmds :: "job \<Rightarrow> batch_command list" where
  "cmds j \<equiv> commands (job_entry j)"

definition executable :: "job \<Rightarrow> nat \<Rightarrow> bool" where
  "executable j k \<longleftrightarrow> has_execute (cmds j ! k)"

definition untouched :: "job \<Rightarrow> nat \<Rightarrow> bool" where
  "untouched j k \<longleftrightarrow>
     item_status (job_items (job_value j) ! k) = (if executable j k then Queued else Skipped)"

text \<open>\<open>shape_ok\<close>: fixed lengths, and the progress counter counts the settled items.\<close>

definition shape_ok :: "job \<Rightarrow> bool" where
  "shape_ok j \<longleftrightarrow>
     length (job_items (job_value j)) = length (cmds j) \<and>
     totalCount (job_value j) = int (length (cmds j)) \<and>
     completedCount (job_value j) =
       int (length (filter (\<lambda>it. \<not> open_item it) (job_items (job_value j))))"

text \<open>At the head of the loop with index \<open>i\<close>: everything before \<open>i\<close> is settled, nothing after.\<close>

definition head_ok :: "nat \<Rightarrow> job \<Rightarrow> bool" where
  "head_ok i j \<longleftrightarrow>
     shape_ok j \<and> i \<le> length (cmds j) \<and> submissions j = filter (executable j) [0..<i] \<and>
     (\<forall>k<i. \<not> open_item (job_items (job_value j) ! k)) \<and>
     (\<forall>k<length (cmds j). i \<le> k \<longrightarrow> untouched j k)"

definition exec_ok :: "nat \<Rightarrow> job \<Rightarrow> bool" where
  "exec_ok i j \<longleftrightarrow>
     shape_ok j \<and> i < length (cmds j) \<and> executable j i \<and>
     submissions j = filter (executable j) [0..<Suc i] \<and>
     item_status (job_items (job_value j) ! i) = Running \<and>
     (\<forall>k<i. \<not> open_item (job_items (job_value j) ! k)) \<and>
     (\<forall>k<length (cmds j). i < k \<longrightarrow> untouched j k)"

definition returned_ok :: "job \<Rightarrow> bool" where
  "returned_ok j \<longleftrightarrow>
     shape_ok j \<and> prefix (submissions j) (filter (executable j) [0..<length (cmds j)])"

definition segment_ok :: "job \<Rightarrow> bool" where
  "segment_ok j \<longleftrightarrow>
     (case point j of
        At_wait i \<Rightarrow> head_ok i j \<and> i < length (cmds j) \<and> executable j i
      | At_execute i \<Rightarrow> exec_ok i j
      | Returned \<Rightarrow> returned_ok j)"

definition closed_ok :: "job \<Rightarrow> bool" where
  "closed_ok j \<longleftrightarrow>
     completedCount (job_value j) = totalCount (job_value j) \<and>
     (\<forall>it\<in>set (job_items (job_value j)). \<not> open_item it) \<and>
     job_status (job_value j) = (if stopRequested (job_value j) then Job_stopped else Job_completed)"

definition job_ok :: "job \<Rightarrow> bool" where
  "job_ok j \<longleftrightarrow>
     segment_ok j \<and> (finishedAt j = None \<longleftrightarrow> point j \<noteq> Returned) \<and>
     (point j = Returned \<longrightarrow> closed_ok j)"

lemmas job_defs = head_ok_def exec_ok_def returned_ok_def shape_ok_def untouched_def executable_def

lemma head_returned: "head_ok i j \<Longrightarrow> returned_ok j"
  by (auto simp: head_ok_def returned_ok_def prefix_filter_upt)

lemma returned_ok_cong:
  "returned_ok j \<Longrightarrow> job_entry j' = job_entry j \<Longrightarrow> submissions j' = submissions j \<Longrightarrow>
   job_items (job_value j') = job_items (job_value j) \<Longrightarrow>
   totalCount (job_value j') = totalCount (job_value j) \<Longrightarrow>
   completedCount (job_value j') = completedCount (job_value j) \<Longrightarrow> returned_ok j'"
  by (simp add: returned_ok_def shape_ok_def executable_def [abs_def])

lemma segment_ok_break_stopped: "returned_ok j \<Longrightarrow> segment_ok (break_stopped j)"
  by (simp add: segment_ok_def break_stopped_def) (erule returned_ok_cong, simp_all)

lemma segment_ok_begin_wait:
  "head_ok i j \<Longrightarrow> i < length (cmds j) \<Longrightarrow> executable j i \<Longrightarrow> segment_ok (begin_wait now j i)"
  by (simp add: segment_ok_def begin_wait_def job_defs [abs_def])

lemma segment_ok_start_item:
  assumes h: "head_ok i j" and i: "i < length (cmds j)" and e: "executable j i"
  shows "segment_ok (start_item now j i)"
proof -
  have "untouched j i" using h i by (simp add: head_ok_def)
  then have "open_item (job_items (job_value j) ! i)"
    using e by (simp add: untouched_def open_item_def)
  then show ?thesis
    using h i e
    by (auto simp: segment_ok_def start_item_def exec_ok_def head_ok_def shape_ok_def
        executable_def [abs_def] untouched_def length_filter_update nth_list_update open_item_def [of "_\<lparr>item_status := _\<rparr>"])
qed

lemma head_ok_skip:
  assumes "head_ok i j" and "i < length (cmds j)" and "\<not> executable j i"
  shows "head_ok (Suc i) j"
  using assms by (auto simp: head_ok_def untouched_def open_item_def less_Suc_eq)

lemma segment_ok_run_loop: "head_ok i j \<Longrightarrow> segment_ok (run_loop now j i submitted)"
proof (induction now j i submitted rule: run_loop.induct)
  case (1 now j i submitted)
  note unfold = run_loop.simps [of now j i submitted]
  show ?case
  proof (cases "length (cmds j) \<le> i")
    case True
    have "returned_ok (j\<lparr>point := Returned\<rparr>)"
      using head_returned [OF "1.prems"] by (rule returned_ok_cong) simp_all
    with True show ?thesis by (simp add: unfold segment_ok_def)
  next
    case False
    then show ?thesis
      using 1 head_ok_skip [OF "1.prems"] segment_ok_break_stopped [OF head_returned [OF "1.prems"]]
        segment_ok_begin_wait [OF "1.prems"] segment_ok_start_item [OF "1.prems"]
      by (simp add: unfold executable_def)
  qed
qed

lemma segment_ok_after_wait:
  "head_ok i j \<Longrightarrow> i < length (cmds j) \<Longrightarrow> executable j i \<Longrightarrow> segment_ok (after_wait now r i j)"
  using segment_ok_break_stopped head_returned segment_ok_start_item by (simp add: after_wait_def)

lemma item_status_settle: "\<not> open_item (settle_item k outcome it)"
  by (cases outcome) (auto simp: open_item_def success_status_def)

lemma head_ok_record_outcome:
  assumes "exec_ok i j"
  shows "head_ok (Suc i) (record_outcome now outcome i j)"
proof -
  have "open_item (job_items (job_value j) ! i)" using assms by (simp add: exec_ok_def open_item_def)
  then show ?thesis
    using assms
    by (auto simp: record_outcome_def exec_ok_def head_ok_def shape_ok_def executable_def [abs_def]
        untouched_def length_filter_update item_status_settle nth_list_update less_Suc_eq)
qed

lemma segment_ok_return: "returned_ok j \<Longrightarrow> segment_ok (j\<lparr>point := Returned\<rparr>)"
  by (simp add: segment_ok_def) (erule returned_ok_cong, simp_all)

lemma segment_ok_after_execute: "exec_ok i j \<Longrightarrow> segment_ok (after_execute now outcome i j)"
  using segment_ok_return [OF head_returned [OF head_ok_record_outcome]]
    segment_ok_run_loop [OF head_ok_record_outcome]
  by (simp add: after_execute_def Let_def)

lemma segment_ok_new_job: "segment_ok (run_loop now (new_job now uuid a actor entry) 0 False)"
proof (rule segment_ok_run_loop)
  have "length (filter (\<lambda>c. \<not> has_execute c) cs) =
    length (filter (\<lambda>it. \<not> open_item it) (map job_item_of cs))" for cs
    by (induction cs) (auto simp: job_item_of_def open_item_def)
  then show "head_ok 0 (new_job now uuid a actor entry)"
    by (auto simp: head_ok_def shape_ok_def new_job_def untouched_def executable_def job_item_of_def)
qed

text \<open>What a segment of the loop never changes.\<close>

definition same_job :: "job \<Rightarrow> job \<Rightarrow> bool" where
  "same_job j j' \<longleftrightarrow>
     job_account j' = job_account j \<and> job_actor j' = job_actor j \<and> finishedAt j' = finishedAt j \<and>
     job_id (job_value j') = job_id (job_value j) \<and> job_entry j' = job_entry j \<and>
     aborted j' = aborted j \<and> deadline j' = deadline j \<and>
     (stopRequested (job_value j) \<longrightarrow> stopRequested (job_value j'))"

lemma same_job_segments:
  "same_job j (break_stopped j)" "same_job j (begin_wait now j i)" "same_job j (start_item now j i)"
  by (auto simp: same_job_def break_stopped_def begin_wait_def start_item_def)

lemma same_job_trans: "same_job j j' \<Longrightarrow> same_job j' j'' \<Longrightarrow> same_job j j''"
  by (auto simp: same_job_def)

lemma same_job_run_loop: "same_job j (run_loop now j i submitted)"
proof (induction now j i submitted rule: run_loop.induct)
  case (1 now j i submitted)
  then show ?case
    using same_job_segments [of j] by (simp add: run_loop.simps [of now j i] same_job_def)
qed

lemma same_job_after_wait: "same_job j (after_wait now r i j)"
  using same_job_segments [of j] by (simp add: after_wait_def)

lemma same_job_record_outcome: "same_job j (record_outcome now outcome i j)"
  by (cases outcome) (auto simp: same_job_def record_outcome_def)

lemma same_job_after_execute: "same_job j (after_execute now outcome i j)"
proof -
  have "same_job j (j'\<lparr>point := p\<rparr>)" if "same_job j j'" for j' p
    using that by (simp add: same_job_def)
  then show ?thesis
    using same_job_record_outcome same_job_trans [OF same_job_record_outcome same_job_run_loop]
    by (simp add: after_execute_def Let_def)
qed

section \<open>The invariant of the queue\<close>

definition job_listed :: "batch_queue \<Rightarrow> string \<Rightarrow> job \<Rightarrow> bool" where
  "job_listed q i j \<longleftrightarrow>
     job_ok j \<and> job_id (job_value j) = i \<and>
     (finishedAt j = None \<longrightarrow> js_get (active q) (job_account j) = Some i)"

definition active_points :: "batch_queue \<Rightarrow> account_id \<Rightarrow> string \<Rightarrow> bool" where
  "active_points q a i \<longleftrightarrow>
     (\<exists>j. js_get (jobs q) i = Some j \<and> job_account j = a \<and> finishedAt j = None)"

definition maps_ok :: "batch_queue \<Rightarrow> bool" where
  "maps_ok q \<longleftrightarrow>
     js_map_ok (previews q) \<and> js_map_ok (jobs q) \<and> js_map_ok (active q) \<and>
     length (previews q) \<le> 200"

definition queue_inv :: "batch_queue \<Rightarrow> bool" where
  "queue_inv q \<longleftrightarrow>
     maps_ok q \<and> length (jobs q) \<le> 200 \<and>
     (\<forall>i j. js_get (jobs q) i = Some j \<longrightarrow> job_listed q i j) \<and>
     (\<forall>a i. js_get (active q) a = Some i \<longrightarrow> active_points q a i)"

text \<open>Job \<open>i\<close> of account \<open>a\<close> is being run: everything else is as the invariant says.\<close>

definition running_inv :: "string \<Rightarrow> account_id \<Rightarrow> batch_queue \<Rightarrow> bool" where
  "running_inv i a q \<longleftrightarrow>
     maps_ok q \<and> js_get (active q) a = Some i \<and>
     length (jobs q) \<le> 200 \<and> (js_get (jobs q) i = None \<longrightarrow> length (jobs q) < 200) \<and>
     (\<forall>i' j. i' \<noteq> i \<longrightarrow> js_get (jobs q) i' = Some j \<longrightarrow> job_listed q i' j) \<and>
     (\<forall>a' i'. a' \<noteq> a \<longrightarrow> js_get (active q) a' = Some i' \<longrightarrow> i' \<noteq> i \<and> active_points q a' i')"

lemma queue_inv_running:
  assumes inv: "queue_inv q" and j: "js_get (jobs q) i = Some j" "finishedAt j = None"
  shows "running_inv i (job_account j) q"
proof -
  have "js_get (active q) (job_account j) = Some i"
    using inv j by (auto simp: queue_inv_def job_listed_def)
  moreover have "i' \<noteq> i" if "a' \<noteq> job_account j" "js_get (active q) a' = Some i'" for a' i'
  proof
    assume "i' = i"
    with that inv have "active_points q a' i" by (auto simp: queue_inv_def)
    with j that(1) show False by (auto simp: active_points_def)
  qed
  ultimately show ?thesis
    using inv j by (auto simp: running_inv_def queue_inv_def)
qed

lemma finish_value_closed:
  assumes "shape_ok j"
  shows "closed_ok (finished_job now j)"
proof -
  have "\<not> open_item (close_item it)" for it by (simp add: open_item_def close_item_def)
  moreover from this have "filter (\<lambda>it. \<not> open_item it) (map close_item its) = map close_item its" for its
    by (induction its) auto
  ultimately show ?thesis
    using assms by (auto simp: closed_ok_def finished_job_def finish_value_def Let_def shape_ok_def)
qed

lemma returned_ok_finish:
  assumes "returned_ok j"
  shows "returned_ok (finished_job now j)"
  using assms
  by (simp add: returned_ok_def shape_ok_def finished_job_def finish_value_def Let_def executable_def [abs_def])

lemma job_ok_finish:
  assumes "segment_ok j" and "point j = Returned"
  shows "job_ok (finished_job now j)"
proof -
  have r: "returned_ok j" using assms by (simp add: segment_ok_def)
  then have "shape_ok j" by (simp add: returned_ok_def)
  from returned_ok_finish [OF r] finish_value_closed [OF this] assms(2) show ?thesis
    by (simp add: job_ok_def segment_ok_def finished_job_def)
qed

lemma queue_inv_store:
  assumes run: "running_inv i a q" and ok: "job_ok j"
    and j: "job_account j = a" "job_id (job_value j) = i" "finishedAt j = None"
  shows "queue_inv (q\<lparr>jobs := js_set i j (jobs q)\<rparr>)"
proof -
  let ?q = "q\<lparr>jobs := js_set i j (jobs q)\<rparr>"
  have "length (jobs ?q) \<le> 200"
    using run length_js_set [of i j "jobs q"] length_js_set_present [of "jobs q" i j]
    by (cases "js_get (jobs q) i") (auto simp: running_inv_def)
  moreover have "maps_ok ?q" using run by (simp add: running_inv_def maps_ok_def)
  moreover have "job_listed ?q i' j'" if "js_get (jobs ?q) i' = Some j'" for i' j'
    using that run ok j by (cases "i' = i") (auto simp: running_inv_def job_listed_def)
  moreover have "active_points ?q a' i'" if "js_get (active ?q) a' = Some i'" for a' i'
    using that run j by (cases "a' = a") (auto simp: running_inv_def active_points_def)
  ultimately show ?thesis by (simp add: queue_inv_def)
qed

lemma queue_inv_finish:
  assumes run: "running_inv i a q" and ok: "segment_ok j" "point j = Returned"
    and j: "job_account j = a" "job_id (job_value j) = i"
  shows "queue_inv (finish now i j q)"
proof -
  let ?j = "finished_job now j"
  let ?q = "finish now i j q"
  have id: "job_id (job_value ?j) = i" "finishedAt ?j = Some now"
    using j by (simp_all add: finish_value_def finished_job_def Let_def)
  have active: "js_get (active q) a = Some i" using run by (simp add: running_inv_def)
  then have q: "jobs ?q = js_set i ?j (jobs q)" "active ?q = js_delete a (active q)"
      "previews ?q = previews q"
    using j by (simp_all add: finish_def)
  have "length (jobs ?q) \<le> 200"
    using run length_js_set [of i ?j "jobs q"] length_js_set_present [of "jobs q" i ?j]
    by (cases "js_get (jobs q) i") (auto simp: running_inv_def q)
  moreover have "maps_ok ?q" using run by (simp add: running_inv_def maps_ok_def q)
  moreover have "job_listed ?q i' j'" if "js_get (jobs ?q) i' = Some j'" for i' j'
  proof (cases "i' = i")
    case True
    with that have "j' = ?j" by (simp add: q)
    then show ?thesis using job_ok_finish [OF ok, of now] id True by (simp add: job_listed_def)
  next
    case False
    with that have j': "js_get (jobs q) i' = Some j'" by (simp add: q)
    with False run have l: "job_listed q i' j'" by (simp add: running_inv_def)
    moreover have "job_account j' \<noteq> a" if "finishedAt j' = None"
      using l that active False by (auto simp: job_listed_def)
    ultimately show ?thesis by (auto simp: job_listed_def q)
  qed
  moreover have "active_points ?q a' i'" if "js_get (active ?q) a' = Some i'" for a' i'
    using that run by (cases "a' = a") (auto simp: running_inv_def active_points_def q)
  ultimately show ?thesis by (simp add: queue_inv_def)
qed

lemma queue_inv_settle:
  assumes "running_inv i a q" and "segment_ok j" and "finishedAt j = None"
    and "job_account j = a" "job_id (job_value j) = i"
  shows "queue_inv (settle now i j q)"
  using assms queue_inv_store [of i a q j] queue_inv_finish [of i a q j now]
  by (simp add: settle_def job_ok_def)

text \<open>Every operation keeps the invariant.\<close>

lemma prune_fst:
  "fst (prune now q) =
     q\<lparr>previews := filter (\<lambda>(t, e). \<not> expiresAt (preview e) \<le> now) (previews q),
       jobs := filter (\<lambda>(i, j). \<not> expired_job now j) (jobs q)\<rparr>"
  by (simp add: prune_def Let_def)

lemma prune_Inr:
  "prune now q = (q', Inr u) \<Longrightarrow> q' = fst (prune now q) \<and> length (previews q') < 200 \<and> length (jobs q') < 200"
  by (auto simp: prune_def Let_def split: if_splits)

lemma prune_Inl: "prune now q = (q', Inl e) \<Longrightarrow> q' = fst (prune now q)"
  by simp

lemma queue_inv_previews:
  assumes "queue_inv q" and "js_map_ok ps" and "length ps \<le> 200"
  shows "queue_inv (q\<lparr>previews := ps\<rparr>)"
  using assms by (simp add: queue_inv_def maps_ok_def job_listed_def active_points_def)

lemma queue_inv_filter_previews:
  assumes "queue_inv q"
  shows "queue_inv (q\<lparr>previews := filter P (previews q)\<rparr>)"
proof -
  have "js_map_ok (previews q)" "length (previews q) \<le> 200"
    using assms by (auto simp: queue_inv_def maps_ok_def)
  with assms show ?thesis
    by (intro queue_inv_previews) (auto intro: le_trans [OF length_filter_le])
qed

lemma queue_inv_delete_preview:
  assumes "queue_inv q"
  shows "queue_inv (q\<lparr>previews := js_delete t (previews q)\<rparr>)"
proof -
  have "js_map_ok (previews q)" "length (previews q) \<le> 200"
    using assms by (auto simp: queue_inv_def maps_ok_def)
  with assms show ?thesis
    by (intro queue_inv_previews) (auto intro: le_trans [OF length_delete_le])
qed

lemma queue_inv_filter_jobs:
  assumes inv: "queue_inv q" and keep: "\<And>i j. finishedAt j = None \<Longrightarrow> P (i, j)"
  shows "queue_inv (q\<lparr>jobs := filter P (jobs q)\<rparr>)"
proof -
  let ?q = "q\<lparr>jobs := filter P (jobs q)\<rparr>"
  have "maps_ok q" and len: "length (jobs q) \<le> 200" using inv by (auto simp: queue_inv_def)
  then have ok: "js_map_ok (jobs q)" and "maps_ok ?q" by (auto simp: maps_ok_def)
  moreover have "length (jobs ?q) \<le> 200" using len by (auto intro: le_trans [OF length_filter_le])
  moreover have "job_listed ?q i j" if "js_get (jobs ?q) i = Some j" for i j
    using that inv by (auto simp: js_get_filter_Some [OF ok] queue_inv_def job_listed_def)
  moreover have "active_points ?q a i" if "js_get (active ?q) a = Some i" for a i
  proof -
    from that inv have "active_points q a i" by (simp add: queue_inv_def)
    with keep show ?thesis
      by (fastforce simp: js_get_filter_Some [OF ok] active_points_def)
  qed
  ultimately show ?thesis by (simp add: queue_inv_def)
qed

lemma queue_inv_prune [inv_intros]:
  assumes "queue_inv q"
  shows "queue_inv (fst (prune now q))"
proof -
  have "queue_inv (q\<lparr>previews := filter (\<lambda>(t, e). \<not> expiresAt (preview e) \<le> now) (previews q)\<rparr>
      \<lparr>jobs := filter (\<lambda>(i, j). \<not> expired_job now j)
        (jobs (q\<lparr>previews := filter (\<lambda>(t, e). \<not> expiresAt (preview e) \<le> now) (previews q)\<rparr>))\<rparr>)"
    by (intro queue_inv_filter_jobs queue_inv_filter_previews assms) (simp add: expired_job_def)
  then show ?thesis by (simp add: prune_fst)
qed

lemma queue_inv_create [inv_intros]:
  assumes "queue_inv q"
  shows "queue_inv (fst (create now uuid a actor k cur cs delay q))"
proof -
  let ?kept = "\<lambda>q. filter (\<lambda>(t, e). \<not> (prep_account e = a \<and> prep_actor e = actor)) (previews q)"
  have inv: "queue_inv q1" if "prune now q = (q1, r)" for q1 r
    using queue_inv_prune [OF assms, of now] that by simp
  have "queue_inv (q1\<lparr>previews := js_set uuid e (?kept q1)\<rparr>)" if "prune now q = (q1, Inr u)" for q1 u e
  proof (intro queue_inv_previews inv [OF that])
    show "js_map_ok (js_set uuid e (?kept q1))"
      using inv [OF that] by (simp add: queue_inv_def maps_ok_def)
    have "length (?kept q1) < 200"
      using prune_Inr [OF that] by (auto intro: le_less_trans [OF length_filter_le])
    then show "length (js_set uuid e (?kept q1)) \<le> 200"
      using length_js_set [of uuid e "?kept q1"] by simp
  qed
  with assms inv show ?thesis
    by (auto simp: create_def Let_def split: sum.split prod.split)
qed

lemma running_inv_new:
  assumes inv: "queue_inv q" and idle: "js_get (active q) a = None"
    and fresh: "js_get (jobs q) i = None" and len: "length (jobs q) < 200"
  shows "running_inv i a (q\<lparr>active := js_set a i (active q)\<rparr>)"
proof -
  have "job_account j \<noteq> a" if "js_get (jobs q) i' = Some j" "finishedAt j = None" for i' j
    using inv idle that by (auto simp: queue_inv_def job_listed_def)
  moreover have "js_get (active q) a' \<noteq> Some i" for a'
    using inv fresh by (fastforce simp: queue_inv_def active_points_def)
  ultimately show ?thesis
    using inv idle fresh len
    by (auto simp: running_inv_def queue_inv_def maps_ok_def job_listed_def active_points_def)
qed

text \<open>A confirmation, taken apart: what a success rests on, and where a refusal leaves the queue.\<close>

lemma confirm_Inr:
  assumes "confirm now uuid a actor tok q = (q', Inr v)"
  obtains entry q2 u where
    "js_get (previews q) tok = Some entry" "prep_account entry = a" "prep_actor entry = actor"
    "now < expiresAt (preview entry)" "list_ex has_execute (commands entry)"
    "js_get (active q) a = None"
    "prune now (q\<lparr>previews := js_delete tok (previews q)\<rparr>) = (q2, Inr u)"
    "q' = settle now uuid (run_loop now (new_job now uuid a actor entry) 0 False)
            (q2\<lparr>active := js_set a uuid (active q2)\<rparr>)"
proof (cases "js_get (previews q) tok")
  case None
  with assms show ?thesis by (simp add: confirm_def)
next
  case (Some entry)
  show ?thesis
  proof (cases "prune now (q\<lparr>previews := js_delete tok (previews q)\<rparr>)")
    case (Pair q2 r)
    show ?thesis
      using assms Some Pair
      by (intro that [of entry q2 "()"])
        (simp_all add: confirm_def Let_def assertIdle_def not_le split: if_splits sum.splits)
  qed
qed

lemma confirm_Inl:
  assumes "confirm now uuid a actor tok q = (q', Inl e)"
  shows "q' = q \<or> q' = q\<lparr>previews := js_delete tok (previews q)\<rparr> \<or>
         q' = fst (prune now (q\<lparr>previews := js_delete tok (previews q)\<rparr>))"
proof (cases "js_get (previews q) tok")
  case None
  with assms show ?thesis by (simp add: confirm_def)
next
  case (Some entry)
  show ?thesis
  proof (cases "prune now (q\<lparr>previews := js_delete tok (previews q)\<rparr>)")
    case (Pair q2 r)
    then show ?thesis
      using assms Some
      by (simp add: confirm_def Let_def assertIdle_def split: if_splits sum.splits)
  qed
qed

lemma queue_inv_confirm [inv_intros]:
  assumes inv: "queue_inv q" and fresh: "js_get (jobs q) uuid = None"
  shows "queue_inv (fst (confirm now uuid a actor tok q))"
proof (cases "confirm now uuid a actor tok q")
  case (Pair q' r)
  let ?q1 = "q\<lparr>previews := js_delete tok (previews q)\<rparr>"
  have inv1: "queue_inv ?q1" "queue_inv (fst (prune now ?q1))"
    using queue_inv_delete_preview [OF inv] queue_inv_prune by blast+
  show ?thesis
  proof (cases r)
    case (Inl e)
    with Pair confirm_Inl [of now uuid a actor tok q q' e] inv inv1 show ?thesis by auto
  next
    case (Inr v)
    with Pair have "confirm now uuid a actor tok q = (q', Inr v)" by simp
    then obtain entry q2 u where
      c: "js_get (active q) a = None" "prune now ?q1 = (q2, Inr u)"
        "q' = settle now uuid (run_loop now (new_job now uuid a actor entry) 0 False)
                (q2\<lparr>active := js_set a uuid (active q2)\<rparr>)"
      by (rule confirm_Inr)
    have q2: "q2 = fst (prune now ?q1)" "length (jobs q2) < 200" using prune_Inr [OF c(2)] by auto
    have jok: "js_map_ok (jobs q)" using inv by (simp add: queue_inv_def maps_ok_def)
    have "js_get (active q2) a = None" "js_get (jobs q2) uuid = None"
      using q2(1) c(1) fresh by (simp_all add: prune_fst js_get_filter [OF jok])
    with running_inv_new [of q2 a uuid] inv1(2) q2
    have "running_inv uuid a (q2\<lparr>active := js_set a uuid (active q2)\<rparr>)" by simp
    moreover have "same_job (new_job now uuid a actor entry)
        (run_loop now (new_job now uuid a actor entry) 0 False)" by (rule same_job_run_loop)
    ultimately have "queue_inv q'"
      unfolding c(3) by (intro queue_inv_settle segment_ok_new_job) (auto simp: same_job_def new_job_def)
    with Pair show ?thesis by simp
  qed
qed

lemma unfinished_job:
  assumes "queue_inv q" and "js_get (jobs q) i = Some j" and "point j \<noteq> Returned"
  shows "running_inv i (job_account j) q \<and> segment_ok j \<and> finishedAt j = None \<and> job_id (job_value j) = i"
proof -
  have "job_listed q i j" using assms by (simp add: queue_inv_def)
  with assms show ?thesis
    using queue_inv_running [OF assms(1,2)] by (simp add: job_listed_def job_ok_def)
qed

lemma queue_inv_wait_settled [inv_intros]:
  assumes "queue_inv q"
  shows "queue_inv (wait_settled now i r q)"
proof -
  have "queue_inv (settle now i (after_wait now r k j) q)"
    if j: "js_get (jobs q) i = Some j" "point j = At_wait k" for j k
  proof -
    note u = unfinished_job [OF assms j(1)]
    have "segment_ok (after_wait now r k j)"
      using u j(2) by (intro segment_ok_after_wait) (auto simp: segment_ok_def)
    then show ?thesis
      using u j(2) same_job_after_wait [of j now r k]
      by (intro queue_inv_settle [of i "job_account j"]) (auto simp: same_job_def)
  qed
  with assms show ?thesis
    by (auto simp: wait_settled_def split: option.split suspension.split)
qed

lemma queue_inv_execute_settled [inv_intros]:
  assumes "queue_inv q"
  shows "queue_inv (execute_settled now i outcome q)"
proof -
  have "queue_inv (settle now i (after_execute now outcome k j) q)"
    if j: "js_get (jobs q) i = Some j" "point j = At_execute k" for j k
  proof -
    note u = unfinished_job [OF assms j(1)]
    have "segment_ok (after_execute now outcome k j)"
      using u j(2) by (intro segment_ok_after_execute) (auto simp: segment_ok_def)
    then show ?thesis
      using u j(2) same_job_after_execute [of j now outcome k]
      by (intro queue_inv_settle [of i "job_account j"]) (auto simp: same_job_def)
  qed
  with assms show ?thesis
    by (auto simp: execute_settled_def split: option.split suspension.split)
qed

lemma same_job_request_stop: "same_job j ((request_stop now j)\<lparr>aborted := aborted j\<rparr>)"
  by (simp add: same_job_def request_stop_def)

lemma job_ok_request_stop:
  "job_ok j \<Longrightarrow> finishedAt j = None \<Longrightarrow> job_ok (request_stop now j)"
  by (auto simp: job_ok_def segment_ok_def request_stop_def job_defs [abs_def] split: suspension.splits)

lemma queue_inv_request_stop:
  assumes inv: "queue_inv q" and j: "js_get (jobs q) i = Some j" "finishedAt j = None"
  shows "queue_inv (q\<lparr>jobs := js_set i (request_stop now j) (jobs q)\<rparr>)"
proof (rule queue_inv_store [OF queue_inv_running [OF inv j]])
  have "job_listed q i j" using inv j by (simp add: queue_inv_def)
  then show "job_ok (request_stop now j)" "job_id (job_value (request_stop now j)) = i"
    using job_ok_request_stop j by (auto simp: job_listed_def request_stop_def)
qed (simp_all add: request_stop_def j)

lemma queue_inv_stop [inv_intros]: "queue_inv q \<Longrightarrow> queue_inv (fst (stop now a actor i q))"
  using queue_inv_request_stop [of q i _ now]
  by (auto simp: stop_def Let_def js_set_same split: sum.split option.split)

lemma queue_inv_stopAccount [inv_intros]:
  assumes "queue_inv q"
  shows "queue_inv (stopAccount now a q)"
proof -
  let ?q = "q\<lparr>previews := filter (\<lambda>(t, e). prep_account e \<noteq> a) (previews q)\<rparr>"
  have inv: "queue_inv ?q" by (rule queue_inv_filter_previews [OF assms])
  have "finishedAt j = None" if "js_get (active q) a = Some i" "js_get (jobs q) i = Some j" for i j
    using assms that by (fastforce simp: queue_inv_def active_points_def)
  with inv queue_inv_request_stop [OF inv, of _ _ now] show ?thesis
    by (auto simp: stopAccount_def Let_def split: option.split)
qed

lemma queue_inv_shutdown [inv_intros]:
  assumes "queue_inv q"
  shows "queue_inv (shutdown now q)"
proof -
  have "queue_inv (fold (stopAccount now) as q)" for as
    using assms by (induction as arbitrary: q) (auto intro: queue_inv_stopAccount)
  then show ?thesis
    unfolding shutdown_def by (intro queue_inv_previews) simp_all
qed

lemma queue_inv_step: "batch_step q q' \<Longrightarrow> queue_inv q \<Longrightarrow> queue_inv q'"
  by (induction rule: batch_step.induct) (auto intro: inv_intros)

lemma queue_inv_reachable: "batch_reachable q \<Longrightarrow> queue_inv q"
proof (induction rule: batch_reachable.induct)
  case reach_empty
  show ?case by (simp add: queue_inv_def maps_ok_def empty_queue_def)
next
  case (reach_step q q')
  then show ?case by (blast intro: queue_inv_step)
qed

section \<open>Progress of a run\<close>

text \<open>The environment answers the pending await of job \<open>i\<close>, whichever it is.\<close>

definition answer ::
    "string \<Rightarrow> millis \<times> bool \<times> (action_failure + action_result) \<Rightarrow> batch_queue \<Rightarrow> batch_queue" where
  "answer i = (\<lambda>(now, resolved, outcome) q.
     case js_get (jobs q) i of
       None \<Rightarrow> q
     | Some j \<Rightarrow> (case point j of
           At_wait k \<Rightarrow> wait_settled now i resolved q
         | At_execute k \<Rightarrow> execute_settled now i outcome q
         | Returned \<Rightarrow> q))"

definition pending :: "job \<Rightarrow> nat" where
  "pending j =
     (case point j of
        At_wait k \<Rightarrow> 2 * (length (cmds j) - k)
      | At_execute k \<Rightarrow> 2 * (length (cmds j) - k) - 1
      | Returned \<Rightarrow> 0)"

lemma run_loop_point:
  "point (run_loop now j i submitted) = Returned \<or>
   (\<exists>k\<ge>i. k < length (cmds j) \<and> point (run_loop now j i submitted) \<in> {At_wait k, At_execute k})"
proof (induction now j i submitted rule: run_loop.induct)
  case (1 now j i submitted)
  show ?case
  proof (cases "i < length (cmds j) \<and> \<not> has_execute (cmds j ! i)")
    case True
    then have eq: "run_loop now j i submitted = run_loop now j (Suc i) submitted"
      by (simp add: run_loop.simps [of now j i])
    from True have "\<not> length (cmds j) \<le> i" by simp
    from 1 [OF this] True show ?thesis unfolding eq by (auto intro: Suc_leD)
  next
    case False
    then show ?thesis
      by (auto simp: run_loop.simps [of now j i] break_stopped_def begin_wait_def start_item_def)
  qed
qed

lemma pending_after_wait:
  "i < length (cmds j) \<Longrightarrow> pending (after_wait now r i j) < 2 * (length (cmds j) - i)"
  by (auto simp: after_wait_def pending_def break_stopped_def start_item_def)

lemma pending_after_execute:
  assumes "i < length (cmds j)"
  shows "pending (after_execute now outcome i j) < 2 * (length (cmds j) - i) - 1"
proof -
  let ?j = "record_outcome now outcome i j"
  have c: "cmds (run_loop now ?j (Suc i) s) = cmds j" for s
    using same_job_run_loop [of ?j now "Suc i" s] by (simp add: same_job_def record_outcome_def)
  have "cmds ?j = cmds j" by (simp add: record_outcome_def)
  then have "pending (run_loop now ?j (Suc i) s) < 2 * (length (cmds j) - i) - 1" for s
    using run_loop_point [of now ?j "Suc i" s] assms by (auto simp: pending_def c)
  then show ?thesis
    using assms by (auto simp: after_execute_def Let_def pending_def)
qed

lemma settle_get:
  "js_get (jobs (settle now i j q)) i = Some (if point j = Returned then finished_job now j else j)"
  by (simp add: settle_def finish_def)

lemma finished_job_fields [simp]:
  "point (finished_job now j) = point j" "job_entry (finished_job now j) = job_entry j"
  "submissions (finished_job now j) = submissions j" "aborted (finished_job now j) = aborted j"
  "job_account (finished_job now j) = job_account j"
  "finishedAt (finished_job now j) = Some now"
  "stopRequested (job_value (finished_job now j)) = stopRequested (job_value j)"
  by (simp_all add: finished_job_def finish_value_def Let_def)

lemma pending_finished_job [simp]: "pending (finished_job now j) = pending j"
  by (simp add: pending_def split: suspension.split)

lemma answer_progress:
  assumes inv: "queue_inv q" and j: "js_get (jobs q) i = Some j" "point j \<noteq> Returned"
  shows "queue_inv (answer i r q) \<and> (\<exists>j'. js_get (jobs (answer i r q)) i = Some j' \<and>
           length (cmds j') = length (cmds j) \<and> pending j' < pending j)"
proof -
  obtain now resolved outcome where r: "r = (now, resolved, outcome)" by (cases r)
  have seg: "segment_ok j" using unfinished_job [OF assms] by simp
  have inv': "queue_inv (answer i r q)"
    using inv j by (auto simp: answer_def r intro: inv_intros split: suspension.split)
  show ?thesis
  proof (cases "point j")
    case (At_wait k)
    with seg have k: "k < length (cmds j)" by (simp add: segment_ok_def)
    have "job_entry (after_wait now resolved k j) = job_entry j"
      using same_job_after_wait [of j now resolved k] by (simp add: same_job_def)
    with At_wait j pending_after_wait [OF k, of now resolved] inv' show ?thesis
      by (simp add: answer_def r wait_settled_def settle_get pending_def [of j])
  next
    case (At_execute k)
    with seg have k: "k < length (cmds j)" by (simp add: segment_ok_def exec_ok_def)
    have "job_entry (after_execute now outcome k j) = job_entry j"
      using same_job_after_execute [of j now outcome k] by (simp add: same_job_def)
    with At_execute j pending_after_execute [OF k, of now outcome] inv' show ?thesis
      by (simp add: answer_def r execute_settled_def settle_get pending_def [of j])
  qed (use j in simp)
qed

lemma pending_0:
  assumes "queue_inv q" and "js_get (jobs q) i = Some j" and "pending j = 0"
  shows "point j = Returned"
proof (rule ccontr)
  assume r: "point j \<noteq> Returned"
  with unfinished_job [OF assms(1,2)] have "segment_ok j" by blast
  with r assms(3) show False
    by (cases "point j") (auto simp: segment_ok_def exec_ok_def pending_def)
qed

lemma answers_finish:
  "queue_inv q \<Longrightarrow> js_get (jobs q) i = Some j \<Longrightarrow> pending j \<le> length rs \<Longrightarrow>
   \<exists>j'. js_get (jobs (fold (answer i) rs q)) i = Some j' \<and> point j' = Returned \<and> job_ok j'"
proof (induction rs arbitrary: q j)
  case Nil
  then have "point j = Returned" by (auto intro: pending_0)
  with Nil show ?case by (auto simp: queue_inv_def job_listed_def)
next
  case (Cons r rs)
  show ?case
  proof (cases "point j = Returned")
    case True
    with Cons.prems have "answer i r q = q" by (cases r) (simp add: answer_def)
    moreover have "pending j \<le> length rs" using True by (simp add: pending_def)
    ultimately show ?thesis using Cons.IH [OF Cons.prems(1,2)] by simp
  next
    case False
    with answer_progress [OF Cons.prems(1,2), of r] obtain j' where
      "queue_inv (answer i r q)" "js_get (jobs (answer i r q)) i = Some j'" "pending j' < pending j"
      by blast
    with Cons.IH [of "answer i r q" j'] Cons.prems(3) show ?thesis by simp
  qed
qed

lemma pending_bound: "pending j \<le> 2 * length (cmds j)"
  by (auto simp: pending_def split: suspension.split)

section \<open>What a step does to a job\<close>

lemma submissions_break [simp]: "submissions (break_stopped j) = submissions j"
  by (simp add: break_stopped_def)

lemma submissions_request_stop [simp]: "submissions (request_stop now j) = submissions j"
  by (simp add: request_stop_def)

lemma stopped_after_wait:
  "stopRequested (job_value j) \<Longrightarrow> submissions (after_wait now r i j) = submissions j"
  by (simp add: after_wait_def shouldContinue_def)

lemma stopped_after_execute:
  assumes "stopRequested (job_value j)"
  shows "submissions (after_execute now outcome i j) = submissions j"
proof -
  have "stopRequested (job_value (record_outcome now outcome i j))"
    using assms same_job_record_outcome [of j now outcome i] by (simp add: same_job_def)
  then show ?thesis by (simp add: after_execute_def record_outcome_def Let_def)
qed

text \<open>How an operation may change the entry of a job that is not its own segment.\<close>

definition untouched_job :: "(string, job) js_map \<Rightarrow> (string, job) js_map \<Rightarrow> string \<Rightarrow> bool" where
  "untouched_job m m' i \<longleftrightarrow>
     (\<forall>j j'. js_get m i = Some j \<longrightarrow> js_get m' i = Some j' \<longrightarrow>
        submissions j' = submissions j \<and>
        (stopRequested (job_value j) \<longrightarrow> stopRequested (job_value j')))"

lemma untouched_jobD:
  "untouched_job m m' i \<Longrightarrow> js_get m i = Some j \<Longrightarrow> js_get m' i = Some j' \<Longrightarrow>
   stopRequested (job_value j) \<Longrightarrow> submissions j' = submissions j \<and> stopRequested (job_value j')"
  by (simp add: untouched_job_def)

lemma untouched_job_refl [simp]: "untouched_job m m i"
  by (simp add: untouched_job_def)

lemma untouched_job_trans:
  assumes "untouched_job m m' i" and "untouched_job m' m'' i"
    and "js_get m' i = None \<Longrightarrow> js_get m'' i = None"
  shows "untouched_job m m'' i"
  using assms unfolding untouched_job_def by (metis not_None_eq)

lemma untouched_job_set_other: "i \<noteq> i' \<Longrightarrow> untouched_job m m' i \<Longrightarrow> untouched_job m (js_set i' j m') i"
  unfolding untouched_job_def by (simp only: js_get_set fun_upd_other not_False_eq_True)

lemma untouched_job_new: "js_get m i = None \<Longrightarrow> untouched_job m m' i"
  by (simp add: untouched_job_def)

lemma untouched_job_request_stop: "js_get m i' = Some j \<Longrightarrow> untouched_job m (js_set i' (request_stop now j) m) i"
  unfolding untouched_job_def
  by (intro allI impI) (cases "i' = i", auto simp: request_stop_def)

lemma untouched_job_prune: "queue_inv q \<Longrightarrow> untouched_job (jobs q) (jobs (fst (prune now q))) i"
  by (auto simp: untouched_job_def prune_fst queue_inv_def maps_ok_def js_get_filter_Some)

lemma untouched_job_settle:
  "untouched_job m (jobs q) i \<Longrightarrow> i \<noteq> i' \<Longrightarrow> untouched_job m (jobs (settle now i' j q)) i"
  by (simp add: settle_def finish_def untouched_job_set_other)

lemma untouched_job_stopAccount: "untouched_job (jobs q) (jobs (stopAccount now a q)) i"
  by (simp add: stopAccount_def Let_def untouched_job_request_stop split: option.split)

lemma stopAccount_get_None:
  "js_get (jobs (stopAccount now a q)) i = None \<longleftrightarrow> js_get (jobs q) i = None"
  by (auto simp: stopAccount_def Let_def split: option.split)

lemma untouched_job_shutdown: "untouched_job (jobs q) (jobs (shutdown now q)) i"
proof -
  have "untouched_job (jobs q) (jobs (fold (stopAccount now) as q)) i \<and>
      (js_get (jobs (fold (stopAccount now) as q)) i = None \<longleftrightarrow> js_get (jobs q) i = None)" for as
  proof (induction as arbitrary: q)
    case (Cons a as)
    have "untouched_job (jobs q) (jobs (fold (stopAccount now) as (stopAccount now a q))) i"
      by (rule untouched_job_trans [OF untouched_job_stopAccount conjunct1 [OF Cons]])
        (simp add: conjunct2 [OF Cons] stopAccount_get_None)
    then show ?case by (simp add: conjunct2 [OF Cons] stopAccount_get_None)
  qed simp
  then show ?thesis by (simp add: shutdown_def)
qed

lemma untouched_job_create:
  assumes "queue_inv q"
  shows "untouched_job (jobs q) (jobs (fst (create now uuid a actor k cur cs delay q))) i"
proof -
  have "untouched_job (jobs q) (jobs q1) i" if "prune now q = (q1, r)" for q1 r
    using untouched_job_prune [OF assms, of now i] that by simp
  then show ?thesis
    by (simp add: create_def Let_def split: sum.split prod.split)
qed

lemma untouched_job_confirm:
  assumes inv: "queue_inv q" and fresh: "js_get (jobs q) uuid = None"
  shows "untouched_job (jobs q) (jobs (fst (confirm now uuid a actor tok q))) i"
proof (cases "confirm now uuid a actor tok q")
  case (Pair q' r)
  let ?q1 = "q\<lparr>previews := js_delete tok (previews q)\<rparr>"
  have p: "untouched_job (jobs q) (jobs (fst (prune now ?q1))) i"
    using untouched_job_prune [OF queue_inv_delete_preview [OF inv], of tok now i] by simp
  show ?thesis
  proof (cases r)
    case (Inl e)
    with Pair confirm_Inl [of now uuid a actor tok q q' e] p show ?thesis by auto
  next
    case (Inr v)
    with Pair have "confirm now uuid a actor tok q = (q', Inr v)" by simp
    then obtain entry q2 u where "prune now ?q1 = (q2, Inr u)" and
      "q' = settle now uuid (run_loop now (new_job now uuid a actor entry) 0 False)
              (q2\<lparr>active := js_set a uuid (active q2)\<rparr>)"
      by (rule confirm_Inr)
    with p fresh Pair show ?thesis
      by (cases "i = uuid") (simp_all add: untouched_job_new untouched_job_settle)
  qed
qed

lemma settle_job:
  assumes "js_get (jobs (settle now i' s q)) i = Some j'" and "js_get (jobs q) i = Some j"
  shows "j' = j \<or> (i' = i \<and> (j' = s \<or> j' = finished_job now s))"
  using assms by (cases "i' = i") (simp_all add: settle_def finish_def split: if_splits)

lemma wait_settled_job:
  assumes j: "js_get (jobs q) i = Some j"
    and j': "js_get (jobs (wait_settled now i' r q)) i = Some j'"
  shows "j' = j \<or> (\<exists>k. j' = after_wait now r k j \<or> j' = finished_job now (after_wait now r k j))"
proof (cases "\<exists>s k. js_get (jobs q) i' = Some s \<and> point s = At_wait k")
  case True
  then obtain s k where s: "js_get (jobs q) i' = Some s" "point s = At_wait k" by blast
  then have "wait_settled now i' r q = settle now i' (after_wait now r k s) q"
    by (simp add: wait_settled_def)
  with settle_job [of now i' "after_wait now r k s" q i j' j] j j' s(1) show ?thesis by auto
next
  case False
  then have "wait_settled now i' r q = q"
    by (simp add: wait_settled_def split: option.split suspension.split)
  with j j' show ?thesis by simp
qed

lemma execute_settled_job:
  assumes j: "js_get (jobs q) i = Some j"
    and j': "js_get (jobs (execute_settled now i' r q)) i = Some j'"
  shows "j' = j \<or> (\<exists>k. j' = after_execute now r k j \<or> j' = finished_job now (after_execute now r k j))"
proof (cases "\<exists>s k. js_get (jobs q) i' = Some s \<and> point s = At_execute k")
  case True
  then obtain s k where s: "js_get (jobs q) i' = Some s" "point s = At_execute k" by blast
  then have "execute_settled now i' r q = settle now i' (after_execute now r k s) q"
    by (simp add: execute_settled_def)
  with settle_job [of now i' "after_execute now r k s" q i j' j] j j' s(1) show ?thesis by auto
next
  case False
  then have "execute_settled now i' r q = q"
    by (simp add: execute_settled_def split: option.split suspension.split)
  with j j' show ?thesis by simp
qed

lemma untouched_job_stop: "untouched_job (jobs q) (jobs (fst (stop now a actor i' q))) i"
  by (auto simp: stop_def Let_def js_set_same untouched_job_request_stop split: sum.split option.split)

lemma stopped_step:
  assumes step: "batch_step q q'" and inv: "queue_inv q"
    and j: "js_get (jobs q) i = Some j" and st: "stopRequested (job_value j)"
    and j': "js_get (jobs q') i = Some j'"
  shows "submissions j' = submissions j \<and> stopRequested (job_value j')"
  using step
proof cases
  case (step_create uuid now a actor k cur cs delay)
  show ?thesis
    using untouched_jobD [OF untouched_job_create [OF inv] j j' [unfolded step_create(1)] st] .
next
  case (step_confirm uuid now a actor tok)
  show ?thesis
    using untouched_jobD [OF untouched_job_confirm [OF inv step_confirm(2)] j
        j' [unfolded step_confirm(1)] st] .
next
  case (step_wait now i' r)
  have "stopRequested (job_value (after_wait now r k j))" for k
    using same_job_after_wait [of j now r k] st by (simp add: same_job_def)
  with wait_settled_job [OF j j' [unfolded step_wait]] stopped_after_wait [OF st] st
  show ?thesis by auto
next
  case (step_execute now i' outcome)
  have "stopRequested (job_value (after_execute now outcome k j))" for k
    using same_job_after_execute [of j now outcome k] st by (simp add: same_job_def)
  with execute_settled_job [OF j j' [unfolded step_execute]] stopped_after_execute [OF st] st
  show ?thesis by auto
next
  case (step_stop now a actor i')
  show ?thesis using untouched_jobD [OF untouched_job_stop j j' [unfolded step_stop] st] .
next
  case (step_stopAccount now a)
  show ?thesis using untouched_jobD [OF untouched_job_stopAccount j j' [unfolded step_stopAccount] st] .
next
  case (step_shutdown now)
  show ?thesis using untouched_jobD [OF untouched_job_shutdown j j' [unfolded step_shutdown] st] .
qed

section \<open>Properties\<close>

definition example_row :: batch_row where
  "example_row =
     \<lparr>row_assetId = Some ''1'', row_variantId = None, row_listingId = None, row_name = ''Card'',
      row_quantity = 1, row_buyerPays = Some 100, row_sellerReceives = Some 88,
      row_steamFee = Some 4, row_publisherFee = Some 8, row_status = Ready, row_message = None\<rparr>"

definition example_commands :: "batch_command list" where
  "example_commands =
     [\<lparr>row = example_row, has_execute = True\<rparr>, \<lparr>row = example_row, has_execute = False\<rparr>,
      \<lparr>row = example_row, has_execute = True\<rparr>]"

definition example_prepared_queue :: batch_queue where
  "example_prepared_queue =
     fst (create 0 ''token'' ''account'' ''admin'' Sale None example_commands 10 empty_queue)"

definition example_running_queue :: batch_queue where
  "example_running_queue =
     fst (confirm 1000 ''job'' ''account'' ''admin'' ''token'' example_prepared_queue)"

definition example_stopped_queue :: batch_queue where
  "example_stopped_queue = fst (stop 2000 ''account'' ''admin'' ''job'' example_running_queue)"

definition example_result :: action_result where
  "example_result =
     \<lparr>res_ok = True, res_listingId = Some ''L'', res_pendingConfirmation = False, res_message = ''Listed.''\<rparr>"

lemma example_prepared_reachable: "batch_reachable example_prepared_queue"
  unfolding example_prepared_queue_def
  by (intro reach_step [OF reach_empty] step_create) (simp add: empty_queue_def)

lemma example_running_reachable: "batch_reachable example_running_queue"
proof -
  have "js_get (jobs example_prepared_queue) ''job'' = None" by code_simp
  then show ?thesis
    unfolding example_running_queue_def
    by (intro reach_step [OF example_prepared_reachable] step_confirm)
qed

lemma example_stopped_reachable: "batch_reachable example_stopped_queue"
  unfolding example_stopped_queue_def by (intro reach_step [OF example_running_reachable] step_stop)

lemma example_running_job:
  "\<exists>j. js_get (jobs example_running_queue) ''job'' = Some j \<and> submissions j = [0] \<and>
       finishedAt j = None \<and> length (cmds j) = 3"
  unfolding holds_at_iff [symmetric] by code_simp

lemma example_stopped_job:
  "\<exists>j. js_get (jobs example_stopped_queue) ''job'' = Some j \<and> submissions j = [0] \<and>
       stopRequested (job_value j)"
  unfolding holds_at_iff [symmetric] by code_simp

text \<open>
  C3: No item of a confirmed batch is ever submitted twice, and none out of order. In every
  reachable queue the calls of \<open>execute\<close> of a job form a prefix of the list of its executable
  items in order, hence a strictly increasing sequence of indices.
\<close>

theorem batch_submits_each_item_once:
  assumes "batch_reachable q" and "js_get (jobs q) i = Some j"
  shows "prefix (submissions j) (filter (\<lambda>k. has_execute (commands (job_entry j) ! k))
             [0..<length (commands (job_entry j))]) \<and> sorted_wrt (<) (submissions j)"
proof -
  have eq: "(\<lambda>k. has_execute (commands (job_entry j) ! k)) = executable j"
    by (simp add: executable_def fun_eq_iff)
  have "job_listed q i j"
    using queue_inv_reachable [OF assms(1)] assms(2) by (simp add: queue_inv_def)
  then have seg: "segment_ok j" by (simp add: job_listed_def job_ok_def)
  have "prefix (submissions j) (filter (executable j) [0..<length (cmds j)])"
  proof (cases "point j")
    case (At_wait k)
    with seg show ?thesis by (simp add: segment_ok_def head_ok_def prefix_filter_upt)
  next
    case (At_execute k)
    with seg have "submissions j = filter (executable j) [0..<Suc k]" "Suc k \<le> length (cmds j)"
      by (simp_all add: segment_ok_def exec_ok_def)
    then show ?thesis by (simp only: prefix_filter_upt)
  next
    case Returned
    with seg show ?thesis by (simp add: segment_ok_def returned_ok_def)
  qed
  then show ?thesis
    unfolding eq using prefix_sorted_wrt [OF _ strict_sorted_filter_upt] by blast
qed

theorem batch_submits_each_item_once_witness:
  "\<exists>j. js_get (jobs example_running_queue) ''job'' = Some j \<and> submissions j = [0] \<and>
       sorted_wrt (<) (submissions j)"
  using example_running_job batch_submits_each_item_once [OF example_running_reachable] by blast

text \<open>
  C4: Stopping is final. Once a stop of a job has been requested, by the user, for the account or by
  a fatal market error, no step of the queue whatsoever submits another item of it.
\<close>

theorem batch_stop_is_final:
  assumes "batch_reachable q" and "batch_step q q'"
    and "js_get (jobs q) i = Some j" and "stopRequested (job_value j)"
    and "js_get (jobs q') i = Some j'"
  shows "submissions j' = submissions j \<and> stopRequested (job_value j')"
  using stopped_step [OF assms(2) queue_inv_reachable [OF assms(1)] assms(3-5)] .

theorem batch_stop_is_final_witness:
  "\<exists>j. js_get (jobs (execute_settled 3000 ''job'' (Inr example_result) example_stopped_queue)) ''job''
         = Some j \<and> submissions j = [0] \<and> stopRequested (job_value j)"
proof -
  obtain j where j: "js_get (jobs example_stopped_queue) ''job'' = Some j" "submissions j = [0]"
    "stopRequested (job_value j)"
    using example_stopped_job by blast
  have "holds_at (jobs (execute_settled 3000 ''job'' (Inr example_result) example_stopped_queue))
      ''job'' (\<lambda>_. True)"
    by code_simp
  then obtain j' where j': "js_get (jobs (execute_settled 3000 ''job'' (Inr example_result)
      example_stopped_queue)) ''job'' = Some j'" unfolding holds_at_iff by blast
  from batch_stop_is_final [OF example_stopped_reachable step_execute j(1) j(3) j'] j(2) j'
  show ?thesis by simp
qed

text \<open>
  C5: At most one batch runs per account: in every reachable queue two unfinished jobs of the same
  account are the same job, the one \<open>active\<close> points to. Previews and jobs never exceed 200 each.
\<close>

theorem batch_runs_exclusively:
  assumes "batch_reachable q"
  shows "length (previews q) \<le> 200 \<and> length (jobs q) \<le> 200 \<and>
    (\<forall>i i' j j'. js_get (jobs q) i = Some j \<and> js_get (jobs q) i' = Some j' \<and>
       finishedAt j = None \<and> finishedAt j' = None \<and> job_account j = job_account j' \<longrightarrow>
       i = i' \<and> js_get (active q) (job_account j) = Some i)"
proof -
  have inv: "queue_inv q" by (rule queue_inv_reachable [OF assms])
  then have "js_get (active q) (job_account j) = Some i"
    if "js_get (jobs q) i = Some j" "finishedAt j = None" for i j
    using that by (simp add: queue_inv_def job_listed_def)
  moreover have "length (previews q) \<le> 200" "length (jobs q) \<le> 200"
    using inv by (auto simp: queue_inv_def maps_ok_def)
  ultimately show ?thesis by (metis option.inject)
qed

theorem batch_runs_exclusively_witness:
  "js_get (active example_running_queue) ''account'' = Some ''job'' \<and>
   length (jobs example_running_queue) \<le> 200"
proof -
  note h = batch_runs_exclusively [OF example_running_reachable]
  have "js_get (active example_running_queue) ''account'' = Some ''job''" by code_simp
  with h show ?thesis by simp
qed

text \<open>
  C6: Every run ends. Whatever the environment answers to the awaits of a job (timers, successes,
  failures, in any order and at any time), after at most two answers per item the job is finished,
  with every item settled, a full progress count and the status that its stop flag demands.
\<close>

theorem batch_run_terminates:
  assumes "batch_reachable q" and "js_get (jobs q) i = Some j"
    and "2 * length (commands (job_entry j)) \<le> length answers"
  shows "\<exists>j'. js_get (jobs (fold (answer i) answers q)) i = Some j' \<and> finishedAt j' \<noteq> None \<and>
    (\<forall>it\<in>set (job_items (job_value j')). item_status it \<notin> {Queued, Running}) \<and>
    completedCount (job_value j') = totalCount (job_value j') \<and>
    job_status (job_value j') = (if stopRequested (job_value j') then Job_stopped else Job_completed)"
proof -
  have "pending j \<le> length answers" using pending_bound [of j] assms(3) by simp
  from answers_finish [OF queue_inv_reachable [OF assms(1)] assms(2) this]
  obtain j' where "js_get (jobs (fold (answer i) answers q)) i = Some j'" "point j' = Returned" "job_ok j'"
    by blast
  then show ?thesis by (auto simp: job_ok_def closed_ok_def open_item_def)
qed

theorem batch_run_terminates_witness:
  "\<exists>j'. js_get (jobs (fold (answer ''job'') (replicate 6 (5000, True, Inr example_result))
      example_running_queue)) ''job'' = Some j' \<and> finishedAt j' \<noteq> None \<and>
      completedCount (job_value j') = totalCount (job_value j')"
proof -
  obtain j where j: "js_get (jobs example_running_queue) ''job'' = Some j" "length (cmds j) = 3"
    using example_running_job by blast
  then have "2 * length (cmds j) \<le> length (replicate 6 (5000 :: int, True, Inr example_result :: action_failure + action_result))"
    by simp
  from batch_run_terminates [OF example_running_reachable j(1) this] show ?thesis by blast
qed

text \<open>
  A confirmation needs the token's owner and is single-use. A batch starts only if the token
  names an unexpired preview of the same account and the same actor with an eligible item, while
  no batch of the account runs; and after any confirmation by its owner, successful or refused,
  the token is worthless.
\<close>

theorem batch_confirmation_single_use:
  assumes "batch_reachable q"
  shows "(\<forall>q' v. confirm now uuid a actor tok q = (q', Inr v) \<longrightarrow>
      (\<exists>entry. js_get (previews q) tok = Some entry \<and> prep_account entry = a \<and>
         prep_actor entry = actor \<and> now < expiresAt (preview entry) \<and>
         list_ex has_execute (commands entry) \<and> js_get (active q) a = None)) \<and>
    (\<forall>entry. js_get (previews q) tok = Some entry \<and> prep_account entry = a \<and>
       prep_actor entry = actor \<longrightarrow>
       snd (confirm now2 uuid2 a2 actor2 tok (fst (confirm now uuid a actor tok q))) = Inl Preview_invalid)"
proof (intro conjI allI impI)
  fix q' v
  assume "confirm now uuid a actor tok q = (q', Inr v)"
  then show "\<exists>entry. js_get (previews q) tok = Some entry \<and> prep_account entry = a \<and>
         prep_actor entry = actor \<and> now < expiresAt (preview entry) \<and>
         list_ex has_execute (commands entry) \<and> js_get (active q) a = None"
    by (rule confirm_Inr) blast
next
  fix entry
  assume owner: "js_get (previews q) tok = Some entry \<and> prep_account entry = a \<and> prep_actor entry = actor"
  let ?q1 = "q\<lparr>previews := js_delete tok (previews q)\<rparr>"
  have ok: "js_map_ok (js_delete tok (previews q))"
    using queue_inv_reachable [OF assms] by (simp add: queue_inv_def maps_ok_def)
  have pruned: "js_get (previews (fst (prune now ?q1))) tok = None"
    by (simp add: prune_fst js_get_filter [OF ok])
  have settled: "previews (settle now i j q) = previews q" for i j q
    by (simp add: settle_def finish_def)
  have "js_get (previews (fst (confirm now uuid a actor tok q))) tok = None"
    using owner pruned by (auto simp: confirm_def Let_def settled split: sum.split prod.split)
  then show "snd (confirm now2 uuid2 a2 actor2 tok (fst (confirm now uuid a actor tok q))) = Inl Preview_invalid"
    by (simp add: confirm_def)
qed

theorem batch_confirmation_single_use_witness:
  "snd (confirm 1500 ''other'' ''account'' ''admin'' ''token''
      (fst (confirm 1000 ''job'' ''account'' ''admin'' ''token'' example_prepared_queue))) = Inl Preview_invalid"
proof -
  have "\<exists>entry. js_get (previews example_prepared_queue) ''token'' = Some entry \<and>
      prep_account entry = ''account'' \<and> prep_actor entry = ''admin''"
    unfolding holds_at_iff [symmetric] by code_simp
  with batch_confirmation_single_use [OF example_prepared_reachable, of 1000 "''job''" "''account''" "''admin''" "''token''"
      1500 "''other''" "''account''" "''admin''"]
  show ?thesis by blast
qed

end
