(* ===== verification/Calendar.thy ===== *)
theory Calendar
  imports Prelude
begin

text \<open>
  Dates and local times: what \<open>apps/server/src/steam/scheduler.ts\<close> uses of \<open>Date\<close> and
  \<open>Intl.DateTimeFormat\<close>, and its functions \<open>zonedDateParts\<close>, \<open>addLocalDays\<close> and
  \<open>zonedLocalTimeToEpoch\<close>.

  A date key (\<open>"2026-03-29"\<close> in the code) is the triple it renders, ordered as the text is.
  The days of the proleptic Gregorian calendar are counted as in ECMA-262, section 21.4.1.
  A time zone is the function \<open>offset\<close> of an instant that gives what the zone adds to UTC there;
  the time zone database of \<open>Intl\<close> is a parameter that resolves names, \<open>None\<close> standing for the
  \<open>RangeError\<close> of an unknown one. (The mapping of the two-digit years 0 to 99 by \<open>Date.UTC\<close> is left out.)
\<close>

section \<open>Calendar days\<close>

datatype date_key = Date_key (dk_year: int) (dk_month: int) (dk_day: int)

instantiation date_key :: linorder
begin

definition less_eq_date_key :: "date_key \<Rightarrow> date_key \<Rightarrow> bool" where
  "less_eq_date_key a b \<longleftrightarrow>
     dk_year a < dk_year b \<or>
     (dk_year a = dk_year b \<and>
      (dk_month a < dk_month b \<or> (dk_month a = dk_month b \<and> dk_day a \<le> dk_day b)))"

definition less_date_key :: "date_key \<Rightarrow> date_key \<Rightarrow> bool" where
  "less_date_key a b \<longleftrightarrow> a \<le> b \<and> \<not> b \<le> (a :: date_key)"

instance
  by standard (auto simp: less_eq_date_key_def less_date_key_def intro: date_key.expand)

end

definition is_leap :: "int \<Rightarrow> bool" where
  "is_leap y \<longleftrightarrow> (4 dvd y \<and> \<not> 100 dvd y) \<or> 400 dvd y"

definition day_from_year :: "int \<Rightarrow> int" where
  "day_from_year y =
     365 * (y - 1970) + (y - 1969) div 4 - (y - 1901) div 100 + (y - 1601) div 400"

definition month_starts :: "bool \<Rightarrow> int list" where
  "month_starts leap =
     (if leap then [0, 31, 60, 91, 121, 152, 182, 213, 244, 274, 305, 335]
      else [0, 31, 59, 90, 120, 151, 181, 212, 243, 273, 304, 334])"

text \<open>\<open>Date.UTC(year, month - 1, day)\<close> in days since the epoch; the month may overflow.\<close>

definition day_of_date :: "int \<Rightarrow> int \<Rightarrow> int \<Rightarrow> int" where
  "day_of_date year month day =
     (let y = year + (month - 1) div 12
      in day_from_year y + month_starts (is_leap y) ! nat ((month - 1) mod 12) + day - 1)"

definition year_of_day :: "int \<Rightarrow> int" where
  "year_of_day n =
     (let e = 1970 + (400 * n) div 146097
      in if day_from_year (e + 1) \<le> n then e + 1
         else if day_from_year e \<le> n then e else e - 1)"

definition date_of_day :: "int \<Rightarrow> date_key" where
  "date_of_day n =
     (let y = year_of_day n; k = n - day_from_year y;
          m = length (filter (\<lambda>s. s \<le> k) (month_starts (is_leap y)))
      in Date_key y (int m) (k - month_starts (is_leap y) ! (m - 1) + 1))"

definition day_of_key :: "date_key \<Rightarrow> int" where
  "day_of_key d = day_of_date (dk_year d) (dk_month d) (dk_day d)"

text \<open>The weekday of a day, Sunday being 0.\<close>

definition weekday_of_day :: "int \<Rightarrow> int" where
  "weekday_of_day n = (n + 4) mod 7"

section \<open>Local times\<close>

record date_parts =
  dateKey :: date_key
  hour :: int
  minute_of_hour :: int
  weekday :: int

type_synonym zone_offset = "millis \<Rightarrow> millis"
type_synonym zone_database = "string \<Rightarrow> zone_offset option"
type_synonym clock_time = "int \<times> int"

definition zonedDateParts :: "zone_offset \<Rightarrow> millis \<Rightarrow> date_parts" where
  "zonedDateParts offset t =
     (let l = t + offset t; n = l div one_day; m = (l mod one_day) div one_minute
      in \<lparr>dateKey = date_of_day n, hour = m div 60, minute_of_hour = m mod 60,
          weekday = weekday_of_day n\<rparr>)"

definition date_utc :: "date_key \<Rightarrow> int \<Rightarrow> int \<Rightarrow> millis" where
  "date_utc d h m = day_of_key d * one_day + h * one_hour + m * one_minute"

definition addLocalDays :: "date_key \<Rightarrow> int \<Rightarrow> date_key" where
  "addLocalDays d days = date_of_day (day_of_date (dk_year d) (dk_month d) (dk_day d + days))"

text \<open>The loop of \<open>zonedLocalTimeToEpoch\<close>, with the attempts that are left.\<close>

fun refine_epoch :: "nat \<Rightarrow> zone_offset \<Rightarrow> millis \<Rightarrow> millis \<Rightarrow> millis" where
  "refine_epoch 0 offset target candidate = candidate"
| "refine_epoch (Suc n) offset target candidate =
     (let p = zonedDateParts offset candidate;
          represented = date_utc (dateKey p) (hour p) (minute_of_hour p);
          correction = target - represented
      in if correction = 0 then candidate + correction
         else refine_epoch n offset target (candidate + correction))"

definition zonedLocalTimeToEpoch ::
    "zone_offset \<Rightarrow> date_key \<Rightarrow> clock_time \<Rightarrow> millis" where
  "zonedLocalTimeToEpoch offset d = (\<lambda>(h, m).
     let target = date_utc d h m in refine_epoch 3 offset target target)"

section \<open>The calendar counts days\<close>

lemma year_of_day_bounds:
  "day_from_year (year_of_day n) \<le> n \<and> n < day_from_year (year_of_day n + 1)"
proof -
  define e where "e = 1970 + (400 * n) div 146097"
  have floor: "k * (x div k) \<le> x \<and> x < k * (x div k) + k" if "0 < k" for x k :: int
    using that pos_mod_sign [of k x] pos_mod_bound [of k x] mult_div_mod_eq [of k x] by linarith
  have f4: "4 * (x div 4) \<le> x" "x < 4 * (x div 4) + 4"
    and f100: "100 * (x div 100) \<le> x" "x < 100 * (x div 100) + 100"
    and f400: "400 * (x div 400) \<le> x" "x < 400 * (x div 400) + 400" for x :: int
    using floor [of 4 x] floor [of 100 x] floor [of 400 x] by simp_all
  have arith: "146097 * (y - 1970) - 700 \<le> 400 * (365 * (y - 1970) + a - b + c)
      \<and> 400 * (365 * (y - 1970) + a - b + c) \<le> 146097 * (y - 1970) + 700"
    if "4 * a \<le> y - 1969" "y - 1969 < 4 * a + 4" "100 * b \<le> y - 1901" "y - 1901 < 100 * b + 100"
      "400 * c \<le> y - 1601" "y - 1601 < 400 * c + 400" for y a b c :: int
    using that by auto
  have bounds: "146097 * (y - 1970) - 700 \<le> 400 * day_from_year y
      \<and> 400 * day_from_year y \<le> 146097 * (y - 1970) + 700" for y
    unfolding day_from_year_def by (rule arith [OF f4 f100 f400])
  have e: "146097 * (e - 1970) \<le> 400 * n" "400 * n < 146097 * (e - 1970) + 146097"
    using floor [of 146097 "400 * n"] by (auto simp: e_def)
  have "day_from_year (e - 1) \<le> n" using bounds [of "e - 1"] e(1) by auto
  moreover have "n < day_from_year (e + 2)" using bounds [of "e + 2"] e(2) by auto
  ultimately show ?thesis
    by (auto simp: year_of_day_def Let_def e_def [symmetric] add.commute)
qed

lemma month_count:
  assumes "0 \<le> k"
  shows "1 \<le> length (filter (\<lambda>s. s \<le> k) (month_starts leap))
    \<and> length (filter (\<lambda>s. s \<le> k) (month_starts leap)) \<le> 12"
  using assms length_filter_le [of "\<lambda>s. s \<le> k" "month_starts leap"]
  by (auto simp: month_starts_def)

lemma day_of_date_of_day [simp]: "day_of_key (date_of_day n) = n"
proof -
  define y where "y = year_of_day n"
  define k where "k = n - day_from_year y"
  define m where "m = length (filter (\<lambda>s. s \<le> k) (month_starts (is_leap y)))"
  have "0 \<le> k" using year_of_day_bounds [of n] by (simp add: k_def y_def)
  then have m: "1 \<le> m" "m \<le> 12" using month_count [of k "is_leap y"] by (auto simp: m_def)
  then have div: "(int m - 1) div 12 = 0" and mod: "nat ((int m - 1) mod 12) = m - 1" by auto
  have "date_of_day n = Date_key y (int m) (k - month_starts (is_leap y) ! (m - 1) + 1)"
    by (simp add: date_of_day_def Let_def y_def k_def m_def)
  then show ?thesis
    by (simp add: day_of_key_def day_of_date_def div mod k_def)
qed

lemma addLocalDays_day [simp]: "day_of_key (addLocalDays d k) = day_of_key d + k"
  by (simp add: addLocalDays_def day_of_key_def [symmetric])
    (simp add: day_of_key_def day_of_date_def Let_def)

lemma addLocalDays_of_day: "addLocalDays (date_of_day n) k = date_of_day (n + k)"
proof -
  have "day_of_date (dk_year d) (dk_month d) (dk_day d + k) = day_of_key d + k" for d
    by (simp add: day_of_key_def day_of_date_def Let_def)
  then show ?thesis by (simp add: addLocalDays_def)
qed

section \<open>From local time to an instant\<close>

text \<open>Instants and offsets of the scheduler are whole minutes.\<close>

definition whole_minutes :: "millis \<Rightarrow> bool" where
  "whole_minutes t \<longleftrightarrow> one_minute dvd t"

lemma date_utc_parts:
  assumes "whole_minutes t" and "whole_minutes (offset t)"
  shows "date_utc (dateKey (zonedDateParts offset t)) (hour (zonedDateParts offset t))
           (minute_of_hour (zonedDateParts offset t)) = t + offset t"
proof -
  let ?l = "t + offset t"
  obtain q where q: "?l = one_minute * q"
    using assms by (metis dvd_add dvd_def whole_minutes_def)
  have mm: "(x mod 86400000) div 60000 * 60000 = x mod 86400000" if "x = 60000 * q" for x q :: int
    using that mult_mod_right [of 60000 q 1440, symmetric] by simp
  let ?m = "(?l mod one_day) div one_minute"
  have "(?m div 60) * one_hour + (?m mod 60) * one_minute = ?m * one_minute"
    using div_mult_mod_eq [of ?m 60] by linarith
  also have "\<dots> = ?l mod one_day" by (rule mm [OF q])
  finally have "(?m div 60) * one_hour + (?m mod 60) * one_minute = ?l mod one_day" .
  moreover have "date_utc (dateKey (zonedDateParts offset t)) (hour (zonedDateParts offset t))
      (minute_of_hour (zonedDateParts offset t))
    = ?l div one_day * one_day + ((?m div 60) * one_hour + (?m mod 60) * one_minute)"
    unfolding date_utc_def zonedDateParts_def Let_def
    by (simp only: date_parts.select_convs day_of_date_of_day add.assoc)
  ultimately show ?thesis using div_mult_mod_eq [of ?l one_day] by linarith
qed

lemma refine_epoch_Suc:
  assumes "whole_minutes c" and "whole_minutes (offset c)"
  shows "refine_epoch (Suc n) offset target c =
    (if target - offset c = c then c else refine_epoch n offset target (target - offset c))"
  by (simp add: date_utc_parts [where offset = offset, OF assms] Let_def del: One_nat_def)

lemma whole_minutes_diff [simp]:
  "whole_minutes a \<Longrightarrow> whole_minutes b \<Longrightarrow> whole_minutes (a - b)"
  by (simp add: whole_minutes_def dvd_diff)

lemma date_utc_whole [simp]: "whole_minutes (date_utc d h m)"
proof -
  have "date_utc d h m = one_minute * (day_of_key d * 1440 + h * 60 + m)"
    by (simp add: date_utc_def algebra_simps)
  then show ?thesis unfolding whole_minutes_def by (rule dvdI)
qed

text \<open>The zone has at most one change of its offset within a day of \<open>target\<close>.\<close>

definition one_change :: "zone_offset \<Rightarrow> millis \<Rightarrow> millis \<Rightarrow> millis \<Rightarrow> millis \<Rightarrow> bool" where
  "one_change offset target change before after \<longleftrightarrow>
     \<bar>before\<bar> \<le> one_day \<and> \<bar>after\<bar> \<le> one_day \<and> whole_minutes before \<and> whole_minutes after \<and>
     (\<forall>t. \<bar>t - target\<bar> \<le> one_day \<longrightarrow> offset t = (if t < change then before else after))"

lemma one_changeD:
  "one_change offset target change before after \<Longrightarrow> \<bar>t - target\<bar> \<le> one_day \<Longrightarrow>
   offset t = (if t < change then before else after)"
  by (simp add: one_change_def)

lemma refine_epoch_exact:
  assumes zone: "one_change offset target change before after"
    and target: "whole_minutes target"
    and exists: "target - before < change \<or> change \<le> target - after"
  shows "refine_epoch 3 offset target target + offset (refine_epoch 3 offset target target) = target"
proof -
  let ?A = "target - before" and ?B = "target - after"
  have whole: "whole_minutes before" "whole_minutes after"
    using zone by (simp_all add: one_change_def)
  have near: "\<bar>?A - target\<bar> \<le> one_day" "\<bar>?B - target\<bar> \<le> one_day" "\<bar>target - target\<bar> \<le> one_day"
    using zone by (simp_all add: one_change_def)
  have offs: "offset ?A = (if ?A < change then before else after)"
    "offset ?B = (if ?B < change then before else after)"
    "offset target = (if target < change then before else after)"
    using one_changeD [OF zone] near by blast+
  have wholes: "whole_minutes ?A" "whole_minutes ?B" "whole_minutes (offset ?A)"
    "whole_minutes (offset ?B)" "whole_minutes (offset target)"
    using whole target by (simp_all add: offs)
  note steps = refine_epoch_Suc [where offset = offset and c = target, OF target wholes(5)]
    refine_epoch_Suc [where offset = offset and c = ?A, OF wholes(1,3)]
    refine_epoch_Suc [where offset = offset and c = ?B, OF wholes(2,4)]
  have three: "3 = Suc (Suc (Suc 0))" by simp
  show ?thesis
  proof (cases "target < change")
    case True
    have "refine_epoch 3 offset target target = (if ?A < change then ?A else ?B)"
      using exists True unfolding three by (auto simp: steps offs simp del: refine_epoch.simps(2))
    then show ?thesis using exists offs by (auto split: if_splits)
  next
    case False
    have "refine_epoch 3 offset target target = (if change \<le> ?B then ?B else ?A)"
      using exists False unfolding three by (auto simp: steps offs simp del: refine_epoch.simps(2))
    then show ?thesis using exists offs by (auto split: if_splits)
  qed
qed

lemma parts_of_local:
  assumes "t + offset t = date_utc d h m"
    and "0 \<le> h" "h < 24" "0 \<le> m" "m < 60"
  shows "zonedDateParts offset t =
    \<lparr>dateKey = date_of_day (day_of_key d), hour = h, minute_of_hour = m,
     weekday = weekday_of_day (day_of_key d)\<rparr>"
proof -
  let ?r = "h * one_hour + m * one_minute"
  have sum: "t + offset t = ?r + day_of_key d * one_day"
    using assms(1) by (simp add: date_utc_def)
  have r: "0 \<le> ?r" "?r < one_day" using assms(2-) by auto
  have n: "(t + offset t) div one_day = day_of_key d"
    unfolding sum using r by (simp add: div_pos_pos_trivial)
  have "(t + offset t) mod one_day = ?r" unfolding sum using r by simp
  moreover have "?r = one_minute * (h * 60 + m)" by simp
  ultimately have m: "(t + offset t) mod one_day div one_minute = h * 60 + m"
    by (simp only: nonzero_mult_div_cancel_left)
  have "(h * 60 + m) div 60 = h" "(h * 60 + m) mod 60 = m"
    using assms(4,5) by (simp_all add: div_pos_pos_trivial)
  with n m show ?thesis by (simp only: zonedDateParts_def Let_def)
qed

text \<open>
  C11: In a zone that changes its offset at most once within a day of the asked wall-clock time
  (a daylight-saving switch), \<open>zonedLocalTimeToEpoch\<close> returns, after its at most three
  corrections, an instant at which the zone's clock shows exactly the asked date and time,
  whenever such an instant exists (that is, unless the time falls into the skipped hour).
\<close>

theorem zonedLocalTimeToEpoch_exact:
  assumes "one_change offset (date_utc d h m) change before after"
    and "t + offset t = date_utc d h m" and "\<bar>t - date_utc d h m\<bar> \<le> one_day"
    and "0 \<le> h" "h < 24" "0 \<le> m" "m < 60"
  shows "zonedDateParts offset (zonedLocalTimeToEpoch offset d (h, m)) =
    \<lparr>dateKey = date_of_day (day_of_key d), hour = h, minute_of_hour = m,
     weekday = weekday_of_day (day_of_key d)\<rparr>"
proof -
  have "date_utc d h m - before < change \<or> change \<le> date_utc d h m - after"
    using assms(2) one_changeD [OF assms(1,3)] by (cases "t < change") auto
  then have "zonedLocalTimeToEpoch offset d (h, m) + offset (zonedLocalTimeToEpoch offset d (h, m))
      = date_utc d h m"
    using refine_epoch_exact [OF assms(1) date_utc_whole]
    by (simp add: zonedLocalTimeToEpoch_def Let_def del: refine_epoch.simps)
  then show ?thesis by (rule parts_of_local) (use assms in auto)
qed

definition spring_zone :: zone_offset where
  "spring_zone t = (if t < 1774746000000 then one_hour else 2 * one_hour)"

theorem zonedLocalTimeToEpoch_exact_witness:
  "zonedDateParts spring_zone (zonedLocalTimeToEpoch spring_zone (Date_key 2026 3 29) (3, 15)) =
    \<lparr>dateKey = date_of_day (day_of_key (Date_key 2026 3 29)), hour = 3, minute_of_hour = 15,
     weekday = weekday_of_day (day_of_key (Date_key 2026 3 29))\<rparr>"
proof (rule zonedLocalTimeToEpoch_exact
    [where change = 1774746000000 and before = one_hour and after = "2 * one_hour"
      and t = 1774746900000])
  have day: "day_of_key (Date_key 2026 3 29) = 20541" by code_simp
  show "one_change spring_zone (date_utc (Date_key 2026 3 29) 3 15) 1774746000000 one_hour
      (2 * one_hour)"
    by (simp add: one_change_def spring_zone_def whole_minutes_def)
  show "1774746900000 + spring_zone 1774746900000 = date_utc (Date_key 2026 3 29) 3 15"
    and "\<bar>1774746900000 - date_utc (Date_key 2026 3 29) 3 15\<bar> \<le> one_day"
    by (simp_all add: spring_zone_def date_utc_def day)
qed simp_all

end
