(* ===== verification/Scheduler.thy ===== *)
theory Scheduler
  imports Calendar
begin

text \<open>
  Schedule windows: \<open>apps/server/src/steam/scheduler.ts\<close>.

  \<open>schedule\<close> is a row of the table \<open>boost_schedule\<close>. Its times of day (\<open>"HH:mm"\<close>, the only
  texts \<open>timeSchema\<close> admits) are pairs of hour and minute, whose order is the order of the
  texts. \<open>weekdaysJson\<close> is what \<open>JSON.parse\<close> makes of the column: \<open>None\<close> when it throws or the
  value is not an array. A window id (\<open>"<schedule>:<date>:<start>-<end>"\<close>) is the tuple it renders.
\<close>

section \<open>Data\<close>

type_synonym schedule_id = string

text \<open>An element of a parsed JSON array: a number, or a value of another type.\<close>

datatype json_item = Number_item js_number | Other_item

datatype window_id =
  Window_id (w_schedule: schedule_id) (w_date: date_key) (w_start: clock_time) (w_end: clock_time)

record schedule =
  id :: schedule_id
  accountId :: account_id
  presetId :: string
  name :: string
  enabled :: bool
  weekdaysJson :: "json_item list option"
  startTime :: clock_time
  endTime :: clock_time
  timezone :: string
  lastStartedWindow :: "window_id option"
  lastStoppedWindow :: "window_id option"
  updatedAt :: millis

record window_state =
  active :: bool
  windowId :: "window_id option"
  windowStartedAt :: "millis option"

datatype range_error = Invalid_time_zone string

section \<open>Operations\<close>

fun weekday_item :: "json_item \<Rightarrow> bool" where
  "weekday_item (Number_item n) \<longleftrightarrow> is_integer n \<and> 0 \<le> int_of n \<and> int_of n \<le> 6"
| "weekday_item _ \<longleftrightarrow> False"

fun number_item :: "json_item \<Rightarrow> int" where
  "number_item (Number_item n) = int_of n"
| "number_item _ = 0"

definition parseWeekdays :: "json_item list option \<Rightarrow> int list" where
  "parseWeekdays json =
     (case json of None \<Rightarrow> []
      | Some items \<Rightarrow> js_unique (map number_item (filter weekday_item items)))"

fun timeToMinute :: "clock_time \<Rightarrow> int" where
  "timeToMinute (h, m) = h * 60 + m"

definition inactiveWindow :: window_state where
  "inactiveWindow = \<lparr>active = False, windowId = None, windowStartedAt = None\<rparr>"

definition isValidTimeZone :: "zone_database \<Rightarrow> string \<Rightarrow> bool" where
  "isValidTimeZone tz z \<longleftrightarrow> tz z \<noteq> None"

definition window_id_of :: "schedule \<Rightarrow> date_key \<Rightarrow> window_id" where
  "window_id_of s d = Window_id (id s) d (startTime s) (endTime s)"

definition active_window :: "zone_offset \<Rightarrow> schedule \<Rightarrow> date_key \<Rightarrow> window_state" where
  "active_window offset s d =
     \<lparr>active = True, windowId = Some (window_id_of s d),
      windowStartedAt = Some (zonedLocalTimeToEpoch offset d (startTime s))\<rparr>"

definition window_at :: "zone_offset \<Rightarrow> schedule \<Rightarrow> int list \<Rightarrow> millis \<Rightarrow> window_state" where
  "window_at offset s weekdays now =
     (let parts = zonedDateParts offset now;
          minute = timeToMinute (hour parts, minute_of_hour parts);
          startMinute = timeToMinute (startTime s);
          endMinute = timeToMinute (endTime s);
          previousWeekday = (weekday parts + 6) mod 7
      in if \<not> startMinute > endMinute then
           if weekday parts \<in> set weekdays \<and> minute \<ge> startMinute \<and> minute < endMinute
           then active_window offset s (dateKey parts) else inactiveWindow
         else if weekday parts \<in> set weekdays \<and> minute \<ge> startMinute
         then active_window offset s (dateKey parts)
         else if previousWeekday \<in> set weekdays \<and> minute < endMinute
         then active_window offset s (addLocalDays (dateKey parts) (- 1))
         else inactiveWindow)"

definition evaluateScheduleWindow ::
    "zone_database \<Rightarrow> schedule \<Rightarrow> millis \<Rightarrow> range_error + window_state" where
  "evaluateScheduleWindow tz s now =
     (let weekdays = parseWeekdays (weekdaysJson s)
      in if weekdays = [] then Inr inactiveWindow
         else case tz (timezone s) of
           None \<Rightarrow> Inl (Invalid_time_zone (timezone s))
         | Some offset \<Rightarrow> Inr (window_at offset s weekdays now))"

text \<open>\<open>compare\<close> is \<open>localeCompare\<close> of the identifiers.\<close>

type_synonym schedule_entry = "schedule \<times> window_state option"

definition runnable_entry :: "schedule_entry \<Rightarrow> bool" where
  "runnable_entry e =
     (case snd e of None \<Rightarrow> False
      | Some st \<Rightarrow> active st \<and> windowId st \<noteq> None \<and> windowStartedAt st \<noteq> None)"

definition entry_start :: "schedule_entry \<Rightarrow> millis" where
  "entry_start e =
     (case snd e of None \<Rightarrow> 0
      | Some st \<Rightarrow> (case windowStartedAt st of None \<Rightarrow> 0 | Some t \<Rightarrow> t))"

definition winner_order ::
    "(string \<Rightarrow> string \<Rightarrow> int) \<Rightarrow> schedule_entry \<Rightarrow> schedule_entry \<Rightarrow> int" where
  "winner_order compare left right =
     or_else (entry_start right - entry_start left)
       (or_else (updatedAt (fst right) - updatedAt (fst left))
         (compare (id (fst right)) (id (fst left))))"

definition first_of :: "'a list \<Rightarrow> 'a option" where
  "first_of xs = (case xs of [] \<Rightarrow> None | x # _ \<Rightarrow> Some x)"

definition selectScheduleWinner ::
    "(string \<Rightarrow> string \<Rightarrow> int) \<Rightarrow> schedule_entry list \<Rightarrow> schedule_entry option" where
  "selectScheduleWinner compare entries =
     first_of (js_sort (winner_order compare) (filter runnable_entry entries))"

section \<open>Weekdays\<close>

lemma parseWeekdays_valid: "w \<in> set (parseWeekdays json) \<Longrightarrow> 0 \<le> w \<and> w \<le> 6"
proof -
  have "weekday_item i \<Longrightarrow> 0 \<le> number_item i \<and> number_item i \<le> 6" for i
    by (cases i) auto
  then show "w \<in> set (parseWeekdays json) \<Longrightarrow> 0 \<le> w \<and> w \<le> 6"
    by (auto simp: parseWeekdays_def split: option.splits)
qed

lemma distinct_parseWeekdays: "distinct (parseWeekdays json)"
  by (simp add: parseWeekdays_def split: option.split)

lemma parseWeekdays_numbers:
  "set (parseWeekdays (Some items)) = {k. Number_item (Whole k) \<in> set items \<and> 0 \<le> k \<and> k \<le> 6}"
proof -
  have "weekday_item i \<longleftrightarrow> (\<exists>k. i = Number_item (Whole k) \<and> 0 \<le> k \<and> k \<le> 6)" for i
  proof (cases i)
    case (Number_item n)
    then show ?thesis by (cases n) auto
  qed auto
  then show ?thesis by (force simp: parseWeekdays_def)
qed

section \<open>Windows\<close>

text \<open>
  The abstract view: counting local minutes, the window of day \<open>d\<close> lasts from its start to its
  end, on the next day when the end is the earlier time of day.
\<close>

definition local_minute :: "zone_offset \<Rightarrow> millis \<Rightarrow> int" where
  "local_minute offset t = (t + offset t) div one_minute"

definition window_start_minute :: "schedule \<Rightarrow> int \<Rightarrow> int" where
  "window_start_minute s d = d * 1440 + timeToMinute (startTime s)"

definition window_end_minute :: "schedule \<Rightarrow> int \<Rightarrow> int" where
  "window_end_minute s d =
     (if timeToMinute (startTime s) > timeToMinute (endTime s) then d + 1 else d) * 1440
       + timeToMinute (endTime s)"

definition in_window :: "schedule \<Rightarrow> int \<Rightarrow> int \<Rightarrow> bool" where
  "in_window s d l \<longleftrightarrow>
     weekday_of_day d \<in> set (parseWeekdays (weekdaysJson s)) \<and>
     window_start_minute s d \<le> l \<and> l < window_end_minute s d"

fun time_ok :: "clock_time \<Rightarrow> bool" where
  "time_ok (h, m) \<longleftrightarrow> 0 \<le> h \<and> h < 24 \<and> 0 \<le> m \<and> m < 60"

definition schedule_ok :: "schedule \<Rightarrow> bool" where
  "schedule_ok s \<longleftrightarrow> time_ok (startTime s) \<and> time_ok (endTime s)"

lemma timeToMinute_range: "time_ok t \<Longrightarrow> 0 \<le> timeToMinute t \<and> timeToMinute t < 1440"
  by (cases t) auto

lemma in_window_unique:
  assumes "schedule_ok s" "in_window s d l" "in_window s d' l"
  shows "d = d'"
  using assms timeToMinute_range [of "startTime s"] timeToMinute_range [of "endTime s"]
  by (auto simp: schedule_ok_def in_window_def window_start_minute_def window_end_minute_def
      split: if_splits)

lemma parts_of_minute:
  assumes "l = local_minute offset now"
  shows "zonedDateParts offset now =
    \<lparr>dateKey = date_of_day (l div 1440), hour = l mod 1440 div 60, minute_of_hour = l mod 60,
     weekday = weekday_of_day (l div 1440)\<rparr>"
proof -
  let ?x = "now + offset now"
  have a: "?x div one_day = l div 1440"
    using assms zdiv_zmult2_eq [of 1440 ?x one_minute] by (simp add: local_minute_def)
  have "?x mod (one_minute * 1440) = one_minute * (?x div one_minute mod 1440) + ?x mod one_minute"
    by (rule zmod_zmult2_eq) simp
  then have b: "?x mod one_day div one_minute = l mod 1440"
    using assms by (simp add: local_minute_def)
  have "l mod 1440 mod 60 = l mod 60" by (simp add: mod_mod_cancel)
  with a b show ?thesis by (simp only: zonedDateParts_def Let_def)
qed

lemma timeToMinute_parts: "timeToMinute (l mod 1440 div 60, l mod 60) = (l mod 1440 :: int)"
proof -
  have "l mod 1440 mod 60 = l mod 60" by (simp add: mod_mod_cancel)
  then show ?thesis using div_mult_mod_eq [of "l mod 1440" 60] by simp
qed

lemma weekday_previous: "(weekday_of_day d + 6) mod 7 = weekday_of_day (d - 1)"
  unfolding weekday_of_day_def by presburger

lemma minute_window:
  fixes q r d a b :: int
  assumes "0 \<le> r" "r < 1440" "0 \<le> a" "a < 1440" "0 \<le> b" "b < 1440"
  shows "(d * 1440 + a \<le> q * 1440 + r \<and> q * 1440 + r < (if a > b then d + 1 else d) * 1440 + b)
    \<longleftrightarrow> (if a > b then (d = q \<and> a \<le> r) \<or> (d = q - 1 \<and> r < b) else d = q \<and> a \<le> r \<and> r < b)"
proof -
  consider "d \<le> q - 2" | "d = q - 1" | "d = q" | "q + 1 \<le> d" by linarith
  then show ?thesis by cases (use assms in auto)
qed

text \<open>The window that contains local minute \<open>l\<close>, from the day's two candidates.\<close>

lemma in_window_cases:
  assumes "schedule_ok s"
  shows "in_window s d l \<longleftrightarrow>
    weekday_of_day d \<in> set (parseWeekdays (weekdaysJson s)) \<and>
    (if timeToMinute (startTime s) > timeToMinute (endTime s)
     then (d = l div 1440 \<and> timeToMinute (startTime s) \<le> l mod 1440) \<or>
          (d = l div 1440 - 1 \<and> l mod 1440 < timeToMinute (endTime s))
     else d = l div 1440 \<and> timeToMinute (startTime s) \<le> l mod 1440 \<and>
          l mod 1440 < timeToMinute (endTime s))"
proof -
  have "0 \<le> l mod 1440" "l mod 1440 < 1440" by simp_all
  note window = minute_window [OF this, where q = "l div 1440" and d = d
      and a = "timeToMinute (startTime s)" and b = "timeToMinute (endTime s)"]
  show ?thesis
    unfolding in_window_def window_start_minute_def window_end_minute_def
    using window timeToMinute_range [of "startTime s"] timeToMinute_range [of "endTime s"] assms
    by (simp add: schedule_ok_def)
qed

lemma window_at_iff:
  assumes ok: "schedule_ok s" and l: "l = local_minute offset now"
    and in_w: "in_window s d l"
  shows "window_at offset s (parseWeekdays (weekdaysJson s)) now
    = active_window offset s (date_of_day d)"
  using in_w unfolding in_window_cases [OF ok]
  by (auto simp: window_at_def Let_def parts_of_minute [OF l] timeToMinute_parts weekday_previous
      addLocalDays_of_day simp del: timeToMinute.simps split: if_splits)

lemma window_at_inactive:
  assumes ok: "schedule_ok s" and l: "l = local_minute offset now"
    and none: "\<And>d. \<not> in_window s d l"
  shows "window_at offset s (parseWeekdays (weekdaysJson s)) now = inactiveWindow"
  using none [of "l div 1440"] none [of "l div 1440 - 1"] unfolding in_window_cases [OF ok]
  by (auto simp: window_at_def Let_def parts_of_minute [OF l] timeToMinute_parts weekday_previous
      simp del: timeToMinute.simps split: if_splits)

lemma evaluate_cases:
  assumes "schedule_ok s" "tz (timezone s) = Some offset"
    and "evaluateScheduleWindow tz s now = Inr st"
  shows "(\<exists>d. in_window s d (local_minute offset now) \<and> st = active_window offset s (date_of_day d))
    \<or> ((\<forall>d. \<not> in_window s d (local_minute offset now)) \<and> st = inactiveWindow)"
proof (cases "\<exists>d. in_window s d (local_minute offset now)")
  case True
  then obtain d where d: "in_window s d (local_minute offset now)" by blast
  then have "parseWeekdays (weekdaysJson s) \<noteq> []" by (auto simp: in_window_def)
  with assms(2,3) window_at_iff [OF assms(1) refl d]
  have "st = active_window offset s (date_of_day d)" by (simp add: evaluateScheduleWindow_def Let_def)
  with d show ?thesis by blast
next
  case False
  with assms window_at_inactive [OF assms(1) refl, of offset now]
  have "st = inactiveWindow"
    by (auto simp: evaluateScheduleWindow_def Let_def split: if_splits)
  with False show ?thesis by blast
qed

text \<open>
  C10: A schedule is active at an instant exactly when the zone's wall clock, counted in minutes,
  lies in the window of some selected weekday, which ends on the next day when the end is the
  earlier time of day. The state then names that very window, by the date it began on, so
  the window id and its start stay the same through midnight; otherwise the state is inactive.
\<close>

theorem evaluateScheduleWindow_exact:
  assumes "schedule_ok s" "tz (timezone s) = Some offset"
    and "evaluateScheduleWindow tz s now = Inr st"
  shows "(active st \<longleftrightarrow> (\<exists>d. in_window s d (local_minute offset now))) \<and>
    (\<forall>d. in_window s d (local_minute offset now) \<longrightarrow>
       windowId st = Some (Window_id (id s) (date_of_day d) (startTime s) (endTime s)) \<and>
       windowStartedAt st = Some (zonedLocalTimeToEpoch offset (date_of_day d) (startTime s))) \<and>
    (\<not> active st \<longrightarrow> windowId st = None \<and> windowStartedAt st = None)"
  using evaluate_cases [OF assms]
proof (elim disjE exE conjE)
  fix d
  assume d: "in_window s d (local_minute offset now)"
    and st: "st = active_window offset s (date_of_day d)"
  have "d' = d" if "in_window s d' (local_minute offset now)" for d'
    by (rule in_window_unique [OF assms(1) that d])
  then have "date_of_day d' = date_of_day d" if "in_window s d' (local_minute offset now)" for d'
    using that by blast
  then show ?thesis
    unfolding st active_window_def window_id_of_def window_state.select_convs using d by metis
qed (simp add: inactiveWindow_def)

definition night_schedule :: schedule where
  "night_schedule =
     \<lparr>id = ''s1'', accountId = ''a1'', presetId = ''p1'', name = ''night'', enabled = True,
      weekdaysJson = Some [Number_item (Whole 5), Other_item, Number_item (Whole 6)],
      startTime = (22, 0), endTime = (6, 30), timezone = ''Europe/Berlin'',
      lastStartedWindow = None, lastStoppedWindow = None, updatedAt = 7\<rparr>"

definition berlin :: zone_database where
  "berlin z = (if z = ''Europe/Berlin'' then Some spring_zone else None)"

text \<open>01:30 on Sunday, 29 March 2026, in the window that began on Saturday.\<close>

theorem evaluateScheduleWindow_exact_witness:
  "\<exists>st. evaluateScheduleWindow berlin night_schedule 1774744200000 = Inr st \<and> active st \<and>
     windowId st = Some (Window_id ''s1'' (Date_key 2026 3 28) (22, 0) (6, 30))"
proof -
  let ?st = "active_window spring_zone night_schedule (Date_key 2026 3 28)"
  have zone: "berlin (timezone night_schedule) = Some spring_zone"
    by (simp add: berlin_def night_schedule_def)
  have ok: "schedule_ok night_schedule" by code_simp
  have st: "evaluateScheduleWindow berlin night_schedule 1774744200000 = Inr ?st" by code_simp
  have d: "in_window night_schedule 20540 (local_minute spring_zone 1774744200000)" by code_simp
  have key: "date_of_day 20540 = Date_key 2026 3 28" by code_simp
  note exact = evaluateScheduleWindow_exact [OF ok zone st]
  have "active ?st" using exact [THEN conjunct1] d by blast
  moreover have "windowId ?st = Some (Window_id ''s1'' (Date_key 2026 3 28) (22, 0) (6, 30))"
    using exact [THEN conjunct2, THEN conjunct1, rule_format, OF d, THEN conjunct1]
    by (simp add: key night_schedule_def)
  ultimately show ?thesis using st by blast
qed

text \<open>
  In a zone of constant offset the reported start of an active window is at most the
  current instant and less than a day before it, so the winner rule (the window that started
  last) compares instants of the past.
\<close>

theorem window_started_within_a_day:
  assumes "schedule_ok s" "tz (timezone s) = Some (\<lambda>_. delta)"
    and "whole_minutes delta" "\<bar>delta\<bar> \<le> one_day"
    and "evaluateScheduleWindow tz s now = Inr st" "windowStartedAt st = Some t"
  shows "active st \<and> t \<le> now \<and> now < t + one_day"
proof -
  let ?l = "local_minute (\<lambda>_. delta) now"
  obtain d where d: "in_window s d ?l" and st: "st = active_window (\<lambda>_. delta) s (date_of_day d)"
    using evaluate_cases [OF assms(1,2,5)] assms(6) by (auto simp: inactiveWindow_def)
  obtain h m where start: "startTime s = (h, m)" by (cases "startTime s")
  let ?target = "date_utc (date_of_day d) h m"
  have less_or_le: "?target - delta < 0 \<or> 0 \<le> ?target - delta" by linarith
  have "one_change (\<lambda>_. delta) ?target 0 delta delta"
    using assms(3,4) by (simp add: one_change_def)
  from refine_epoch_exact [OF this date_utc_whole less_or_le]
  have t: "t + delta = ?target"
    using assms(6) by (auto simp: st start active_window_def zonedLocalTimeToEpoch_def Let_def
        simp del: refine_epoch.simps)
  have target: "?target = window_start_minute s d * one_minute"
    by (simp add: date_utc_def window_start_minute_def start algebra_simps)
  have "window_start_minute s d \<le> ?l" "?l < window_start_minute s d + 1440"
    using d assms(1) timeToMinute_range [of "startTime s"] timeToMinute_range [of "endTime s"]
    by (auto simp: in_window_def window_start_minute_def window_end_minute_def schedule_ok_def
        split: if_splits)
  moreover have "?l * one_minute \<le> now + delta" "now + delta < ?l * one_minute + one_minute"
    using div_mult_mod_eq [of "now + delta" one_minute] pos_mod_bound [of one_minute "now + delta"]
      pos_mod_sign [of one_minute "now + delta"] unfolding local_minute_def by simp_all
  ultimately have "t \<le> now" "now < t + one_day" using t target by linarith+
  then show ?thesis using st by (simp add: active_window_def)
qed

section \<open>The winner\<close>

lemma winner_order_comparator:
  assumes "js_comparator compare"
  shows "js_comparator (winner_order compare)"
  unfolding winner_order_def [abs_def]
  by (intro js_comparator_or_else js_comparator_descending)
    (rule js_comparator_flip [OF js_comparator_image [OF assms, where h = "\<lambda>e. id (fst e)"]])

text \<open>What the sort puts first: the later start, then the later edit, then the greater id.\<close>

definition beats ::
    "(string \<Rightarrow> string \<Rightarrow> int) \<Rightarrow> schedule_entry \<Rightarrow> schedule_entry \<Rightarrow> bool" where
  "beats compare w e \<longleftrightarrow>
     entry_start e < entry_start w \<or>
     (entry_start e = entry_start w \<and>
      (updatedAt (fst e) < updatedAt (fst w) \<or>
       (updatedAt (fst e) = updatedAt (fst w) \<and> compare (id (fst e)) (id (fst w)) < 0)))"

lemma beats_iff: "beats compare w e \<longleftrightarrow> winner_order compare w e < 0"
  by (auto simp: beats_def winner_order_def or_else_def)

lemma selectScheduleWinner_None:
  "selectScheduleWinner compare es = None \<longleftrightarrow> (\<forall>e\<in>set es. \<not> runnable_entry e)"
  by (auto simp: selectScheduleWinner_def first_of_def filter_empty_conv split: list.split)
    (metis filter_empty_conv js_sort_eq_Nil list.distinct(1))

lemma winner_mem:
  "selectScheduleWinner compare es = Some w \<Longrightarrow> w \<in> set es \<and> runnable_entry w"
proof -
  assume "selectScheduleWinner compare es = Some w"
  then obtain rest where "js_sort (winner_order compare) (filter runnable_entry es) = w # rest"
    by (auto simp: selectScheduleWinner_def first_of_def split: list.splits)
  then have "w \<in> set (js_sort (winner_order compare) (filter runnable_entry es))"
    by (simp del: set_js_sort)
  then show ?thesis by simp
qed

lemma winner_first:
  assumes "js_comparator compare" "selectScheduleWinner compare es = Some w"
    and "e \<in> set es" "runnable_entry e"
  shows "winner_order compare w e \<le> 0"
proof -
  obtain rest where "js_sort (winner_order compare) (filter runnable_entry es) = w # rest"
    using assms(2) by (auto simp: selectScheduleWinner_def first_of_def split: list.splits)
  from js_comparator.js_sort_hd_least [OF winner_order_comparator [OF assms(1)] this, of e]
  show ?thesis using assms(3,4) by simp
qed

text \<open>
  With schedules of distinct ids and a comparison of ids that is a total order,
  \<open>selectScheduleWinner\<close> returns an entry exactly when it is active, has a window and beats
  every other such entry: the window that started last wins, then the schedule edited last,
  then the greater id. So the winner does not depend on the order the rows are read in.
\<close>

theorem selectScheduleWinner_exact:
  assumes "js_comparator compare" and "\<And>x y. compare x y = 0 \<Longrightarrow> x = y"
    and "inj_on (\<lambda>e. id (fst e)) (set es)"
  shows "selectScheduleWinner compare es = Some w \<longleftrightarrow>
    w \<in> set es \<and> runnable_entry w \<and>
    (\<forall>e\<in>set es. runnable_entry e \<longrightarrow> e \<noteq> w \<longrightarrow> beats compare w e)" (is "?l \<longleftrightarrow> ?r")
proof -
  have strict: "beats compare w e"
    if "selectScheduleWinner compare es = Some w" "e \<in> set es" "runnable_entry e" "e \<noteq> w" for w e
  proof -
    have "id (fst w) \<noteq> id (fst e)"
      using that winner_mem [OF that(1)] assms(3) by (auto simp: inj_on_def)
    then have "winner_order compare w e \<noteq> 0"
      using assms(2) [of "id (fst e)" "id (fst w)"] by (auto simp: winner_order_def or_else_def)
    with winner_first [OF assms(1) that(1-3)] show ?thesis by (simp add: beats_iff)
  qed
  show ?thesis
  proof
    assume ?l
    with strict winner_mem show ?r by blast
  next
    assume r: ?r
    then obtain w' where w': "selectScheduleWinner compare es = Some w'"
      by (cases "selectScheduleWinner compare es") (auto simp: selectScheduleWinner_None)
    have "w' = w"
    proof (rule ccontr)
      assume "w' \<noteq> w"
      with r strict [OF w', of w] winner_mem [OF w'] have "beats compare w' w" "beats compare w w'"
        by blast+
      then show False
        using js_comparator.cmp_neg_swap [OF winner_order_comparator [OF assms(1)], of w w']
        by (simp add: beats_iff)
    qed
    with w' show ?l by simp
  qed
qed

definition rival_entries :: "schedule_entry list" where
  "rival_entries =
     [(night_schedule, Some \<lparr>active = True, windowId = Some (window_id_of night_schedule (Date_key 2026 3 28)),
         windowStartedAt = Some 100\<rparr>),
      (night_schedule\<lparr>id := ''s2'', updatedAt := 9\<rparr>,
       Some \<lparr>active = True, windowId = Some (window_id_of night_schedule (Date_key 2026 3 28)),
         windowStartedAt = Some 100\<rparr>),
      (night_schedule\<lparr>id := ''s3''\<rparr>, None)]"

theorem selectScheduleWinner_exact_witness:
  "selectScheduleWinner order_compare rival_entries = Some (rival_entries ! 1)"
proof -
  have inj: "inj_on (\<lambda>e. id (fst e)) (set rival_entries)"
    by (auto simp: rival_entries_def night_schedule_def)
  have "rival_entries ! 1 \<in> set rival_entries \<and> runnable_entry (rival_entries ! 1) \<and>
    (\<forall>e\<in>set rival_entries. runnable_entry e \<longrightarrow> e \<noteq> rival_entries ! 1 \<longrightarrow>
       beats order_compare (rival_entries ! 1) e)"
    by (simp add: rival_entries_def runnable_entry_def beats_def entry_start_def night_schedule_def)
  moreover have "x = y" if "order_compare x y = 0" for x y :: string using that by simp
  ultimately show ?thesis
    using selectScheduleWinner_exact [OF code_units.js_comparator_axioms _ inj] by blast
qed

end
