(* ===== verification/ScheduleRepo.thy ===== *)
theory ScheduleRepo
  imports Scheduler
begin

text \<open>
  The markers of started and stopped windows: \<open>apps/server/src/steam/schedule-repository.ts\<close>.

  The table \<open>boost_schedule\<close> is the list of its rows, the primary key \<open>id\<close> being unique
  (\<open>rows_ok\<close>); \<open>schedule_exception\<close> is the list of its rows. An \<open>UPDATE\<close> returns the number of
  rows it changed; a transaction that throws leaves the table as it was, so its result is either
  the error or the new table. The locale \<open>schedule_store\<close> states what the coordinator relies on.
\<close>

section \<open>Data\<close>

record open_window =
  ow_schedule :: schedule_id
  ow_window :: window_id

record started_window =
  sw_account :: account_id
  sw_schedule :: schedule_id
  sw_window :: window_id
  expectedUpdatedAt :: millis
  previousWindows :: "open_window list"

record schedule_exception =
  ex_account :: account_id
  ex_schedule :: schedule_id
  ex_window :: window_id
  ex_skip :: bool

datatype marker_action = Mark_stop | Mark_stop_previous | Mark_start

datatype marker_error = Marker_rejected marker_action schedule_id

type_synonym schedule_rows = "schedule list"

definition rows_ok :: "schedule_rows \<Rightarrow> bool" where
  "rows_ok rows \<longleftrightarrow> distinct (map id rows)"

section \<open>Operations\<close>

definition listAccountIds :: "schedule_rows \<Rightarrow> account_id list" where
  "listAccountIds rows = js_unique (map accountId rows)"

definition listSchedulesForAccount :: "schedule_rows \<Rightarrow> account_id \<Rightarrow> schedule list" where
  "listSchedulesForAccount rows acc = filter (\<lambda>s. accountId s = acc) rows"

text \<open>\<open>UPDATE boost_schedule SET f WHERE p\<close>: the changed table and the number of changes.\<close>

definition update_rows ::
    "(schedule \<Rightarrow> bool) \<Rightarrow> (schedule \<Rightarrow> schedule) \<Rightarrow> schedule_rows \<Rightarrow> schedule_rows \<times> nat" where
  "update_rows p f rows =
     (map (\<lambda>s. if p s then f s else s) rows, length (filter p rows))"

definition requireSingleScheduleUpdate ::
    "marker_action \<Rightarrow> schedule_id \<Rightarrow> schedule_rows \<times> nat \<Rightarrow> marker_error + schedule_rows" where
  "requireSingleScheduleUpdate action sid result =
     (if snd result = 1 then Inr (fst result) else Inl (Marker_rejected action sid))"

definition mark_stopped_row :: "account_id \<Rightarrow> open_window \<Rightarrow> schedule_rows \<Rightarrow> schedule_rows \<times> nat" where
  "mark_stopped_row acc w =
     update_rows
       (\<lambda>s. id s = ow_schedule w \<and> accountId s = acc \<and> lastStartedWindow s = Some (ow_window w))
       (\<lambda>s. s\<lparr>lastStoppedWindow := Some (ow_window w)\<rparr>)"

primrec stop_each ::
    "marker_action \<Rightarrow> account_id \<Rightarrow> open_window list \<Rightarrow> schedule_rows \<Rightarrow> marker_error + schedule_rows" where
  "stop_each action acc [] rows = Inr rows"
| "stop_each action acc (w # ws) rows =
     and_then (requireSingleScheduleUpdate action (ow_schedule w) (mark_stopped_row acc w rows))
       (stop_each action acc ws)"

definition markWindowsStopped ::
    "account_id \<Rightarrow> open_window list \<Rightarrow> schedule_rows \<Rightarrow> marker_error + schedule_rows" where
  "markWindowsStopped acc ws rows = stop_each Mark_stop acc ws rows"

definition mark_started_row :: "started_window \<Rightarrow> schedule_rows \<Rightarrow> schedule_rows \<times> nat" where
  "mark_started_row w =
     update_rows
       (\<lambda>s. id s = sw_schedule w \<and> accountId s = sw_account w \<and> enabled s \<and>
          updatedAt s = expectedUpdatedAt w)
       (\<lambda>s. s\<lparr>lastStartedWindow := Some (sw_window w),
              lastStoppedWindow :=
                (if lastStoppedWindow s = Some (sw_window w) then None else lastStoppedWindow s)\<rparr>)"

definition commitStartedWindow :: "started_window \<Rightarrow> schedule_rows \<Rightarrow> marker_error + schedule_rows" where
  "commitStartedWindow w rows =
     and_then
       (stop_each Mark_stop_previous (sw_account w)
         (filter (\<lambda>p. \<not> (ow_schedule p = sw_schedule w \<and> ow_window p = sw_window w))
           (previousWindows w)) rows)
       (\<lambda>rows'. requireSingleScheduleUpdate Mark_start (sw_schedule w) (mark_started_row w rows'))"

definition isWindowSkipped ::
    "schedule_exception list \<Rightarrow> account_id \<Rightarrow> schedule_id \<Rightarrow> window_id \<Rightarrow> bool" where
  "isWindowSkipped exs acc sid w \<longleftrightarrow>
     list_ex (\<lambda>e. ex_account e = acc \<and> ex_schedule e = sid \<and> ex_window e = w \<and> ex_skip e) exs"

text \<open>\<open>openScheduleWindows\<close> of the coordinator, on schedules.\<close>

definition window_open :: "schedule \<Rightarrow> bool" where
  "window_open s \<longleftrightarrow> lastStartedWindow s \<noteq> None \<and> lastStartedWindow s \<noteq> lastStoppedWindow s"

definition openWindows :: "schedule list \<Rightarrow> open_window list" where
  "openWindows schedules =
     map (\<lambda>s. \<lparr>ow_schedule = id s, ow_window = the (lastStartedWindow s)\<rparr>)
       (filter window_open schedules)"

section \<open>What the coordinator relies on\<close>

text \<open>
  \<open>opened acc db\<close> are the windows of account \<open>acc\<close> that are started and not stopped. Stopping
  and starting either fail or change exactly the windows they name.
\<close>

locale schedule_store =
  fixes opened :: "account_id \<Rightarrow> 'db \<Rightarrow> open_window set"
    and ok :: "'db \<Rightarrow> bool"
    and stop :: "account_id \<Rightarrow> open_window list \<Rightarrow> 'db \<Rightarrow> 'err + 'db"
    and start :: "started_window \<Rightarrow> 'db \<Rightarrow> 'err + 'db"
  assumes stop_ok: "ok db \<Longrightarrow> stop acc ws db = Inr db' \<Longrightarrow> ok db'"
    and stop_opened: "ok db \<Longrightarrow> stop acc ws db = Inr db' \<Longrightarrow>
      opened acc db' = opened acc db - set ws"
    and stop_others: "ok db \<Longrightarrow> stop acc ws db = Inr db' \<Longrightarrow> acc' \<noteq> acc \<Longrightarrow>
      opened acc' db' = opened acc' db"
    and start_ok: "ok db \<Longrightarrow> start w db = Inr db' \<Longrightarrow> ok db'"
    and start_opened: "ok db \<Longrightarrow> start w db = Inr db' \<Longrightarrow>
      opened (sw_account w) db' =
        insert \<lparr>ow_schedule = sw_schedule w, ow_window = sw_window w\<rparr>
          {o' \<in> opened (sw_account w) db - set (previousWindows w). ow_schedule o' \<noteq> sw_schedule w}"
    and start_others: "ok db \<Longrightarrow> start w db = Inr db' \<Longrightarrow> acc' \<noteq> sw_account w \<Longrightarrow>
      opened acc' db' = opened acc' db"
begin

lemma stop_all:
  "ok db \<Longrightarrow> opened acc db \<subseteq> set ws \<Longrightarrow> stop acc ws db = Inr db' \<Longrightarrow> opened acc db' = {}"
  using stop_opened by blast

lemma start_exclusive:
  assumes "ok db" "start w db = Inr db'"
    and "\<And>o'. o' \<in> opened (sw_account w) db \<Longrightarrow>
      o' = \<lparr>ow_schedule = sw_schedule w, ow_window = sw_window w\<rparr> \<or> o' \<in> set (previousWindows w)"
  shows "opened (sw_account w) db' = {\<lparr>ow_schedule = sw_schedule w, ow_window = sw_window w\<rparr>}"
  using start_opened [OF assms(1,2)] assms(3) by fastforce

end

section \<open>The tables keep the contract\<close>

definition opened_windows :: "account_id \<Rightarrow> schedule_rows \<Rightarrow> open_window set" where
  "opened_windows acc rows = set (openWindows (listSchedulesForAccount rows acc))"

lemma opened_windows_iff:
  "w \<in> opened_windows acc rows \<longleftrightarrow>
     (\<exists>s\<in>set rows. accountId s = acc \<and> id s = ow_schedule w \<and>
        lastStartedWindow s = Some (ow_window w) \<and> lastStoppedWindow s \<noteq> Some (ow_window w))"
  by (cases w)
    (force simp: opened_windows_def openWindows_def listSchedulesForAccount_def window_open_def)

definition opens :: "account_id \<Rightarrow> open_window \<Rightarrow> schedule \<Rightarrow> bool" where
  "opens acc w s \<longleftrightarrow>
     accountId s = acc \<and> id s = ow_schedule w \<and>
     lastStartedWindow s = Some (ow_window w) \<and> lastStoppedWindow s \<noteq> Some (ow_window w)"

lemma opened_windows_opens: "w \<in> opened_windows acc rows \<longleftrightarrow> (\<exists>s\<in>set rows. opens acc w s)"
  by (simp add: opened_windows_iff opens_def)

lemma opened_windows_map: "w \<in> opened_windows acc (map g rows) \<longleftrightarrow> (\<exists>s\<in>set rows. opens acc w (g s))"
  by (simp add: opened_windows_opens)

lemma rows_unique: "rows_ok rows \<Longrightarrow> s \<in> set rows \<Longrightarrow> t \<in> set rows \<Longrightarrow> id s = id t \<Longrightarrow> s = t"
  by (simp add: rows_ok_def distinct_map inj_on_def)

text \<open>An update that keeps the key changes the one row it selects.\<close>

lemma update_rows_ok:
  assumes "\<And>s. id (f s) = id s" "rows_ok rows"
  shows "rows_ok (map (\<lambda>s. if p s then f s else s) rows)"
proof -
  have "map id (map (\<lambda>s. if p s then f s else s) rows) = map id rows"
    using assms(1) by simp
  then show ?thesis using assms(2) by (simp only: rows_ok_def)
qed

lemma update_rows_listing:
  assumes "\<And>s. p s \<Longrightarrow> accountId s = acc" "\<And>s. accountId (f s) = accountId s" "acc' \<noteq> acc"
  shows "listSchedulesForAccount (map (\<lambda>s. if p s then f s else s) rows) acc'
    = listSchedulesForAccount rows acc'"
  using assms by (induction rows) (auto simp: listSchedulesForAccount_def)

lemma update_rows_others:
  assumes "\<And>s. p s \<Longrightarrow> accountId s = acc" "\<And>s. accountId (f s) = accountId s" "acc' \<noteq> acc"
  shows "opened_windows acc' (map (\<lambda>s. if p s then f s else s) rows) = opened_windows acc' rows"
proof -
  have "listSchedulesForAccount (map (\<lambda>s. if p s then f s else s) rows) acc'
      = listSchedulesForAccount rows acc'"
    by (rule update_rows_listing [where acc = acc]) (simp_all add: assms)
  then show ?thesis by (simp only: opened_windows_def)
qed

lemma require_single:
  assumes "requireSingleScheduleUpdate action sid (update_rows p f rows) = Inr rows'"
  shows "rows' = map (\<lambda>s. if p s then f s else s) rows" "\<exists>s\<in>set rows. p s"
proof -
  have "length (filter p rows) = 1"
    using assms by (simp add: requireSingleScheduleUpdate_def update_rows_def split: if_splits)
  then show "\<exists>s\<in>set rows. p s" by (metis filter_False list.size(3) zero_neq_one)
  show "rows' = map (\<lambda>s. if p s then f s else s) rows"
    using assms by (simp add: requireSingleScheduleUpdate_def update_rows_def split: if_splits)
qed

lemma mark_stopped_opened:
  assumes ok: "rows_ok rows"
    and stop: "requireSingleScheduleUpdate action sid (mark_stopped_row acc w rows) = Inr rows'"
  shows "rows_ok rows'" "opened_windows acc rows' = opened_windows acc rows - {w}"
    "acc' \<noteq> acc \<Longrightarrow> opened_windows acc' rows' = opened_windows acc' rows"
proof -
  note single = require_single [OF stop [unfolded mark_stopped_row_def]]
  show "rows_ok rows'"
    unfolding single(1) by (rule update_rows_ok [OF _ ok]) simp
  show "opened_windows acc rows' = opened_windows acc rows - {w}"
  proof (rule set_eqI)
    fix v :: open_window
    let ?p = "\<lambda>s. id s = ow_schedule w \<and> accountId s = acc \<and> lastStartedWindow s = Some (ow_window w)"
    have "opens acc v (if ?p s then s\<lparr>lastStoppedWindow := Some (ow_window w)\<rparr> else s)
        \<longleftrightarrow> opens acc v s \<and> v \<noteq> w" for s
      by (cases v; cases w) (auto simp: opens_def)
    then show "v \<in> opened_windows acc rows' \<longleftrightarrow> v \<in> opened_windows acc rows - {w}"
      unfolding single(1) opened_windows_map by (simp add: opened_windows_opens)
  qed
  show "acc' \<noteq> acc \<Longrightarrow> opened_windows acc' rows' = opened_windows acc' rows"
    unfolding single(1) by (rule update_rows_others [where acc = acc]) simp_all
qed

lemma stop_each_opened:
  assumes "rows_ok rows" "stop_each action acc ws rows = Inr rows'"
  shows "rows_ok rows' \<and> opened_windows acc rows' = opened_windows acc rows - set ws \<and>
    (\<forall>acc'. acc' \<noteq> acc \<longrightarrow> opened_windows acc' rows' = opened_windows acc' rows)"
  using assms
proof (induction ws arbitrary: rows)
  case Nil
  then show ?case by simp
next
  case (Cons w ws)
  from Cons.prems(2) obtain rows1 where
    one: "requireSingleScheduleUpdate action (ow_schedule w) (mark_stopped_row acc w rows) = Inr rows1"
    and rest: "stop_each action acc ws rows1 = Inr rows'"
    by (auto elim: and_thenE)
  note marked = mark_stopped_opened [OF Cons.prems(1) one]
  from Cons.IH [OF marked(1) rest] show ?case by (auto simp: marked(2,3))
qed

lemma mark_started_opened:
  assumes ok: "rows_ok rows"
    and start: "requireSingleScheduleUpdate action sid (mark_started_row w rows) = Inr rows'"
  shows "rows_ok rows'"
    "opened_windows (sw_account w) rows' =
       insert \<lparr>ow_schedule = sw_schedule w, ow_window = sw_window w\<rparr>
         {v \<in> opened_windows (sw_account w) rows. ow_schedule v \<noteq> sw_schedule w}"
    "acc' \<noteq> sw_account w \<Longrightarrow> opened_windows acc' rows' = opened_windows acc' rows"
proof -
  note single = require_single [OF start [unfolded mark_started_row_def]]
  let ?g = "\<lambda>s. if id s = sw_schedule w \<and> accountId s = sw_account w \<and> enabled s \<and>
      updatedAt s = expectedUpdatedAt w
    then s\<lparr>lastStartedWindow := Some (sw_window w),
      lastStoppedWindow :=
        (if lastStoppedWindow s = Some (sw_window w) then None else lastStoppedWindow s)\<rparr>
    else s"
  obtain r where r: "r \<in> set rows" "id r = sw_schedule w" "accountId r = sw_account w" "enabled r"
    "updatedAt r = expectedUpdatedAt w"
    using single(2) by blast
  have same: "s = r" if "s \<in> set rows" "id s = sw_schedule w" for s
    using rows_unique [OF ok that(1) r(1)] that(2) r(2) by simp
  show "rows_ok rows'"
    unfolding single(1) by (rule update_rows_ok [OF _ ok]) simp
  show "opened_windows (sw_account w) rows' =
       insert \<lparr>ow_schedule = sw_schedule w, ow_window = sw_window w\<rparr>
         {v \<in> opened_windows (sw_account w) rows. ow_schedule v \<noteq> sw_schedule w}"
  proof (rule set_eqI)
    fix v :: open_window
    show "v \<in> opened_windows (sw_account w) rows' \<longleftrightarrow>
      v \<in> insert \<lparr>ow_schedule = sw_schedule w, ow_window = sw_window w\<rparr>
         {v \<in> opened_windows (sw_account w) rows. ow_schedule v \<noteq> sw_schedule w}"
    proof (cases "ow_schedule v = sw_schedule w")
      case True
      have "opens (sw_account w) v (?g s) \<longleftrightarrow> s = r \<and> ow_window v = sw_window w"
        if "s \<in> set rows" for s
        using same [OF that] r True by (auto simp: opens_def)
      then have "v \<in> opened_windows (sw_account w) rows' \<longleftrightarrow> ow_window v = sw_window w"
        unfolding single(1) opened_windows_map using r(1) by blast
      with True show ?thesis by (cases v) auto
    next
      case False
      then have "opens (sw_account w) v (?g s) \<longleftrightarrow> opens (sw_account w) v s" for s
        by (simp add: opens_def)
      then have "v \<in> opened_windows (sw_account w) rows' \<longleftrightarrow> v \<in> opened_windows (sw_account w) rows"
        unfolding single(1) opened_windows_map by (simp add: opened_windows_opens)
      with False show ?thesis by auto
    qed
  qed
  show "acc' \<noteq> sw_account w \<Longrightarrow> opened_windows acc' rows' = opened_windows acc' rows"
    unfolding single(1) by (rule update_rows_others [where acc = "sw_account w"]) simp_all
qed

interpretation store: schedule_store opened_windows rows_ok markWindowsStopped commitStartedWindow
proof
  fix rows rows' :: schedule_rows and acc acc' :: account_id and ws w
  show "rows_ok rows \<Longrightarrow> markWindowsStopped acc ws rows = Inr rows' \<Longrightarrow> rows_ok rows'"
    "rows_ok rows \<Longrightarrow> markWindowsStopped acc ws rows = Inr rows' \<Longrightarrow>
      opened_windows acc rows' = opened_windows acc rows - set ws"
    "rows_ok rows \<Longrightarrow> markWindowsStopped acc ws rows = Inr rows' \<Longrightarrow> acc' \<noteq> acc \<Longrightarrow>
      opened_windows acc' rows' = opened_windows acc' rows"
    using stop_each_opened by (auto simp: markWindowsStopped_def)
  assume ok: "rows_ok rows" and commit: "commitStartedWindow w rows = Inr rows'"
  let ?stopped = "filter (\<lambda>p. \<not> (ow_schedule p = sw_schedule w \<and> ow_window p = sw_window w))
    (previousWindows w)"
  obtain rows1 where stop: "stop_each Mark_stop_previous (sw_account w) ?stopped rows = Inr rows1"
    and start: "requireSingleScheduleUpdate Mark_start (sw_schedule w) (mark_started_row w rows1)
      = Inr rows'"
    using commit unfolding commitStartedWindow_def by (auto elim: and_thenE)
  note s1 = stop_each_opened [OF ok stop]
  note s2 = mark_started_opened [OF conjunct1 [OF s1] start]
  show "rows_ok rows'" by (rule s2(1))
  show "opened_windows (sw_account w) rows' =
      insert \<lparr>ow_schedule = sw_schedule w, ow_window = sw_window w\<rparr>
        {v \<in> opened_windows (sw_account w) rows - set (previousWindows w).
           ow_schedule v \<noteq> sw_schedule w}"
    using s1 by (auto simp: s2(2))
  show "acc' \<noteq> sw_account w \<Longrightarrow> opened_windows acc' rows' = opened_windows acc' rows"
    using s1 s2(3) by simp
qed

section \<open>Other accounts, and when the transactions succeed\<close>

lemma stop_each_listing:
  "stop_each action acc ws rows = Inr rows' \<Longrightarrow> acc' \<noteq> acc \<Longrightarrow>
   listSchedulesForAccount rows' acc' = listSchedulesForAccount rows acc'"
proof (induction ws arbitrary: rows)
  case (Cons w ws)
  then obtain rows1 where
    one: "requireSingleScheduleUpdate action (ow_schedule w) (mark_stopped_row acc w rows) = Inr rows1"
    and rest: "stop_each action acc ws rows1 = Inr rows'"
    by (auto elim: and_thenE)
  have "listSchedulesForAccount rows1 acc' = listSchedulesForAccount rows acc'"
    unfolding require_single(1) [OF one [unfolded mark_stopped_row_def]]
    by (rule update_rows_listing [where acc = acc]) (simp_all add: Cons.prems(2))
  with Cons.IH [OF rest Cons.prems(2)] show ?case by simp
qed simp

lemma commitStartedWindow_listing:
  assumes "commitStartedWindow w rows = Inr rows'" "acc' \<noteq> sw_account w"
  shows "listSchedulesForAccount rows' acc' = listSchedulesForAccount rows acc'"
proof -
  obtain rows1 ws where stop: "stop_each Mark_stop_previous (sw_account w) ws rows = Inr rows1"
    and start: "requireSingleScheduleUpdate Mark_start (sw_schedule w) (mark_started_row w rows1)
      = Inr rows'"
    using assms(1) unfolding commitStartedWindow_def by (auto elim: and_thenE)
  have "listSchedulesForAccount rows' acc' = listSchedulesForAccount rows1 acc'"
    unfolding require_single(1) [OF start [unfolded mark_started_row_def]]
    by (rule update_rows_listing [where acc = "sw_account w"]) (simp_all add: assms(2))
  with stop_each_listing [OF stop assms(2)] show ?thesis by simp
qed

lemma unique_count:
  assumes "rows_ok rows" "s \<in> set rows" "p s" "\<And>t. p t \<Longrightarrow> id t = id s"
  shows "length (filter p rows) = 1"
proof -
  have "distinct rows" using assms(1) by (simp add: rows_ok_def distinct_map)
  then have "length (filter p rows) = card (set (filter p rows))"
    by (metis distinct_card distinct_filter)
  also have "set (filter p rows) = {s}"
    using assms rows_unique [OF assms(1)] by auto
  finally show ?thesis by simp
qed

lemma stop_each_succeeds:
  assumes "rows_ok rows"
    and "\<And>w. w \<in> set ws \<Longrightarrow>
      \<exists>s\<in>set rows. id s = ow_schedule w \<and> accountId s = acc \<and> lastStartedWindow s = Some (ow_window w)"
  shows "\<exists>rows' f. stop_each action acc ws rows = Inr rows' \<and> rows' = map f rows \<and>
    (\<forall>s. \<exists>v. f s = s\<lparr>lastStoppedWindow := v\<rparr>)"
  using assms
proof (induction ws arbitrary: rows)
  case Nil
  have "rows = map (\<lambda>s. s) rows" "\<forall>s :: schedule. \<exists>v. s = s\<lparr>lastStoppedWindow := v\<rparr>"
    by simp (metis schedule.surjective schedule.update_convs(11))
  then show ?case by (metis stop_each.simps(1))
next
  case (Cons w ws)
  let ?p = "\<lambda>s. id s = ow_schedule w \<and> accountId s = acc \<and> lastStartedWindow s = Some (ow_window w)"
  let ?g = "\<lambda>s. if ?p s then s\<lparr>lastStoppedWindow := Some (ow_window w)\<rparr> else s"
  obtain s where s: "s \<in> set rows" "?p s" using Cons.prems(2) [of w] by auto
  have "length (filter ?p rows) = 1"
    by (rule unique_count [where s = s, OF Cons.prems(1) s(1)]) (use s in simp_all)
  then have one: "requireSingleScheduleUpdate action (ow_schedule w) (mark_stopped_row acc w rows)
      = Inr (map ?g rows)"
    by (simp add: requireSingleScheduleUpdate_def mark_stopped_row_def update_rows_def)
  have ok: "rows_ok (map ?g rows)" by (rule update_rows_ok [OF _ Cons.prems(1)]) simp
  have keep: "id (?g s) = id s \<and> accountId (?g s) = accountId s
      \<and> lastStartedWindow (?g s) = lastStartedWindow s" for s by simp
  have "\<exists>s\<in>set (map ?g rows). id s = ow_schedule w' \<and> accountId s = acc \<and>
      lastStartedWindow s = Some (ow_window w')" if w': "w' \<in> set ws" for w'
  proof -
    obtain s' where "s' \<in> set rows" "id s' = ow_schedule w'" "accountId s' = acc"
      "lastStartedWindow s' = Some (ow_window w')"
      using Cons.prems(2) [of w', OF list.set_intros(2) [OF w']] by blast
    then show ?thesis using keep [of s'] by (intro bexI [of _ "?g s'"]) simp_all
  qed
  from Cons.IH [OF ok this] obtain f where
    f: "stop_each action acc ws (map ?g rows) = Inr (map f (map ?g rows))"
      "\<forall>s. \<exists>v. f s = s\<lparr>lastStoppedWindow := v\<rparr>" by auto
  have "\<exists>v. (f \<circ> ?g) s = s\<lparr>lastStoppedWindow := v\<rparr>" for s
    using f(2) [rule_format, of "?g s"] by (auto split: if_splits)
  with f one show ?case by (intro exI [of _ "map (f \<circ> ?g) rows"] exI [of _ "f \<circ> ?g"]) auto
qed

lemma commitStartedWindow_succeeds:
  assumes "rows_ok rows" "sch \<in> set rows" "enabled sch" "sw_schedule w = id sch"
    "sw_account w = accountId sch" "expectedUpdatedAt w = updatedAt sch"
    and "\<And>o'. o' \<in> set (previousWindows w) \<Longrightarrow>
      \<exists>s\<in>set rows. id s = ow_schedule o' \<and> accountId s = sw_account w \<and>
        lastStartedWindow s = Some (ow_window o')"
  shows "\<exists>rows'. commitStartedWindow w rows = Inr rows'"
proof -
  let ?stopped = "filter (\<lambda>p. \<not> (ow_schedule p = sw_schedule w \<and> ow_window p = sw_window w))
    (previousWindows w)"
  have "\<And>o'. o' \<in> set ?stopped \<Longrightarrow> \<exists>s\<in>set rows. id s = ow_schedule o' \<and>
      accountId s = sw_account w \<and> lastStartedWindow s = Some (ow_window o')"
    using assms(7) by auto
  from stop_each_succeeds [OF assms(1) this] obtain rows1 f where
    stop: "stop_each Mark_stop_previous (sw_account w) ?stopped rows = Inr rows1"
    and rows1: "rows1 = map f rows" and f: "\<forall>s. \<exists>v. f s = s\<lparr>lastStoppedWindow := v\<rparr>"
    by blast
  have ok: "rows_ok rows1" using stop_each_opened [OF assms(1) stop] by simp
  obtain v where v: "f sch = sch\<lparr>lastStoppedWindow := v\<rparr>" using f by blast
  let ?p = "\<lambda>s. id s = sw_schedule w \<and> accountId s = sw_account w \<and> enabled s \<and>
    updatedAt s = expectedUpdatedAt w"
  have mem: "f sch \<in> set rows1" using assms(2) by (simp add: rows1)
  have "length (filter ?p rows1) = 1"
    by (rule unique_count [where s = "f sch", OF ok mem]) (use assms v in simp_all)
  then show ?thesis
    unfolding commitStartedWindow_def stop and_then_Inr mark_started_row_def
      requireSingleScheduleUpdate_def update_rows_def snd_conv by simp
qed

end
