(* ===== verification/Accounts.thy ===== *)
theory Accounts
  imports Prelude
begin

text \<open>
  The vocabulary of accounts that server and browser share: \<open>packages/contracts/src/account.ts\<close>
  and \<open>operations.ts\<close>, with the classification of Steam failures of
  \<open>apps/server/src/steam/retry-policy.ts\<close>.
\<close>

section \<open>Statuses and what they allow\<close>

datatype account_status =
  Disconnected | Connecting | Online | Boosting | Paused_manual | Paused_other_session
| Login_required | Reconnecting | Errored

fun status_text :: "account_status \<Rightarrow> string" where
  "status_text Disconnected = ''disconnected''"
| "status_text Connecting = ''connecting''"
| "status_text Online = ''online''"
| "status_text Boosting = ''boosting''"
| "status_text Paused_manual = ''paused_manual''"
| "status_text Paused_other_session = ''paused_other_session''"
| "status_text Login_required = ''login_required''"
| "status_text Reconnecting = ''reconnecting''"
| "status_text Errored = ''error''"

definition ACCOUNT_STATUSES :: "account_status list" where
  "ACCOUNT_STATUSES =
     [Disconnected, Connecting, Online, Boosting, Paused_manual, Paused_other_session,
      Login_required, Reconnecting, Errored]"

definition isAccountStatus :: "string \<Rightarrow> bool" where
  "isAccountStatus value \<longleftrightarrow> value \<in> set (map status_text ACCOUNT_STATUSES)"

datatype desired_state = Desire_stopped | Desire_running | Desire_paused

definition MAX_STEAM_APP_ID :: int where
  "MAX_STEAM_APP_ID = 2147483647"

definition MAX_GAMES :: nat where
  "MAX_GAMES = 32"

definition MAX_GAMES_WITH_CUSTOM_TITLE :: nat where
  "MAX_GAMES_WITH_CUSTOM_TITLE = 31"

text \<open>\<open>String.prototype.trim\<close> on the blanks of a title.\<close>

definition is_blank :: "char \<Rightarrow> bool" where
  "is_blank c \<longleftrightarrow> of_char c \<in> set [9, 10, 11, 12, 13, 32, 160 :: nat]"

definition js_trim :: "string \<Rightarrow> string" where
  "js_trim s = rev (dropWhile is_blank (rev (dropWhile is_blank s)))"

definition gameSelectionLimit :: "string option \<Rightarrow> nat" where
  "gameSelectionLimit customTitle =
     (case customTitle of
        None \<Rightarrow> MAX_GAMES
      | Some t \<Rightarrow> if js_trim t \<noteq> [] then MAX_GAMES_WITH_CUSTOM_TITLE else MAX_GAMES)"

datatype account_command = Command_start | Command_pause | Command_resume | Command_stop

record status_capability =
  is_active :: bool
  is_paused :: bool
  is_busy :: bool
  importable :: bool
  attention :: bool
  canPause :: bool
  canStop :: bool
  adminCommand :: "account_command option"

fun ACCOUNT_STATUS_CAPABILITIES :: "account_status \<Rightarrow> status_capability" where
  "ACCOUNT_STATUS_CAPABILITIES Disconnected =
     \<lparr>is_active = False, is_paused = False, is_busy = False, importable = False, attention = False,
      canPause = False, canStop = False, adminCommand = Some Command_start\<rparr>"
| "ACCOUNT_STATUS_CAPABILITIES Connecting =
     \<lparr>is_active = False, is_paused = False, is_busy = True, importable = False, attention = False,
      canPause = False, canStop = False, adminCommand = None\<rparr>"
| "ACCOUNT_STATUS_CAPABILITIES Online =
     \<lparr>is_active = True, is_paused = False, is_busy = False, importable = True, attention = False,
      canPause = True, canStop = True, adminCommand = Some Command_pause\<rparr>"
| "ACCOUNT_STATUS_CAPABILITIES Boosting =
     \<lparr>is_active = True, is_paused = False, is_busy = False, importable = True, attention = False,
      canPause = True, canStop = True, adminCommand = Some Command_pause\<rparr>"
| "ACCOUNT_STATUS_CAPABILITIES Paused_manual =
     \<lparr>is_active = False, is_paused = True, is_busy = False, importable = False, attention = False,
      canPause = False, canStop = True, adminCommand = Some Command_resume\<rparr>"
| "ACCOUNT_STATUS_CAPABILITIES Paused_other_session =
     \<lparr>is_active = False, is_paused = True, is_busy = False, importable = False, attention = False,
      canPause = False, canStop = True, adminCommand = Some Command_resume\<rparr>"
| "ACCOUNT_STATUS_CAPABILITIES Login_required =
     \<lparr>is_active = False, is_paused = False, is_busy = False, importable = False, attention = True,
      canPause = False, canStop = True, adminCommand = Some Command_start\<rparr>"
| "ACCOUNT_STATUS_CAPABILITIES Reconnecting =
     \<lparr>is_active = False, is_paused = False, is_busy = True, importable = False, attention = False,
      canPause = False, canStop = False, adminCommand = None\<rparr>"
| "ACCOUNT_STATUS_CAPABILITIES Errored =
     \<lparr>is_active = False, is_paused = False, is_busy = False, importable = False, attention = True,
      canPause = False, canStop = True, adminCommand = Some Command_start\<rparr>"

section \<open>Health and safety\<close>

datatype recovery_action =
  Recovery_none | Recovery_wait | Recovery_retry | Recovery_reauthenticate | Recovery_attention

datatype steam_error_class =
  Class_none | Class_transient | Class_rate_limited | Class_authentication
| Class_session_replaced | Class_terminal | Class_unknown

datatype hold_reason =
  Hold_manual | Hold_pause_until | Hold_session_limit | Hold_daily_limit | Hold_weekly_limit
| Hold_safety_failure

section \<open>Classifying a Steam failure\<close>

text \<open>A rejected value: a number, or an object with its members by name.\<close>

datatype failure_value =
  Failure_number js_number
| Failure_object "(string \<times> js_number option) list"
| Failure_other

record retry_decision =
  terminal :: bool
  errorClass :: steam_error_class
  errorCode :: "int option"
  recoveryAction :: recovery_action
  minimumDelayMs :: millis

definition authenticationResults :: "int list" where
  "authenticationResults = [5, 17, 18, 26, 27, 43, 51, 63, 65, 66, 71, 73, 74, 77, 80, 83]"

definition rateLimitedResults :: "int list" where
  "rateLimitedResults = [25, 84]"

definition sessionConflictResults :: "int list" where
  "sessionConflictResults = [6, 34, 50]"

definition sessionConflictRetryDelayMs :: millis where
  "sessionConflictRetryDelayMs = 5 * one_minute"

definition sessionConflictCooldownMs :: millis where
  "sessionConflictCooldownMs = 60 * one_minute"

definition sessionConflictDelay :: "nat \<Rightarrow> millis" where
  "sessionConflictDelay attempt =
     (if attempt \<ge> 3 then sessionConflictCooldownMs else sessionConflictRetryDelayMs)"

fun first_code :: "(string \<times> js_number option) list \<Rightarrow> string list \<Rightarrow> int option" where
  "first_code members [] = None"
| "first_code members (key # keys) =
     (case map_of members key of
        Some (Some (Whole k)) \<Rightarrow> Some k
      | _ \<Rightarrow> first_code members keys)"

fun extractEResult :: "failure_value \<Rightarrow> int option" where
  "extractEResult (Failure_number (Whole k)) = Some k"
| "extractEResult (Failure_number Fractional) = None"
| "extractEResult (Failure_object members) = first_code members [''eresult'', ''result'', ''code'']"
| "extractEResult Failure_other = None"

definition code_in :: "int option \<Rightarrow> int list \<Rightarrow> bool" where
  "code_in code codes = (case code of None \<Rightarrow> False | Some k \<Rightarrow> k \<in> set codes)"

definition classifySteamFailure :: "failure_value \<Rightarrow> retry_decision" where
  "classifySteamFailure value =
     (let code = extractEResult value
      in if code_in code sessionConflictResults then
           \<lparr>terminal = False, errorClass = Class_session_replaced, errorCode = code,
            recoveryAction = Recovery_retry, minimumDelayMs = sessionConflictRetryDelayMs\<rparr>
         else if code_in code authenticationResults then
           \<lparr>terminal = True, errorClass = Class_authentication, errorCode = code,
            recoveryAction = Recovery_reauthenticate, minimumDelayMs = 0\<rparr>
         else if code_in code rateLimitedResults then
           \<lparr>terminal = False, errorClass = Class_rate_limited, errorCode = code,
            recoveryAction = Recovery_wait, minimumDelayMs = 15 * one_minute\<rparr>
         else
           \<lparr>terminal = False,
            errorClass = (if code = None then Class_unknown else Class_transient),
            errorCode = code, recoveryAction = Recovery_retry, minimumDelayMs = 0\<rparr>)"

section \<open>Consistency of the tables\<close>

lemma isAccountStatus_text [simp]: "isAccountStatus (status_text st)"
  by (cases st) (simp_all add: isAccountStatus_def ACCOUNT_STATUSES_def)

lemma status_text_inject: "status_text a = status_text b \<longleftrightarrow> a = b"
  by (cases a; cases b) simp_all

lemma capabilities_agree:
  "canPause (ACCOUNT_STATUS_CAPABILITIES st) \<longleftrightarrow> is_active (ACCOUNT_STATUS_CAPABILITIES st)"
  "adminCommand (ACCOUNT_STATUS_CAPABILITIES st) = None \<longleftrightarrow> is_busy (ACCOUNT_STATUS_CAPABILITIES st)"
  "adminCommand (ACCOUNT_STATUS_CAPABILITIES st) = Some Command_resume \<longleftrightarrow>
     is_paused (ACCOUNT_STATUS_CAPABILITIES st)"
  by (cases st; simp)+

lemma failure_codes_disjoint:
  "set sessionConflictResults \<inter> set authenticationResults = {}"
  "set sessionConflictResults \<inter> set rateLimitedResults = {}"
  "set authenticationResults \<inter> set rateLimitedResults = {}"
  by (simp_all add: sessionConflictResults_def authenticationResults_def rateLimitedResults_def)

lemma classify_terminal:
  "terminal (classifySteamFailure v) \<longleftrightarrow> code_in (extractEResult v) authenticationResults"
proof -
  have "code_in c authenticationResults \<Longrightarrow> \<not> code_in c sessionConflictResults" for c
    using failure_codes_disjoint(1) by (auto simp: code_in_def split: option.splits)
  then show ?thesis by (auto simp: classifySteamFailure_def Let_def)
qed

end
