(* ===== verification/Operations.thy ===== *)
theory Operations
  imports Accounts Scheduler
begin

text \<open>
  Health and safety of an account: \<open>apps/server/src/steam/operations-repository.ts\<close>.

  The tables \<open>account_health_state\<close> and \<open>account_safety_policy\<close> have one row per account; their
  text columns are texts, checked against the known values when they are read. An operation
  that updates a row creates both rows first; the clock is an argument.
\<close>

section \<open>Data\<close>

datatype hold_owner = Unscheduled | Unknown_owner | Scheduled schedule_id window_id

record health_row =
  lastSteamContactAt :: "millis option"
  nextRetryAt :: "millis option"
  retryAttempt :: nat
  h_errorClass :: string
  h_errorCode :: "int option"
  h_recoveryAction :: string
  h_updatedAt :: millis

record safety_row =
  maxSessionMinutes :: "int option"
  maxDailyMinutes :: "int option"
  maxWeeklyMinutes :: "int option"
  pauseUntil :: "millis option"
  holdReason :: "string option"
  holdCreatedAt :: "millis option"
  holdScheduleId :: "schedule_id option"
  holdScheduleWindow :: "window_id option"
  holdScheduleOrigin :: string
  s_updatedAt :: millis

record ops_db =
  health_rows :: "(account_id, health_row) js_map"
  safety_rows :: "(account_id, safety_row) js_map"
  imports_at :: "(account_id, millis option) js_map"

record recovery_input =
  in_nextRetryAt :: "millis option"
  in_retryAttempt :: nat
  in_errorClass :: steam_error_class
  in_errorCode :: "int option"
  in_recoveryAction :: recovery_action

record account_health =
  ah_lastSteamContactAt :: "millis option"
  ah_nextRetryAt :: "millis option"
  ah_retryAttempt :: nat
  ah_errorClass :: steam_error_class
  ah_errorCode :: "int option"
  ah_recoveryAction :: recovery_action
  ah_libraryImportedAt :: "millis option"

record safety_policy =
  sp_account :: account_id
  sp_maxSessionMinutes :: "int option"
  sp_maxDailyMinutes :: "int option"
  sp_maxWeeklyMinutes :: "int option"
  sp_pauseUntil :: "millis option"
  sp_holdReason :: "hold_reason option"
  sp_holdCreatedAt :: "millis option"
  sp_updatedAt :: millis

datatype automation_hold = Safety_hold hold_reason "millis option" | Recovery_hold recovery_action

section \<open>The known texts\<close>

fun error_class_text :: "steam_error_class \<Rightarrow> string" where
  "error_class_text Class_none = ''none''"
| "error_class_text Class_transient = ''transient''"
| "error_class_text Class_rate_limited = ''rate_limited''"
| "error_class_text Class_authentication = ''authentication''"
| "error_class_text Class_session_replaced = ''session_replaced''"
| "error_class_text Class_terminal = ''terminal''"
| "error_class_text Class_unknown = ''unknown''"

fun recovery_text :: "recovery_action \<Rightarrow> string" where
  "recovery_text Recovery_none = ''none''"
| "recovery_text Recovery_wait = ''wait''"
| "recovery_text Recovery_retry = ''retry''"
| "recovery_text Recovery_reauthenticate = ''reauthenticate''"
| "recovery_text Recovery_attention = ''attention''"

fun hold_text :: "hold_reason \<Rightarrow> string" where
  "hold_text Hold_manual = ''manual''"
| "hold_text Hold_pause_until = ''pause_until''"
| "hold_text Hold_session_limit = ''session_limit''"
| "hold_text Hold_daily_limit = ''daily_limit''"
| "hold_text Hold_weekly_limit = ''weekly_limit''"
| "hold_text Hold_safety_failure = ''safety_failure''"

fun read_text :: "('a \<Rightarrow> string) \<Rightarrow> 'a list \<Rightarrow> string \<Rightarrow> 'a option" where
  "read_text render [] s = None"
| "read_text render (x # xs) s = (if render x = s then Some x else read_text render xs s)"

definition isErrorClass :: "string \<Rightarrow> steam_error_class option" where
  "isErrorClass = read_text error_class_text
     [Class_none, Class_transient, Class_rate_limited, Class_authentication,
      Class_session_replaced, Class_terminal, Class_unknown]"

definition isRecoveryAction :: "string \<Rightarrow> recovery_action option" where
  "isRecoveryAction = read_text recovery_text
     [Recovery_none, Recovery_wait, Recovery_retry, Recovery_reauthenticate, Recovery_attention]"

definition isHoldReason :: "string \<Rightarrow> hold_reason option" where
  "isHoldReason = read_text hold_text
     [Hold_manual, Hold_pause_until, Hold_session_limit, Hold_daily_limit, Hold_weekly_limit,
      Hold_safety_failure]"

fun owner_kind :: "hold_owner \<Rightarrow> string" where
  "owner_kind Unscheduled = ''unscheduled''"
| "owner_kind Unknown_owner = ''unknown''"
| "owner_kind (Scheduled _ _) = ''scheduled''"

section \<open>Operations\<close>

text \<open>The column defaults of the two tables.\<close>

definition new_health_row :: "millis \<Rightarrow> health_row" where
  "new_health_row now =
     \<lparr>lastSteamContactAt = None, nextRetryAt = None, retryAttempt = 0, h_errorClass = ''none'',
      h_errorCode = None, h_recoveryAction = ''none'', h_updatedAt = now\<rparr>"

definition new_safety_row :: "millis \<Rightarrow> safety_row" where
  "new_safety_row now =
     \<lparr>maxSessionMinutes = None, maxDailyMinutes = None, maxWeeklyMinutes = None, pauseUntil = None,
      holdReason = None, holdCreatedAt = None, holdScheduleId = None, holdScheduleWindow = None,
      holdScheduleOrigin = ''unscheduled'', s_updatedAt = now\<rparr>"

definition insert_or_ignore :: "'k \<Rightarrow> 'v \<Rightarrow> ('k, 'v) js_map \<Rightarrow> ('k, 'v) js_map" where
  "insert_or_ignore k v m = (if js_get m k = None then js_set k v m else m)"

definition ensureAccountOperations :: "account_id \<Rightarrow> millis \<Rightarrow> ops_db \<Rightarrow> ops_db" where
  "ensureAccountOperations acc now db =
     db\<lparr>health_rows := insert_or_ignore acc (new_health_row now) (health_rows db),
        safety_rows := insert_or_ignore acc (new_safety_row now) (safety_rows db)\<rparr>"

definition update_row :: "'k \<Rightarrow> ('v \<Rightarrow> 'v) \<Rightarrow> ('k, 'v) js_map \<Rightarrow> ('k, 'v) js_map" where
  "update_row k f m = (case js_get m k of None \<Rightarrow> m | Some v \<Rightarrow> js_set k (f v) m)"

definition update_health :: "account_id \<Rightarrow> millis \<Rightarrow> (health_row \<Rightarrow> health_row) \<Rightarrow> ops_db \<Rightarrow> ops_db" where
  "update_health acc now f db =
     (let db = ensureAccountOperations acc now db
      in db\<lparr>health_rows := update_row acc f (health_rows db)\<rparr>)"

definition update_safety :: "account_id \<Rightarrow> millis \<Rightarrow> (safety_row \<Rightarrow> safety_row) \<Rightarrow> ops_db \<Rightarrow> ops_db" where
  "update_safety acc now f db =
     (let db = ensureAccountOperations acc now db
      in db\<lparr>safety_rows := update_row acc f (safety_rows db)\<rparr>)"

definition touchSteamContact :: "account_id \<Rightarrow> millis \<Rightarrow> ops_db \<Rightarrow> ops_db" where
  "touchSteamContact acc now =
     update_health acc now (\<lambda>r. r\<lparr>lastSteamContactAt := Some now, h_updatedAt := now\<rparr>)"

definition setRecoveryHealth :: "account_id \<Rightarrow> recovery_input \<Rightarrow> millis \<Rightarrow> ops_db \<Rightarrow> ops_db" where
  "setRecoveryHealth acc input now =
     update_health acc now (\<lambda>r. r\<lparr>nextRetryAt := in_nextRetryAt input,
       retryAttempt := in_retryAttempt input, h_errorClass := error_class_text (in_errorClass input),
       h_errorCode := in_errorCode input, h_recoveryAction := recovery_text (in_recoveryAction input),
       h_updatedAt := now\<rparr>)"

definition clearRecoveryHealth :: "account_id \<Rightarrow> millis \<Rightarrow> ops_db \<Rightarrow> ops_db" where
  "clearRecoveryHealth acc =
     setRecoveryHealth acc \<lparr>in_nextRetryAt = None, in_retryAttempt = 0, in_errorClass = Class_none,
       in_errorCode = None, in_recoveryAction = Recovery_none\<rparr>"

definition presentHealth :: "health_row option \<Rightarrow> millis option \<Rightarrow> account_health" where
  "presentHealth row imported =
     (case row of
        None \<Rightarrow>
          \<lparr>ah_lastSteamContactAt = None, ah_nextRetryAt = None, ah_retryAttempt = 0,
           ah_errorClass = Class_unknown, ah_errorCode = None, ah_recoveryAction = Recovery_none,
           ah_libraryImportedAt = imported\<rparr>
      | Some r \<Rightarrow>
          \<lparr>ah_lastSteamContactAt = lastSteamContactAt r, ah_nextRetryAt = nextRetryAt r,
           ah_retryAttempt = retryAttempt r,
           ah_errorClass = (case isErrorClass (h_errorClass r) of None \<Rightarrow> Class_unknown | Some c \<Rightarrow> c),
           ah_errorCode = h_errorCode r,
           ah_recoveryAction =
             (case isRecoveryAction (h_recoveryAction r) of None \<Rightarrow> Recovery_none | Some a \<Rightarrow> a),
           ah_libraryImportedAt = imported\<rparr>)"

definition presentSafety :: "account_id \<Rightarrow> safety_row \<Rightarrow> safety_policy" where
  "presentSafety acc r =
     \<lparr>sp_account = acc, sp_maxSessionMinutes = maxSessionMinutes r,
      sp_maxDailyMinutes = maxDailyMinutes r, sp_maxWeeklyMinutes = maxWeeklyMinutes r,
      sp_pauseUntil = pauseUntil r,
      sp_holdReason = (case holdReason r of None \<Rightarrow> None | Some s \<Rightarrow> isHoldReason s),
      sp_holdCreatedAt = holdCreatedAt r, sp_updatedAt = s_updatedAt r\<rparr>"

definition import_time :: "account_id \<Rightarrow> ops_db \<Rightarrow> millis option" where
  "import_time acc db = (case js_get (imports_at db) acc of None \<Rightarrow> None | Some t \<Rightarrow> t)"

definition getAccountHealth :: "account_id \<Rightarrow> millis \<Rightarrow> ops_db \<Rightarrow> account_health \<times> ops_db" where
  "getAccountHealth acc now db =
     (let db = ensureAccountOperations acc now db
      in (presentHealth (js_get (health_rows db) acc) (import_time acc db), db))"

definition getAccountSafetyPolicy ::
    "account_id \<Rightarrow> millis \<Rightarrow> ops_db \<Rightarrow> safety_policy option \<times> ops_db" where
  "getAccountSafetyPolicy acc now db =
     (let db = ensureAccountOperations acc now db
      in (map_option (presentSafety acc) (js_get (safety_rows db) acc), db))"

definition getAccountOperationMaps ::
    "account_id list \<Rightarrow> millis \<Rightarrow> ops_db
      \<Rightarrow> ((account_id, account_health) js_map \<times> (account_id, safety_policy) js_map) \<times> ops_db" where
  "getAccountOperationMaps accs now db =
     (let db = foldl (\<lambda>db acc. ensureAccountOperations acc now db) db accs
      in ((map (\<lambda>(acc, r). (acc, presentHealth (Some r) (import_time acc db))) (health_rows db),
           map (\<lambda>(acc, r). (acc, presentSafety acc r)) (safety_rows db)), db))"

definition updateSafetyPolicy ::
    "account_id \<Rightarrow> int option \<Rightarrow> int option \<Rightarrow> int option \<Rightarrow> millis \<Rightarrow> ops_db
      \<Rightarrow> safety_policy option \<times> ops_db" where
  "updateSafetyPolicy acc session daily weekly now db =
     getAccountSafetyPolicy acc now
       (update_safety acc now (\<lambda>r. r\<lparr>maxSessionMinutes := session, maxDailyMinutes := daily,
          maxWeeklyMinutes := weekly, s_updatedAt := now\<rparr>) db)"

fun owner_schedule :: "hold_owner \<Rightarrow> schedule_id option" where
  "owner_schedule (Scheduled sid w) = Some sid"
| "owner_schedule _ = None"

fun owner_window :: "hold_owner \<Rightarrow> window_id option" where
  "owner_window (Scheduled sid w) = Some w"
| "owner_window _ = None"

definition setSafetyHold ::
    "account_id \<Rightarrow> hold_reason \<Rightarrow> millis option \<Rightarrow> hold_owner \<Rightarrow> millis \<Rightarrow> ops_db \<Rightarrow> ops_db" where
  "setSafetyHold acc reason until owner now =
     update_safety acc now (\<lambda>r. r\<lparr>holdReason := Some (hold_text reason), pauseUntil := until,
       holdCreatedAt := Some now, holdScheduleId := owner_schedule owner,
       holdScheduleWindow := owner_window owner, holdScheduleOrigin := owner_kind owner,
       s_updatedAt := now\<rparr>)"

definition clearSafetyHold :: "account_id \<Rightarrow> millis \<Rightarrow> ops_db \<Rightarrow> ops_db" where
  "clearSafetyHold acc now =
     update_safety acc now (\<lambda>r. r\<lparr>holdReason := None, pauseUntil := None, holdCreatedAt := None,
       holdScheduleId := None, holdScheduleWindow := None, holdScheduleOrigin := ''unscheduled'',
       s_updatedAt := now\<rparr>)"

definition getSafetyHoldOwner :: "account_id \<Rightarrow> millis \<Rightarrow> ops_db \<Rightarrow> hold_owner \<times> ops_db" where
  "getSafetyHoldOwner acc now db =
     (let db = ensureAccountOperations acc now db
      in (case js_get (safety_rows db) acc of
            None \<Rightarrow> Unscheduled
          | Some r \<Rightarrow>
              if holdScheduleOrigin r = ''unknown'' then Unknown_owner
              else if holdScheduleOrigin r \<noteq> ''scheduled'' then Unscheduled
              else (case (holdScheduleId r, holdScheduleWindow r) of
                  (Some sid, Some w) \<Rightarrow> if sid = [] then Unknown_owner else Scheduled sid w
                | _ \<Rightarrow> Unknown_owner), db))"

definition getActiveSafetyHold ::
    "account_id \<Rightarrow> millis \<Rightarrow> ops_db \<Rightarrow> (hold_reason \<times> millis option) option \<times> ops_db" where
  "getActiveSafetyHold acc now db =
     (case getAccountSafetyPolicy acc now db of
        (Some p, db) \<Rightarrow> (map_option (\<lambda>reason. (reason, sp_pauseUntil p)) (sp_holdReason p), db)
      | (None, db) \<Rightarrow> (None, db))"

definition getActiveAutomationHold ::
    "account_id \<Rightarrow> millis \<Rightarrow> ops_db \<Rightarrow> automation_hold option \<times> ops_db" where
  "getActiveAutomationHold acc now db =
     (case getActiveSafetyHold acc now db of
        (Some (reason, until), db) \<Rightarrow> (Some (Safety_hold reason until), db)
      | (None, db) \<Rightarrow>
          (let db = ensureAccountOperations acc now db
           in (case js_get (health_rows db) acc of
                 None \<Rightarrow> None
               | Some r \<Rightarrow>
                   if h_recoveryAction r = ''attention'' then Some (Recovery_hold Recovery_attention)
                   else if h_recoveryAction r = ''reauthenticate''
                   then Some (Recovery_hold Recovery_reauthenticate)
                   else None, db)))"

section \<open>Reading back what was written\<close>

lemma insert_or_ignore_get [simp]:
  "js_get (insert_or_ignore k v m) k' = (if k' = k \<and> js_get m k = None then Some v else js_get m k')"
  by (simp add: insert_or_ignore_def)

lemma update_row_get [simp]:
  "js_get (update_row k f m) k' = (if k' = k then map_option f (js_get m k) else js_get m k')"
  by (simp add: update_row_def split: option.split)

definition safety_row_of :: "account_id \<Rightarrow> millis \<Rightarrow> ops_db \<Rightarrow> safety_row" where
  "safety_row_of acc now db =
     (case js_get (safety_rows db) acc of None \<Rightarrow> new_safety_row now | Some r \<Rightarrow> r)"

lemma ensure_safety:
  "js_get (safety_rows (ensureAccountOperations acc now db)) acc = Some (safety_row_of acc now db)"
  by (simp add: ensureAccountOperations_def safety_row_of_def split: option.split)

lemma ensure_health_some: "\<exists>r. js_get (health_rows (ensureAccountOperations acc now db)) acc = Some r"
  by (auto simp: ensureAccountOperations_def)

lemma update_safety_get:
  "js_get (safety_rows (update_safety acc now f db)) acc = Some (f (safety_row_of acc now db))"
  by (simp add: update_safety_def Let_def ensure_safety)

lemma read_hold_text [simp]: "isHoldReason (hold_text r) = Some r"
  by (cases r) (simp_all add: isHoldReason_def)

lemma read_recovery_text [simp]: "isRecoveryAction (recovery_text r) = Some r"
  by (cases r) (simp_all add: isRecoveryAction_def)

lemma read_error_class_text [simp]: "isErrorClass (error_class_text c) = Some c"
  by (cases c) (simp_all add: isErrorClass_def)

lemma safety_row_of_known:
  "js_get (safety_rows db) acc = Some r \<Longrightarrow> safety_row_of acc now db = r"
  by (simp add: safety_row_of_def)

lemma active_hold_row:
  "fst (getActiveSafetyHold acc now db) =
     (case holdReason (safety_row_of acc now db) of
        None \<Rightarrow> None
      | Some s \<Rightarrow> map_option (\<lambda>reason. (reason, pauseUntil (safety_row_of acc now db))) (isHoldReason s))"
  by (simp add: getActiveSafetyHold_def getAccountSafetyPolicy_def Let_def ensure_safety presentSafety_def
      split: option.split)

text \<open>
  A safety hold that is set is read back with its reason, its end and its owner, blocks
  automation whatever the account's health, and is gone, with its owner, once it is cleared.
\<close>

theorem safety_hold_roundtrip:
  assumes "\<forall>sid w. owner = Scheduled sid w \<longrightarrow> sid \<noteq> []"
  shows "fst (getActiveSafetyHold acc t' (setSafetyHold acc reason until owner t db)) = Some (reason, until) \<and>
    fst (getSafetyHoldOwner acc t' (setSafetyHold acc reason until owner t db)) = owner \<and>
    fst (getActiveAutomationHold acc t' (setSafetyHold acc reason until owner t db))
      = Some (Safety_hold reason until) \<and>
    fst (getActiveSafetyHold acc t' (clearSafetyHold acc t db)) = None \<and>
    fst (getSafetyHoldOwner acc t' (clearSafetyHold acc t db)) = Unscheduled"
proof -
  let ?set = "setSafetyHold acc reason until owner t db"
  let ?clear = "clearSafetyHold acc t db"
  have row: "safety_row_of acc t' ?set = (safety_row_of acc t db)\<lparr>holdReason := Some (hold_text reason),
      pauseUntil := until, holdCreatedAt := Some t, holdScheduleId := owner_schedule owner,
      holdScheduleWindow := owner_window owner, holdScheduleOrigin := owner_kind owner, s_updatedAt := t\<rparr>"
    by (rule safety_row_of_known) (simp add: setSafetyHold_def update_safety_get)
  have cleared: "safety_row_of acc t' ?clear = (safety_row_of acc t db)\<lparr>holdReason := None,
      pauseUntil := None, holdCreatedAt := None, holdScheduleId := None, holdScheduleWindow := None,
      holdScheduleOrigin := ''unscheduled'', s_updatedAt := t\<rparr>"
    by (rule safety_row_of_known) (simp add: clearSafetyHold_def update_safety_get)
  have hold: "fst (getActiveSafetyHold acc t' ?set) = Some (reason, until)"
    by (simp add: active_hold_row row)
  have "fst (getSafetyHoldOwner acc t' ?set) = owner"
    unfolding getSafetyHoldOwner_def Let_def ensure_safety row using assms by (cases owner) simp_all
  moreover have "fst (getActiveAutomationHold acc t' ?set) = Some (Safety_hold reason until)"
    using hold by (cases "getActiveSafetyHold acc t' ?set") (simp add: getActiveAutomationHold_def)
  moreover have "fst (getActiveSafetyHold acc t' ?clear) = None"
    by (simp add: active_hold_row cleared)
  moreover have "fst (getSafetyHoldOwner acc t' ?clear) = Unscheduled"
    by (simp add: getSafetyHoldOwner_def Let_def ensure_safety cleared)
  ultimately show ?thesis using hold by simp
qed

definition empty_ops :: ops_db where
  "empty_ops = \<lparr>health_rows = [], safety_rows = [], imports_at = []\<rparr>"

theorem safety_hold_roundtrip_witness:
  "fst (getSafetyHoldOwner ''a1'' 9 (setSafetyHold ''a1'' Hold_pause_until (Some 60)
      (Scheduled ''s1'' (Window_id ''s1'' (Date_key 2026 3 28) (22, 0) (6, 30))) 7 empty_ops))
    = Scheduled ''s1'' (Window_id ''s1'' (Date_key 2026 3 28) (22, 0) (6, 30))"
  using safety_hold_roundtrip [of "Scheduled ''s1'' (Window_id ''s1'' (Date_key 2026 3 28) (22, 0) (6, 30))"
      "''a1''" 9 Hold_pause_until "Some 60" 7 empty_ops]
  by simp

end
