(* ===== verification/ScheduleCoordinator.thy ===== *)
theory ScheduleCoordinator
  imports ScheduleRepo Operations
begin

text \<open>
  The schedule coordinator: \<open>apps/server/src/steam/schedule-coordinator.ts\<close>.

  \<open>coord\<close> is the coordinator's two maps with the tables it works on and an environment \<open>env\<close>,
  on which the ports act (the account manager and the event log, which are other components).
  The ports are parameters, gathered in \<open>ports\<close> as \<open>ScheduleCoordinatorPorts\<close> gathers them;
  each may reject. Transitions of one account are serialised by \<open>runForAccount\<close>; those of
  different accounts act on different rows and map entries (\<open>transition_others\<close>), so \<open>tickNow\<close>
  runs them one after the other. The requests and the loop of ticks are the state machine of
  the last section.
\<close>

section \<open>State and ports\<close>

datatype retry_key = Retry_start schedule_id window_id | Retry_pause

record failed_transition =
  ft_key :: retry_key
  failures :: nat
  retryAt :: millis

datatype operation_source =
  Schedule_validate schedule_id
| Schedule_start schedule_id string
| Schedule_pause

datatype 'x coord_error = Port_error 'x | Marker_error marker_error

datatype 'x schedule_event =
  Schedule_invalid range_error
| Schedule_started
| Schedule_paused
| Schedule_failed "'x coord_error" nat millis

record ('env, 'x) ports =
  zones :: zone_database
  localeCompare :: "string \<Rightarrow> string \<Rightarrow> int"
  getDesiredState :: "account_id \<Rightarrow> ('env, 'x, string) action"
  applyPreset :: "account_id \<Rightarrow> string \<Rightarrow> operation_source \<Rightarrow> ('env, 'x, unit) action"
  pause :: "account_id \<Rightarrow> operation_source \<Rightarrow> ('env, 'x, unit) action"
  resumeOrStart :: "account_id \<Rightarrow> operation_source \<Rightarrow> ('env, 'x, unit) action"
  recordInfo :: "account_id \<Rightarrow> 'x schedule_event \<Rightarrow> ('env, 'x, unit) action"
  recordError :: "account_id \<Rightarrow> 'x schedule_event \<Rightarrow> ('env, 'x, unit) action"
  getActiveHold :: "(account_id \<Rightarrow> ('env, 'x, bool) action) option"

record 'env coord =
  rows :: schedule_rows
  exceptions :: "schedule_exception list"
  activeWindows :: "(account_id, window_id) js_map"
  failedTransitions :: "(account_id, failed_transition) js_map"
  env :: 'env

abbreviation scheduleIntervalMs :: millis where "scheduleIntervalMs \<equiv> one_minute"
abbreviation maxRetryDelayMs :: millis where "maxRetryDelayMs \<equiv> one_hour"

type_synonym ('env, 'x, 'a) coord_action = "('env coord, 'x coord_error, 'a) action"

text \<open>A call of a port, and of an operation of the repository.\<close>

definition port :: "('env, 'x, 'a) action \<Rightarrow> ('env, 'x, 'a) coord_action" where
  "port m = (\<lambda>s. case m (env s) of
     (Inl e, v) \<Rightarrow> (Inl (Port_error e), s\<lparr>env := v\<rparr>)
   | (Inr x, v) \<Rightarrow> (Inr x, s\<lparr>env := v\<rparr>))"

definition store :: "(schedule_rows \<Rightarrow> marker_error + schedule_rows) \<Rightarrow> ('env, 'x, unit) coord_action" where
  "store f = (\<lambda>s. case f (rows s) of
     Inl e \<Rightarrow> (Inl (Marker_error e), s)
   | Inr rows' \<Rightarrow> (Inr (), s\<lparr>rows := rows'\<rparr>))"

section \<open>Operations\<close>

definition clearAccount :: "account_id \<Rightarrow> 'env coord \<Rightarrow> 'env coord" where
  "clearAccount acc s =
     s\<lparr>activeWindows := js_delete acc (activeWindows s),
       failedTransitions := js_delete acc (failedTransitions s)\<rparr>"

definition clearAll :: "'env coord \<Rightarrow> 'env coord" where
  "clearAll s = s\<lparr>activeWindows := [], failedTransitions := []\<rparr>"

definition isBackingOff :: "account_id \<Rightarrow> retry_key \<Rightarrow> millis \<Rightarrow> 'env coord \<Rightarrow> bool" where
  "isBackingOff acc key now s =
     (case js_get (failedTransitions s) acc of
        None \<Rightarrow> False
      | Some f \<Rightarrow> ft_key f = key \<and> now < retryAt f)"

definition next_failures :: "account_id \<Rightarrow> retry_key \<Rightarrow> 'env coord \<Rightarrow> nat" where
  "next_failures acc key s =
     (case js_get (failedTransitions s) acc of
        None \<Rightarrow> 1
      | Some f \<Rightarrow> if ft_key f = key then failures f + 1 else 1)"

definition retry_delay :: "nat \<Rightarrow> millis" where
  "retry_delay n = min (scheduleIntervalMs * 2 ^ (n - 1)) maxRetryDelayMs"

definition recordTransitionFailure ::
    "account_id \<Rightarrow> retry_key \<Rightarrow> millis \<Rightarrow> ('env, 'x, nat \<times> millis) coord_action" where
  "recordTransitionFailure acc key now = (\<lambda>s.
     let n = next_failures acc key s; at = now + retry_delay n
     in (Inr (n, at),
         s\<lparr>failedTransitions :=
             js_set acc \<lparr>ft_key = key, failures = n, retryAt = at\<rparr> (failedTransitions s)\<rparr>))"

definition evaluate_schedule ::
    "('env, 'x) ports \<Rightarrow> millis \<Rightarrow> schedule \<Rightarrow> ('env, 'x, schedule_entry) coord_action" where
  "evaluate_schedule P now sch =
     (if \<not> enabled sch then pure (sch, None)
      else case evaluateScheduleWindow (zones P) sch now of
        Inl e \<Rightarrow>
          then_do (port (recordError P (accountId sch) (Schedule_invalid e)))
            (\<lambda>_. pure (sch, None))
      | Inr state \<Rightarrow>
          then_do (reading exceptions) (\<lambda>exs.
            pure (sch, Some
              (case windowId state of
                 Some w \<Rightarrow>
                   if isWindowSkipped exs (accountId sch) (id sch) w then inactiveWindow else state
               | None \<Rightarrow> state))))"

primrec evaluateSchedules ::
    "('env, 'x) ports \<Rightarrow> millis \<Rightarrow> schedule list \<Rightarrow> ('env, 'x, schedule_entry list) coord_action" where
  "evaluateSchedules P now [] = pure []"
| "evaluateSchedules P now (sch # schs) =
     then_do (evaluate_schedule P now sch) (\<lambda>e.
       then_do (evaluateSchedules P now schs) (\<lambda>es. pure (e # es)))"

definition openScheduleWindows :: "schedule_entry list \<Rightarrow> open_window list" where
  "openScheduleWindows entries = openWindows (map fst entries)"

definition winner_window ::
    "(string \<Rightarrow> string \<Rightarrow> int) \<Rightarrow> schedule_entry list \<Rightarrow> (schedule \<times> window_id) option" where
  "winner_window compare entries =
     (case selectScheduleWinner compare entries of
        Some (sch, Some state) \<Rightarrow>
          (case windowId state of Some w \<Rightarrow> Some (sch, w) | None \<Rightarrow> None)
      | _ \<Rightarrow> None)"

definition active_hold :: "('env, 'x) ports \<Rightarrow> account_id \<Rightarrow> ('env, 'x, bool) coord_action" where
  "active_hold P acc = (case getActiveHold P of None \<Rightarrow> pure False | Some hold \<Rightarrow> port (hold acc))"

definition report_failure ::
    "('env, 'x) ports \<Rightarrow> account_id \<Rightarrow> retry_key \<Rightarrow> millis \<Rightarrow> 'x coord_error
      \<Rightarrow> ('env, 'x, unit) coord_action" where
  "report_failure P acc key now e =
     then_do (recordTransitionFailure acc key now)
       (\<lambda>(n, at). port (recordError P acc (Schedule_failed e n at)))"

definition pause_window ::
    "('env, 'x) ports \<Rightarrow> account_id \<Rightarrow> open_window list \<Rightarrow> ('env, 'x, unit) coord_action" where
  "pause_window P acc openWs =
     then_do (port (getDesiredState P acc)) (\<lambda>desired.
     then_do (if desired \<noteq> ''stopped'' then port (pause P acc Schedule_pause) else pure ()) (\<lambda>_.
     then_do (store (markWindowsStopped acc openWs)) (\<lambda>_.
     then_do (modify (clearAccount acc)) (\<lambda>_.
       port (recordInfo P acc Schedule_paused)))))"

definition stopAccountWindow ::
    "('env, 'x) ports \<Rightarrow> account_id \<Rightarrow> schedule_entry list \<Rightarrow> millis \<Rightarrow> window_id option
      \<Rightarrow> ('env, 'x, unit) coord_action" where
  "stopAccountWindow P acc entries now previousWindow = (\<lambda>s.
     let openWs = openScheduleWindows entries
     in if previousWindow = None \<and> openWs = [] then pure () s
        else if isBackingOff acc Retry_pause now s then pure () s
        else catching (pause_window P acc openWs) (report_failure P acc Retry_pause now) s)"

definition started ::
    "account_id \<Rightarrow> schedule \<Rightarrow> window_id \<Rightarrow> open_window list \<Rightarrow> started_window" where
  "started acc sch w previous =
     \<lparr>sw_account = acc, sw_schedule = id sch, sw_window = w,
      expectedUpdatedAt = updatedAt sch, previousWindows = previous\<rparr>"

definition start_window ::
    "('env, 'x) ports \<Rightarrow> account_id \<Rightarrow> schedule \<Rightarrow> window_id \<Rightarrow> open_window list
      \<Rightarrow> ('env, 'x, unit) coord_action" where
  "start_window P acc sch w previous =
     (let context = Schedule_start (id sch) (presetId sch) in
      then_do (port (applyPreset P acc (presetId sch) context)) (\<lambda>_.
      then_do (active_hold P acc) (\<lambda>held.
        if held then pure () else
        then_do (port (resumeOrStart P acc context)) (\<lambda>_.
        then_do (store (commitStartedWindow (started acc sch w previous))) (\<lambda>_.
        then_do (modify (\<lambda>s. s\<lparr>activeWindows := js_set acc w (activeWindows s),
          failedTransitions := js_delete acc (failedTransitions s)\<rparr>)) (\<lambda>_.
          port (recordInfo P acc Schedule_started)))))))"

text \<open>The branch of \<open>transitionAccount\<close> for a winning window.\<close>

definition enter_window ::
    "('env, 'x) ports \<Rightarrow> account_id \<Rightarrow> schedule_entry list \<Rightarrow> millis \<Rightarrow> window_id option
      \<Rightarrow> schedule \<Rightarrow> window_id \<Rightarrow> ('env, 'x, unit) coord_action" where
  "enter_window P acc entries now previousWindow sch w = (\<lambda>s.
     let winnerWindowIsOpen =
           (lastStartedWindow sch = Some w \<and> lastStoppedWindow sch \<noteq> Some w);
         previous = filter (\<lambda>o'. ow_schedule o' \<noteq> id sch \<or> ow_window o' \<noteq> w)
           (openScheduleWindows entries);
         commit = (if previous = [] then pure ()
           else store (commitStartedWindow (started acc sch w previous)));
         retryKey = Retry_start (id sch) w
     in if winnerWindowIsOpen \<and> previousWindow = Some w then commit s
        else if previousWindow = None \<and> winnerWindowIsOpen then
          then_do commit (\<lambda>_. modify (\<lambda>s. s\<lparr>activeWindows := js_set acc w (activeWindows s)\<rparr>)) s
        else if isBackingOff acc retryKey now s then pure () s
        else catching (start_window P acc sch w previous) (report_failure P acc retryKey now) s)"

definition transitionAccount ::
    "('env, 'x) ports \<Rightarrow> account_id \<Rightarrow> schedule_entry list \<Rightarrow> millis
      \<Rightarrow> ('env, 'x, unit) coord_action" where
  "transitionAccount P acc entries now =
     then_do (active_hold P acc) (\<lambda>hold.
       if hold then pure () else
       then_do (reading (\<lambda>s. js_get (activeWindows s) acc)) (\<lambda>previousWindow.
         case winner_window (localeCompare P) entries of
           None \<Rightarrow> stopAccountWindow P acc entries now previousWindow
         | Some (sch, w) \<Rightarrow> enter_window P acc entries now previousWindow sch w))"

definition tick_account ::
    "('env, 'x) ports \<Rightarrow> millis \<Rightarrow> account_id \<Rightarrow> ('env, 'x, unit) coord_action" where
  "tick_account P now acc =
     then_do (reading (\<lambda>s. listSchedulesForAccount (rows s) acc)) (\<lambda>schedules.
       then_do (evaluateSchedules P now schedules)
         (\<lambda>entries. transitionAccount P acc entries now))"

text \<open>\<open>Promise.allSettled\<close>: every account is run; the first rejection is thrown at the end.\<close>

primrec settle_accounts ::
    "('env, 'x) ports \<Rightarrow> millis \<Rightarrow> account_id list \<Rightarrow> ('env, 'x, unit) coord_action" where
  "settle_accounts P now [] = pure ()"
| "settle_accounts P now (acc # accs) = (\<lambda>s.
     case tick_account P now acc s of
       (Inl e, s') \<Rightarrow> (Inl e, snd (settle_accounts P now accs s'))
     | (Inr _, s') \<Rightarrow> settle_accounts P now accs s')"

definition tickNow :: "('env, 'x) ports \<Rightarrow> millis \<Rightarrow> ('env, 'x, unit) coord_action" where
  "tickNow P now =
     then_do (reading (\<lambda>s. js_unique (listAccountIds (rows s) @ js_keys (activeWindows s))))
       (settle_accounts P now)"

definition account_entries ::
    "('env, 'x) ports \<Rightarrow> account_id \<Rightarrow> millis \<Rightarrow> ('env, 'x, schedule_entry list) coord_action" where
  "account_entries P acc now =
     then_do (reading (\<lambda>s. listSchedulesForAccount (rows s) acc)) (evaluateSchedules P now)"

text \<open>\<open>localeCompare\<close> of the texts \<open>"<schedule>:<window>"\<close>, the schedule id being the window's prefix.\<close>

definition scheduledOwner :: "open_window \<Rightarrow> hold_owner" where
  "scheduledOwner w = Scheduled (ow_schedule w) (ow_window w)"

definition hold_owner_of ::
    "(string \<Rightarrow> string \<Rightarrow> int) \<Rightarrow> (open_window \<Rightarrow> open_window \<Rightarrow> int) \<Rightarrow> schedule_entry list
      \<Rightarrow> window_id option \<Rightarrow> hold_owner" where
  "hold_owner_of compare window_compare entries inMemoryWindow =
     (case winner_window compare entries of
        Some (sch, w) \<Rightarrow> Scheduled (id sch) w
      | None \<Rightarrow>
         let openWs = openScheduleWindows entries
         in if openWs = [] then Unscheduled
            else case first_of (filter (\<lambda>o'. Some (ow_window o') = inMemoryWindow) openWs) of
              Some owner \<Rightarrow> scheduledOwner owner
            | None \<Rightarrow> scheduledOwner (hd (js_sort window_compare openWs)))"

definition getHoldOwner ::
    "('env, 'x) ports \<Rightarrow> (open_window \<Rightarrow> open_window \<Rightarrow> int) \<Rightarrow> account_id \<Rightarrow> millis
      \<Rightarrow> ('env, 'x, hold_owner) coord_action" where
  "getHoldOwner P window_compare acc now =
     then_do (account_entries P acc now) (\<lambda>entries.
       reading (\<lambda>s. hold_owner_of (localeCompare P) window_compare entries
         (js_get (activeWindows s) acc)))"

definition canResumeHeldAccount ::
    "('env, 'x) ports \<Rightarrow> account_id \<Rightarrow> hold_owner \<Rightarrow> millis \<Rightarrow> ('env, 'x, bool) coord_action" where
  "canResumeHeldAccount P acc owner now =
     (case owner of
        Unscheduled \<Rightarrow> pure True
      | Unknown_owner \<Rightarrow> pure False
      | Scheduled sid w \<Rightarrow>
          then_do (account_entries P acc now) (\<lambda>entries.
            pure (case winner_window (localeCompare P) entries of
                    None \<Rightarrow> False
                  | Some (sch, w') \<Rightarrow> id sch = sid \<and> w' = w)))"

section \<open>What a transition writes\<close>

text \<open>An action that leaves the rows alone, and one that writes them at most by one \<open>f\<close>.\<close>

definition rows_fixed :: "('env, 'x, 'a) coord_action \<Rightarrow> bool" where
  "rows_fixed m \<longleftrightarrow> (\<forall>s. rows (snd (m s)) = rows s)"

definition writes ::
    "(schedule_rows \<Rightarrow> marker_error + schedule_rows) \<Rightarrow> ('env, 'x, 'a) coord_action \<Rightarrow> bool" where
  "writes f m \<longleftrightarrow> (\<forall>s. rows (snd (m s)) = rows s \<or> f (rows s) = Inr (rows (snd (m s))))"

lemma rows_fixed_basic [simp]:
  "rows_fixed (pure x)" "rows_fixed (reject e)" "rows_fixed (reading g)" "rows_fixed (port p)"
  "(\<And>s. rows (h s) = rows s) \<Longrightarrow> rows_fixed (modify h)"
  by (simp_all add: rows_fixed_def action_simps port_def split: prod.split sum.split)

lemma rows_fixed_then_do [simp]:
  "rows_fixed m \<Longrightarrow> (\<And>x. rows_fixed (k x)) \<Longrightarrow> rows_fixed (then_do m k)"
  unfolding rows_fixed_def then_do_def by (auto split: prod.split sum.split) (metis snd_conv)+

lemma rows_fixed_if [simp]: "rows_fixed m \<Longrightarrow> rows_fixed m' \<Longrightarrow> rows_fixed (if b then m else m')"
  by simp

lemma writes_fixed [simp]: "rows_fixed m \<Longrightarrow> writes f m"
  by (simp add: rows_fixed_def writes_def)

lemma writes_store [simp]: "writes f (store f)"
  by (auto simp: writes_def store_def split: sum.split)

lemma writes_before:
  "rows_fixed m \<Longrightarrow> (\<And>x. writes f (k x)) \<Longrightarrow> writes f (then_do m k)"
  unfolding rows_fixed_def writes_def then_do_def
  by (auto split: prod.split sum.split) (metis snd_conv)+

lemma writes_after:
  "writes f m \<Longrightarrow> (\<And>x. rows_fixed (k x)) \<Longrightarrow> writes f (then_do m k)"
  unfolding rows_fixed_def writes_def then_do_def
  by (auto split: prod.split sum.split) (metis snd_conv)+

lemma writes_catching:
  "writes f m \<Longrightarrow> (\<And>e. rows_fixed (h e)) \<Longrightarrow> writes f (catching m h)"
  unfolding rows_fixed_def writes_def catching_def
  by (auto split: prod.split sum.split) (metis snd_conv)+

lemma writes_if:
  "writes f m \<Longrightarrow> writes f m' \<Longrightarrow> writes f (\<lambda>s. if b s then m s else m' s)"
  by (simp add: writes_def)

lemma writesD: "writes f m \<Longrightarrow> m s = (r, s') \<Longrightarrow> rows s' = rows s \<or> f (rows s) = Inr (rows s')"
  unfolding writes_def by (metis snd_conv)

lemma rows_fixed_parts [simp]:
  "rows_fixed (active_hold P acc)" "rows_fixed (report_failure P acc key now e)"
  "rows_fixed (recordTransitionFailure acc key now)"
  by (auto simp: active_hold_def report_failure_def rows_fixed_def recordTransitionFailure_def
      port_def then_do_def Let_def action_simps split: option.split prod.split sum.split)

lemma writes_pause_window: "writes (markWindowsStopped acc ws) (pause_window P acc ws)"
  unfolding pause_window_def
  by (intro writes_before writes_after) (auto simp: clearAccount_def intro!: rows_fixed_then_do)

lemma writes_start_window:
  "writes (commitStartedWindow (started acc sch w previous)) (start_window P acc sch w previous)"
proof -
  have tail: "writes (commitStartedWindow v) (then_do (store (commitStartedWindow v)) k)"
    if "\<And>x. rows_fixed (k x)" for v and k :: "unit \<Rightarrow> ('a, 'b, unit) coord_action"
    by (rule writes_after) (simp_all add: that)
  show ?thesis
    unfolding start_window_def Let_def
    by (intro writes_before rows_fixed_basic rows_fixed_parts)
      (auto intro!: writes_before tail)
qed

lemma writes_stopAccountWindow:
  "writes (markWindowsStopped acc (openScheduleWindows entries))
     (stopAccountWindow P acc entries now previous)"
  using writes_catching [OF writes_pause_window, of "report_failure P acc Retry_pause now" acc
      "openScheduleWindows entries" P]
  unfolding writes_def stopAccountWindow_def Let_def by (auto simp: action_simps)

definition other_open_windows :: "schedule_entry list \<Rightarrow> schedule \<Rightarrow> window_id \<Rightarrow> open_window list" where
  "other_open_windows entries sch w =
     filter (\<lambda>o'. ow_schedule o' \<noteq> id sch \<or> ow_window o' \<noteq> w) (openScheduleWindows entries)"

lemma enter_window_unfold:
  "enter_window P acc entries now previousWindow sch w s =
     (let winnerWindowIsOpen =
           (lastStartedWindow sch = Some w \<and> lastStoppedWindow sch \<noteq> Some w);
         commit = (if other_open_windows entries sch w = [] then pure ()
           else store (commitStartedWindow (started acc sch w (other_open_windows entries sch w))))
     in if winnerWindowIsOpen \<and> previousWindow = Some w then commit s
        else if previousWindow = None \<and> winnerWindowIsOpen then
          then_do commit (\<lambda>_. modify (\<lambda>s. s\<lparr>activeWindows := js_set acc w (activeWindows s)\<rparr>)) s
        else if isBackingOff acc (Retry_start (id sch) w) now s then pure () s
        else catching (start_window P acc sch w (other_open_windows entries sch w))
          (report_failure P acc (Retry_start (id sch) w) now) s)"
  by (simp only: enter_window_def other_open_windows_def Let_def)

lemma writes_enter_window:
  "writes (commitStartedWindow (started acc sch w (other_open_windows entries sch w)))
     (enter_window P acc entries now previous sch w)"
proof -
  let ?f = "commitStartedWindow (started acc sch w (other_open_windows entries sch w))"
  let ?commit = "if other_open_windows entries sch w = [] then pure () else store ?f"
  have a: "writes ?f ?commit" by simp
  have b: "writes ?f (then_do ?commit
      (\<lambda>_. modify (\<lambda>s. s\<lparr>activeWindows := js_set acc w (activeWindows s)\<rparr>)))"
    by (rule writes_after [OF a]) simp
  have c: "writes ?f (catching (start_window P acc sch w (other_open_windows entries sch w))
      (report_failure P acc (Retry_start (id sch) w) now))"
    by (rule writes_catching [OF writes_start_window]) simp
  show ?thesis
    unfolding enter_window_unfold [abs_def] Let_def by (intro writes_if a b c writes_fixed rows_fixed_basic)
qed

definition transition_write ::
    "(string \<Rightarrow> string \<Rightarrow> int) \<Rightarrow> account_id \<Rightarrow> schedule_entry list
      \<Rightarrow> schedule_rows \<Rightarrow> marker_error + schedule_rows" where
  "transition_write compare acc entries =
     (case winner_window compare entries of
        None \<Rightarrow> markWindowsStopped acc (openScheduleWindows entries)
      | Some (sch, w) \<Rightarrow>
          commitStartedWindow (started acc sch w (other_open_windows entries sch w)))"

lemma writes_transitionAccount:
  "writes (transition_write (localeCompare P) acc entries) (transitionAccount P acc entries now)"
  unfolding transitionAccount_def
  by (rule writes_before)
    (auto intro!: writes_before writes_stopAccountWindow writes_enter_window
      simp: transition_write_def split: option.split)

text \<open>
  C8: When a transition writes the markers of an account at all, whatever the ports do, then
  afterwards exactly one schedule window of the account is open, the winner's, or none when
  no schedule is active: a takeover closes every other open window in the same transaction.
\<close>

theorem transition_opens_only_winner:
  assumes "rows_ok (rows s)" "map fst entries = listSchedulesForAccount (rows s) acc"
    and "transitionAccount P acc entries now s = (r, s')" "rows s' \<noteq> rows s"
  shows "opened_windows acc (rows s') =
    (case winner_window (localeCompare P) entries of
       None \<Rightarrow> {}
     | Some (sch, w) \<Rightarrow> {\<lparr>ow_schedule = id sch, ow_window = w\<rparr>})"
proof -
  have opened: "opened_windows acc (rows s) = set (openScheduleWindows entries)"
    by (simp add: opened_windows_def openScheduleWindows_def assms(2))
  have wr: "transition_write (localeCompare P) acc entries (rows s) = Inr (rows s')"
    using writesD [OF writes_transitionAccount assms(3)] assms(4) by blast
  show ?thesis
  proof (cases "winner_window (localeCompare P) entries")
    case None
    with wr have "markWindowsStopped acc (openScheduleWindows entries) (rows s) = Inr (rows s')"
      by (simp add: transition_write_def)
    from store.stop_all [OF assms(1) _ this] opened None show ?thesis by simp
  next
    case (Some win)
    obtain sch w where win: "win = (sch, w)" by (cases win)
    with wr Some have
      "commitStartedWindow (started acc sch w (other_open_windows entries sch w)) (rows s)
        = Inr (rows s')"
      by (simp add: transition_write_def)
    moreover have "o' = \<lparr>ow_schedule = id sch, ow_window = w\<rparr> \<or>
        o' \<in> set (other_open_windows entries sch w)" if "o' \<in> opened_windows acc (rows s)" for o'
      using that unfolding opened other_open_windows_def by (cases o') auto
    ultimately have "opened_windows acc (rows s') = {\<lparr>ow_schedule = id sch, ow_window = w\<rparr>}"
      using store.start_exclusive [OF assms(1), of "started acc sch w (other_open_windows entries sch w)"
          "rows s'"]
      by (simp add: started_def)
    then show ?thesis by (simp add: Some win)
  qed
qed

text \<open>
  A world for the witnesses: schedule \<open>s1\<close> is in its window while a window of the schedule
  \<open>s2\<close>, since disabled, is still open. The ports log their calls.
\<close>

definition logged :: "string \<Rightarrow> 'a \<Rightarrow> (string list, 'x, 'a) action" where
  "logged call x = (\<lambda>v. (Inr x, v @ [call]))"

definition logging_ports :: "(string list, unit) ports" where
  "logging_ports =
     \<lparr>zones = berlin, localeCompare = order_compare,
      getDesiredState = (\<lambda>acc. logged ''getDesiredState'' ''running''),
      applyPreset = (\<lambda>acc preset context. logged ''applyPreset'' ()),
      pause = (\<lambda>acc context. logged ''pause'' ()),
      resumeOrStart = (\<lambda>acc context. logged ''resumeOrStart'' ()),
      recordInfo = (\<lambda>acc event. logged ''recordInfo'' ()),
      recordError = (\<lambda>acc event. logged ''recordError'' ()),
      getActiveHold = Some (\<lambda>acc. logged ''getActiveHold'' False)\<rparr>"

definition stale_window :: window_id where
  "stale_window = Window_id ''s2'' (Date_key 2026 3 27) (8, 0) (9, 0)"

definition takeover_world :: "string list coord" where
  "takeover_world =
     \<lparr>rows = [night_schedule,
        night_schedule\<lparr>id := ''s2'', enabled := False, lastStartedWindow := Some stale_window\<rparr>],
      exceptions = [], activeWindows = [(''a1'', stale_window)], failedTransitions = [], env = []\<rparr>"

definition takeover_time :: millis where
  "takeover_time = 1774744200000"

definition takeover_entries :: "schedule_entry list" where
  "takeover_entries =
     [(night_schedule, Some (active_window spring_zone night_schedule (Date_key 2026 3 28))),
      (night_schedule\<lparr>id := ''s2'', enabled := False, lastStartedWindow := Some stale_window\<rparr>, None)]"

definition night_window :: window_id where
  "night_window = Window_id ''s1'' (Date_key 2026 3 28) (22, 0) (6, 30)"

lemma takeover_facts:
  "account_entries logging_ports ''a1'' takeover_time takeover_world
     = (Inr takeover_entries, takeover_world)"
  "rows_ok (rows takeover_world)"
  "map fst takeover_entries = listSchedulesForAccount (rows takeover_world) ''a1''"
  by (code_simp, code_simp)
    (simp add: takeover_entries_def listSchedulesForAccount_def takeover_world_def night_schedule_def)

lemma takeover_winner:
  "winner_window (localeCompare logging_ports) takeover_entries = Some (night_schedule, night_window)"
  by code_simp

theorem transition_opens_only_winner_witness:
  "opened_windows ''a1'' (rows (snd (transitionAccount logging_ports ''a1'' takeover_entries
     takeover_time takeover_world))) = {\<lparr>ow_schedule = ''s1'', ow_window = night_window\<rparr>}"
proof -
  have "rows (snd (transitionAccount logging_ports ''a1'' takeover_entries takeover_time takeover_world))
      \<noteq> rows takeover_world"
  proof
    assume "rows (snd (transitionAccount logging_ports ''a1'' takeover_entries takeover_time takeover_world))
      = rows takeover_world"
    moreover have "lastStartedWindow (hd (rows (snd (transitionAccount logging_ports ''a1''
        takeover_entries takeover_time takeover_world)))) = Some night_window" by code_simp
    moreover have "lastStartedWindow (hd (rows takeover_world)) = None" by code_simp
    ultimately show False by simp
  qed
  from transition_opens_only_winner
    [OF takeover_facts(2,3) surjective_pairing this]
  show ?thesis by (simp add: takeover_winner) (simp add: night_schedule_def)
qed

section \<open>A transition that meets no failure\<close>

definition accepts :: "('env, 'x, 'a) action \<Rightarrow> bool" where
  "accepts m \<longleftrightarrow> (\<forall>v. \<exists>x v'. m v = (Inr x, v'))"

text \<open>No hold is active and the ports of a start resolve.\<close>

definition start_accepted :: "('env, 'x) ports \<Rightarrow> account_id \<Rightarrow> bool" where
  "start_accepted P acc \<longleftrightarrow>
     (case getActiveHold P of None \<Rightarrow> True
      | Some hold \<Rightarrow> \<forall>v. \<exists>v'. hold acc v = (Inr False, v')) \<and>
     (\<forall>p c. accepts (applyPreset P acc p c)) \<and> (\<forall>c. accepts (resumeOrStart P acc c)) \<and>
     (\<forall>e. accepts (recordInfo P acc e))"

text \<open>
  What is asked of the ports, in this order: whether a hold is active; and to begin a window, the
  preset of the schedule, the hold once more, the account resumed or started, and the event.
\<close>

definition hold_asked :: "('env, 'x) ports \<Rightarrow> account_id \<Rightarrow> 'env \<Rightarrow> 'env" where
  "hold_asked P acc v = (case getActiveHold P of None \<Rightarrow> v | Some hold \<Rightarrow> snd (hold acc v))"

definition window_begun :: "('env, 'x) ports \<Rightarrow> account_id \<Rightarrow> schedule \<Rightarrow> 'env \<Rightarrow> 'env" where
  "window_begun P acc sch v =
     (let source = Schedule_start (id sch) (presetId sch);
          v1 = snd (applyPreset P acc (presetId sch) source v);
          v2 = hold_asked P acc v1;
          v3 = snd (resumeOrStart P acc source v2)
      in snd (recordInfo P acc Schedule_started v3))"

lemma port_accepts: "accepts m \<Longrightarrow> \<exists>x. port m s = (Inr x, s\<lparr>env := snd (m (env s))\<rparr>)"
  by (auto simp: accepts_def port_def dest: spec [of _ "env s"])

lemma hold_accepts:
  assumes "start_accepted P acc"
  shows "active_hold P acc s = (Inr False, s\<lparr>env := hold_asked P acc (env s)\<rparr>)"
proof (cases "getActiveHold P")
  case None
  then show ?thesis by (simp add: active_hold_def hold_asked_def action_simps)
next
  case (Some hold)
  with assms have "\<forall>v. \<exists>v'. hold acc v = (Inr False, v')" by (simp add: start_accepted_def)
  then obtain v' where "hold acc (env s) = (Inr False, v')" by blast
  with Some show ?thesis by (simp add: active_hold_def hold_asked_def port_def)
qed

lemma start_window_accepted:
  assumes acc: "start_accepted P acc"
    and commit: "commitStartedWindow (started acc sch w previous) (rows s) = Inr rows'"
  shows "start_window P acc sch w previous s =
    (Inr (), s\<lparr>rows := rows', activeWindows := js_set acc w (activeWindows s),
       failedTransitions := js_delete acc (failedTransitions s), env := window_begun P acc sch (env s)\<rparr>)"
proof -
  note ports = acc [unfolded start_accepted_def]
  let ?source = "Schedule_start (id sch) (presetId sch)"
  obtain x1 where p1: "port (applyPreset P acc (presetId sch) ?source) s =
      (Inr x1, s\<lparr>env := snd (applyPreset P acc (presetId sch) ?source (env s))\<rparr>)"
    using port_accepts ports by blast
  let ?s2 = "s\<lparr>env := hold_asked P acc (snd (applyPreset P acc (presetId sch) ?source (env s)))\<rparr>"
  obtain x3 where p3: "port (resumeOrStart P acc ?source) ?s2 =
      (Inr x3, ?s2\<lparr>env := snd (resumeOrStart P acc ?source (env ?s2))\<rparr>)"
    using port_accepts ports by blast
  let ?s5 = "?s2\<lparr>env := snd (resumeOrStart P acc ?source (env ?s2)), rows := rows',
    activeWindows := js_set acc w (activeWindows s),
    failedTransitions := js_delete acc (failedTransitions s)\<rparr>"
  obtain x6 where p6: "port (recordInfo P acc Schedule_started) ?s5 =
      (Inr x6, ?s5\<lparr>env := snd (recordInfo P acc Schedule_started (env ?s5))\<rparr>)"
    using port_accepts ports by blast
  show ?thesis
    using p1 p3 p6 unfolding start_window_def Let_def
    by (simp add: then_do_apply action_simps store_def commit hold_accepts [OF acc] window_begun_def Let_def)
qed

lemma winner_takes_over:
  assumes "rows_ok (rows s)" "map fst entries = listSchedulesForAccount (rows s) acc"
    and "winner_window collate entries = Some (sch, w)" "enabled sch"
  shows "sch \<in> set (rows s)" "accountId sch = acc"
    and "\<exists>rows'. commitStartedWindow (started acc sch w (other_open_windows entries sch w)) (rows s) = Inr rows' \<and>
      opened_windows acc rows' = {\<lparr>ow_schedule = id sch, ow_window = w\<rparr>}"
    and "other_open_windows entries sch w = [] \<Longrightarrow> lastStartedWindow sch = Some w \<Longrightarrow> lastStoppedWindow sch \<noteq> Some w \<Longrightarrow>
      opened_windows acc (rows s) = {\<lparr>ow_schedule = id sch, ow_window = w\<rparr>}"
proof -
  let ?prev = "other_open_windows entries sch w"
  let ?w = "started acc sch w ?prev"
  have opened: "opened_windows acc (rows s) = set (openScheduleWindows entries)"
    by (simp add: opened_windows_def openScheduleWindows_def assms(2))
  have "sch \<in> set (map fst entries)"
    using assms(3) winner_mem [of collate entries]
    by (auto simp: winner_window_def split: option.splits prod.splits) force
  then have sch: "sch \<in> set (rows s)" "accountId sch = acc"
    by (auto simp: assms(2) listSchedulesForAccount_def)
  have open_row: "\<exists>t\<in>set (rows s). id t = ow_schedule o' \<and> accountId t = acc \<and>
      lastStartedWindow t = Some (ow_window o')" if "o' \<in> set ?prev" for o'
    using that opened [symmetric] opened_windows_iff [of o' acc "rows s"]
    by (auto simp: other_open_windows_def)
  have "\<exists>rows'. commitStartedWindow ?w (rows s) = Inr rows'"
    by (rule commitStartedWindow_succeeds [OF assms(1) sch(1) assms(4)])
      (use open_row sch in \<open>simp_all add: started_def\<close>)
  then obtain rows' where commit: "commitStartedWindow ?w (rows s) = Inr rows'" by blast
  have "o' = \<lparr>ow_schedule = id sch, ow_window = w\<rparr> \<or> o' \<in> set ?prev"
    if "o' \<in> opened_windows acc (rows s)" for o'
    using that unfolding opened other_open_windows_def by (cases o') auto
  then have exclusive: "opened_windows acc rows' = {\<lparr>ow_schedule = id sch, ow_window = w\<rparr>}"
    using store.start_exclusive [OF assms(1) commit] by (simp add: started_def)
  show "sch \<in> set (rows s)" "accountId sch = acc" by (fact sch)+
  show "\<exists>rows'. commitStartedWindow ?w (rows s) = Inr rows' \<and> opened_windows acc rows' = {\<lparr>ow_schedule = id sch, ow_window = w\<rparr>}"
    using commit exclusive by blast
  assume running: "?prev = []" "lastStartedWindow sch = Some w" "lastStoppedWindow sch \<noteq> Some w"
  have "\<lparr>ow_schedule = id sch, ow_window = w\<rparr> \<in> opened_windows acc (rows s)"
    using running sch by (auto simp: opened_windows_iff)
  moreover have "opened_windows acc (rows s) \<subseteq> {\<lparr>ow_schedule = id sch, ow_window = w\<rparr>}"
    using running by (auto simp: opened other_open_windows_def filter_empty_conv)
  ultimately show "opened_windows acc (rows s) = {\<lparr>ow_schedule = id sch, ow_window = w\<rparr>}" by blast
qed

lemma running_window_is_kept:
  fixes P :: "('env, 'x) ports" and s :: "'env coord"
  assumes "rows_ok (rows s)" "map fst entries = listSchedulesForAccount (rows s) acc"
    and "winner_window (localeCompare P) entries = Some (sch, w)" "enabled sch"
    and running: "lastStartedWindow sch = Some w" "lastStoppedWindow sch \<noteq> Some w"
    and "js_get (activeWindows s) acc = Some w \<or> js_get (activeWindows s) acc = None"
  shows "fst (enter_window P acc entries now (js_get (activeWindows s) acc) sch w s) = Inr () \<and>
    opened_windows acc (rows (snd (enter_window P acc entries now (js_get (activeWindows s) acc) sch w s))) =
      {\<lparr>ow_schedule = id sch, ow_window = w\<rparr>} \<and>
    js_get (activeWindows (snd (enter_window P acc entries now (js_get (activeWindows s) acc) sch w s))) acc = Some w \<and>
    env (snd (enter_window P acc entries now (js_get (activeWindows s) acc) sch w s)) = env s"
proof -
  let ?prev = "other_open_windows entries sch w"
  let ?w = "started acc sch w ?prev"
  note over = winner_takes_over [OF assms(1-4)]
  let ?commit = "if ?prev = [] then pure () else store (commitStartedWindow ?w) :: ('env, 'x, unit) coord_action"
  obtain s1 where s1: "?commit s = (Inr (), s1)" "activeWindows s1 = activeWindows s" "env s1 = env s"
    "opened_windows acc (rows s1) = {\<lparr>ow_schedule = id sch, ow_window = w\<rparr>}"
    using over(3) over(4) [OF _ running] by (cases "?prev = []") (auto simp: action_simps store_def)
  show ?thesis
  proof (cases "js_get (activeWindows s) acc")
    case (Some w')
    then show ?thesis
      using assms(7) unfolding enter_window_unfold Let_def by (simp add: running s1)
  next
    case None
    then show ?thesis
      unfolding enter_window_unfold Let_def then_do_apply by (simp add: running s1 action_simps)
  qed
qed

text \<open>The window is known to be running: it is marked as opened, and no other window is held.\<close>

definition left_running :: "schedule \<Rightarrow> window_id \<Rightarrow> window_id option \<Rightarrow> bool" where
  "left_running sch w previousWindow \<longleftrightarrow>
     lastStartedWindow sch = Some w \<and> lastStoppedWindow sch \<noteq> Some w \<and>
     (previousWindow = Some w \<or> previousWindow = None)"

text \<open>
  C9: When a schedule wins, nothing is held or backing off and the ports of a start resolve, a
  transition resolves, and afterwards the winner's window is the one open window of the account
  and the one the coordinator holds as running. Unless that window was running before, the account
  is really begun: the preset of the winner is applied, the hold is asked for again, and the account
  is resumed or started, in this order; a window that was running is left running, with no call but
  the question for a hold. The marker transaction cannot be rejected on rows that are still those
  the entries were read from.
\<close>

theorem transition_starts_winner:
  fixes P :: "('env, 'x) ports" and s :: "'env coord"
  assumes "rows_ok (rows s)" "map fst entries = listSchedulesForAccount (rows s) acc"
    and "winner_window (localeCompare P) entries = Some (sch, w)" "enabled sch"
    and "start_accepted P acc" "\<not> isBackingOff acc (Retry_start (id sch) w) now s"
  shows "fst (transitionAccount P acc entries now s) = Inr () \<and>
    opened_windows acc (rows (snd (transitionAccount P acc entries now s))) =
      {\<lparr>ow_schedule = id sch, ow_window = w\<rparr>} \<and>
    js_get (activeWindows (snd (transitionAccount P acc entries now s))) acc = Some w \<and>
    env (snd (transitionAccount P acc entries now s)) =
      (if left_running sch w (js_get (activeWindows s) acc) then hold_asked P acc (env s)
       else window_begun P acc sch (hold_asked P acc (env s)))"
proof -
  let ?prev = "other_open_windows entries sch w"
  obtain rows' where rows': "commitStartedWindow (started acc sch w ?prev) (rows s) = Inr rows'"
    "opened_windows acc rows' = {\<lparr>ow_schedule = id sch, ow_window = w\<rparr>}"
    using winner_takes_over(3) [OF assms(1-4)] by blast
  let ?s = "s\<lparr>env := hold_asked P acc (env s)\<rparr>"
  have enter: "transitionAccount P acc entries now s =
      enter_window P acc entries now (js_get (activeWindows ?s) acc) sch w ?s"
    unfolding transitionAccount_def by (simp add: then_do_apply action_simps hold_accepts [OF assms(5)] assms(3))
  show ?thesis
  proof (cases "left_running sch w (js_get (activeWindows s) acc)")
    case True
    then show ?thesis
      unfolding enter if_P [OF True] using running_window_is_kept [of ?s entries acc P sch w now] assms(1-4)
      by (simp add: left_running_def)
  next
    case False
    have ready: "\<not> isBackingOff acc (Retry_start (id sch) w) now ?s"
      using assms(6) by (simp add: isBackingOff_def)
    have "start_window P acc sch w ?prev ?s =
        (Inr (), ?s\<lparr>rows := rows', activeWindows := js_set acc w (activeWindows ?s),
           failedTransitions := js_delete acc (failedTransitions ?s), env := window_begun P acc sch (env ?s)\<rparr>)"
      using start_window_accepted [OF assms(5), of sch w ?prev ?s rows'] rows' by simp
    then have "enter_window P acc entries now (js_get (activeWindows ?s) acc) sch w ?s =
        (Inr (), ?s\<lparr>rows := rows', activeWindows := js_set acc w (activeWindows ?s),
           failedTransitions := js_delete acc (failedTransitions ?s), env := window_begun P acc sch (env ?s)\<rparr>)"
      unfolding enter_window_unfold Let_def
      using False ready by (auto simp: catching_def left_running_def)
    then show ?thesis using rows' False by (simp add: enter)
  qed
qed

theorem transition_starts_winner_witness:
  "fst (transitionAccount logging_ports ''a1'' takeover_entries takeover_time takeover_world) = Inr () \<and>
   js_get (activeWindows (snd (transitionAccount logging_ports ''a1'' takeover_entries takeover_time
     takeover_world))) ''a1'' = Some night_window \<and>
   env (snd (transitionAccount logging_ports ''a1'' takeover_entries takeover_time takeover_world)) =
     [''getActiveHold'', ''applyPreset'', ''getActiveHold'', ''resumeOrStart'', ''recordInfo'']"
proof -
  have enabled: "enabled night_schedule" by code_simp
  have accepted: "start_accepted logging_ports ''a1''"
    by (simp add: start_accepted_def logging_ports_def logged_def accepts_def)
  have ready: "\<not> isBackingOff ''a1'' (Retry_start (id night_schedule) night_window) takeover_time takeover_world"
    by code_simp
  have fresh: "\<not> left_running night_schedule night_window (js_get (activeWindows takeover_world) ''a1'')"
    by code_simp
  have begun: "window_begun logging_ports ''a1'' night_schedule (hold_asked logging_ports ''a1'' (env takeover_world)) =
      [''getActiveHold'', ''applyPreset'', ''getActiveHold'', ''resumeOrStart'', ''recordInfo'']"
    by (simp add: window_begun_def hold_asked_def logging_ports_def logged_def takeover_world_def Let_def)
  show ?thesis
    using transition_starts_winner [OF takeover_facts(2,3) takeover_winner enabled accepted ready]
    unfolding if_not_P [OF fresh] begun by blast
qed

section \<open>Holds, back-off and other accounts\<close>

text \<open>
  While a safety hold is active on an account, a transition changes nothing of its
  schedules: markers, running window and retries stay as they are, whatever the schedules say.
\<close>

theorem held_account_is_left_alone:
  assumes "getActiveHold P = Some hold" "hold acc (env s) = (Inr True, v)"
  shows "transitionAccount P acc entries now s = (Inr (), s\<lparr>env := v\<rparr>)"
  using assms unfolding transitionAccount_def active_hold_def port_def
  by (simp add: then_do_apply action_simps)

theorem held_account_is_left_alone_witness:
  "transitionAccount (logging_ports\<lparr>getActiveHold := Some (\<lambda>acc. logged ''hold'' True)\<rparr>) ''a1''
     takeover_entries takeover_time takeover_world = (Inr (), takeover_world\<lparr>env := [''hold'']\<rparr>)"
  by (rule held_account_is_left_alone [where hold = "\<lambda>acc. logged ''hold'' True"])
    (simp_all add: logged_def takeover_world_def)

definition failing :: "account_id \<Rightarrow> retry_key \<Rightarrow> millis list \<Rightarrow> 'env coord \<Rightarrow> 'env coord" where
  "failing acc key moments s =
     foldl (\<lambda>s now. snd ((recordTransitionFailure acc key now :: ('env, unit, nat \<times> millis) coord_action) s))
       s moments"

lemma failing_snoc:
  "failing acc key (moments @ [now]) s =
     (let s' = failing acc key moments s; n = next_failures acc key s'
      in s'\<lparr>failedTransitions := js_set acc
           \<lparr>ft_key = key, failures = n, retryAt = now + retry_delay n\<rparr> (failedTransitions s')\<rparr>)"
  by (simp add: failing_def recordTransitionFailure_def Let_def)

lemma failing_count:
  "js_get (failedTransitions s) acc = None \<Longrightarrow>
   next_failures acc key (failing acc key moments s) = Suc (length moments)"
  by (induction moments rule: rev_induct)
    (simp_all add: failing_snoc Let_def next_failures_def, simp add: failing_def)

lemma retry_delay_range: "one_minute \<le> retry_delay n \<and> retry_delay n \<le> one_hour"
  by (simp add: retry_delay_def)

text \<open>
  After the n-th consecutive failure of the same transition the account waits
  1, 2, 4, 8, ... minutes, at most an hour, before that transition is tried again; a failure of
  another transition starts over at one minute.
\<close>

theorem backoff_doubles:
  assumes "js_get (failedTransitions s) acc = None"
  shows "(isBackingOff acc key t (failing acc key (moments @ [now]) s) \<longleftrightarrow>
      t < now + min (one_minute * 2 ^ length moments) one_hour) \<and>
    (\<forall>key'. key' \<noteq> key \<longrightarrow> \<not> isBackingOff acc key' t (failing acc key (moments @ [now]) s) \<and>
      next_failures acc key' (failing acc key (moments @ [now]) s) = 1)"
  using failing_count [OF assms, of key moments]
  by (simp add: failing_snoc Let_def isBackingOff_def retry_delay_def next_failures_def [of acc "_"])

definition idle_coord :: "string list coord" where
  "idle_coord = \<lparr>rows = [], exceptions = [], activeWindows = [], failedTransitions = [], env = []\<rparr>"

theorem backoff_doubles_witness:
  "\<not> isBackingOff ''a1'' Retry_pause (2 * one_minute + one_minute * 2)
     (failing ''a1'' Retry_pause ([0] @ [2 * one_minute]) idle_coord)"
  using backoff_doubles [of idle_coord "''a1''" Retry_pause
      "2 * one_minute + one_minute * 2" "[0]" "2 * one_minute"]
  by (simp add: idle_coord_def)

text \<open>What belongs to the other accounts.\<close>

definition others_kept :: "account_id \<Rightarrow> 'env coord \<Rightarrow> 'env coord \<Rightarrow> bool" where
  "others_kept acc s s' \<longleftrightarrow>
     (\<forall>acc'. acc' \<noteq> acc \<longrightarrow>
        listSchedulesForAccount (rows s') acc' = listSchedulesForAccount (rows s) acc' \<and>
        js_get (activeWindows s') acc' = js_get (activeWindows s) acc' \<and>
        js_get (failedTransitions s') acc' = js_get (failedTransitions s) acc')"

lemma others_kept_refl: "reflp (others_kept acc)" and others_kept_trans: "transp (others_kept acc)"
  by (auto simp: reflp_def transp_def others_kept_def)

lemmas keeps_others = keeps_then_do [OF others_kept_trans] keeps_catching [OF others_kept_trans]
  keeps_basic(1-3) [OF others_kept_refl]

lemma keeps_others_modify: "(\<And>s. others_kept acc s (g s)) \<Longrightarrow> keeps (others_kept acc) (modify g)"
  by (rule keeps_basic(4))

lemma keeps_others_port: "keeps (others_kept acc) (port m)"
  by (auto simp: keeps_def port_def others_kept_def split: prod.split sum.split)

lemma keeps_others_store:
  "(\<And>rows rows' acc'. f rows = Inr rows' \<Longrightarrow> acc' \<noteq> acc \<Longrightarrow>
     listSchedulesForAccount rows' acc' = listSchedulesForAccount rows acc') \<Longrightarrow>
   keeps (others_kept acc) (store f)"
  by (auto simp: keeps_def store_def others_kept_def split: sum.split)

lemma keeps_others_stop: "keeps (others_kept acc) (store (markWindowsStopped acc ws))"
  by (rule keeps_others_store) (auto simp: markWindowsStopped_def dest: stop_each_listing)

lemma keeps_others_commit: "keeps (others_kept acc) (store (commitStartedWindow (started acc sch w ws)))"
  by (rule keeps_others_store) (auto simp: started_def dest: commitStartedWindow_listing)

lemma keeps_others_failure: "keeps (others_kept acc) (report_failure P acc key now e)"
proof -
  have "keeps (others_kept acc) (recordTransitionFailure acc key now)"
    by (auto simp: keeps_def recordTransitionFailure_def Let_def others_kept_def)
  then show ?thesis
    unfolding report_failure_def
    by (intro keeps_others) (auto split: prod.split intro: keeps_others_port)
qed

lemma keeps_if_state:
  "keeps r m \<Longrightarrow> keeps r m' \<Longrightarrow> keeps r (\<lambda>s. if b s then m s else m' s)"
  by (simp add: keeps_def)

lemma keeps_others_hold: "keeps (others_kept acc) (active_hold P acc')"
  by (auto simp: active_hold_def intro: keeps_others keeps_others_port split: option.split)

lemma keeps_others_stopAccountWindow:
  "keeps (others_kept acc) (stopAccountWindow P acc entries now previous)"
proof -
  have "keeps (others_kept acc) (pause_window P acc ws)" for ws
    unfolding pause_window_def
    by (intro keeps_others keeps_others_port keeps_others_stop keeps_others_modify)
      (auto intro: keeps_others keeps_others_port simp: others_kept_def clearAccount_def)
  then show ?thesis
    unfolding stopAccountWindow_def Let_def
    by (intro keeps_if_state keeps_others keeps_others_failure)
qed

lemma keeps_others_enter_window:
  "keeps (others_kept acc) (enter_window P acc entries now previous sch w)"
proof -
  have "keeps (others_kept acc) (start_window P acc sch w ws)" for ws
    unfolding start_window_def Let_def
    by (intro keeps_others keeps_others_port keeps_others_hold)
      (auto intro!: keeps_others keeps_others_port keeps_others_commit keeps_others_modify
        simp: others_kept_def)
  moreover have "keeps (others_kept acc)
      (if c then pure () else store (commitStartedWindow (started acc sch w ws)))" for c ws
    by (auto intro: keeps_others keeps_others_commit)
  moreover have "keeps (others_kept acc)
      (modify (\<lambda>s. s\<lparr>activeWindows := js_set acc w (activeWindows s)\<rparr>))"
    by (rule keeps_others_modify) (simp add: others_kept_def)
  ultimately show ?thesis
    unfolding enter_window_def Let_def
    by (intro keeps_if_state keeps_others keeps_others_failure)
qed

lemma keeps_others_evaluate: "keeps (others_kept acc) (evaluateSchedules P now schs)"
proof (induction schs)
  case (Cons sch schs)
  have "keeps (others_kept acc) (evaluate_schedule P now sch)"
    unfolding evaluate_schedule_def
    by (auto intro!: keeps_others keeps_others_port split: sum.split)
  with Cons show ?case by (auto intro!: keeps_others)
qed (simp add: keeps_others)

text \<open>
  Whatever happens in an account's turn of a tick (a start, a pause, a failure, a rejected
  port or marker), the schedule rows, the running window and the retry state of every other
  account stay as they were, so the turns of different accounts do not interfere.
\<close>

theorem tick_keeps_other_accounts:
  "others_kept acc s (snd (tick_account P now acc s))"
proof -
  have "keeps (others_kept acc) (transitionAccount P acc entries now)" for entries
    unfolding transitionAccount_def
    by (auto intro!: keeps_others keeps_others_hold keeps_others_stopAccountWindow
        keeps_others_enter_window split: option.split)
  then have "keeps (others_kept acc) (tick_account P now acc)"
    unfolding tick_account_def by (intro keeps_others keeps_others_evaluate)
  then show ?thesis by (simp add: keeps_def)
qed

section \<open>Who owns a hold, and when a held account may resume\<close>

lemma reading_apply: "reading f s = (Inr (f s), s)"
  by (simp add: action_simps)

text \<open>
  A hold taken now belongs to the winning window when a schedule wins, otherwise to a
  window of the account that is still open, and to no schedule exactly when neither exists; an
  account held for a schedule may resume only while that very window wins.
\<close>

theorem hold_owner_may_resume:
  assumes "account_entries P acc now s = (Inr entries, s1)"
    and "getHoldOwner P window_compare acc now s = (Inr owner, s2)"
  shows "(owner = Unscheduled \<longleftrightarrow> winner_window (localeCompare P) entries = None \<and>
        openScheduleWindows entries = []) \<and>
    owner \<noteq> Unknown_owner \<and>
    (\<forall>sid w. owner = Scheduled sid w \<longrightarrow>
       (\<exists>sch. winner_window (localeCompare P) entries = Some (sch, w) \<and> id sch = sid) \<or>
       (winner_window (localeCompare P) entries = None \<and>
        \<lparr>ow_schedule = sid, ow_window = w\<rparr> \<in> set (openScheduleWindows entries))) \<and>
    (canResumeHeldAccount P acc owner now s = (Inr True, s3) \<longrightarrow>
       owner = Unscheduled \<or>
       (\<exists>sch w. winner_window (localeCompare P) entries = Some (sch, w) \<and>
          owner = Scheduled (id sch) w))"
proof -
  let ?open = "openScheduleWindows entries"
  have owner: "owner = hold_owner_of (localeCompare P) window_compare entries
      (js_get (activeWindows s1) acc)"
    using assms by (auto simp: getHoldOwner_def then_do_apply action_simps)
  have resume: "canResumeHeldAccount P acc owner now s = (Inr True, s3) \<Longrightarrow>
      owner = Unscheduled \<or>
       (\<exists>sch w. winner_window (localeCompare P) entries = Some (sch, w) \<and>
          owner = Scheduled (id sch) w)"
    using assms(1)
    by (auto simp: canResumeHeldAccount_def then_do_apply action_simps
        split: hold_owner.splits option.splits)
  have first: "first_of (filter p ?open) = Some o' \<Longrightarrow> o' \<in> set ?open" for p o'
  proof -
    assume "first_of (filter p ?open) = Some o'"
    then have "o' \<in> set (filter p ?open)"
      by (auto simp: first_of_def simp del: set_filter split: list.splits)
    then show "o' \<in> set ?open" by simp
  qed
  have least: "hd (js_sort window_compare ?open) \<in> set ?open" if "?open \<noteq> []"
    using that by (metis hd_in_set js_sort_eq_Nil set_js_sort)
  have "owner = Unscheduled \<and> winner_window (localeCompare P) entries = None \<and> ?open = [] \<or>
      (\<exists>sid w. owner = Scheduled sid w \<and>
        ((\<exists>sch. winner_window (localeCompare P) entries = Some (sch, w) \<and> id sch = sid) \<or>
         (winner_window (localeCompare P) entries = None \<and>
          \<lparr>ow_schedule = sid, ow_window = w\<rparr> \<in> set ?open)))"
  proof (cases "winner_window (localeCompare P) entries")
    case (Some win)
    then show ?thesis by (cases win) (simp add: owner hold_owner_of_def)
  next
    case none: None
    show ?thesis
    proof (cases "?open = []")
      case True
      then show ?thesis by (simp add: owner hold_owner_of_def none)
    next
      case False
      let ?mine = "first_of (filter (\<lambda>o'. Some (ow_window o') = js_get (activeWindows s1) acc) ?open)"
      define o' where "o' = (case ?mine of Some m \<Rightarrow> m | None \<Rightarrow> hd (js_sort window_compare ?open))"
      have "owner = scheduledOwner o'"
        using False by (simp add: owner hold_owner_of_def none o'_def split: option.split)
      moreover have "o' \<in> set ?open"
        using first least [OF False] by (auto simp: o'_def split: option.split)
      ultimately show ?thesis by (cases o') (auto simp: scheduledOwner_def none)
    qed
  qed
  with resume show ?thesis by auto
qed

theorem hold_owner_may_resume_witness:
  "getHoldOwner logging_ports (\<lambda>_ _. 0) ''a1'' takeover_time takeover_world
     = (Inr (Scheduled ''s1'' night_window), takeover_world) \<and>
   (\<exists>sch. winner_window (localeCompare logging_ports) takeover_entries = Some (sch, night_window))"
proof -
  have owner: "getHoldOwner logging_ports (\<lambda>_ _. 0) ''a1'' takeover_time takeover_world
     = (Inr (Scheduled ''s1'' night_window), takeover_world)" by code_simp
  show ?thesis
    using hold_owner_may_resume [OF takeover_facts(1) owner] owner
    by (auto simp: takeover_winner)
qed

section \<open>Requests for a tick\<close>

text \<open>
  \<open>tick\<close> and \<open>runTickLoop\<close>. A request while a tick runs is remembered in \<open>trailingTickAt\<close>; the
  loop runs the remembered time when \<open>tickNow\<close> has resolved, and ends otherwise; \<open>finally\<close> then
  clears the fields, a step later. \<open>asked\<close> and \<open>ran\<close> are the requests taken up and the times
  run since the tick began.
\<close>

datatype tick_phase = Idle | Running | Ended bool

record ticks =
  phase :: tick_phase
  trailingTickAt :: "millis option"
  latestRequestedTickAt :: "millis option"
  asked :: "millis list"
  ran :: "millis list"

definition no_ticks :: ticks where
  "no_ticks = \<lparr>phase = Idle, trailingTickAt = None, latestRequestedTickAt = None, asked = [], ran = []\<rparr>"

definition later_than :: "millis \<Rightarrow> millis option \<Rightarrow> bool" where
  "later_than now latest = (case latest of None \<Rightarrow> True | Some t \<Rightarrow> now > t)"

definition request_tick :: "millis \<Rightarrow> ticks \<Rightarrow> ticks" where
  "request_tick now s =
     (if phase s \<noteq> Idle then
        let s = s\<lparr>asked := (if phase s = Running then asked s @ [now] else asked s)\<rparr>
        in if later_than now (latestRequestedTickAt s)
           then s\<lparr>latestRequestedTickAt := Some now, trailingTickAt := Some now\<rparr>
           else s
      else s\<lparr>phase := Running, latestRequestedTickAt := Some now, asked := [now], ran := [now]\<rparr>)"

text \<open>\<open>tickNow\<close> has settled: \<open>True\<close> when it resolved.\<close>

definition tick_settled :: "bool \<Rightarrow> ticks \<Rightarrow> ticks" where
  "tick_settled resolved s =
     (if \<not> resolved then s\<lparr>phase := Ended False\<rparr>
      else case trailingTickAt s of
        None \<Rightarrow> s\<lparr>phase := Ended True\<rparr>
      | Some now \<Rightarrow> s\<lparr>trailingTickAt := None, ran := ran s @ [now]\<rparr>)"

definition tick_finally :: "ticks \<Rightarrow> ticks" where
  "tick_finally s = s\<lparr>phase := Idle, trailingTickAt := None, latestRequestedTickAt := None\<rparr>"

inductive tick_step :: "ticks \<Rightarrow> ticks \<Rightarrow> bool" where
  requested: "tick_step s (request_tick now s)"
| settled: "phase s = Running \<Longrightarrow> tick_step s (tick_settled resolved s)"
| finally_done: "phase s = Ended resolved \<Longrightarrow> tick_step s (tick_finally s)"

inductive tick_reachable :: "ticks \<Rightarrow> bool" where
  start: "tick_reachable no_ticks"
| step: "tick_reachable s \<Longrightarrow> tick_step s s' \<Longrightarrow> tick_reachable s'"

definition ticks_inv :: "ticks \<Rightarrow> bool" where
  "ticks_inv s \<longleftrightarrow>
     (phase s = Idle \<longrightarrow> trailingTickAt s = None \<and> latestRequestedTickAt s = None) \<and>
     (phase s \<noteq> Idle \<longrightarrow> ran s \<noteq> [] \<and> sorted_wrt (<) (ran s) \<and> set (ran s) \<subseteq> set (asked s)) \<and>
     (phase s = Running \<longrightarrow>
        (\<exists>top. latestRequestedTickAt s = Some top \<and> (\<forall>t\<in>set (asked s). t \<le> top) \<and>
           (case trailingTickAt s of
              None \<Rightarrow> last (ran s) = top
            | Some t \<Rightarrow> t = top \<and> last (ran s) < t \<and> t \<in> set (asked s)))) \<and>
     (phase s = Ended True \<longrightarrow> (\<forall>t\<in>set (asked s). t \<le> last (ran s)))"

lemma sorted_snoc_last:
  "sorted_wrt (<) xs \<Longrightarrow> xs \<noteq> [] \<Longrightarrow> last xs < (x :: int) \<Longrightarrow> sorted_wrt (<) (xs @ [x])"
  by (induction xs rule: rev_induct) (auto simp: sorted_wrt_append)

lemma ticks_inv_request: "ticks_inv s \<Longrightarrow> ticks_inv (request_tick now s)"
  by (cases "phase s"; cases "trailingTickAt s")
    (auto simp: ticks_inv_def request_tick_def later_than_def Let_def)

lemma ticks_inv_settled: "ticks_inv s \<Longrightarrow> phase s = Running \<Longrightarrow> ticks_inv (tick_settled resolved s)"
  by (cases "trailingTickAt s")
    (auto simp: ticks_inv_def tick_settled_def intro: sorted_snoc_last)

lemma ticks_inv_finally: "ticks_inv (tick_finally s)"
  by (simp add: ticks_inv_def tick_finally_def)

lemma ticks_inv_reachable: "tick_reachable s \<Longrightarrow> ticks_inv s"
proof (induction rule: tick_reachable.induct)
  case start
  then show ?case by (simp add: ticks_inv_def no_ticks_def)
next
  case (step s s')
  from step.hyps(2) step.IH show ?case
    by (cases rule: tick_step.cases) (auto intro: ticks_inv_request ticks_inv_settled ticks_inv_finally)
qed

text \<open>
  Ticks requested while one is running are coalesced without losing the newest: the times
  run are strictly increasing, each was requested, and when the loop has ended without a
  failure the last time it ran is the latest of all the times requested meanwhile.
\<close>

theorem ticks_coalesce_to_latest:
  assumes "tick_reachable s" "phase s = Ended True"
  shows "sorted_wrt (<) (ran s) \<and> set (ran s) \<subseteq> set (asked s) \<and>
    last (ran s) \<in> set (asked s) \<and> (\<forall>t\<in>set (asked s). t \<le> last (ran s))"
proof -
  have inv: "ran s \<noteq> []" "sorted_wrt (<) (ran s)" "set (ran s) \<subseteq> set (asked s)"
    "\<forall>t\<in>set (asked s). t \<le> last (ran s)"
    using ticks_inv_reachable [OF assms(1)] assms(2) by (auto simp: ticks_inv_def)
  then have "last (ran s) \<in> set (asked s)" using last_in_set by blast
  with inv show ?thesis by blast
qed

theorem ticks_coalesce_to_latest_witness:
  "let s = tick_settled True (tick_settled True (request_tick 30 (request_tick 90 (request_tick 60 no_ticks))))
   in ran s = [60, 90] \<and> asked s = [60, 90, 30] \<and> list_all (\<lambda>t. t \<le> last (ran s)) (asked s)"
proof -
  let ?s3 = "request_tick 30 (request_tick 90 (request_tick 60 no_ticks))"
  let ?s = "tick_settled True (tick_settled True ?s3)"
  have "tick_reachable ?s3"
    by (intro tick_reachable.step [OF _ tick_step.requested] tick_reachable.start)
  moreover have "phase ?s3 = Running" "phase (tick_settled True ?s3) = Running" by code_simp+
  ultimately have "tick_reachable ?s"
    by (metis tick_reachable.step tick_step.settled)
  moreover have "phase ?s = Ended True" by code_simp
  moreover have "ran ?s = [60, 90]" "asked ?s = [60, 90, 30]" by code_simp+
  ultimately show ?thesis
    using ticks_coalesce_to_latest [of ?s] by (simp add: Let_def list_all_iff)
qed

end
