(* ===== verification/FarmingRules.thy ===== *)
theory FarmingRules
  imports Prelude
begin

text \<open>
  Which games card farming runs: the selection rules of
  \<open>apps/server/src/farming/controller.ts\<close> (\<open>updateGames\<close>, \<open>filterGames\<close>, \<open>orderGames\<close>,
  \<open>creditPlaytime\<close>, the selection in \<open>advance\<close>) and the badge pages of \<open>farming/badges.ts\<close>.

  Playing times are counted in milliseconds (the code has minutes, with fractions of a minute
  once time has been credited); the average card price is counted in a fixed fraction of the
  currency. \<open>compare\<close> is \<open>localeCompare\<close> of the names.
\<close>

section \<open>Data\<close>

type_synonym app_id = int

abbreviation MAX_SAFE_INTEGER :: int where "MAX_SAFE_INTEGER \<equiv> max_safe_integer"
abbreviation MAX_BADGE_PAGES :: int where "MAX_BADGE_PAGES \<equiv> 20"
abbreviation MAX_BADGE_GAMES :: nat where "MAX_BADGE_GAMES \<equiv> 1000"
abbreviation refund_playtime :: millis where "refund_playtime \<equiv> 7200000"
abbreviation refund_days :: millis where "refund_days \<equiv> 1209600000"

datatype skip_reason = Blacklisted | Not_whitelisted | Refund_window | Purchase_date_unknown

datatype farming_order =
  Default_order | Card_value | Drops_desc | Drops_asc | Hours_desc | Acquired_asc | By_name

record farming_config =
  maxConcurrentGames :: int
  skipRefundable :: bool
  whitelist :: "app_id list"
  blacklist :: "app_id list"
  autoResume :: bool
  order :: farming_order
  priority :: "app_id list"

record card_value =
  average :: int
  price_text :: string

record farming_game =
  appId :: app_id
  game_name :: string
  remainingDrops :: int
  playtime :: "millis option"
  acquiredAt :: "millis option"
  skipReason :: "skip_reason option"
  cardValue :: "card_value option"

record discovery =
  found :: "farming_game list"
  truncated_pages :: bool

type_synonym known_value = "card_value option \<times> millis"

definition or_zero :: "int option \<Rightarrow> int" where
  "or_zero v = (case v of None \<Rightarrow> 0 | Some n \<Rightarrow> n)"

section \<open>Badge pages\<close>

text \<open>A page of \<open>parseBadgePage\<close>, whose text it parses outside the model.\<close>

record badge_page =
  page_games :: "farming_game list"
  pageCount :: int

record library_entry =
  lib_app :: app_id
  lib_name :: string
  lib_playtime :: "millis option"

definition enrich_game :: "library_entry list \<Rightarrow> farming_game \<Rightarrow> farming_game" where
  "enrich_game library game =
     (case js_get (map (\<lambda>e. (lib_app e, e)) (rev library)) (appId game) of
        None \<Rightarrow> game
      | Some e \<Rightarrow> game\<lparr>game_name := lib_name e,
          playtime := Some (max (or_zero (playtime game)) (or_zero (lib_playtime e)))\<rparr>)"

definition enrichBadgeGames :: "farming_game list \<Rightarrow> library_entry list \<Rightarrow> farming_game list" where
  "enrichBadgeGames games library = map (enrich_game library) games"

text \<open>The games of one page join the map; its size is capped.\<close>

fun add_badge_games ::
    "farming_game list \<Rightarrow> (app_id, farming_game) js_map \<times> bool \<Rightarrow> (app_id, farming_game) js_map \<times> bool" where
  "add_badge_games [] acc = acc"
| "add_badge_games (g # gs) (games, truncated) =
     (if length games \<ge> MAX_BADGE_GAMES \<and> js_get games (appId g) = None
      then add_badge_games gs (games, True)
      else add_badge_games gs (js_set (appId g) g games, truncated))"

text \<open>The loop over the pages; a request rejects with \<open>Inl\<close>. At most 20 pages are read.\<close>

function discover_pages ::
    "(int \<Rightarrow> 'e + badge_page) \<Rightarrow> int \<Rightarrow> int \<Rightarrow> (app_id, farming_game) js_map \<Rightarrow> bool
      \<Rightarrow> 'e + discovery" where
  "discover_pages request page pages games truncated =
     (if page \<le> min pages MAX_BADGE_PAGES then
        and_then (request page) (\<lambda>parsed.
          let pages' = max pages (pageCount parsed);
              (games', truncated') =
                add_badge_games (page_games parsed) (games, truncated \<or> pages' > MAX_BADGE_PAGES)
          in discover_pages request (page + 1) pages' games' truncated')
      else Inr \<lparr>found = map snd games, truncated_pages = truncated\<rparr>)"
  by auto
termination
  by (relation "measure (\<lambda>(_, page, _). nat (MAX_BADGE_PAGES + 1 - page))") auto

declare discover_pages.simps [simp del]

definition discoverBadgeDrops :: "(int \<Rightarrow> 'e + badge_page) \<Rightarrow> 'e + discovery" where
  "discoverBadgeDrops request = discover_pages request 1 1 [] False"

section \<open>Filtering and ordering\<close>

definition skip_reason_of :: "farming_config \<Rightarrow> millis \<Rightarrow> farming_game \<Rightarrow> skip_reason option" where
  "skip_reason_of config now game =
     (if appId game \<in> set (blacklist config) then Some Blacklisted
      else if whitelist config \<noteq> [] \<and> appId game \<notin> set (whitelist config) then Some Not_whitelisted
      else if \<not> skipRefundable config \<or> or_zero (playtime game) \<ge> refund_playtime then None
      else case acquiredAt game of
        None \<Rightarrow> Some Purchase_date_unknown
      | Some at \<Rightarrow>
          if at > now then Some Purchase_date_unknown
          else if now - at \<le> refund_days then Some Refund_window else None)"

text \<open>\<open>new Map(xs.map((x, index) => [x, index]))\<close>: the last position of a repeated key counts.\<close>

definition positions :: "'a list \<Rightarrow> ('a, int) js_map" where
  "positions xs = foldl (\<lambda>m (k, i). js_set k i m) [] (zip xs (map int [0..<length xs]))"

definition position_or_last :: "('a, int) js_map \<Rightarrow> 'a \<Rightarrow> int" where
  "position_or_last m k = (case js_get m k of None \<Rightarrow> MAX_SAFE_INTEGER | Some i \<Rightarrow> i)"

definition average_or_unknown :: "farming_game \<Rightarrow> int" where
  "average_or_unknown g = (case cardValue g of None \<Rightarrow> - 1 | Some v \<Rightarrow> average v)"

definition acquired_or_last :: "farming_game \<Rightarrow> int" where
  "acquired_or_last g = (case acquiredAt g of None \<Rightarrow> MAX_SAFE_INTEGER | Some t \<Rightarrow> t)"

definition strategy ::
    "(string \<Rightarrow> string \<Rightarrow> int) \<Rightarrow> farming_order \<Rightarrow> farming_game \<Rightarrow> farming_game \<Rightarrow> int" where
  "strategy compare ord left right =
     (case ord of
        Default_order \<Rightarrow> 0
      | Card_value \<Rightarrow> average_or_unknown right - average_or_unknown left
      | Drops_desc \<Rightarrow> remainingDrops right - remainingDrops left
      | Drops_asc \<Rightarrow> remainingDrops left - remainingDrops right
      | Hours_desc \<Rightarrow> or_zero (playtime right) - or_zero (playtime left)
      | Acquired_asc \<Rightarrow> acquired_or_last left - acquired_or_last right
      | By_name \<Rightarrow> compare (game_name left) (game_name right))"

definition game_order ::
    "(string \<Rightarrow> string \<Rightarrow> int) \<Rightarrow> farming_config \<Rightarrow> (app_id, int) js_map
      \<Rightarrow> farming_game \<Rightarrow> farming_game \<Rightarrow> int" where
  "game_order compare config badgeOrder left right =
     (let pinned = positions (priority config) in
      or_else (position_or_last pinned (appId left) - position_or_last pinned (appId right))
        (or_else (strategy compare (order config) left right)
          (position_or_last badgeOrder (appId left) - position_or_last badgeOrder (appId right))))"

definition orderGames ::
    "(string \<Rightarrow> string \<Rightarrow> int) \<Rightarrow> farming_config \<Rightarrow> (app_id, int) js_map
      \<Rightarrow> farming_game list \<Rightarrow> farming_game list" where
  "orderGames compare config badgeOrder games = js_sort (game_order compare config badgeOrder) games"

definition filterGames ::
    "(string \<Rightarrow> string \<Rightarrow> int) \<Rightarrow> farming_config \<Rightarrow> (app_id, int) js_map \<Rightarrow> millis
      \<Rightarrow> farming_game list \<Rightarrow> farming_game list" where
  "filterGames compare config badgeOrder now games =
     orderGames compare config badgeOrder
       (map (\<lambda>g. g\<lparr>skipReason := skip_reason_of config now g\<rparr>) games)"

text \<open>\<open>observed || game.playtimeMinutes\<close>\<close>

definition merged_playtime :: "farming_game option \<Rightarrow> farming_game \<Rightarrow> millis option" where
  "merged_playtime previous game =
     (let observed = max (or_zero (playtime game))
        (case previous of None \<Rightarrow> 0 | Some p \<Rightarrow> or_zero (playtime p))
      in if observed \<noteq> 0 then Some observed else playtime game)"

definition known_card_value :: "(app_id, known_value) js_map \<Rightarrow> app_id \<Rightarrow> card_value option" where
  "known_card_value values app = (case js_get values app of None \<Rightarrow> None | Some (v, _) \<Rightarrow> v)"

definition merge_games ::
    "farming_game list \<Rightarrow> (app_id, known_value) js_map \<Rightarrow> farming_game list \<Rightarrow> farming_game list" where
  "merge_games old values fresh =
     map (\<lambda>g. g\<lparr>playtime := merged_playtime (js_get (map (\<lambda>p. (appId p, p)) (rev old)) (appId g)) g,
                 skipReason := None, cardValue := known_card_value values (appId g)\<rparr>) fresh"

section \<open>Selection and credit\<close>

definition eligible_games :: "farming_game list \<Rightarrow> farming_game list" where
  "eligible_games games = filter (\<lambda>g. skipReason g = None \<and> remainingDrops g > 0) games"

definition warming_games :: "farming_game list \<Rightarrow> farming_game list" where
  "warming_games games = filter (\<lambda>g. or_zero (playtime g) < refund_playtime) (eligible_games games)"

definition selection_limit :: "farming_config \<Rightarrow> int \<Rightarrow> nat" where
  "selection_limit config gameLimit = nat (max 0 (min 32 (min (maxConcurrentGames config) gameLimit)))"

definition pulled_game :: "farming_config \<Rightarrow> farming_game list \<Rightarrow> bool" where
  "pulled_game config games =
     (case eligible_games games of [] \<Rightarrow> False | g # _ \<Rightarrow> appId g \<in> set (priority config))"

definition is_warming :: "farming_config \<Rightarrow> farming_game list \<Rightarrow> bool" where
  "is_warming config games \<longleftrightarrow> \<not> pulled_game config games \<and> warming_games games \<noteq> []"

definition select_games :: "farming_config \<Rightarrow> int \<Rightarrow> farming_game list \<Rightarrow> farming_game list" where
  "select_games config gameLimit games =
     (let limit = selection_limit config gameLimit
      in if pulled_game config games then take limit (take 1 (eligible_games games))
         else if is_warming config games then take limit (warming_games games)
         else take (min 1 limit) (eligible_games games))"

text \<open>Time since \<open>activeSince\<close> is added to the first entry of every active game.\<close>

fun credit_game :: "millis \<Rightarrow> farming_game list \<Rightarrow> app_id \<Rightarrow> farming_game list" where
  "credit_game elapsed [] app = []"
| "credit_game elapsed (g # gs) app =
     (if appId g = app then g\<lparr>playtime := Some (or_zero (playtime g) + elapsed)\<rparr> # gs
      else g # credit_game elapsed gs app)"

definition credit_games :: "millis \<Rightarrow> app_id list \<Rightarrow> farming_game list \<Rightarrow> farming_game list" where
  "credit_games elapsed active games = foldl (credit_game elapsed) games active"

section \<open>What is selected\<close>

lemma set_orderGames [simp]: "set (orderGames compare config badgeOrder games) = set games"
  by (simp add: orderGames_def)

lemma filterGames_reason:
  "g \<in> set (filterGames compare config badgeOrder now games) \<Longrightarrow>
   skipReason g = skip_reason_of config now g"
  by (auto simp: filterGames_def skip_reason_of_def)

lemma select_games_subset: "set (select_games config limit games) \<subseteq> set (eligible_games games)"
proof -
  have "set (warming_games games) \<subseteq> set (eligible_games games)" by (auto simp: warming_games_def)
  then show ?thesis
    unfolding select_games_def Let_def by (auto dest!: in_set_takeD)
qed

lemma length_select_games:
  "length (select_games config limit games) \<le> selection_limit config limit \<and>
   (\<not> is_warming config games \<longrightarrow> length (select_games config limit games) \<le> 1)"
  by (auto simp: select_games_def Let_def min_def)

lemma selection_limit_bound:
  "int (selection_limit config limit) \<le> max 0 (min 32 (min (maxConcurrentGames config) limit))"
  by (simp add: selection_limit_def)

text \<open>A game may be farmed under the settings at an instant.\<close>

definition farmable :: "farming_config \<Rightarrow> millis \<Rightarrow> farming_game \<Rightarrow> bool" where
  "farmable config now g \<longleftrightarrow>
     remainingDrops g > 0 \<and> appId g \<notin> set (blacklist config) \<and>
     (whitelist config = [] \<or> appId g \<in> set (whitelist config)) \<and>
     (skipRefundable config \<longrightarrow> or_zero (playtime g) \<ge> refund_playtime \<or>
        (\<exists>at. acquiredAt g = Some at \<and> at \<le> now \<and> now - at > refund_days))"

lemma farmable_iff: "farmable config now g \<longleftrightarrow> remainingDrops g > 0 \<and> skip_reason_of config now g = None"
  by (auto simp: farmable_def skip_reason_of_def split: option.splits if_splits)

text \<open>
  C12: The games selected from a freshly filtered list all have drops left, are allowed by the
  black- and whitelist and, when refundable games are to be spared, are either past two hours
  of playing time or known to be owned for more than fourteen days; at most
  \<open>min(32, maxConcurrentGames, gameLimit)\<close> are selected, and more than one only to warm up games
  that are all below two hours.
\<close>

theorem selection_respects_settings:
  assumes "games' = filterGames compare config badgeOrder now games"
    and "chosen = select_games config limit games'"
  shows "(\<forall>g\<in>set chosen. g \<in> set games' \<and> farmable config now g) \<and>
    int (length chosen) \<le> max 0 (min 32 (min (maxConcurrentGames config) limit)) \<and>
    (length chosen > 1 \<longrightarrow> (\<forall>g\<in>set chosen. or_zero (playtime g) < refund_playtime))"
proof -
  have "g \<in> set games' \<and> farmable config now g" if "g \<in> set chosen" for g
  proof -
    have "g \<in> set (eligible_games games')"
      using that select_games_subset [of config limit games'] by (auto simp: assms(2))
    then have "g \<in> set games'" "skipReason g = None" "remainingDrops g > 0"
      by (simp_all add: eligible_games_def)
    with filterGames_reason [of g compare config badgeOrder now games] show ?thesis
      by (simp add: farmable_iff assms(1))
  qed
  moreover have "int (length chosen) \<le> max 0 (min 32 (min (maxConcurrentGames config) limit))"
    using length_select_games [of config limit games'] selection_limit_bound [of config limit]
    by (simp add: assms(2))
  moreover have "or_zero (playtime g) < refund_playtime"
    if long: "length chosen > 1" and g: "g \<in> set chosen" for g
  proof -
    have warm: "is_warming config games'"
      using long length_select_games [of config limit games'] by (auto simp: assms(2))
    then have "chosen = take (selection_limit config limit) (warming_games games')"
      by (simp add: assms(2) select_games_def is_warming_def)
    then have "g \<in> set (warming_games games')" using g by (auto dest: in_set_takeD)
    then show ?thesis by (simp add: warming_games_def)
  qed
  ultimately show ?thesis by blast
qed

section \<open>Pinned games first\<close>

lemma positions_snoc: "positions (xs @ [x]) = js_set x (int (length xs)) (positions xs)"
  by (simp add: positions_def)

lemma positions_get:
  "(js_get (positions xs) k = None \<longleftrightarrow> k \<notin> set xs) \<and>
   (\<forall>i. js_get (positions xs) k = Some i \<longrightarrow> 0 \<le> i \<and> i < int (length xs) \<and> xs ! nat i = k)"
proof (induction xs rule: rev_induct)
  case Nil
  then show ?case by (simp add: positions_def)
next
  case (snoc x xs)
  then show ?case by (auto simp: positions_snoc nth_append)
qed

lemma position_or_last_range:
  assumes "int (length xs) < MAX_SAFE_INTEGER"
  shows "k \<in> set xs \<longleftrightarrow> position_or_last (positions xs) k < MAX_SAFE_INTEGER"
    "position_or_last (positions xs) k \<le> MAX_SAFE_INTEGER"
  using positions_get [of xs k] assms
  by (fastforce simp: position_or_last_def split: option.splits)+

lemma strategy_comparator:
  assumes "js_comparator compare"
  shows "js_comparator (strategy compare ord)"
proof (cases ord)
  case By_name
  show ?thesis
    using js_comparator_image [OF assms, of game_name] by (simp add: strategy_def [abs_def] By_name)
qed (simp_all add: strategy_def [abs_def] js_comparator_const js_comparator_ascending
    js_comparator_descending)

lemma game_order_comparator:
  assumes "js_comparator compare"
  shows "js_comparator (game_order compare config badgeOrder)"
  unfolding game_order_def [abs_def] Let_def
  by (intro js_comparator_or_else js_comparator_ascending strategy_comparator assms)

lemma sorted_filterGames:
  assumes "js_comparator compare"
  shows "sorted_wrt (\<lambda>x y. game_order compare config badgeOrder x y \<le> 0)
    (filterGames compare config badgeOrder now games)"
  unfolding filterGames_def orderGames_def
  by (rule js_comparator.sorted_js_sort [OF game_order_comparator [OF assms]])

lemma game_order_pin:
  "game_order compare config badgeOrder x y \<le> 0 \<Longrightarrow>
   position_or_last (positions (priority config)) (appId x)
     \<le> position_or_last (positions (priority config)) (appId y)"
  by (auto simp: game_order_def or_else_def Let_def split: if_splits)

text \<open>
  While a pinned game is eligible, farming runs a single game: a pinned one, and among the
  eligible games the one that stands first in the list of priorities.
\<close>

theorem pinned_game_runs_alone:
  assumes "js_comparator compare" and "int (length (priority config)) < MAX_SAFE_INTEGER"
    and "distinct (priority config)"
    and "games' = filterGames compare config badgeOrder now games"
    and "selection_limit config limit > 0"
    and "p \<in> set (eligible_games games')" "appId p \<in> set (priority config)"
  shows "\<exists>g i. select_games config limit games' = [g] \<and> i < length (priority config) \<and>
    priority config ! i = appId g \<and>
    (\<forall>h\<in>set (eligible_games games'). \<forall>j. j < length (priority config) \<longrightarrow>
       priority config ! j = appId h \<longrightarrow> i \<le> j)"
proof -
  let ?pin = "position_or_last (positions (priority config))"
  obtain g rest where g: "eligible_games games' = g # rest"
    using assms(6) by (cases "eligible_games games'") auto
  have "sorted_wrt (\<lambda>x y. game_order compare config badgeOrder x y \<le> 0) (eligible_games games')"
    using sorted_filterGames [OF assms(1), of config badgeOrder now games]
    by (simp add: assms(4) eligible_games_def sorted_wrt_filter)
  then have first: "?pin (appId g) \<le> ?pin (appId h)" if "h \<in> set (eligible_games games')" for h
    using that game_order_pin [of compare config badgeOrder g h] by (auto simp: g)
  have in_pins: "appId g \<in> set (priority config)"
    using first [OF assms(6)] assms(7) position_or_last_range [OF assms(2)] by fastforce
  have position: "\<exists>i. ?pin k = int i \<and> i < length (priority config) \<and> priority config ! i = k"
    if k: "k \<in> set (priority config)" for k
  proof -
    obtain v where "js_get (positions (priority config)) k = Some v"
      using positions_get [of "priority config" k] k by (cases "js_get (positions (priority config)) k") auto
    with positions_get [of "priority config" k] show ?thesis
      by (intro exI [of _ "nat v"]) (auto simp: position_or_last_def)
  qed
  obtain i where i: "?pin (appId g) = int i" "i < length (priority config)" "priority config ! i = appId g"
    using position [OF in_pins] by blast
  have "i \<le> j" if h: "h \<in> set (eligible_games games')" "j < length (priority config)"
      "priority config ! j = appId h" for h j
  proof -
    have "appId h \<in> set (priority config)" using h(2,3) nth_mem by metis
    then obtain j' where j': "?pin (appId h) = int j'" "j' < length (priority config)"
      "priority config ! j' = appId h" using position by blast
    have "j' = j"
      using nth_eq_iff_index_eq [OF assms(3) j'(2) h(2)] j'(3) h(3) by simp
    with first [OF h(1)] i(1) j'(1) show ?thesis by simp
  qed
  moreover have "select_games config limit games' = [g]"
    using in_pins assms(5) by (simp add: select_games_def pulled_game_def g)
  ultimately show ?thesis using i by blast
qed

definition sample_game :: farming_game where
  "sample_game = \<lparr>appId = 10, game_name = ''ten'', remainingDrops = 3, playtime = Some 600000,
     acquiredAt = Some 0, skipReason = None, cardValue = None\<rparr>"

definition sample_config :: farming_config where
  "sample_config = \<lparr>maxConcurrentGames = 32, skipRefundable = True, whitelist = [],
     blacklist = [40], autoResume = True, order = Drops_asc, priority = [30, 20]\<rparr>"

definition sample_games :: "farming_game list" where
  "sample_games =
     [sample_game, sample_game\<lparr>appId := 20, playtime := Some 9000000\<rparr>, sample_game\<lparr>appId := 40\<rparr>,
      sample_game\<lparr>appId := 50, remainingDrops := 1, acquiredAt := None\<rparr>]"

definition sample_now :: millis where
  "sample_now = 1300000000"

definition sample_filtered :: "farming_game list" where
  "sample_filtered = filterGames order_compare sample_config [] sample_now sample_games"

theorem selection_respects_settings_witness:
  "let config = sample_config\<lparr>priority := []\<rparr>;
     chosen = select_games config 32 (filterGames order_compare config [] sample_now sample_games)
   in map appId chosen = [10] \<and> list_all (farmable config sample_now) chosen"
proof -
  let ?config = "sample_config\<lparr>priority := []\<rparr>"
  let ?chosen = "select_games ?config 32 (filterGames order_compare ?config [] sample_now sample_games)"
  have "map appId ?chosen = [10]" by code_simp
  moreover have "list_all (farmable ?config sample_now) ?chosen"
    using selection_respects_settings [where config = ?config and limit = 32, OF refl refl]
    unfolding list_all_iff by blast
  ultimately show ?thesis by (simp only: Let_def)
qed

theorem pinned_game_runs_alone_witness:
  "map appId (select_games sample_config 32 sample_filtered) = [20]"
proof -
  let ?p = "sample_game\<lparr>appId := 20, playtime := Some 9000000\<rparr>"
  have p: "?p \<in> set (eligible_games sample_filtered)" by code_simp
  have pin: "appId ?p \<in> set (priority sample_config)"
    by (simp add: sample_config_def)
  have limit: "selection_limit sample_config 32 > 0"
    and distinct: "distinct (priority sample_config)"
    and short: "int (length (priority sample_config)) < MAX_SAFE_INTEGER"
    by (simp_all add: sample_config_def selection_limit_def)
  obtain g i where g: "select_games sample_config 32 sample_filtered = [g]"
    "i < length (priority sample_config)" "priority sample_config ! i = appId g"
    using pinned_game_runs_alone [OF code_units.js_comparator_axioms short distinct sample_filtered_def
        limit p pin] by blast
  have "list_all (\<lambda>h. appId h \<noteq> 30) sample_filtered" by code_simp
  moreover have "g \<in> set sample_filtered"
    using select_games_subset [of sample_config 32 sample_filtered] g(1)
    by (auto simp: eligible_games_def)
  ultimately have "appId g \<noteq> 30" by (simp add: list_all_iff)
  then have "appId g = 20"
    using g(2,3) by (auto simp: sample_config_def less_Suc_eq numeral_2_eq_2)
  with g(1) show ?thesis by simp
qed

section \<open>Badge pages\<close>

definition badge_map_ok :: "(app_id, farming_game) js_map \<Rightarrow> bool" where
  "badge_map_ok m \<longleftrightarrow> distinct (map fst m) \<and> map fst m = map (appId \<circ> snd) m \<and> length m \<le> MAX_BADGE_GAMES"

lemma badge_map_ok_set:
  assumes "badge_map_ok m" "length m < MAX_BADGE_GAMES \<or> js_get m (appId g) \<noteq> None"
  shows "badge_map_ok (js_set (appId g) g m)"
proof -
  have "map fst m = map (appId \<circ> snd) m \<Longrightarrow>
      map fst (js_set (appId g) g m) = map (appId \<circ> snd) (js_set (appId g) g m)"
    by (induction m) auto
  moreover have "length (js_set (appId g) g m) \<le> MAX_BADGE_GAMES"
    using assms(2)
  proof
    assume "length m < MAX_BADGE_GAMES"
    then show ?thesis using length_js_set [of "appId g" g m] by linarith
  next
    assume "js_get m (appId g) \<noteq> None"
    then show ?thesis
      using length_js_set_present [of m "appId g" g] assms(1) by (simp add: badge_map_ok_def)
  qed
  ultimately show ?thesis using assms(1) by (simp add: badge_map_ok_def distinct_update)
qed

lemma add_badge_games_ok:
  assumes "badge_map_ok m" "add_badge_games gs (m, tr) = (m', tr')"
  shows "badge_map_ok m' \<and> fst ` set m \<subseteq> fst ` set m' \<and>
    (\<not> tr' \<longrightarrow> \<not> tr \<and> appId ` set gs \<subseteq> fst ` set m')"
  using assms
proof (induction gs "(m, tr)" arbitrary: m tr rule: add_badge_games.induct)
  case (2 g gs m tr)
  show ?case
  proof (cases "length m \<ge> MAX_BADGE_GAMES \<and> js_get m (appId g) = None")
    case True
    then show ?thesis using 2 by auto
  next
    case False
    then have "badge_map_ok (js_set (appId g) g m)"
      using 2(3) by (intro badge_map_ok_set) auto
    moreover have "add_badge_games gs (js_set (appId g) g m, tr) = (m', tr')"
      using 2(4) False by auto
    ultimately have "badge_map_ok m' \<and> fst ` set (js_set (appId g) g m) \<subseteq> fst ` set m' \<and>
        (\<not> tr' \<longrightarrow> \<not> tr \<and> appId ` set gs \<subseteq> fst ` set m')"
      using 2(2) False by blast
    moreover have "fst ` set (js_set (appId g) g m) = insert (appId g) (fst ` set m)"
      by (metis dom_map_of_conv_image_fst js_get_set dom_fun_upd option.distinct(1))
    ultimately show ?thesis by auto
  qed
qed simp

lemma discover_pages_ok:
  assumes "discover_pages request page pages games tr = Inr d" "badge_map_ok games"
    and "1 \<le> page" "pages > MAX_BADGE_PAGES \<longrightarrow> tr"
  shows "distinct (map appId (found d)) \<and> length (found d) \<le> MAX_BADGE_GAMES \<and>
    fst ` set games \<subseteq> appId ` set (found d) \<and>
    (\<not> truncated_pages d \<longrightarrow> \<not> tr \<and> (\<exists>n. pages \<le> n \<and> n \<le> MAX_BADGE_PAGES \<and>
       (\<forall>p. page \<le> p \<and> p \<le> n \<longrightarrow> (\<exists>pg. request p = Inr pg \<and> pageCount pg \<le> n \<and>
          appId ` set (page_games pg) \<subseteq> appId ` set (found d)))))"
  using assms
proof (induction request page pages games tr rule: discover_pages.induct)
  case (1 request page pages games tr)
  show ?case
  proof (cases "page \<le> min pages MAX_BADGE_PAGES")
    case False
    then have d: "d = \<lparr>found = map snd games, truncated_pages = tr\<rparr>"
      using "1.prems"(1) by (subst (asm) discover_pages.simps) (auto split: if_splits)
    have keys: "map appId (found d) = map fst games"
      using "1.prems"(2) by (simp add: d badge_map_ok_def)
    then have "fst ` set games = appId ` set (found d)" by (metis image_set)
    moreover have "length (found d) \<le> MAX_BADGE_GAMES"
      using "1.prems"(2) by (simp add: d badge_map_ok_def)
    moreover have "distinct (map appId (found d))"
      unfolding keys using "1.prems"(2) by (simp add: badge_map_ok_def)
    moreover have "truncated_pages d = tr" by (simp add: d)
    moreover have "\<not> tr \<Longrightarrow> pages \<le> MAX_BADGE_PAGES \<and> pages < page" using False "1.prems"(4) by auto
    ultimately show ?thesis
      by (intro conjI impI) (auto intro!: exI [of _ pages])
  next
    case True
    obtain parsed where parsed: "request page = Inr parsed"
      using "1.prems"(1) True by (cases "request page") (simp_all add: discover_pages.simps [of request page])
    define pages' where "pages' = max pages (pageCount parsed)"
    obtain games' tr' where add: "add_badge_games (page_games parsed)
        (games, tr \<or> pages' > MAX_BADGE_PAGES) = (games', tr')" by fastforce
    have rest: "discover_pages request (page + 1) pages' games' tr' = Inr d"
      using "1.prems"(1) True parsed add
      by (simp add: discover_pages.simps [of request page] pages'_def Let_def)
    note added = add_badge_games_ok [OF "1.prems"(2) add]
    have tr': "pages' > MAX_BADGE_PAGES \<longrightarrow> tr'" using added by blast
    have IH: "distinct (map appId (found d)) \<and> length (found d) \<le> MAX_BADGE_GAMES \<and>
      fst ` set games' \<subseteq> appId ` set (found d) \<and>
      (\<not> truncated_pages d \<longrightarrow> \<not> tr' \<and> (\<exists>n. pages' \<le> n \<and> n \<le> MAX_BADGE_PAGES \<and>
       (\<forall>p. page + 1 \<le> p \<and> p \<le> n \<longrightarrow> (\<exists>pg. request p = Inr pg \<and> pageCount pg \<le> n \<and>
          appId ` set (page_games pg) \<subseteq> appId ` set (found d)))))"
      by (rule "1.IH" [OF True pages'_def add [symmetric] refl rest])
        (use added tr' "1.prems"(3) in auto)
    show ?thesis
    proof (intro conjI impI)
      show "distinct (map appId (found d))" "length (found d) \<le> MAX_BADGE_GAMES"
        "fst ` set games \<subseteq> appId ` set (found d)"
        using IH added by auto
      assume nt: "\<not> truncated_pages d"
      then show "\<not> tr" using IH added by blast
      obtain n where n: "pages' \<le> n" "n \<le> MAX_BADGE_PAGES"
        "\<And>p. page + 1 \<le> p \<Longrightarrow> p \<le> n \<Longrightarrow> \<exists>pg. request p = Inr pg \<and> pageCount pg \<le> n \<and>
          appId ` set (page_games pg) \<subseteq> appId ` set (found d)"
        using IH nt by blast
      note IH [THEN conjunct2, THEN conjunct2]
      then have sub: "fst ` set games' \<subseteq> appId ` set (found d)" and "\<not> tr'" using nt by blast+
      then have "appId ` set (page_games parsed) \<subseteq> fst ` set games'" using added by blast
      with sub have "appId ` set (page_games parsed) \<subseteq> appId ` set (found d)" by (rule subset_trans [rotated])
      then have "\<exists>pg. request p = Inr pg \<and> pageCount pg \<le> n \<and>
          appId ` set (page_games pg) \<subseteq> appId ` set (found d)" if "page \<le> p" "p \<le> n" for p
        using that n(1) n(3) [of p] parsed by (cases "p = page") (auto simp: pages'_def)
      then show "\<exists>n. pages \<le> n \<and> n \<le> MAX_BADGE_PAGES \<and>
         (\<forall>p. page \<le> p \<and> p \<le> n \<longrightarrow> (\<exists>pg. request p = Inr pg \<and> pageCount pg \<le> n \<and>
          appId ` set (page_games pg) \<subseteq> appId ` set (found d)))"
        using n(1,2) by (intro exI [of _ n]) (auto simp: pages'_def)
    qed
  qed
qed

text \<open>
  Badge discovery lists each game once and at most 1000 of them; when it does not report
  truncation, every page that any page announced was read and every game on them is listed.
\<close>

theorem discoverBadgeDrops_complete:
  assumes "discoverBadgeDrops request = Inr d"
  shows "distinct (map appId (found d)) \<and> length (found d) \<le> MAX_BADGE_GAMES \<and>
    (\<not> truncated_pages d \<longrightarrow> (\<exists>n. 1 \<le> n \<and> n \<le> MAX_BADGE_PAGES \<and>
       (\<forall>p. 1 \<le> p \<and> p \<le> n \<longrightarrow> (\<exists>pg. request p = Inr pg \<and> pageCount pg \<le> n \<and>
          appId ` set (page_games pg) \<subseteq> appId ` set (found d)))))"
  using discover_pages_ok [OF assms [unfolded discoverBadgeDrops_def]]
  by (simp add: badge_map_ok_def)

definition sample_page :: "int \<Rightarrow> unit + badge_page" where
  "sample_page p = (if p = 1 then Inr \<lparr>page_games = [sample_game], pageCount = 2\<rparr>
     else Inr \<lparr>page_games = [sample_game\<lparr>remainingDrops := 2\<rparr>, sample_game\<lparr>appId := 20\<rparr>], pageCount = 2\<rparr>)"

theorem discoverBadgeDrops_complete_witness:
  "\<exists>d. discoverBadgeDrops sample_page = Inr d \<and> distinct (map appId (found d)) \<and>
     length (found d) = 2 \<and> \<not> truncated_pages d"
proof -
  let ?d = "\<lparr>found = [sample_game\<lparr>remainingDrops := 2\<rparr>, sample_game\<lparr>appId := 20\<rparr>], truncated_pages = False\<rparr>"
  have d: "discoverBadgeDrops sample_page = Inr ?d"
    by (simp add: discoverBadgeDrops_def discover_pages.simps sample_page_def sample_game_def)
  have "distinct (map appId (found ?d))" using discoverBadgeDrops_complete [OF d] by blast
  with d show ?thesis by (intro exI [of _ ?d]) simp
qed

end
