(* ===== verification/FarmingController.thy ===== *)
theory FarmingController
  imports FarmingRules
begin

text \<open>
  The session machine of \<open>apps/server/src/farming/controller.ts\<close>.

  A worker of an account is the chain \<open>advance\<close>, timer, \<open>advance\<close>, ...; every \<open>await\<close> cuts it
  into segments, between which the user, the account's status or a shutdown may intervene. A
  segment is a function on the account's session that also returns the adapter calls it makes
  and the continuations it leaves pending. The controller keeps the sessions, the calls made
  and the pending continuations; a step of it is a public operation, a timer that fires or a
  pending continuation that gets its answer, in any order. \<open>Date.now()\<close> is one instant
  within a segment. Adapter answers are arbitrary; playing time is in milliseconds.
\<close>

section \<open>State\<close>

datatype farming_phase = Stopped | Scanning | Warming | Farming | Completed | Blocked | Errored

record session =
  owner :: account_id
  phase :: farming_phase
  config :: farming_config
  games :: "farming_game list"
  activeAppIds :: "app_id list"
  dropsLeft :: int
  scannedAt :: "millis option"
  farmingSince :: "millis option"
  truncated :: bool
  reason :: "string option"
  canStart :: bool
  gameLimit :: int
  pricing :: bool
  generation :: int
  timer :: "nat option"
  armed :: "(nat \<times> int) list"
  activeSince :: "millis option"
  applied :: bool
  badgeOrder :: "(app_id, int) js_map"
  cardValues :: "(app_id, known_value) js_map"

text \<open>
  \<open>timer\<close> is the handle kept by the session and \<open>armed\<close> the timeouts that have neither fired
  nor been cleared, with the generation their callback closes over.
\<close>

datatype call =
  Availability account_id
| Begin account_id int
| Discover account_id int
| Apply account_id "app_id list" int
| End account_id int
| Remember account_id bool
| CardValues account_id "app_id list"

datatype point =
  At_scan
| At_availability bool
| At_begin int
| At_discover int
| At_apply "app_id list" bool
| At_completed
| At_cleanup
| At_epilogue bool
| At_stopped
| At_prices
| At_prices_settled

record task =
  task_account :: account_id
  task_generation :: int
  task_origin :: "bool option"
  task_point :: point

record availability =
  allowed :: bool
  refusal :: "string option"
  available_limit :: int

datatype answer =
  Answered
| Rejected
| Available availability
| Discovered discovery
| Values "(app_id \<times> card_value option) list"

record farm_env =
  compare_names :: "string \<Rightarrow> string \<Rightarrow> int"
  scanMs :: millis
  has_begin :: bool
  has_remember :: bool
  has_cardValues :: bool

record controller =
  sessions :: "(account_id, session) js_map"
  shuttingDown :: bool
  calls :: "call list"
  tasks :: "task list"

type_synonym segment = "session \<times> call list \<times> task list"

definition DEFAULT_FARMING_CONFIG :: farming_config where
  "DEFAULT_FARMING_CONFIG =
     \<lparr>maxConcurrentGames = 32, skipRefundable = True, whitelist = [], blacklist = [],
      autoResume = True, order = Default_order, priority = []\<rparr>"

definition new_session :: "account_id \<Rightarrow> farming_config option \<Rightarrow> session" where
  "new_session acc cfg =
     \<lparr>owner = acc, phase = Stopped,
      config = (case cfg of None \<Rightarrow> DEFAULT_FARMING_CONFIG | Some x \<Rightarrow> x),
      games = [], activeAppIds = [], dropsLeft = 0, scannedAt = None, farmingSince = None,
      truncated = False, reason = None, canStart = False, gameLimit = 32, pricing = False,
      generation = 0, timer = None, armed = [], activeSince = None, applied = False,
      badgeOrder = [], cardValues = []\<rparr>"

definition CARD_VALUE_TTL :: millis where
  "CARD_VALUE_TTL = 24 * one_hour"

definition MISSING_CARD_VALUE_TTL :: millis where
  "MISSING_CARD_VALUE_TTL = 6 * one_hour"

definition RESUMABLE_HALTS :: "string list" where
  "RESUMABLE_HALTS =
     [''shutdown'', ''shutting_down'', ''connecting'', ''reconnecting'', ''disconnected'',
      ''error'', ''not_connected'']"

definition isActive :: "session \<Rightarrow> bool" where
  "isActive s \<longleftrightarrow> phase s \<in> set [Scanning, Warming, Farming]"

definition isCurrent :: "bool \<Rightarrow> session \<Rightarrow> int \<Rightarrow> bool" where
  "isCurrent shutting s gen \<longleftrightarrow> \<not> shutting \<and> generation s = gen"

section \<open>Segments of a session\<close>

text \<open>A segment followed by another one, with what both called and left pending.\<close>

definition followed_by :: "segment \<Rightarrow> (session \<Rightarrow> segment) \<Rightarrow> segment" where
  "followed_by r k =
     (case r of (s, cs, ts) \<Rightarrow> case k s of (s', cs', ts') \<Rightarrow> (s', cs @ cs', ts @ ts'))"

definition price_is_missing :: "millis \<Rightarrow> (app_id, known_value) js_map \<Rightarrow> app_id \<Rightarrow> bool" where
  "price_is_missing now values app =
     (case js_get values app of
        None \<Rightarrow> True
      | Some (v, at) \<Rightarrow> now - at > (if v \<noteq> None then CARD_VALUE_TTL else MISSING_CARD_VALUE_TTL))"

definition priceGames :: "farm_env \<Rightarrow> bool \<Rightarrow> millis \<Rightarrow> session \<Rightarrow> segment" where
  "priceGames su shutting now s =
     (if \<not> has_cardValues su \<or> pricing s \<or> shutting \<or> order (config s) \<noteq> Card_value then (s, [], [])
      else
        let missing = filter (price_is_missing now (cardValues s)) (map appId (eligible_games (games s)))
        in if missing = [] then (s, [], [])
           else (s\<lparr>pricing := True\<rparr>, [CardValues (owner s) missing],
                 [\<lparr>task_account = owner s, task_generation = generation s, task_origin = None,
                   task_point = At_prices\<rparr>]))"

definition sort_games :: "farm_env \<Rightarrow> session \<Rightarrow> session" where
  "sort_games su s =
     s\<lparr>games := orderGames (compare_names su) (config s) (badgeOrder s) (games s)\<rparr>"

definition filter_session :: "farm_env \<Rightarrow> bool \<Rightarrow> millis \<Rightarrow> session \<Rightarrow> segment" where
  "filter_session su shutting now s =
     priceGames su shutting now
       (s\<lparr>games := filterGames (compare_names su) (config s) (badgeOrder s) now (games s)\<rparr>)"

definition updateGames :: "farm_env \<Rightarrow> bool \<Rightarrow> millis \<Rightarrow> discovery \<Rightarrow> session \<Rightarrow> segment" where
  "updateGames su shutting now d s =
     filter_session su shutting now
       (s\<lparr>badgeOrder := positions (map appId (found d)),
          games := merge_games (games s) (cardValues s) (found d),
          scannedAt := Some now, truncated := truncated_pages d,
          dropsLeft := sum_list (map remainingDrops (found d))\<rparr>)"

definition creditPlaytime :: "millis \<Rightarrow> session \<Rightarrow> session" where
  "creditPlaytime now s =
     (case activeSince s of
        None \<Rightarrow> s
      | Some since \<Rightarrow>
          s\<lparr>games := credit_games (max 0 (now - since)) (activeAppIds s) (games s),
            activeSince := Some now\<rparr>)"

definition clear_timer :: "session \<Rightarrow> session" where
  "clear_timer s =
     (case timer s of
        None \<Rightarrow> s
      | Some i \<Rightarrow> s\<lparr>timer := None, armed := filter (\<lambda>(j, _). j \<noteq> i) (armed s)\<rparr>)"

definition halt_session :: "farm_env \<Rightarrow> string \<Rightarrow> session \<Rightarrow> segment" where
  "halt_session su why s =
     (let s1 = (clear_timer (s\<lparr>generation := generation s + 1\<rparr>))\<lparr>activeSince := None, activeAppIds := []\<rparr>;
          s2 = (if why = ''stopped'' then s1\<lparr>phase := Stopped, reason := None\<rparr>
                else if isActive s1 then s1\<lparr>phase := Blocked, reason := Some why\<rparr> else s1)
      in (s2\<lparr>applied := False\<rparr>,
          if has_remember su \<and> why \<notin> set RESUMABLE_HALTS then [Remember (owner s) False] else [], []))"

definition pending :: "session \<Rightarrow> int \<Rightarrow> bool option \<Rightarrow> point \<Rightarrow> task" where
  "pending s gen origin p =
     \<lparr>task_account = owner s, task_generation = gen, task_origin = origin, task_point = p\<rparr>"

text \<open>\<open>advance\<close> returns; when \<open>start\<close> awaits it, its last statements are pending.\<close>

definition returns :: "int \<Rightarrow> bool option \<Rightarrow> session \<Rightarrow> segment" where
  "returns gen origin s =
     (s, [], case origin of None \<Rightarrow> [] | Some resumed \<Rightarrow> [pending s gen None (At_epilogue resumed)])"

definition advance :: "int \<Rightarrow> bool \<Rightarrow> bool option \<Rightarrow> session \<Rightarrow> segment" where
  "advance gen forceScan origin s =
     (s, [Availability (owner s)], [pending s gen origin (At_availability forceScan)])"

definition cleanup :: "int \<Rightarrow> bool option \<Rightarrow> bool \<Rightarrow> session \<Rightarrow> segment" where
  "cleanup gen origin wasApplied s =
     (if wasApplied then (s, [End (owner s) (generation s)], [pending s gen origin At_cleanup])
      else returns gen origin s)"

definition advance_failed :: "farm_env \<Rightarrow> bool \<Rightarrow> int \<Rightarrow> bool option \<Rightarrow> session \<Rightarrow> segment" where
  "advance_failed su shutting gen origin s =
     (if \<not> isCurrent shutting s gen then returns gen origin s
      else followed_by (halt_session su ''farming_failed'' s)
        (\<lambda>h. cleanup gen origin (applied s) (h\<lparr>phase := Errored\<rparr>)))"

definition next_timer :: "session \<Rightarrow> nat" where
  "next_timer s = Suc (Max (set (0 # map fst (armed s))))"

definition run_worker ::
    "millis \<Rightarrow> int \<Rightarrow> bool option \<Rightarrow> app_id list \<Rightarrow> bool \<Rightarrow> session \<Rightarrow> segment" where
  "run_worker now gen origin appIds warmingUp s =
     returns gen origin
       (s\<lparr>applied := True, activeAppIds := appIds,
          phase := (if warmingUp then Warming else Farming), activeSince := Some now,
          timer := Some (next_timer s), armed := armed s @ [(next_timer s, gen)]\<rparr>)"

definition complete_worker :: "farm_env \<Rightarrow> int \<Rightarrow> bool option \<Rightarrow> session \<Rightarrow> segment" where
  "complete_worker su gen origin s =
     (let s' = s\<lparr>phase := Completed, activeAppIds := [], activeSince := None,
                 reason := (if eligible_games (games s) = [] \<and> games s \<noteq> []
                            then Some ''no_eligible_games'' else None)\<rparr>
      in followed_by (s', if has_remember su then [Remember (owner s) False] else [], [])
           (\<lambda>h. if applied s then (h, [End (owner h) gen], [pending h gen origin At_completed])
                else returns gen origin h))"

definition select_and_apply ::
    "farm_env \<Rightarrow> bool \<Rightarrow> millis \<Rightarrow> int \<Rightarrow> int \<Rightarrow> bool option \<Rightarrow> session \<Rightarrow> segment" where
  "select_and_apply su shutting now gen limit origin s0 =
     followed_by (filter_session su shutting now s0) (\<lambda>s.
       let appIds = map appId (select_games (config s) limit (games s));
           warmingUp = is_warming (config s) (games s)
       in if appIds = [] then complete_worker su gen origin s
          else if appIds \<noteq> activeAppIds s then
            (s\<lparr>applied := True\<rparr>, [Apply (owner s) appIds gen], [pending s gen origin (At_apply appIds warmingUp)])
          else run_worker now gen origin appIds warmingUp s)"

definition scan_or_select ::
    "farm_env \<Rightarrow> bool \<Rightarrow> millis \<Rightarrow> int \<Rightarrow> bool \<Rightarrow> int \<Rightarrow> bool option \<Rightarrow> session \<Rightarrow> segment" where
  "scan_or_select su shutting now gen forceScan limit origin s0 =
     (let s = creditPlaytime now s0
      in if forceScan \<or> (case scannedAt s of None \<Rightarrow> True | Some at \<Rightarrow> now - at \<ge> scanMs su)
         then (s, [Discover (owner s) gen], [pending s gen origin (At_discover limit)])
         else select_and_apply su shutting now gen limit origin s)"

definition check_availability ::
    "farm_env \<Rightarrow> bool \<Rightarrow> millis \<Rightarrow> int \<Rightarrow> bool \<Rightarrow> bool option \<Rightarrow> availability \<Rightarrow> session \<Rightarrow> segment" where
  "check_availability su shutting now gen forceScan origin a s0 =
     (let s = s0\<lparr>canStart := allowed a, gameLimit := available_limit a\<rparr>
      in if \<not> allowed a then
           followed_by
             (halt_session su (case refusal a of None \<Rightarrow> ''account_unavailable'' | Some r \<Rightarrow> r) s)
             (cleanup gen origin (applied s))
         else if forceScan \<and> has_begin su then
           (s\<lparr>applied := True\<rparr>, [Begin (owner s) gen], [pending s gen origin (At_begin (available_limit a))])
         else scan_or_select su shutting now gen forceScan (available_limit a) origin s)"

definition epilogue :: "farm_env \<Rightarrow> bool \<Rightarrow> session \<Rightarrow> segment" where
  "epilogue su resumed s =
     (if isActive s
      then (if resumed then s\<lparr>reason := Some ''resumed''\<rparr> else s,
            if has_remember su then [Remember (owner s) True] else [], [])
      else (s, [], []))"

definition set_values :: "farm_env \<Rightarrow> millis \<Rightarrow> (app_id \<times> card_value option) list \<Rightarrow> session \<Rightarrow> session" where
  "set_values su now values s =
     (let known = foldl (\<lambda>m (app, v). js_set app (v, now) m) (cardValues s) values
      in sort_games su (s\<lparr>cardValues := known,
           games := map (\<lambda>g. g\<lparr>cardValue := known_card_value known (appId g)\<rparr>) (games s)\<rparr>))"

section \<open>Resuming a pending continuation\<close>

text \<open>The segment after an \<open>await\<close> of a worker, once the generation has been found current.\<close>

fun worker_segment ::
    "farm_env \<Rightarrow> bool \<Rightarrow> millis \<Rightarrow> int \<Rightarrow> bool option \<Rightarrow> point \<Rightarrow> answer \<Rightarrow> session \<Rightarrow> segment" where
  "worker_segment su shutting now gen origin (At_availability forceScan) (Available a) s =
     check_availability su shutting now gen forceScan origin a s"
| "worker_segment su shutting now gen origin (At_begin limit) Answered s =
     scan_or_select su shutting now gen True limit origin s"
| "worker_segment su shutting now gen origin (At_discover limit) (Discovered d) s =
     followed_by (updateGames su shutting now d s) (select_and_apply su shutting now gen limit origin)"
| "worker_segment su shutting now gen origin (At_apply appIds warmingUp) Answered s =
     run_worker now gen origin appIds warmingUp s"
| "worker_segment su shutting now gen origin At_scan (Discovered d) s =
     followed_by (updateGames su shutting now d s) (\<lambda>s. (s\<lparr>phase := Stopped\<rparr>, [], []))"
| "worker_segment su shutting now gen origin At_scan answer s =
     (s\<lparr>phase := Errored, reason := Some ''badge_scan_failed''\<rparr>, [], [])"
| "worker_segment su shutting now gen origin point answer s = advance_failed su shutting gen origin s"

definition is_worker :: "task \<Rightarrow> bool" where
  "is_worker t =
     (case task_point t of
        At_completed \<Rightarrow> False | At_cleanup \<Rightarrow> False | At_epilogue _ \<Rightarrow> False | At_stopped \<Rightarrow> False
      | At_prices \<Rightarrow> False | At_prices_settled \<Rightarrow> False | _ \<Rightarrow> True)"

definition task_segment :: "farm_env \<Rightarrow> bool \<Rightarrow> millis \<Rightarrow> task \<Rightarrow> answer \<Rightarrow> session \<Rightarrow> segment" where
  "task_segment su shutting now t answer s =
     (let gen = task_generation t; origin = task_origin t
      in if is_worker t then
           (if isCurrent shutting s gen
            then worker_segment su shutting now gen origin (task_point t) answer s
            else returns gen origin s)
         else case task_point t of
           At_completed \<Rightarrow>
             (if answer = Rejected then advance_failed su shutting gen origin s else returns gen origin s)
         | At_cleanup \<Rightarrow> returns gen origin s
         | At_epilogue resumed \<Rightarrow> epilogue su resumed s
         | At_prices \<Rightarrow>
             ((case answer of Values vs \<Rightarrow> set_values su now vs s | _ \<Rightarrow> s), [],
              [pending s gen None At_prices_settled])
         | At_prices_settled \<Rightarrow> (s\<lparr>pricing := False\<rparr>, [], [])
         | _ \<Rightarrow> (s, [], []))"

section \<open>The controller\<close>

definition commit :: "account_id \<Rightarrow> segment \<Rightarrow> controller \<Rightarrow> controller" where
  "commit acc r c =
     (case r of (s, cs, ts) \<Rightarrow>
        c\<lparr>sessions := js_set acc s (sessions c), calls := calls c @ cs, tasks := tasks c @ ts\<rparr>)"

definition snapshot_session ::
    "farm_env \<Rightarrow> account_id \<Rightarrow> farming_config option \<Rightarrow> millis \<Rightarrow> controller \<Rightarrow> segment" where
  "snapshot_session su acc cfg now c =
     (case js_get (sessions c) acc of
        None \<Rightarrow> (new_session acc cfg, [], [])
      | Some s \<Rightarrow>
          (case cfg of
             None \<Rightarrow> (s, [], [])
           | Some x \<Rightarrow>
               if isActive s then (s, [], [])
               else filter_session su (shuttingDown c) now (s\<lparr>config := x\<rparr>)))"

definition captureIntent :: "farm_env \<Rightarrow> account_id \<Rightarrow> millis \<Rightarrow> controller \<Rightarrow> int \<times> controller" where
  "captureIntent su acc now c =
     (let r = snapshot_session su acc None now c in (generation (fst r), commit acc r c))"

definition superseded :: "int option \<Rightarrow> session \<Rightarrow> bool" where
  "superseded expected s = (case expected of None \<Rightarrow> False | Some g \<Rightarrow> g \<noteq> generation s)"

definition scan ::
    "farm_env \<Rightarrow> account_id \<Rightarrow> farming_config \<Rightarrow> int option \<Rightarrow> millis \<Rightarrow> controller \<Rightarrow> string + controller" where
  "scan su acc cfg expected now c =
     (if shuttingDown c then Inl ''Card farming is shutting down.''
      else Inr (commit acc (followed_by (snapshot_session su acc (Some cfg) now c) (\<lambda>s.
        if superseded expected s \<or> isActive s then (s, [], [])
        else let gen = generation s + 1;
                 s' = s\<lparr>generation := gen, phase := Scanning, reason := None\<rparr>
             in (s', [Discover acc gen], [pending s' gen None At_scan]))) c))"

definition start ::
    "farm_env \<Rightarrow> account_id \<Rightarrow> farming_config \<Rightarrow> int option \<Rightarrow> bool \<Rightarrow> millis \<Rightarrow> controller
      \<Rightarrow> string option \<times> controller" where
  "start su acc cfg expected resumed now c =
     (if shuttingDown c then (Some ''Card farming is shutting down.'', c)
      else case snapshot_session su acc (Some cfg) now c of (s, cs, ts) \<Rightarrow>
        if \<not> superseded expected s \<and> isActive s
        then (Some ''Card farming is already active.'', commit acc (s, cs, ts) c)
        else (None, commit acc (followed_by (s, cs, ts) (\<lambda>s.
          if superseded expected s then (s, [], [])
          else let gen = generation s + 1
               in advance gen True (Some resumed)
                 (s\<lparr>generation := gen, config := cfg, phase := Scanning, farmingSince := Some now,
                    reason := None, applied := False\<rparr>))) c))"

definition reconfigure ::
    "farm_env \<Rightarrow> account_id \<Rightarrow> farming_config \<Rightarrow> millis \<Rightarrow> controller \<Rightarrow> controller" where
  "reconfigure su acc cfg now c =
     commit acc (followed_by (snapshot_session su acc (Some cfg) now c) (\<lambda>s.
       if \<not> isActive s then (s, [], [])
       else followed_by (filter_session su (shuttingDown c) now (s\<lparr>config := cfg\<rparr>)) (\<lambda>s.
         if timer s = None then (s, [], [])
         else advance (generation s) False None (clear_timer s)))) c"

definition halt :: "farm_env \<Rightarrow> account_id \<Rightarrow> string \<Rightarrow> controller \<Rightarrow> controller" where
  "halt su acc why c =
     (case js_get (sessions c) acc of None \<Rightarrow> c | Some s \<Rightarrow> commit acc (halt_session su why s) c)"

definition stop :: "farm_env \<Rightarrow> account_id \<Rightarrow> millis \<Rightarrow> controller \<Rightarrow> controller" where
  "stop su acc now c =
     commit acc (followed_by (snapshot_session su acc None now c) (\<lambda>s.
       followed_by (halt_session su ''stopped'' s) (\<lambda>h.
         (h, [End acc (generation h)], [pending h (generation h) None At_stopped])))) c"

definition beginShutdown :: "farm_env \<Rightarrow> controller \<Rightarrow> controller" where
  "beginShutdown su c =
     foldl (\<lambda>c acc. halt su acc ''shutdown'' c) (c\<lparr>shuttingDown := True\<rparr>) (js_keys (sessions c))"

definition initialize :: "controller \<Rightarrow> controller" where
  "initialize c = c\<lparr>shuttingDown := False\<rparr>"

definition timer_fires :: "account_id \<Rightarrow> nat \<Rightarrow> controller \<Rightarrow> controller" where
  "timer_fires acc i c =
     (case js_get (sessions c) acc of
        None \<Rightarrow> c
      | Some s \<Rightarrow>
          (case map_of (armed s) i of
             None \<Rightarrow> c
           | Some gen \<Rightarrow>
               let s' = s\<lparr>timer := None, armed := filter (\<lambda>(j, _). j \<noteq> i) (armed s)\<rparr>
               in commit acc
                    (if isCurrent (shuttingDown c) s' gen then advance gen False None s' else (s', [], [])) c))"

definition resume_task :: "farm_env \<Rightarrow> nat \<Rightarrow> answer \<Rightarrow> millis \<Rightarrow> controller \<Rightarrow> controller" where
  "resume_task su i answer now c =
     (if i < length (tasks c) then
        let t = tasks c ! i;
            c' = c\<lparr>tasks := take i (tasks c) @ drop (Suc i) (tasks c)\<rparr>
        in case js_get (sessions c) (task_account t) of
             None \<Rightarrow> c'
           | Some s \<Rightarrow> commit (task_account t) (task_segment su (shuttingDown c) now t answer s) c'
      else c)"

inductive farming_step :: "farm_env \<Rightarrow> controller \<Rightarrow> controller \<Rightarrow> bool" for su where
  intent: "farming_step su c (snd (captureIntent su acc now c))"
| scanned: "scan su acc cfg expected now c = Inr c' \<Longrightarrow> farming_step su c c'"
| started: "farming_step su c (snd (start su acc cfg expected resumed now c))"
| reconfigured: "farming_step su c (reconfigure su acc cfg now c)"
| halted: "farming_step su c (halt su acc why c)"
| stopped: "farming_step su c (stop su acc now c)"
| shut: "farming_step su c (beginShutdown su c)"
| initialized: "farming_step su c (initialize c)"
| fired: "farming_step su c (timer_fires acc i c)"
| answered: "farming_step su c (resume_task su i answer now c)"

definition no_sessions :: controller where
  "no_sessions = \<lparr>sessions = [], shuttingDown = False, calls = [], tasks = []\<rparr>"

inductive farming_run :: "farm_env \<Rightarrow> controller \<Rightarrow> bool" for su where
  created: "farming_run su no_sessions"
| stepped: "farming_run su c \<Longrightarrow> farming_step su c c' \<Longrightarrow> farming_run su c'"

section \<open>The invariant of a session and its workers\<close>

definition activity_ok :: "session \<Rightarrow> bool" where
  "activity_ok s \<longleftrightarrow>
     (case phase s of
        Farming \<Rightarrow> length (activeAppIds s) = 1
      | Warming \<Rightarrow> activeAppIds s \<noteq> [] \<and> length (activeAppIds s) \<le> 32
      | _ \<Rightarrow> activeAppIds s = []) \<and>
     (activeSince s = None \<longleftrightarrow> activeAppIds s = [])"

definition timers_ok :: "session \<Rightarrow> bool" where
  "timers_ok s \<longleftrightarrow>
     armed s = (case timer s of None \<Rightarrow> [] | Some i \<Rightarrow> [(i, generation s)]) \<and>
     (timer s \<noteq> None \<longrightarrow> isActive s)"

definition workers :: "session \<Rightarrow> task list \<Rightarrow> nat" where
  "workers s ts =
     length (filter (\<lambda>t. is_worker t \<and> task_account t = owner s \<and> task_generation t = generation s) ts)
       + length (armed s)"

fun point_ok :: "point \<Rightarrow> bool" where
  "point_ok (At_apply ids w) \<longleftrightarrow> ids \<noteq> [] \<and> length ids \<le> 32 \<and> (\<not> w \<longrightarrow> length ids = 1)"
| "point_ok _ \<longleftrightarrow> True"

definition task_ok :: "session \<Rightarrow> task \<Rightarrow> bool" where
  "task_ok s t \<longleftrightarrow>
     task_account t = owner s \<and> task_generation t \<le> generation s \<and> point_ok (task_point t) \<and>
     (task_point t = At_scan \<and> task_generation t = generation s \<longrightarrow> phase s = Scanning \<or> \<not> isActive s)"

definition account_inv :: "bool \<Rightarrow> session \<Rightarrow> task list \<Rightarrow> bool" where
  "account_inv shutting s ts \<longleftrightarrow>
     activity_ok s \<and> timers_ok s \<and> workers s ts = (if isActive s then 1 else 0) \<and>
     (shutting \<longrightarrow> \<not> isActive s) \<and>
     list_all (task_ok s) (filter (\<lambda>t. task_account t = owner s) ts)"

definition farm_inv :: "controller \<Rightarrow> bool" where
  "farm_inv c \<longleftrightarrow>
     (\<forall>acc s. js_get (sessions c) acc = Some s \<longrightarrow> owner s = acc \<and> account_inv (shuttingDown c) s (tasks c)) \<and>
     list_all (\<lambda>t. js_get (sessions c) (task_account t) \<noteq> None) (tasks c)"

fun call_account :: "call \<Rightarrow> account_id" where
  "call_account (Availability acc) = acc"
| "call_account (Begin acc _) = acc"
| "call_account (Discover acc _) = acc"
| "call_account (Apply acc _ _) = acc"
| "call_account (End acc _) = acc"
| "call_account (Remember acc _) = acc"
| "call_account (CardValues acc _) = acc"

text \<open>The calls with which a worker claims the account.\<close>

fun work_call :: "call \<Rightarrow> bool" where
  "work_call (Availability _) = True"
| "work_call (Begin _ _) = True"
| "work_call (Discover _ _) = True"
| "work_call (Apply _ _ _) = True"
| "work_call _ = False"

text \<open>What a segment of settings, games and prices leaves alone.\<close>

definition same_core :: "session \<Rightarrow> session \<Rightarrow> bool" where
  "same_core s s' \<longleftrightarrow>
     owner s' = owner s \<and> phase s' = phase s \<and> activeAppIds s' = activeAppIds s \<and>
     activeSince s' = activeSince s \<and> generation s' = generation s \<and> timer s' = timer s \<and>
     armed s' = armed s \<and> applied s' = applied s"

definition quiet :: "session \<Rightarrow> segment \<Rightarrow> bool" where
  "quiet s r \<longleftrightarrow>
     (case r of (s', cs, ts) \<Rightarrow>
        same_core s s' \<and> list_all (\<lambda>t. task_ok s' t \<and> \<not> is_worker t) ts \<and>
        list_all (\<lambda>x. call_account x = owner s \<and> \<not> work_call x) cs)"

text \<open>A segment of a worker ends with the next piece of the worker pending, or the session inactive.\<close>

definition hands_over :: "session \<Rightarrow> segment \<Rightarrow> bool" where
  "hands_over s r \<longleftrightarrow>
     (case r of (s', cs, ts) \<Rightarrow>
        owner s' = owner s \<and> generation s \<le> generation s' \<and> activity_ok s' \<and> timers_ok s' \<and>
        workers s' ts = (if isActive s' then 1 else 0) \<and> list_all (task_ok s') ts \<and>
        list_all (\<lambda>x. call_account x = owner s) cs)"

text \<open>The worker that is about to run: nothing else is pending.\<close>

definition turn :: "session \<Rightarrow> bool" where
  "turn s \<longleftrightarrow> isActive s \<and> activity_ok s \<and> timer s = None \<and> armed s = []"

lemma followed_by_simp [simp]:
  "followed_by (s, cs, ts) k = (case k s of (s', cs', ts') \<Rightarrow> (s', cs @ cs', ts @ ts'))"
  by (simp add: followed_by_def)

lemma same_core_refl [simp]: "same_core s s"
  by (simp add: same_core_def)

lemma same_core_kept:
  assumes "same_core s s'"
  shows "isActive s' = isActive s" "activity_ok s' = activity_ok s" "timers_ok s' = timers_ok s"
    "workers s' ts = workers s ts" "task_ok s' t = task_ok s t" "turn s' = turn s"
  using assms by (simp_all add: same_core_def isActive_def activity_ok_def timers_ok_def workers_def
      task_ok_def turn_def cong: farming_phase.case_cong option.case_cong)

lemma worker_not_scan: "\<not> is_worker t \<Longrightarrow> task_point t \<noteq> At_scan"
  by (auto simp: is_worker_def)

lemma task_ok_later:
  assumes "task_ok s t" "owner s' = owner s" "generation s \<le> generation s'" "\<not> is_worker t"
  shows "task_ok s' t"
  using assms worker_not_scan [OF assms(4)] by (simp add: task_ok_def)

lemma hands_over_if:
  "(x \<Longrightarrow> hands_over s a) \<Longrightarrow> (\<not> x \<Longrightarrow> hands_over s b) \<Longrightarrow> hands_over s (if x then a else b)"
  by simp

lemma quiet_then:
  assumes "quiet s r" "\<And>s'. same_core s s' \<Longrightarrow> quiet s' (k s')"
  shows "quiet s (followed_by r k)"
proof -
  obtain s1 cs ts where r: "r = (s1, cs, ts)" by (cases r)
  obtain s2 cs' ts' where k: "k s1 = (s2, cs', ts')" by (cases "k s1")
  have s1: "same_core s s1" using assms(1) by (simp add: r quiet_def)
  moreover have "quiet s1 (s2, cs', ts')" using assms(2) [OF s1] by (simp add: k)
  moreover have "list_all (\<lambda>t. task_ok s2 t \<and> \<not> is_worker t) ts"
  proof -
    have "owner s2 = owner s1" "generation s1 \<le> generation s2"
      using \<open>quiet s1 (s2, cs', ts')\<close> by (auto simp: quiet_def same_core_def)
    with assms(1) show ?thesis by (auto simp: r quiet_def list_all_iff intro: task_ok_later)
  qed
  ultimately show ?thesis
    using assms(1) by (simp add: r k quiet_def) (simp add: same_core_def)
qed

lemma workers_append: "workers s (ts @ ts') = workers s ts + workers s ts' - length (armed s)"
  by (simp add: workers_def)

lemma workers_none:
  "list_all (\<lambda>t. \<not> is_worker t) ts \<Longrightarrow> workers s (ts @ ts') = workers s ts'"
  "list_all (\<lambda>t. \<not> is_worker t) ts \<Longrightarrow> workers s (ts' @ ts) = workers s ts'"
  by (induction ts) (auto simp: workers_def)

lemma hands_over_after:
  assumes "quiet s r" "\<And>s'. same_core s s' \<Longrightarrow> hands_over s' (k s')"
  shows "hands_over s (followed_by r k)"
proof -
  obtain s1 cs ts where r: "r = (s1, cs, ts)" by (cases r)
  obtain s2 cs' ts' where k: "k s1 = (s2, cs', ts')" by (cases "k s1")
  have s1: "same_core s s1"
    and ts: "list_all (\<lambda>t. \<not> is_worker t) ts" "list_all (task_ok s1) ts"
    and cs: "list_all (\<lambda>x. call_account x = owner s) cs"
    using assms(1) by (auto simp: r quiet_def list_all_iff)
  have ho: "hands_over s1 (s2, cs', ts')" using assms(2) [OF s1] by (simp add: k)
  have "list_all (task_ok s2) ts"
    using ts ho by (auto simp: list_all_iff hands_over_def intro: task_ok_later)
  then show ?thesis
    using s1 ho ts cs by (simp add: r k hands_over_def workers_none) (simp add: same_core_def)
qed

lemma hands_over_calls:
  "list_all (\<lambda>x. call_account x = owner s) cs \<Longrightarrow>
   hands_over s (followed_by (h, cs, []) k) = hands_over s (k h)"
  by (cases "k h") (simp add: hands_over_def)

section \<open>Segments without a worker\<close>

lemma quiet_price: "quiet s (priceGames su shutting now s)"
  by (simp add: quiet_def priceGames_def Let_def same_core_def task_ok_def is_worker_def)

lemma quiet_core: "same_core s s' \<Longrightarrow> quiet s' r \<Longrightarrow> quiet s r"
  by (auto simp: quiet_def same_core_def split: prod.splits)

lemma quiet_filter: "quiet s (filter_session su shutting now s)"
  unfolding filter_session_def by (rule quiet_core [OF _ quiet_price]) (simp add: same_core_def)

lemma quiet_filter_config: "quiet s (filter_session su shutting now (s\<lparr>config := x\<rparr>))"
  by (rule quiet_core [OF _ quiet_filter]) (simp add: same_core_def)

lemma quiet_update: "quiet s (updateGames su shutting now d s)"
  unfolding updateGames_def by (rule quiet_core [OF _ quiet_filter]) (simp add: same_core_def)

lemma quiet_nothing: "quiet s (s, [], [])"
  by (simp add: quiet_def)

section \<open>Segments of a worker\<close>

lemma not_worker_epilogue [simp]: "\<not> is_worker (pending s g og (At_epilogue r))"
  "\<not> is_worker (pending s g og At_completed)" "\<not> is_worker (pending s g og At_cleanup)"
  "\<not> is_worker (pending s g og At_stopped)" "\<not> is_worker (pending s g og At_prices_settled)"
  by (simp_all add: is_worker_def pending_def)

lemma is_worker_pending [simp]: "is_worker (pending s g og (At_availability f))"
  "is_worker (pending s g og (At_begin l))" "is_worker (pending s g og (At_discover l))"
  "is_worker (pending s g og (At_apply ids w))" "is_worker (pending s g og At_scan)"
  by (simp_all add: is_worker_def pending_def)

lemma pending_simps [simp]: "task_account (pending s g og p) = owner s"
  "task_generation (pending s g og p) = g" "task_point (pending s g og p) = p"
  by (simp_all add: pending_def)

lemma returns_hands_over:
  assumes "activity_ok s'" "timers_ok s'" "length (armed s') = (if isActive s' then 1 else 0)"
    "owner s' = owner s" "generation s \<le> generation s'" "gen \<le> generation s'"
  shows "hands_over s (returns gen origin s')"
  using assms by (cases origin) (simp_all add: returns_def hands_over_def workers_def task_ok_def)

lemma returns_quiet: "gen \<le> generation s \<Longrightarrow> quiet s (returns gen origin s)"
  by (cases origin) (simp_all add: returns_def quiet_def task_ok_def)

lemma halt_session_props:
  assumes "halt_session su why s = (h, cs, ts)" "timers_ok s" "activity_ok s"
  shows "owner h = owner s" "generation h = generation s + 1" "\<not> isActive h" "activity_ok h"
    "timers_ok h" "armed h = []" "ts = []" "activeAppIds h = []" "timer h = None" "activeSince h = None"
    "list_all (\<lambda>x. call_account x = owner s \<and> \<not> work_call x) cs"
    "list_all (\<lambda>x. call_account x = owner s) cs"
proof -
  have clear: "armed (clear_timer (s\<lparr>generation := generation s + 1\<rparr>)) = []"
    "timer (clear_timer (s\<lparr>generation := generation s + 1\<rparr>)) = None"
    "owner (clear_timer (s\<lparr>generation := g\<rparr>)) = owner s"
    "phase (clear_timer (s\<lparr>generation := g\<rparr>)) = phase s"
    "generation (clear_timer (s\<lparr>generation := g\<rparr>)) = g" for g
    using assms(2) by (auto simp: clear_timer_def timers_ok_def split: option.split)
  note eqs = assms(1) [unfolded halt_session_def Let_def prod.inject]
  have h: "h = fst (halt_session su why s)" using assms(1) by simp
  show "owner h = owner s" "generation h = generation s + 1" "armed h = []" "activeAppIds h = []"
    "timer h = None" "activeSince h = None"
    unfolding h by (simp_all add: halt_session_def Let_def clear)
  show inactive: "\<not> isActive h"
    unfolding h using clear(4) by (auto simp: halt_session_def Let_def isActive_def)
  show "ts = []" using eqs by simp
  show "list_all (\<lambda>x. call_account x = owner s \<and> \<not> work_call x) cs"
    "list_all (\<lambda>x. call_account x = owner s) cs"
    using eqs by auto
  from inactive \<open>activeAppIds h = []\<close> \<open>activeSince h = None\<close> show "activity_ok h"
    by (cases "phase h") (simp_all add: activity_ok_def isActive_def)
  show "timers_ok h" using \<open>armed h = []\<close> \<open>timer h = None\<close> by (simp add: timers_ok_def)
qed

lemma cleanup_hands_over:
  assumes "activity_ok s'" "timers_ok s'" "\<not> isActive s'" "armed s' = []"
    "owner s' = owner s" "generation s \<le> generation s'" "gen \<le> generation s'"
  shows "hands_over s (cleanup gen origin a s')"
  using assms returns_hands_over [of s' s gen origin]
  by (simp add: cleanup_def) (simp add: hands_over_def workers_def task_ok_def)

lemma turn_timers_ok: "turn s \<Longrightarrow> timers_ok s"
  by (simp add: turn_def timers_ok_def)

lemma advance_failed_hands_over:
  assumes "activity_ok s" "timers_ok s" "isCurrent shutting s gen"
  shows "hands_over s (advance_failed su shutting gen origin s)"
proof -
  obtain h cs ts where h: "halt_session su ''farming_failed'' s = (h, cs, ts)"
    by (cases "halt_session su ''farming_failed'' s")
  note p = halt_session_props [OF h assms(2,1)]
  have "hands_over s (cleanup gen origin (applied s) (h\<lparr>phase := Errored\<rparr>))"
    by (rule cleanup_hands_over)
      (use p assms(3) in \<open>auto simp: activity_ok_def timers_ok_def isActive_def isCurrent_def\<close>)
  then show ?thesis
    using assms(3) p(7) by (simp add: advance_failed_def h hands_over_calls p(12) del: followed_by_simp)
qed

lemma run_worker_hands_over:
  assumes "armed s = []" "generation s = gen" "ids \<noteq> []" "length ids \<le> 32" "\<not> w \<longrightarrow> length ids = 1"
  shows "hands_over s (run_worker now gen origin ids w s)"
  unfolding run_worker_def
  by (rule returns_hands_over) (use assms in \<open>auto simp: activity_ok_def timers_ok_def isActive_def\<close>)

lemma pending_hands_over:
  assumes "turn s" "is_worker (pending s gen origin p)" "generation s = gen" "point_ok p"
    "p \<noteq> At_scan" "list_all (\<lambda>x. call_account x = owner s) cs" "same_core s (s'\<lparr>applied := applied s\<rparr>)"
  shows "hands_over s (s', cs, [pending s gen origin p])"
proof -
  have s': "owner s' = owner s" "phase s' = phase s" "activeAppIds s' = activeAppIds s"
    "activeSince s' = activeSince s" "generation s' = generation s" "timer s' = timer s"
    "armed s' = armed s"
    using assms(7) by (simp_all add: same_core_def)
  then show ?thesis
    using assms(1-6) turn_timers_ok [OF assms(1)]
    by (simp add: hands_over_def workers_def task_ok_def turn_def isActive_def timers_ok_def activity_ok_def
        cong: farming_phase.case_cong option.case_cong)
qed

lemma complete_hands_over:
  assumes "turn s" "generation s = gen"
  shows "hands_over s (complete_worker su gen origin s)"
proof -
  let ?h = "s\<lparr>phase := Completed, activeAppIds := [], activeSince := None,
                 reason := (if eligible_games (games s) = [] \<and> games s \<noteq> []
                            then Some ''no_eligible_games'' else None)\<rparr>"
  have h: "activity_ok ?h" "timers_ok ?h" "\<not> isActive ?h" "armed ?h = []" "generation ?h = gen" "owner ?h = owner s"
    using assms by (simp_all add: turn_def activity_ok_def timers_ok_def isActive_def)
  then have r: "hands_over s (returns gen origin ?h)"
    by (intro returns_hands_over) (simp_all add: assms)
  have e: "hands_over s (?h, [End (owner ?h) gen], [pending ?h gen origin At_completed])"
    using h assms(2) by (simp add: hands_over_def workers_def task_ok_def)
  have cs: "list_all (\<lambda>x. call_account x = owner s) (if has_remember su then [Remember (owner s) False] else [])"
    by simp
  show ?thesis
    unfolding complete_worker_def Let_def hands_over_calls [OF cs] by (intro hands_over_if r e)
qed


lemma hands_over_core: "same_core s s' \<Longrightarrow> hands_over s' r \<Longrightarrow> hands_over s r"
  by (auto simp: hands_over_def same_core_def split: prod.splits)

lemma turnI: "turn s \<Longrightarrow> same_core s s' \<Longrightarrow> turn s'"
  by (simp add: same_core_kept(6))

lemma select_games_bounds:
  "length (map appId (select_games cfg limit gs)) \<le> 32"
  "\<not> is_warming cfg gs \<Longrightarrow> length (map appId (select_games cfg limit gs)) \<le> 1"
  using length_select_games [of cfg limit gs] selection_limit_bound [of cfg limit] by auto

lemma select_hands_over:
  assumes "turn s" "generation s = gen"
  shows "hands_over s (select_and_apply su shutting now gen limit origin s)"
  unfolding select_and_apply_def
proof (rule hands_over_after [OF quiet_filter], goal_cases)
  case (1 s')
  note t = turnI [OF assms(1) 1]
  have gen: "generation s' = gen" using 1 assms(2) by (simp add: same_core_def)
  note b = select_games_bounds(1) [of "config s'" limit "games s'"]
    select_games_bounds(2) [of "config s'" "games s'" limit]
  define ids where "ids = map appId (select_games (config s') limit (games s'))"
  define w where "w = is_warming (config s') (games s')"
  have ids: "ids \<noteq> [] \<Longrightarrow> point_ok (At_apply ids w)"
    using b unfolding ids_def w_def by (auto simp: neq_Nil_conv)
  have c1: "hands_over s' (complete_worker su gen origin s')"
    by (rule complete_hands_over [OF t gen])
  have c2: "hands_over s' (s'\<lparr>applied := True\<rparr>, [Apply (owner s') ids gen],
      [pending s' gen origin (At_apply ids w)])" if "ids \<noteq> []"
    by (rule pending_hands_over [OF t _ gen ids [OF that]]) (simp_all add: same_core_def)
  have c3: "hands_over s' (run_worker now gen origin ids w s')" if "ids \<noteq> []"
    by (rule run_worker_hands_over) (use t ids [OF that] gen in \<open>simp_all add: turn_def\<close>)
  show ?case
    unfolding Let_def ids_def [symmetric] w_def [symmetric] by (intro hands_over_if c1 c2 c3)
qed

lemma credit_turn: "turn s \<Longrightarrow> turn (creditPlaytime now s)"
  by (auto simp: turn_def creditPlaytime_def isActive_def activity_ok_def split: option.split
      cong: farming_phase.case_cong)

lemma credit_keeps: "owner (creditPlaytime now s) = owner s" "generation (creditPlaytime now s) = generation s"
  by (simp_all add: creditPlaytime_def split: option.split)

lemma hands_over_keeps:
  "owner s' = owner s \<Longrightarrow> generation s' = generation s \<Longrightarrow> hands_over s' r \<Longrightarrow> hands_over s r"
  by (auto simp: hands_over_def split: prod.splits)

lemma scan_or_select_hands_over:
  assumes "turn s" "generation s = gen"
  shows "hands_over s (scan_or_select su shutting now gen force limit origin s)"
proof -
  let ?s = "creditPlaytime now s"
  note t = credit_turn [OF assms(1), of now]
  have gen: "generation ?s = gen" by (simp add: credit_keeps assms(2))
  have "hands_over ?s (?s, [Discover (owner ?s) gen], [pending ?s gen origin (At_discover limit)])"
    by (rule pending_hands_over [OF t _ gen]) (simp_all add: same_core_def)
  moreover have "hands_over ?s (select_and_apply su shutting now gen limit origin ?s)"
    by (rule select_hands_over [OF t gen])
  ultimately have "hands_over ?s (scan_or_select su shutting now gen force limit origin s)"
    by (simp add: scan_or_select_def Let_def)
  then show ?thesis by (rule hands_over_keeps [rotated 2]) (simp_all add: credit_keeps)
qed

lemma check_hands_over:
  assumes "turn s" "generation s = gen"
  shows "hands_over s (check_availability su shutting now gen force origin a s)"
proof -
  let ?s = "s\<lparr>canStart := allowed a, gameLimit := available_limit a\<rparr>"
  let ?why = "case refusal a of None \<Rightarrow> ''account_unavailable'' | Some r \<Rightarrow> r"
  have core: "same_core s ?s" by (simp add: same_core_def)
  note t = turnI [OF assms(1) core]
  have gen: "generation ?s = gen" using assms(2) by simp
  obtain h cs ts where h: "halt_session su ?why ?s = (h, cs, ts)" by (cases "halt_session su ?why ?s")
  note p = halt_session_props [OF h turn_timers_ok [OF t]]
  have act: "activity_ok ?s" using t by (simp add: turn_def)
  have h1: "hands_over ?s (followed_by (halt_session su ?why ?s) (cleanup gen origin (applied ?s)))"
    unfolding h p(7) [OF act] hands_over_calls [OF p(12) [OF act]]
    by (rule cleanup_hands_over) (use p [OF act] gen in simp_all)
  have h2: "hands_over ?s (?s\<lparr>applied := True\<rparr>, [Begin (owner ?s) gen],
      [pending ?s gen origin (At_begin (available_limit a))])"
    by (rule pending_hands_over [OF t _ gen]) (simp_all add: same_core_def)
  have h3: "hands_over ?s (scan_or_select su shutting now gen force (available_limit a) origin ?s)"
    by (rule scan_or_select_hands_over [OF t gen])
  have "hands_over ?s (check_availability su shutting now gen force origin a s)"
    unfolding check_availability_def Let_def by (intro hands_over_if h1 h2 h3)
  then show ?thesis by (rule hands_over_core [OF core])
qed

lemma scan_ends:
  assumes "turn s" "phase s = Scanning" "p = Stopped \<or> p = Errored"
  shows "hands_over s (s\<lparr>phase := p\<rparr>, [], [])"
  using assms by (auto simp: turn_def hands_over_def activity_ok_def timers_ok_def isActive_def workers_def)



lemma worker_segment_hands_over:
  assumes "turn s" "generation s = gen" "\<not> shutting" "point_ok p" "p = At_scan \<longrightarrow> phase s = Scanning"
  shows "hands_over s (worker_segment su shutting now gen origin p answer s)"
proof -
  have act: "activity_ok s" and tim: "timers_ok s"
    using assms(1) turn_timers_ok by (auto simp: turn_def)
  have failed: "hands_over s (advance_failed su shutting gen origin s)"
    by (rule advance_failed_hands_over [OF act tim]) (simp add: isCurrent_def assms)
  have scan_failed: "hands_over s (s\<lparr>phase := Errored, reason := Some why\<rparr>, [], [])" if "p = At_scan" for why
    using scan_ends [OF assms(1), of Errored] assms(5) that
    by (simp add: hands_over_def activity_ok_def timers_ok_def isActive_def workers_def)
  show ?thesis
  proof (cases p)
    case At_scan
    have "hands_over s (followed_by (updateGames su shutting now d s) (\<lambda>s. (s\<lparr>phase := Stopped\<rparr>, [], [])))" for d
    proof (rule hands_over_after [OF quiet_update])
      fix s' assume c: "same_core s s'"
      then have "phase s' = Scanning" using assms(5) At_scan by (simp add: same_core_def)
      then show "hands_over s' (s'\<lparr>phase := Stopped\<rparr>, [], [])"
        using scan_ends [OF turnI [OF assms(1) c]] by simp
    qed
    with At_scan scan_failed show ?thesis by (cases answer) simp_all
  next
    case (At_availability f)
    then show ?thesis using failed check_hands_over [OF assms(1,2)] by (cases answer) simp_all
  next
    case (At_begin l)
    then show ?thesis using failed scan_or_select_hands_over [OF assms(1,2)] by (cases answer) simp_all
  next
    case (At_discover l)
    have "hands_over s (followed_by (updateGames su shutting now d s)
        (select_and_apply su shutting now gen l origin))" for d
    proof (rule hands_over_after [OF quiet_update])
      fix s' assume c: "same_core s s'"
      then have "generation s' = gen" using assms(2) by (simp add: same_core_def)
      then show "hands_over s' (select_and_apply su shutting now gen l origin s')"
        by (rule select_hands_over [OF turnI [OF assms(1) c]])
    qed
    with failed At_discover show ?thesis by (cases answer) simp_all
  next
    case (At_apply ids w)
    have "hands_over s (run_worker now gen origin ids w s)"
      using assms At_apply by (intro run_worker_hands_over) (simp_all add: turn_def)
    with failed At_apply show ?thesis by (cases answer) simp_all
  qed (use failed in simp_all)
qed

lemma account_inv_quiet:
  assumes inv: "account_inv shutting s ts" and q: "quiet s (s', cs, ts')"
  shows "account_inv shutting s' (ts @ ts')"
proof -
  have core: "same_core s s'" and ts': "list_all (\<lambda>t. \<not> is_worker t) ts'" "list_all (task_ok s') ts'"
    using q by (auto simp: quiet_def list_all_iff)
  have own: "owner s' = owner s" using core by (simp add: same_core_def)
  from inv show ?thesis
    unfolding account_inv_def same_core_kept [OF core] own workers_none(2) [OF ts'(1)]
    using ts'(2) same_core_kept(5) [OF core] by (auto simp: list_all_iff)
qed

text \<open>No worker of the account is pending that could still be current in the session \<open>s'\<close>.\<close>

definition unclaimed :: "session \<Rightarrow> task list \<Rightarrow> session \<Rightarrow> bool" where
  "unclaimed s ts s' \<longleftrightarrow>
     list_all (task_ok s) (filter (\<lambda>t. task_account t = owner s) ts) \<and>
     (generation s < generation s' \<or>
      filter (\<lambda>t. is_worker t \<and> task_account t = owner s \<and> task_generation t = generation s) ts = [])"

lemma unclaimed_none:
  assumes "unclaimed s ts s'" "generation s \<le> generation s'" "t \<in> set ts" "task_account t = owner s"
  shows "\<not> (is_worker t \<and> task_generation t = generation s')" "task_generation t \<le> generation s'"
    "point_ok (task_point t)"
proof -
  from assms have ok: "task_ok s t" by (auto simp: unclaimed_def list_all_iff)
  then show "task_generation t \<le> generation s'" "point_ok (task_point t)"
    using assms(2) by (auto simp: task_ok_def)
  from ok assms(1-4) show "\<not> (is_worker t \<and> task_generation t = generation s')"
    by (auto simp: unclaimed_def task_ok_def filter_empty_conv)
qed

lemma account_inv_next:
  assumes "unclaimed s ts s'" "hands_over s (s', cs, ts')" "shutting \<longrightarrow> \<not> isActive s'"
  shows "account_inv shutting s' (ts @ ts')"
proof -
  have gen: "generation s \<le> generation s'" and own: "owner s' = owner s"
    using assms(2) by (simp_all add: hands_over_def)
  note none = unclaimed_none [OF assms(1) gen]
  have "filter (\<lambda>t. is_worker t \<and> task_account t = owner s' \<and> task_generation t = generation s') ts = []"
    using none(1) own by (auto simp: filter_empty_conv)
  then have "workers s' (ts @ ts') = workers s' ts'" by (simp add: workers_def)
  moreover have "list_all (task_ok s') (filter (\<lambda>t. task_account t = owner s') ts)"
    using none own worker_not_scan by (auto simp: list_all_iff task_ok_def)
  ultimately show ?thesis
    using assms(2,3) by (auto simp: account_inv_def hands_over_def list_all_iff)
qed

lemma account_inv_unclaimed:
  assumes "account_inv shutting s ts"
  shows "generation s < generation s' \<Longrightarrow> unclaimed s ts s'"
    "\<not> isActive s \<Longrightarrow> unclaimed s ts s'"
    "timer s \<noteq> None \<Longrightarrow> unclaimed s ts s'"
  using assms by (auto simp: account_inv_def unclaimed_def workers_def timers_ok_def split: if_splits)


section \<open>Every step keeps the invariant\<close>

definition seg_inv :: "bool \<Rightarrow> account_id \<Rightarrow> task list \<Rightarrow> segment \<Rightarrow> bool" where
  "seg_inv shutting acc ts r \<longleftrightarrow>
     (case r of (s', cs, ts') \<Rightarrow>
        owner s' = acc \<and> account_inv shutting s' (ts @ ts') \<and> list_all (\<lambda>t. task_account t = acc) ts' \<and>
        list_all (\<lambda>x. call_account x = acc) cs)"

lemma seg_inv_quiet:
  assumes "account_inv shutting s ts" "quiet s r" "owner s = acc"
  shows "seg_inv shutting acc ts r"
proof -
  obtain s' cs ts' where r: "r = (s', cs, ts')" by (cases r)
  then show ?thesis
    using account_inv_quiet [OF assms(1)] assms(2,3)
    by (auto simp: seg_inv_def quiet_def same_core_def task_ok_def list_all_iff)
qed

lemma seg_inv_next:
  assumes "\<And>s'. s' = fst r \<Longrightarrow> unclaimed s ts s'" "hands_over s r" "owner s = acc"
    "shutting \<longrightarrow> \<not> isActive (fst r)"
  shows "seg_inv shutting acc ts r"
proof -
  obtain s' cs ts' where r: "r = (s', cs, ts')" by (cases r)
  then have "account_inv shutting s' (ts @ ts')"
    using assms by (intro account_inv_next [of s ts s' cs]) simp_all
  then show ?thesis
    using assms(2,3) by (auto simp: r seg_inv_def hands_over_def task_ok_def list_all_iff)
qed

lemma seg_inv_then:
  assumes "seg_inv shutting acc ts r"
    "\<And>s' ts'. account_inv shutting s' ts' \<Longrightarrow> owner s' = acc \<Longrightarrow> seg_inv shutting acc ts' (k s')"
  shows "seg_inv shutting acc ts (followed_by r k)"
proof -
  obtain s1 cs ts1 where r: "r = (s1, cs, ts1)" by (cases r)
  obtain s2 cs2 ts2 where k: "k s1 = (s2, cs2, ts2)" by (cases "k s1")
  from assms(1) have "seg_inv shutting acc (ts @ ts1) (k s1)"
    by (intro assms(2)) (simp_all add: r seg_inv_def)
  with assms(1) show ?thesis by (simp add: r k seg_inv_def)
qed

lemma seg_inv_same: "account_inv shutting s ts \<Longrightarrow> owner s = acc \<Longrightarrow> seg_inv shutting acc ts (s, [], [])"
  by (simp add: seg_inv_def)

lemma hands_over_bumped:
  assumes "account_inv shutting s ts" "hands_over s r" "generation s < generation (fst r)"
    "owner s = acc" "shutting \<longrightarrow> \<not> isActive (fst r)"
  shows "seg_inv shutting acc ts r"
  by (rule seg_inv_next [OF _ assms(2,4,5)]) (simp add: account_inv_unclaimed(1) [OF assms(1)] assms(3))

lemma halt_seg_inv:
  assumes "account_inv shutting s ts" "owner s = acc"
  shows "seg_inv shutting acc ts (halt_session su why s)"
proof -
  obtain h cs ts' where h: "halt_session su why s = (h, cs, ts')" by (cases "halt_session su why s")
  have "timers_ok s" "activity_ok s" using assms(1) by (simp_all add: account_inv_def)
  note p = halt_session_props [OF h this]
  show ?thesis unfolding h
    by (rule hands_over_bumped [OF assms(1)])
      (use p assms(2) in \<open>simp_all add: hands_over_def workers_def\<close>)
qed

lemma failed_seg_inv:
  assumes inv: "account_inv shutting s ts" and own: "owner s = acc" and gen: "gen \<le> generation s"
  shows "seg_inv shutting acc ts (advance_failed su shutting gen origin s)"
proof (cases "isCurrent shutting s gen")
  case False
  then show ?thesis
    using seg_inv_quiet [OF inv returns_quiet [OF gen] own] by (simp add: advance_failed_def)
next
  case True
  have ok: "timers_ok s" "activity_ok s" using inv by (simp_all add: account_inv_def)
  obtain h cs ts' where h: "halt_session su ''farming_failed'' s = (h, cs, ts')"
    by (cases "halt_session su ''farming_failed'' s")
  note p = halt_session_props [OF h ok]
  have s': "fst (advance_failed su shutting gen origin s) = h\<lparr>phase := Errored\<rparr>"
    using True by (simp add: advance_failed_def h cleanup_def returns_def split: prod.splits)
  show ?thesis
    by (rule hands_over_bumped [OF inv advance_failed_hands_over [OF ok(2,1) True] _ own])
      (use p s' True in \<open>simp_all add: isActive_def isCurrent_def\<close>)
qed

lemma account_inv_drop:
  assumes "account_inv shutting s (a @ t # b)" "\<not> (is_worker t \<and> task_generation t = generation s)"
  shows "account_inv shutting s (a @ b)"
  using assms by (auto simp: account_inv_def workers_def split: if_splits)

lemma turn_of_worker:
  assumes "account_inv shutting s (a @ t # b)" "is_worker t" "task_account t = owner s"
    "task_generation t = generation s"
  shows "turn s" "unclaimed s (a @ b) s'" "\<not> shutting" "point_ok (task_point t)"
    "task_point t = At_scan \<longrightarrow> phase s = Scanning" "armed s = []"
  using assms by (auto simp: account_inv_def workers_def turn_def unclaimed_def timers_ok_def task_ok_def
      split: if_splits option.splits)

lemma task_seg_inv:
  assumes inv: "account_inv shutting s (a @ t # b)" and own: "task_account t = owner s"
  shows "seg_inv shutting (owner s) (a @ b) (task_segment su shutting now t answer s)"
proof -
  let ?gen = "task_generation t" and ?or = "task_origin t"
  have gen: "?gen \<le> generation s" using inv own by (simp add: account_inv_def task_ok_def)
  have ret: "seg_inv shutting (owner s) (a @ b) (returns ?gen ?or s)" if "account_inv shutting s (a @ b)"
    by (rule seg_inv_quiet [OF that returns_quiet [OF gen]]) simp
  show ?thesis
  proof (cases "is_worker t")
    case True
    show ?thesis
    proof (cases "?gen = generation s")
      case eq: True
      note w = turn_of_worker [OF inv True own eq]
      have "seg_inv shutting (owner s) (a @ b)
          (worker_segment su shutting now ?gen ?or (task_point t) answer s)"
        by (rule seg_inv_next [OF w(2) worker_segment_hands_over [OF w(1) eq [symmetric] w(3-5)]])
          (use w(3) in simp_all)
      then show ?thesis using True eq w(3) by (simp add: task_segment_def isCurrent_def Let_def)
    next
      case False
      then have "account_inv shutting s (a @ b)" using account_inv_drop [OF inv] by simp
      from ret [OF this] show ?thesis
        using True False by (simp add: task_segment_def isCurrent_def Let_def)
    qed
  next
    case False
    then have inv': "account_inv shutting s (a @ b)" using account_inv_drop [OF inv] by simp
    have q: "seg_inv shutting (owner s) (a @ b) r" if "quiet s r" for r
      by (rule seg_inv_quiet [OF inv' that]) simp
    show ?thesis
    proof (cases "task_point t")
      case At_completed
      then show ?thesis
        using False ret [OF inv'] failed_seg_inv [OF inv' refl gen]
        by (simp add: task_segment_def Let_def)
    next
      case At_prices
      have "same_core s (set_values su now vs s)" for vs
        by (simp add: same_core_def set_values_def sort_games_def Let_def)
      then show ?thesis
        using False gen At_prices
        by (intro q) (auto simp: task_segment_def quiet_def task_ok_def Let_def same_core_def split: answer.split)
    qed (use False ret [OF inv'] q in
        \<open>auto simp: task_segment_def Let_def is_worker_def epilogue_def quiet_def same_core_def\<close>)
  qed
qed


text \<open>The sessions of the other accounts are fine, and every pending continuation has a session.\<close>

definition others_ok :: "account_id \<Rightarrow> controller \<Rightarrow> bool" where
  "others_ok acc c \<longleftrightarrow>
     (\<forall>acc' s. js_get (sessions c) acc' = Some s \<and> acc' \<noteq> acc \<longrightarrow>
        owner s = acc' \<and> account_inv (shuttingDown c) s (tasks c)) \<and>
     list_all (\<lambda>t. task_account t = acc \<or> js_get (sessions c) (task_account t) \<noteq> None) (tasks c)"

lemma farm_inv_others: "farm_inv c \<Longrightarrow> others_ok acc c"
  by (auto simp: farm_inv_def others_ok_def list_all_iff)

lemma farm_inv_session:
  "farm_inv c \<Longrightarrow> js_get (sessions c) acc = Some s \<Longrightarrow>
   owner s = acc \<and> account_inv (shuttingDown c) s (tasks c)"
  by (simp add: farm_inv_def)

lemma account_inv_others:
  assumes "account_inv shutting s ts" "list_all (\<lambda>t. task_account t \<noteq> owner s) ts'"
  shows "account_inv shutting s (ts @ ts')"
proof -
  have "filter (\<lambda>t. task_account t = owner s) ts' = []"
    "filter (\<lambda>t. is_worker t \<and> task_account t = owner s \<and> task_generation t = generation s) ts' = []"
    using assms(2) by (auto simp: filter_empty_conv list_all_iff)
  with assms(1) show ?thesis by (simp add: account_inv_def workers_def)
qed

text \<open>A step of one account: the invariant holds, the other accounts see nothing of it.\<close>

definition own_step :: "account_id \<Rightarrow> controller \<Rightarrow> controller \<Rightarrow> bool" where
  "own_step acc c c' \<longleftrightarrow>
     farm_inv c' \<and> (\<exists>cs. calls c' = calls c @ cs \<and> list_all (\<lambda>x. call_account x = acc) cs) \<and>
     (\<forall>acc'. acc' \<noteq> acc \<longrightarrow> js_get (sessions c') acc' = js_get (sessions c) acc')"

lemma own_step_refl: "farm_inv c \<Longrightarrow> own_step acc c c"
  by (simp add: own_step_def)

lemma commit_inv:
  assumes "others_ok acc c" "seg_inv (shuttingDown c) acc (tasks c) r"
  shows "own_step acc c (commit acc r c)"
proof -
  obtain s' cs ts' where r: "r = (s', cs, ts')" by (cases r)
  have "account_inv (shuttingDown c) s (tasks c @ ts')"
    if "js_get (sessions c) acc' = Some s" "acc' \<noteq> acc" for acc' s
    using assms that by (intro account_inv_others) (auto simp: others_ok_def seg_inv_def r list_all_iff)
  with assms show ?thesis
    by (auto simp: own_step_def farm_inv_def commit_def r seg_inv_def others_ok_def list_all_iff)
qed

lemma new_session_inv:
  assumes "list_all (\<lambda>t. task_account t \<noteq> acc) ts"
  shows "account_inv shutting (new_session acc cfg) ts"
proof -
  have "account_inv shutting (new_session acc cfg) []"
    by (simp add: account_inv_def new_session_def activity_ok_def timers_ok_def workers_def isActive_def)
  then show ?thesis using account_inv_others [of shutting "new_session acc cfg" "[]" ts] assms
    by (simp add: new_session_def)
qed

lemma snapshot_seg_inv:
  assumes "farm_inv c"
  shows "seg_inv (shuttingDown c) acc (tasks c) (snapshot_session su acc cfg now c)"
proof (cases "js_get (sessions c) acc")
  case None
  then have "list_all (\<lambda>t. task_account t \<noteq> acc) (tasks c)"
    using assms by (auto simp: farm_inv_def list_all_iff)
  then show ?thesis
    using None by (simp add: snapshot_session_def)
      (rule seg_inv_same [OF new_session_inv], simp_all add: new_session_def)
next
  case (Some s)
  note i = farm_inv_session [OF assms Some]
  have "seg_inv (shuttingDown c) acc (tasks c) (s, [], [])"
    using i by (intro seg_inv_same) simp_all
  moreover have "seg_inv (shuttingDown c) acc (tasks c)
      (filter_session su (shuttingDown c) now (s\<lparr>config := x\<rparr>))" for x
    using i by (intro seg_inv_quiet [OF _ quiet_filter_config]) simp_all
  ultimately show ?thesis
    using Some by (simp add: snapshot_session_def split: option.split)
qed

lemma commit_snapshot_inv:
  assumes "farm_inv c" "\<And>s' ts'. account_inv (shuttingDown c) s' ts' \<Longrightarrow> owner s' = acc \<Longrightarrow>
      seg_inv (shuttingDown c) acc ts' (k s')"
  shows "own_step acc c (commit acc (followed_by (snapshot_session su acc cfg now c) k) c)"
  by (rule commit_inv [OF farm_inv_others [OF assms(1)]], rule seg_inv_then [OF snapshot_seg_inv [OF assms(1)]])
    (rule assms(2))

text \<open>A new worker of an inactive session.\<close>

lemma launch_seg_inv:
  assumes "account_inv shutting s ts" "owner s = acc" "\<not> isActive s" "\<not> shutting"
    and s': "owner s' = acc" "generation s' = g" "g = generation s + 1" "phase s' = Scanning"
      "activeAppIds s' = activeAppIds s" "activeSince s' = activeSince s" "timer s' = timer s" "armed s' = armed s"
    and cs: "list_all (\<lambda>x. call_account x = acc) cs"
    and p: "is_worker (pending s' g og p)" "point_ok p"
  shows "seg_inv shutting acc ts (s', cs, [pending s' g og p])"
proof -
  have "timer s = None" "armed s = []" "activeAppIds s = []" "activeSince s = None"
    using assms(1,3) unfolding account_inv_def timers_ok_def activity_ok_def isActive_def
    by (cases "phase s"; auto split: option.splits)+
  then have "hands_over s (s', cs, [pending s' g og p])"
    using assms(2) s' p cs
    by (simp add: hands_over_def activity_ok_def timers_ok_def isActive_def workers_def task_ok_def)
  then show ?thesis
    by (rule hands_over_bumped [OF assms(1)]) (use assms in simp_all)
qed

lemma scan_inv: "farm_inv c \<Longrightarrow> scan su acc cfg expected now c = Inr c' \<Longrightarrow> own_step acc c c'"
  unfolding scan_def
  by (auto simp: Let_def split: if_splits intro!: commit_snapshot_inv)
    (auto intro: seg_inv_same intro!: launch_seg_inv)

lemma start_inv:
  assumes "farm_inv c"
  shows "own_step acc c (snd (start su acc cfg expected resumed now c))"
proof -
  let ?r = "snapshot_session su acc (Some cfg) now c"
  note r = snapshot_seg_inv [OF assms, of acc su "Some cfg" now]
  obtain s cs ts where s: "?r = (s, cs, ts)" by (cases ?r)
  have "own_step acc c (commit acc ?r c)"
    by (rule commit_inv [OF farm_inv_others [OF assms] r])
  moreover have "seg_inv (shuttingDown c) acc (tasks c) (followed_by ?r (\<lambda>s.
      if superseded expected s then (s, [], [])
      else let gen = generation s + 1
           in advance gen True (Some resumed)
             (s\<lparr>generation := gen, config := cfg, phase := Scanning, farmingSince := Some now,
                reason := None, applied := False\<rparr>)))"
    if "\<not> shuttingDown c" "superseded expected s \<or> \<not> isActive s"
  proof -
    have i: "account_inv (shuttingDown c) s (tasks c @ ts)" "owner s = acc"
      using r by (simp_all add: s seg_inv_def)
    have "seg_inv (shuttingDown c) acc (tasks c @ ts)
      (if superseded expected s then (s, [], [])
       else let gen = generation s + 1
           in advance gen True (Some resumed)
             (s\<lparr>generation := gen, config := cfg, phase := Scanning, farmingSince := Some now,
                reason := None, applied := False\<rparr>))"
      using that i
      by (auto simp: Let_def advance_def intro: seg_inv_same
          intro!: launch_seg_inv [where s = s] split: if_splits)
    with r show ?thesis
      by (simp add: s seg_inv_def split: prod.splits if_splits)
  qed
  ultimately show ?thesis
    using own_step_refl [OF assms] commit_inv [OF farm_inv_others [OF assms]]
    by (auto simp: start_def s simp del: followed_by_simp split: if_splits)
qed


lemma timer_known:
  assumes "account_inv shutting s ts" "timer s = Some i"
  shows "armed s = [(i, generation s)]" "isActive s" "\<not> shutting" "activity_ok s"
    "unclaimed s ts s'" "clear_timer s = s\<lparr>timer := None, armed := []\<rparr>"
  using assms account_inv_unclaimed(3) [OF assms(1)]
  by (auto simp: account_inv_def timers_ok_def clear_timer_def)

lemma advance_seg_inv:
  assumes "account_inv shutting s ts" "owner s = acc" "timer s = Some i" "gen = generation s"
  shows "seg_inv shutting acc ts (advance gen False None (s\<lparr>timer := None, armed := []\<rparr>))"
proof -
  let ?s = "s\<lparr>timer := None, armed := []\<rparr>"
  note k = timer_known [OF assms(1,3)]
  have t: "turn ?s"
    using k(2,4) by (simp add: turn_def isActive_def activity_ok_def cong: farming_phase.case_cong)
  have "hands_over ?s (advance gen False None ?s)"
    unfolding advance_def by (rule pending_hands_over [OF t]) (simp_all add: assms(4) same_core_def)
  then have "hands_over s (advance gen False None ?s)"
    by (rule hands_over_keeps [rotated 2]) simp_all
  then show ?thesis
    by (rule seg_inv_next [OF k(5)]) (use assms k(3) in simp_all)
qed

lemma reconfigure_inv:
  assumes "farm_inv c"
  shows "own_step acc c (reconfigure su acc cfg now c)"
  unfolding reconfigure_def
proof (rule commit_snapshot_inv [OF assms], goal_cases)
  case (1 s ts)
  have "seg_inv (shuttingDown c) acc ts (followed_by
      (filter_session su (shuttingDown c) now (s\<lparr>config := cfg\<rparr>))
      (\<lambda>s. if timer s = None then (s, [], []) else advance (generation s) False None (clear_timer s)))"
  proof (rule seg_inv_then [OF seg_inv_quiet [OF 1(1) quiet_filter_config 1(2)]], goal_cases)
    case (1 s' ts')
    show ?case
    proof (cases "timer s'")
      case (Some i)
      show ?thesis
        using advance_seg_inv [OF 1 Some refl] timer_known(6) [OF 1(1) Some] Some by simp
    qed (use 1 in \<open>simp add: seg_inv_same\<close>)
  qed
  then show ?case using 1 by (simp add: seg_inv_same)
qed

lemma halt_inv: "farm_inv c \<Longrightarrow> own_step acc c (halt su acc why c)"
  by (auto simp: halt_def split: option.split
      intro!: own_step_refl commit_inv halt_seg_inv farm_inv_others dest: farm_inv_session)

lemma stop_inv:
  assumes "farm_inv c"
  shows "own_step acc c (stop su acc now c)"
  unfolding stop_def
proof (rule commit_snapshot_inv [OF assms], goal_cases)
  case (1 s ts)
  show ?case
  proof (rule seg_inv_then [OF halt_seg_inv [OF 1]], goal_cases)
    case (1 h ts')
    then show ?case
      by (intro seg_inv_quiet [of _ h]) (simp_all add: quiet_def task_ok_def)
  qed
qed

lemma fires_inv:
  assumes "farm_inv c"
  shows "own_step acc c (timer_fires acc i c)"
proof (cases "js_get (sessions c) acc")
  case None
  then show ?thesis using own_step_refl [OF assms] by (simp add: timer_fires_def)
next
  case (Some s)
  note inv = farm_inv_session [OF assms Some]
  show ?thesis
  proof (cases "map_of (armed s) i")
    case None
    then show ?thesis using own_step_refl [OF assms] Some by (simp add: timer_fires_def)
  next
    case (Some g)
    then obtain j where j: "timer s = Some j"
      using inv by (auto simp: account_inv_def timers_ok_def split: option.splits)
    note k = timer_known [OF conjunct2 [OF inv] j]
    from k(1) Some have g: "g = generation s" "i = j" by (auto split: if_splits)
    have "own_step acc c (commit acc (advance g False None (s\<lparr>timer := None, armed := []\<rparr>)) c)"
      by (rule commit_inv [OF farm_inv_others [OF assms] advance_seg_inv])
        (use inv j g in simp_all)
    then show ?thesis
      using \<open>js_get (sessions c) acc = Some s\<close> k(1,3) g
      by (simp add: timer_fires_def Let_def isCurrent_def)
  qed
qed

lemma others_ok_drop:
  assumes "others_ok acc (c\<lparr>tasks := a @ t # b\<rparr>)" "task_account t = acc"
  shows "others_ok acc (c\<lparr>tasks := a @ b\<rparr>)"
proof -
  have "account_inv shutting s (a @ b)" if "account_inv shutting s (a @ t # b)" "task_account t \<noteq> owner s"
    for shutting s
    using that by (auto simp: account_inv_def workers_def)
  with assms show ?thesis by (auto simp: others_ok_def)
qed

lemma resume_inv:
  assumes "farm_inv c" "i < length (tasks c)"
  shows "own_step (task_account (tasks c ! i)) c (resume_task su i answer now c)"
proof -
  let ?t = "tasks c ! i" and ?a = "take i (tasks c)" and ?b = "drop (Suc i) (tasks c)"
  have split: "tasks c = ?a @ ?t # ?b" using assms(2) by (rule id_take_nth_drop)
  have "js_get (sessions c) (task_account ?t) \<noteq> None"
    using assms by (simp add: farm_inv_def list_all_length)
  then obtain s where s: "js_get (sessions c) (task_account ?t) = Some s" by blast
  note inv = farm_inv_session [OF assms(1) s]
  have "others_ok (task_account ?t) (c\<lparr>tasks := ?a @ ?t # ?b\<rparr>)"
    using farm_inv_others [OF assms(1)] by (simp add: split [symmetric])
  then have others: "others_ok (task_account ?t) (c\<lparr>tasks := ?a @ ?b\<rparr>)"
    by (rule others_ok_drop) simp
  have "seg_inv (shuttingDown c) (owner s) (?a @ ?b) (task_segment su (shuttingDown c) now ?t answer s)"
    by (rule task_seg_inv) (use inv split in simp_all)
  with commit_inv [OF others] inv s assms(2) show ?thesis
    by (simp add: resume_task_def Let_def own_step_def)
qed

lemma own_stepD: "own_step acc c c' \<Longrightarrow> farm_inv c'"
  by (simp add: own_step_def)

lemma intent_inv: "farm_inv c \<Longrightarrow> own_step acc c (snd (captureIntent su acc now c))"
  by (simp add: captureIntent_def Let_def commit_inv farm_inv_others snapshot_seg_inv)

definition inactive_at :: "controller \<Rightarrow> account_id \<Rightarrow> bool" where
  "inactive_at c acc \<longleftrightarrow> (case js_get (sessions c) acc of None \<Rightarrow> True | Some s \<Rightarrow> \<not> isActive s)"

lemma inactive_atD: "inactive_at c acc \<Longrightarrow> js_get (sessions c) acc = Some s \<Longrightarrow> \<not> isActive s"
  by (simp add: inactive_at_def)

lemma halt_inactive:
  assumes "farm_inv c" "acc' = acc \<or> inactive_at c acc'"
  shows "inactive_at (halt su acc why c) acc'"
proof (cases "js_get (sessions c) acc")
  case (Some s)
  obtain h cs ts where h: "halt_session su why s = (h, cs, ts)" by (cases "halt_session su why s")
  have "timers_ok s" "activity_ok s"
    using farm_inv_session [OF assms(1) Some] by (simp_all add: account_inv_def)
  note p = halt_session_props [OF h this]
  show ?thesis using assms(2) p(3) Some by (auto simp: halt_def inactive_at_def commit_def h)
qed (use assms in \<open>auto simp: halt_def inactive_at_def\<close>)

lemma halt_frame:
  "shuttingDown (halt su acc why c) = shuttingDown c"
  "dom (js_get (sessions (halt su acc why c))) = dom (js_get (sessions c))"
  "halt su acc why (c\<lparr>shuttingDown := b\<rparr>) = (halt su acc why c)\<lparr>shuttingDown := b\<rparr>"
  by (auto simp: halt_def commit_def split: option.split prod.split)

lemma halt_all:
  assumes "farm_inv c" "c' = foldl (\<lambda>c acc. halt su acc why c) c accs"
  shows "farm_inv c' \<and> (\<forall>acc. acc \<in> set accs \<or> inactive_at c acc \<longrightarrow> inactive_at c' acc) \<and>
    dom (js_get (sessions c')) = dom (js_get (sessions c)) \<and>
    foldl (\<lambda>c acc. halt su acc why c) (c\<lparr>shuttingDown := b\<rparr>) accs = c'\<lparr>shuttingDown := b\<rparr>"
  using assms
proof (induction accs arbitrary: c)
  case (Cons acc accs)
  from Cons.IH [OF own_stepD [OF halt_inv [OF Cons.prems(1)]]] Cons.prems(2) halt_inactive [OF Cons.prems(1)]
  show ?case by (auto simp: halt_frame)
qed simp

lemma shutdown_inv:
  assumes "farm_inv c"
  shows "farm_inv (beginShutdown su c)"
proof -
  let ?c = "c\<lparr>shuttingDown := False\<rparr>"
  define c' where "c' = foldl (\<lambda>c acc. halt su acc ''shutdown'' c) ?c (js_keys (sessions c))"
  have "farm_inv ?c" using assms by (auto simp: farm_inv_def account_inv_def)
  note all = halt_all [OF this c'_def, of True]
  have "beginShutdown su c = c'\<lparr>shuttingDown := True\<rparr>"
    using all by (simp add: beginShutdown_def)
  moreover have inactive: "inactive_at c' acc" for acc
  proof (cases "js_get (sessions c) acc")
    case None
    then have "inactive_at ?c acc" by (simp add: inactive_at_def)
    then show ?thesis using all by simp
  next
    case (Some s)
    then have "acc \<in> set (js_keys (sessions c))"
      using map_of_SomeD by (force simp: js_keys_def)
    then show ?thesis using all by simp
  qed
  ultimately show ?thesis
    using all inactive_atD [OF inactive] by (auto simp: farm_inv_def account_inv_def)
qed

lemma farm_step_inv:
  assumes "farming_step su c c'" "farm_inv c"
  shows "farm_inv c'"
  using assms
proof (cases rule: farming_step.cases)
  case (intent acc now)
  then show ?thesis using own_stepD [OF intent_inv [OF assms(2)]] by simp
next
  case initialized
  then show ?thesis using assms(2) by (auto simp: initialize_def farm_inv_def account_inv_def)
next
  case (answered i answer now)
  show ?thesis
  proof (cases "i < length (tasks c)")
    case True
    from own_stepD [OF resume_inv [OF assms(2) True]] show ?thesis by (simp add: answered)
  qed (use assms(2) in \<open>simp add: answered resume_task_def\<close>)
next
  case (scanned acc cfg expected now)
  from own_stepD [OF scan_inv [OF assms(2) this]] show ?thesis .
qed (use assms(2) in \<open>auto intro: shutdown_inv own_stepD [OF start_inv] own_stepD [OF reconfigure_inv]
    own_stepD [OF halt_inv] own_stepD [OF stop_inv] own_stepD [OF fires_inv]\<close>)

lemma farm_run_inv: "farming_run su c \<Longrightarrow> farm_inv c"
  by (induction rule: farming_run.induct) (simp add: farm_inv_def no_sessions_def, rule farm_step_inv)


section \<open>Properties\<close>

text \<open>
  C15: At every moment of every run (whatever operations, timers and late answers interleave) an
  account that is scanning, warming up or farming has exactly one live worker: one pending
  continuation of the session's current generation, or one armed timer. An account that is not
  active has none, and no account is active during a shutdown.
\<close>

theorem one_worker_per_active_account:
  assumes "farming_run su c" "js_get (sessions c) acc = Some s"
  shows "length (filter (\<lambda>t. is_worker t \<and> task_account t = acc \<and> task_generation t = generation s) (tasks c))
      + length (armed s) = (if isActive s then 1 else 0) \<and>
    (shuttingDown c \<longrightarrow> \<not> isActive s)"
  using farm_inv_session [OF farm_run_inv [OF assms(1)] assms(2)]
  by (auto simp: account_inv_def workers_def)

text \<open>
  C17: What the session reports matches its phase: while farming exactly one game is played, while
  warming up between one and 32, otherwise none; and playing time is being credited exactly
  while games are played.
\<close>

theorem activity_matches_phase:
  assumes "farming_run su c" "js_get (sessions c) acc = Some s"
  shows "(phase s = Farming \<longrightarrow> length (activeAppIds s) = 1) \<and>
    (phase s = Warming \<longrightarrow> 1 \<le> length (activeAppIds s) \<and> length (activeAppIds s) \<le> 32) \<and>
    (phase s \<notin> {Farming, Warming} \<longrightarrow> activeAppIds s = []) \<and>
    (activeSince s = None \<longleftrightarrow> activeAppIds s = [])"
  using farm_inv_session [OF farm_run_inv [OF assms(1)] assms(2)]
  by (cases "phase s") (auto simp: account_inv_def activity_ok_def Suc_le_eq)

text \<open>Every step except a start or a scan of the account.\<close>

inductive background_step :: "farm_env \<Rightarrow> account_id \<Rightarrow> controller \<Rightarrow> controller \<Rightarrow> bool" for su acc where
  "background_step su acc c (snd (captureIntent su acc' now c))"
| "acc' \<noteq> acc \<Longrightarrow> scan su acc' cfg expected now c = Inr c' \<Longrightarrow> background_step su acc c c'"
| "acc' \<noteq> acc \<Longrightarrow> background_step su acc c (snd (start su acc' cfg expected resumed now c))"
| "background_step su acc c (reconfigure su acc' cfg now c)"
| "background_step su acc c (halt su acc' why c)"
| "background_step su acc c (stop su acc' now c)"
| "background_step su acc c (beginShutdown su c)"
| "background_step su acc c (initialize c)"
| "background_step su acc c (timer_fires acc' i c)"
| "background_step su acc c (resume_task su i answer now c)"

text \<open>The account stays inactive and nothing claims it.\<close>

definition rests :: "account_id \<Rightarrow> controller \<Rightarrow> controller \<Rightarrow> bool" where
  "rests acc c c' \<longleftrightarrow>
     inactive_at c' acc \<and>
     (\<exists>cs. calls c' = calls c @ cs \<and> list_all (\<lambda>x. \<not> (call_account x = acc \<and> work_call x)) cs)"

definition resting :: "segment \<Rightarrow> bool" where
  "resting r \<longleftrightarrow> (case r of (s, cs, ts) \<Rightarrow> \<not> isActive s \<and> list_all (\<lambda>x. \<not> work_call x) cs)"

lemma rests_refl: "inactive_at c acc \<Longrightarrow> rests acc c c"
  by (simp add: rests_def)

lemma rests_trans: "rests acc c c' \<Longrightarrow> rests acc c' c'' \<Longrightarrow> rests acc c c''"
  unfolding rests_def by fastforce

lemma rests_other:
  assumes "own_step acc' c c'" "acc' \<noteq> acc" "inactive_at c acc"
  shows "rests acc c c'"
  using assms by (auto simp: own_step_def rests_def inactive_at_def list_all_iff)

lemma rests_commit: "resting r \<Longrightarrow> rests acc c (commit acc r c)"
  by (auto simp: resting_def rests_def commit_def inactive_at_def list_all_iff split: prod.splits)

lemma resting_quiet: "quiet s r \<Longrightarrow> \<not> isActive s \<Longrightarrow> resting r"
  by (auto simp: quiet_def resting_def same_core_kept(1) list_all_iff split: prod.splits)

lemma resting_then: "resting r \<Longrightarrow> (\<And>s. \<not> isActive s \<Longrightarrow> resting (k s)) \<Longrightarrow> resting (followed_by r k)"
  unfolding resting_def followed_by_def by (fastforce split: prod.splits)

lemma resting_same: "\<not> isActive s \<Longrightarrow> resting (s, [], [])"
  by (simp add: resting_def)

lemma resting_snapshot:
  assumes "inactive_at c acc"
  shows "resting (snapshot_session su acc cfg now c)"
proof (cases "js_get (sessions c) acc")
  case None
  then show ?thesis by (simp add: snapshot_session_def resting_def new_session_def isActive_def)
next
  case (Some s)
  have "\<not> isActive s" using inactive_atD [OF assms Some] .
  moreover from this have "resting (filter_session su sh now (s\<lparr>config := x\<rparr>))" for sh x
    by (rule resting_quiet [OF quiet_filter_config])
  ultimately show ?thesis
    using Some by (simp add: snapshot_session_def resting_same split: option.split)
qed

lemma resting_halt: "\<not> isActive s \<Longrightarrow> resting (halt_session su why s)"
  by (simp add: resting_def halt_session_def Let_def clear_timer_def isActive_def split: option.split)

lemma resting_returns: "\<not> isActive s \<Longrightarrow> resting (returns gen origin s)"
  by (simp add: resting_def returns_def)

lemma resting_failed: "\<not> isActive s \<Longrightarrow> resting (advance_failed su sh gen origin s)"
  unfolding advance_failed_def
  by (auto intro!: resting_then resting_halt resting_returns simp: cleanup_def)
    (simp_all add: resting_def returns_def isActive_def)

lemma resting_task:
  assumes "\<not> (is_worker t \<and> isCurrent sh s (task_generation t))" "\<not> isActive s"
  shows "resting (task_segment su sh now t answer s)"
proof (cases "is_worker t")
  case True
  then show ?thesis using assms by (simp add: task_segment_def Let_def resting_returns)
next
  case False
  show ?thesis
  proof (cases "task_point t")
    case At_prices
    then show ?thesis
      using False assms(2) by (auto simp: task_segment_def Let_def resting_def isActive_def set_values_def
          sort_games_def split: answer.split)
  qed (use False assms(2) in \<open>auto simp: task_segment_def Let_def is_worker_def resting_failed resting_returns
      epilogue_def resting_same\<close>, auto simp: resting_def isActive_def)
qed

lemma rests_resume:
  assumes "farm_inv c" "inactive_at c acc"
  shows "rests acc c (resume_task su i answer now c)"
proof (cases "i < length (tasks c)")
  case True
  let ?t = "tasks c ! i"
  show ?thesis
  proof (cases "task_account ?t = acc")
    case acc: True
    obtain s where s: "js_get (sessions c) acc = Some s"
      using assms(1) True acc by (auto simp: farm_inv_def list_all_length)
    note inv = farm_inv_session [OF assms(1) s]
    have na: "\<not> isActive s" by (rule inactive_atD [OF assms(2) s])
    then have "filter (\<lambda>t. is_worker t \<and> task_account t = owner s \<and> task_generation t = generation s) (tasks c) = []"
      using inv by (auto simp: account_inv_def workers_def)
    then have idle: "\<not> (is_worker ?t \<and> isCurrent (shuttingDown c) s (task_generation ?t))"
      using inv acc nth_mem [OF True] by (auto simp: filter_empty_conv isCurrent_def)
    have "rests acc (c\<lparr>tasks := take i (tasks c) @ drop (Suc i) (tasks c)\<rparr>) (resume_task su i answer now c)"
      using True acc s rests_commit [OF resting_task [OF idle na]]
      by (simp add: resume_task_def Let_def)
    then show ?thesis by (simp add: rests_def)
  qed (use rests_other [OF resume_inv [OF assms(1) True]] assms(2) in simp)
qed (use rests_refl [OF assms(2)] in \<open>simp add: resume_task_def\<close>)

lemma rests_halt:
  assumes "farm_inv c" "inactive_at c acc"
  shows "rests acc c (halt su acc' why c)"
proof (cases "acc' = acc")
  case True
  then show ?thesis
    using assms by (cases "js_get (sessions c) acc")
      (simp_all add: halt_def rests_refl rests_commit resting_halt inactive_atD)
qed (use rests_other [OF halt_inv [OF assms(1)]] assms in simp)

lemma rests_halt_all:
  "farm_inv c \<Longrightarrow> inactive_at c acc \<Longrightarrow> rests acc c (foldl (\<lambda>c a. halt su a why c) c accs)"
proof (induction accs arbitrary: c)
  case (Cons a accs)
  have r: "rests acc c (halt su a why c)" by (rule rests_halt [OF Cons.prems])
  then have "inactive_at (halt su a why c) acc" by (simp add: rests_def)
  from rests_trans [OF r Cons.IH [OF own_stepD [OF halt_inv [OF Cons.prems(1)]] this]]
  show ?case by simp
qed (simp add: rests_refl)


lemma rests_step:
  assumes "background_step su acc c c'" "farm_inv c" "inactive_at c acc"
  shows "rests acc c c'"
  using assms(1)
proof (cases rule: background_step.cases)
  case (1 acc' now)
  show ?thesis
  proof (cases "acc' = acc")
    case True
    then show ?thesis using rests_commit [OF resting_snapshot [OF assms(3)]]
      by (simp add: 1 captureIntent_def Let_def)
  qed (use rests_other [OF intent_inv [OF assms(2)]] assms(3) 1 in simp)
next
  case (2 acc' cfg expected now)
  show ?thesis by (rule rests_other [OF scan_inv [OF assms(2) 2(2)] 2(1) assms(3)])
next
  case (3 acc' cfg expected resumed now)
  show ?thesis unfolding 3(1) by (rule rests_other [OF start_inv [OF assms(2)] 3(2) assms(3)])
next
  case (4 acc' cfg now)
  show ?thesis
  proof (cases "acc' = acc")
    case True
    have "rests acc c (reconfigure su acc cfg now c)"
      unfolding reconfigure_def
      by (intro rests_commit resting_then resting_snapshot assms(3)) (simp add: resting_same)
    then show ?thesis using True 4 by simp
  qed (use rests_other [OF reconfigure_inv [OF assms(2)]] assms(3) 4 in simp)
next
  case (6 acc' now)
  show ?thesis
  proof (cases "acc' = acc")
    case True
    have "rests acc c (stop su acc now c)"
      unfolding stop_def
      by (intro rests_commit resting_then resting_snapshot resting_halt assms(3)) (simp_all add: resting_def)
    then show ?thesis using True 6 by simp
  qed (use rests_other [OF stop_inv [OF assms(2)]] assms(3) 6 in simp)
next
  case 7
  let ?c = "c\<lparr>shuttingDown := False\<rparr>"
  have inv: "farm_inv ?c" using assms(2) by (auto simp: farm_inv_def account_inv_def)
  have "inactive_at ?c acc" using assms(3) by (simp add: inactive_at_def)
  from rests_halt_all [OF inv this] halt_all [OF inv refl, of su "''shutdown''" "js_keys (sessions c)" True]
  show ?thesis unfolding 7 beginShutdown_def by (simp add: rests_def inactive_at_def)
next
  case 8
  then show ?thesis using assms(3) by (simp add: initialize_def rests_def inactive_at_def)
next
  case (9 acc' i)
  show ?thesis
  proof (cases "acc' = acc")
    case True
    have "armed s = []" if "js_get (sessions c) acc = Some s" for s
      using farm_inv_session [OF assms(2) that] inactive_atD [OF assms(3) that]
      by (simp add: account_inv_def workers_def)
    then show ?thesis
      using True 9 rests_refl [OF assms(3)] by (simp add: timer_fires_def split: option.split)
  qed (use rests_other [OF fires_inv [OF assms(2)]] assms(3) 9 in simp)
qed (use rests_halt [OF assms(2,3)] rests_resume [OF assms(2,3)] in simp_all)

lemma background_is_step: "background_step su acc c c' \<Longrightarrow> farming_step su c c'"
  by (induction rule: background_step.induct)
    (rule intent started reconfigured halted stopped shut initialized fired answered | erule scanned)+

text \<open>
  C16: Halting is final. From any reachable state in which an account is not active, nothing but
  a new start or scan of that account makes it active: whatever late answers arrive and whatever
  is halted, reconfigured, stopped or shut down, the account stays inactive and the adapter is not
  asked to begin, discover or apply anything for it.
\<close>

theorem halted_account_stays_quiet:
  assumes "farming_run su c" "inactive_at c acc" "(background_step su acc)\<^sup>*\<^sup>* c c'"
  shows "inactive_at c' acc \<and>
    (\<exists>cs. calls c' = calls c @ cs \<and> list_all (\<lambda>x. \<not> (call_account x = acc \<and> work_call x)) cs)"
proof -
  have "rests acc c c' \<and> farm_inv c'"
    using assms(3)
  proof (induction rule: rtranclp_induct)
    case base
    then show ?case using farm_run_inv [OF assms(1)] rests_refl [OF assms(2)] by simp
  next
    case (step c1 c2)
    then have "inactive_at c1 acc" by (simp add: rests_def)
    with step show ?case
      using rests_trans [OF _ rests_step] farm_step_inv [OF background_is_step] by blast
  qed
  then show ?thesis by (simp add: rests_def)
qed

section \<open>A concrete run\<close>

definition demo_env :: farm_env where
  "demo_env = \<lparr>compare_names = order_compare, scanMs = 300000, has_begin = True, has_remember = True,
     has_cardValues = True\<rparr>"

definition demo_discovery :: discovery where
  "demo_discovery = \<lparr>found = [\<lparr>appId = 10, game_name = ''ten'', remainingDrops = 3,
     playtime = Some 9000000, acquiredAt = Some 0, skipReason = None, cardValue = None\<rparr>],
     truncated_pages = False\<rparr>"

definition demo_start :: controller where
  "demo_start = snd (start demo_env ''a'' DEFAULT_FARMING_CONFIG None False 1000 no_sessions)"

definition demo_available :: answer where
  "demo_available = Available \<lparr>allowed = True, refusal = None, available_limit = 32\<rparr>"

definition demo_farming :: controller where
  "demo_farming =
     resume_task demo_env 0 Answered 4000
      (resume_task demo_env 0 (Discovered demo_discovery) 3000
        (resume_task demo_env 0 Answered 2000
          (resume_task demo_env 0 demo_available 1500 demo_start)))"

definition demo_halted :: controller where
  "demo_halted = halt demo_env ''a'' ''paused'' (resume_task demo_env 0 demo_available 1500 demo_start)"

lemma demo_runs: "farming_run demo_env demo_farming" "farming_run demo_env demo_halted"
  unfolding demo_farming_def demo_halted_def demo_start_def
  by (intro stepped [OF _ answered] stepped [OF _ halted] stepped [OF _ started] created)+

definition demo_session :: session where
  "demo_session = the (js_get (sessions demo_farming) ''a'')"

lemma demo_session_get: "js_get (sessions demo_farming) ''a'' = Some demo_session"
proof -
  have "js_get (sessions demo_farming) ''a'' \<noteq> None" by code_simp
  then show ?thesis by (simp add: demo_session_def)
qed

theorem one_worker_per_active_account_witness:
  "phase demo_session = Farming \<and>
   length (filter (\<lambda>t. is_worker t \<and> task_account t = ''a'' \<and> task_generation t = generation demo_session)
     (tasks demo_farming)) + length (armed demo_session) = 1"
proof -
  have p: "phase demo_session = Farming" by code_simp
  show ?thesis
    using one_worker_per_active_account [OF demo_runs(1) demo_session_get] p
    by (simp add: isActive_def)
qed

theorem activity_matches_phase_witness:
  "phase demo_session = Farming \<and> length (activeAppIds demo_session) = 1 \<and> activeSince demo_session \<noteq> None"
proof -
  have p: "phase demo_session = Farming" by code_simp
  have "length (activeAppIds demo_session) = 1 \<and> (activeSince demo_session = None \<longleftrightarrow> activeAppIds demo_session = [])"
    using activity_matches_phase [OF demo_runs(1) demo_session_get] p by blast
  with p show ?thesis by auto
qed

theorem halted_account_stays_quiet_witness:
  "inactive_at (resume_task demo_env 0 Answered 9000 demo_halted) ''a'' \<and> tasks demo_halted \<noteq> []"
proof -
  have i: "inactive_at demo_halted ''a''" and t: "tasks demo_halted \<noteq> []" by code_simp+
  have "(background_step demo_env ''a'')\<^sup>*\<^sup>* demo_halted (resume_task demo_env 0 Answered 9000 demo_halted)"
    by (rule r_into_rtranclp) (rule background_step.intros)
  from halted_account_stays_quiet [OF demo_runs(2) i this] t show ?thesis by blast
qed


text \<open>
  The statements of \<open>start\<close> after its \<open>await\<close> are not guarded by the generation: an automatic start
  that was halted while it waited, and followed by a start of the user, still reports the user's
  session as resumed and remembers it before anything has been applied for it.
\<close>

definition demo_superseded :: controller where
  "demo_superseded =
     (let c1 = snd (start demo_env ''a'' DEFAULT_FARMING_CONFIG None True 1000 no_sessions);
          c2 = halt demo_env ''a'' ''stopped'' c1;
          c3 = snd (start demo_env ''a'' DEFAULT_FARMING_CONFIG None False 2000 c2)
      in resume_task demo_env 1 Answered 3000 (resume_task demo_env 0 demo_available 3000 c3))"

lemma superseded_start_marks_newer_session:
  "(case js_get (sessions demo_superseded) ''a'' of None \<Rightarrow> False
    | Some s \<Rightarrow> generation s = 3 \<and> phase s = Scanning \<and> reason s = Some ''resumed'') \<and>
   calls demo_superseded =
     [Availability ''a'', Remember ''a'' False, Availability ''a'', Remember ''a'' True]"
  by code_simp

end
