(* ===== verification/BoostSession.thy ===== *)
theory BoostSession
  imports Accounts
begin

text \<open>
  Recorded boost sessions: \<open>apps/server/src/steam/boost-session-tracker.ts\<close>.

  \<open>boost_db\<close> holds the rows of \<open>boost_session\<close> with what the tracker reads of \<open>steam_account\<close>
  (the active preset), \<open>boost_preset\<close> and \<open>steam_account_game\<close>, and the events it writes. The
  column \<open>app_ids_json\<close> is the list it renders; the clock and the new row's id are arguments.
  A session ends when boosting stops, and is split (reason \<open>selection_changed\<close>) when the
  selection changes while boosting goes on.
\<close>

section \<open>Data\<close>

datatype activity_mode = Idle_mode | Manual_mode | Farming_mode

datatype stop_reason = Selection_changed | Idle_reason | Interrupted | Status_reason account_status

record activity =
  activityMode :: "activity_mode option"
  activeAppIds :: "int list option"

record session_row =
  row_id :: string
  row_account :: account_id
  row_preset :: "string option"
  appIds :: "int list"
  startedAt :: millis
  endedAt :: "millis option"
  stopReason :: "stop_reason option"
  lastSeenAt :: "millis option"

record game_row =
  game_account :: account_id
  game_app :: int
  game_enabled :: bool

datatype session_event =
  Session_started account_id nat "string option"
| Session_ended account_id stop_reason nat

record boost_db =
  sessions :: "session_row list"
  active_presets :: "(account_id, string option) js_map"
  presets :: "(string \<times> account_id) list"
  account_games :: "game_row list"
  events :: "session_event list"

section \<open>Operations\<close>

definition open_row :: "account_id \<Rightarrow> session_row \<Rightarrow> bool" where
  "open_row acc r \<longleftrightarrow> row_account r = acc \<and> endedAt r = None"

definition normalizeAppIds :: "int list \<Rightarrow> int list" where
  "normalizeAppIds ids = js_sort (\<lambda>left right. left - right) (js_unique ids)"

text \<open>Every open row found is closed by its id.\<close>

definition close_rows ::
    "string set \<Rightarrow> (session_row \<Rightarrow> millis) \<Rightarrow> stop_reason \<Rightarrow> session_row list \<Rightarrow> session_row list" where
  "close_rows ids at reason rows =
     map (\<lambda>r. if row_id r \<in> ids then r\<lparr>endedAt := Some (at r), stopReason := Some reason\<rparr> else r) rows"

definition endBoostSession :: "account_id \<Rightarrow> stop_reason \<Rightarrow> millis \<Rightarrow> boost_db \<Rightarrow> boost_db" where
  "endBoostSession acc reason at db =
     (let openSessions = filter (open_row acc) (sessions db)
      in if openSessions = [] then db
         else db\<lparr>sessions := close_rows (set (map row_id openSessions)) (\<lambda>_. at) reason (sessions db),
                 events := events db @ [Session_ended acc reason (length openSessions)]\<rparr>)"

definition farming :: "activity option \<Rightarrow> bool" where
  "farming activity = (case activity of None \<Rightarrow> False | Some a \<Rightarrow> activityMode a = Some Farming_mode)"

text \<open>The active preset of the account, cleared when it no longer exists.\<close>

definition resolve_preset ::
    "account_id \<Rightarrow> activity option \<Rightarrow> string option \<Rightarrow> boost_db \<Rightarrow> string option \<times> boost_db" where
  "resolve_preset acc activity stored db =
     (case (if farming activity then None else stored) of
        None \<Rightarrow> (None, db)
      | Some p \<Rightarrow> if (p, acc) \<in> set (presets db) then (Some p, db)
          else (None, db\<lparr>active_presets := js_set acc None (active_presets db)\<rparr>))"

definition reported_apps :: "account_id \<Rightarrow> activity option \<Rightarrow> boost_db \<Rightarrow> int list" where
  "reported_apps acc activity db =
     (case (case activity of None \<Rightarrow> None | Some a \<Rightarrow> activeAppIds a) of
        Some ids \<Rightarrow> normalizeAppIds ids
      | None \<Rightarrow>
          if farming activity then []
          else normalizeAppIds (map game_app
            (filter game_enabled (filter (\<lambda>g. game_account g = acc) (account_games db)))))"

definition startBoostSession ::
    "account_id \<Rightarrow> activity option \<Rightarrow> string \<Rightarrow> millis \<Rightarrow> boost_db \<Rightarrow> boost_db" where
  "startBoostSession acc activity new_id now db =
     (let existing = filter (open_row acc) (sessions db)
      in case js_get (active_presets db) acc of
        None \<Rightarrow> db
      | Some stored \<Rightarrow>
          let (activePresetId, db) = resolve_preset acc activity stored db;
              apps = reported_apps acc activity db
          in if (case existing of [r] \<Rightarrow> row_preset r = activePresetId \<and> normalizeAppIds (appIds r) = apps
                 | _ \<Rightarrow> False)
             then db
             else
               let db = (if existing \<noteq> [] then endBoostSession acc Selection_changed now db else db)
               in db\<lparr>sessions := sessions db @
                      [\<lparr>row_id = new_id, row_account = acc, row_preset = activePresetId, appIds = apps,
                        startedAt = now, endedAt = None, stopReason = None, lastSeenAt = Some now\<rparr>],
                    events := events db @ [Session_started acc (length apps) activePresetId]\<rparr>)"

definition idle :: "activity option \<Rightarrow> bool" where
  "idle activity = (case activity of None \<Rightarrow> False | Some a \<Rightarrow> activityMode a = Some Idle_mode)"

definition trackBoostSession ::
    "account_id \<Rightarrow> account_status \<Rightarrow> activity option \<Rightarrow> string \<Rightarrow> millis \<Rightarrow> boost_db \<Rightarrow> boost_db" where
  "trackBoostSession acc status activity new_id now db =
     (if status = Boosting \<and> \<not> idle activity then startBoostSession acc activity new_id now db
      else endBoostSession acc
        (if idle activity \<and> status = Boosting then Idle_reason else Status_reason status) now db)"

definition markOpenBoostSessionsSeen :: "millis \<Rightarrow> boost_db \<Rightarrow> boost_db" where
  "markOpenBoostSessionsSeen seenAt db =
     db\<lparr>sessions :=
         map (\<lambda>r. if endedAt r = None then r\<lparr>lastSeenAt := Some seenAt\<rparr> else r) (sessions db)\<rparr>"

definition last_seen_end :: "session_row \<Rightarrow> millis" where
  "last_seen_end r = max (startedAt r) (case lastSeenAt r of None \<Rightarrow> startedAt r | Some t \<Rightarrow> t)"

definition closeInterruptedBoostSessions :: "boost_db \<Rightarrow> nat \<times> boost_db" where
  "closeInterruptedBoostSessions db =
     (let openSessions = filter (\<lambda>r. endedAt r = None) (sessions db)
      in (length openSessions,
          db\<lparr>sessions := close_rows (set (map row_id openSessions)) last_seen_end Interrupted (sessions db),
             events := events db @
               map (\<lambda>acc. Session_ended acc Interrupted
                      (length (filter (\<lambda>r. row_account r = acc) openSessions)))
                 (js_unique (map row_account openSessions))\<rparr>))"

end
