(* ===== verification/Safety.thy ===== *)
theory Safety
  imports Operations BoostSession
begin

text \<open>
  Safety caps: \<open>apps/server/src/steam/safety-coordinator.ts\<close>, on the sessions that the tracker
  of \<open>BoostSession\<close> records and the holds of \<open>Operations\<close>.

  \<open>safety_world\<close> gathers the tables that a tick reads. Pausing an account and recording an event
  are ports; they act on the whole world and may reject. The interval timer and the promise
  that coalesces concurrent ticks are not modelled.
\<close>

section \<open>Consumption\<close>

definition continuousSessionMs :: "session_row list \<Rightarrow> millis \<Rightarrow> millis" where
  "continuousSessionMs rows now =
     (let opened = filter (\<lambda>r. endedAt r = None) rows
      in if opened = [] then 0
         else
           let started = Min (set (map startedAt opened));
               previous = js_sort (\<lambda>left right. startedAt right - startedAt left)
                 (filter (\<lambda>r. endedAt r \<noteq> None) rows)
           in max 0 (now - foldl (\<lambda>started r.
                if stopReason r = Some Selection_changed \<and> endedAt r = Some started \<and> startedAt r < started
                then startedAt r else started) started previous))"










section \<open>The tick\<close>

record 'env safety_world =
  ops :: ops_db
  boost :: boost_db
  statuses :: "(account_id, account_status \<times> desired_state) js_map"
  world_env :: 'env










section \<open>A cap that is exceeded is enforced\<close>



definition untouched :: "account_id \<Rightarrow> 'env safety_world \<Rightarrow> 'env safety_world \<Rightarrow> bool" where
  "untouched acc w w' \<longleftrightarrow>
     js_get (safety_rows (ops w')) acc = js_get (safety_rows (ops w)) acc \<and>
     js_get (statuses w') acc = js_get (statuses w) acc \<and>
     filter (\<lambda>r. row_account r = acc) (sessions (boost w')) = filter (\<lambda>r. row_account r = acc) (sessions (boost w))"






lemma untouched_refl [simp]: "untouched a w w"
  by (simp add: untouched_def)


























section \<open>What a session is\<close>

text \<open>
  \<open>session_run acc db latest since\<close>: \<open>db\<close> arises from an empty table by the tracker's operations at
  strictly increasing instants, the last of them \<open>latest\<close>, and \<open>since\<close> is the instant at which the
  account began to boost without a break, \<open>None\<close> while it does not boost.
\<close>

inductive session_run :: "account_id \<Rightarrow> boost_db \<Rightarrow> millis \<Rightarrow> millis option \<Rightarrow> bool" for acc where
  start: "sessions db = [] \<Longrightarrow> session_run acc db latest None"
| boost: "session_run acc db latest since \<Longrightarrow> latest < now \<Longrightarrow> js_get (active_presets db) acc \<noteq> None \<Longrightarrow>
    new_id \<notin> row_id ` set (sessions db) \<Longrightarrow> status = Boosting \<Longrightarrow> \<not> idle activity \<Longrightarrow>
    session_run acc (trackBoostSession acc status activity new_id now db) now
      (Some (case since of None \<Rightarrow> now | Some t \<Rightarrow> t))"
| no_boost: "session_run acc db latest since \<Longrightarrow> latest < now \<Longrightarrow> status \<noteq> Boosting \<or> idle activity \<Longrightarrow>
    session_run acc (trackBoostSession acc status activity new_id now db) now None"
| other: "session_run acc db latest since \<Longrightarrow> latest < now \<Longrightarrow> acc' \<noteq> acc \<Longrightarrow>
    new_id \<notin> row_id ` set (sessions db) \<Longrightarrow>
    session_run acc (trackBoostSession acc' status activity new_id now db) now since"
| seen: "session_run acc db latest since \<Longrightarrow> latest < now \<Longrightarrow>
    session_run acc (markOpenBoostSessionsSeen now db) now since"
| restart: "session_run acc db latest since \<Longrightarrow>
    session_run acc (snd (closeInterruptedBoostSessions db)) latest None"

text \<open>The rows of an account, and the links between rotated rows.\<close>

definition mine :: "account_id \<Rightarrow> session_row list \<Rightarrow> session_row list" where
  "mine acc rows = filter (\<lambda>r. row_account r = acc) rows"

definition rotated :: "session_row \<Rightarrow> bool" where
  "rotated r \<longleftrightarrow> stopReason r = Some Selection_changed \<and> endedAt r \<noteq> None"

definition link :: "session_row list \<Rightarrow> millis \<Rightarrow> millis \<Rightarrow> bool" where
  "link rows x y \<longleftrightarrow>
     (\<exists>r\<in>set rows. rotated r \<and> endedAt r = Some x \<and> startedAt r = y \<and> y < x)"

definition follow :: "session_row list \<Rightarrow> millis \<Rightarrow> millis" where
  "follow rows = (\<lambda>x. foldl (\<lambda>started r.
     if stopReason r = Some Selection_changed \<and> endedAt r = Some started \<and> startedAt r < started
     then startedAt r else started) x rows)"

lemma follow_simps:
  "follow [] x = x"
  "follow (r # rs) x = follow rs
     (if stopReason r = Some Selection_changed \<and> endedAt r = Some x \<and> startedAt r < x
      then startedAt r else x)"
  by (simp_all add: follow_def)

lemma follow_unlinked: "(\<And>y. \<not> link rows x y) \<Longrightarrow> follow rows x = x"
  by (induction rows) (auto simp: follow_simps link_def rotated_def)

text \<open>Following the rows by descending start reaches the end of the chain of links.\<close>

lemma follow_chain:
  assumes "(link all_rows)\<^sup>*\<^sup>* x t" and "\<And>y. \<not> link all_rows t y"
    and unique: "\<And>r r'. r \<in> set all_rows \<Longrightarrow> r' \<in> set all_rows \<Longrightarrow> rotated r \<Longrightarrow> rotated r' \<Longrightarrow>
      endedAt r = endedAt r' \<Longrightarrow> startedAt r = startedAt r'"
    and "sorted_wrt (\<lambda>a b. startedAt b \<le> startedAt a) rows" "set rows \<subseteq> set all_rows"
    and "\<And>r. r \<in> set all_rows \<Longrightarrow> rotated r \<Longrightarrow> startedAt r < x \<Longrightarrow> r \<in> set rows"
  shows "follow rows x = t"
  using assms(1,4-6)
proof (induction arbitrary: rows rule: converse_rtranclp_induct)
  case base
  have "\<not> link rows t y" for y using assms(2) [of y] base(2) by (auto simp: link_def)
  then show ?case by (rule follow_unlinked)
next
  case (step x x')
  from step.hyps(1) obtain r where r: "r \<in> set all_rows" "rotated r" "endedAt r = Some x"
    "startedAt r = x'" "x' < x" by (auto simp: link_def)
  then have "r \<in> set rows" using step.prems(3) by simp
  have stays: "follow pre x = x" if "\<forall>q\<in>set pre. \<not> (rotated q \<and> endedAt q = Some x \<and> startedAt q < x)" for pre
    by (rule follow_unlinked) (use that in \<open>auto simp: link_def\<close>)
  define hit where "hit q \<longleftrightarrow> rotated q \<and> endedAt q = Some x \<and> startedAt q < x" for q
  have "\<exists>q\<in>set rows. hit q" using \<open>r \<in> set rows\<close> r by (auto simp: hit_def)
  from split_list_first_prop [OF this]
  obtain pre q post where split: "rows = pre @ q # post" "hit q" "\<forall>p\<in>set pre. \<not> hit p"
    by blast
  have q: "q \<in> set all_rows" "startedAt q = x'"
    using step.prems(2) split(1,2) r unique [of q r] by (auto simp: hit_def)
  have "follow rows x = follow post x'"
    using stays [of pre] split q(2) by (auto simp: follow_def hit_def rotated_def)
  moreover have "follow post x' = t"
  proof (rule step.IH)
    show "sorted_wrt (\<lambda>a b. startedAt b \<le> startedAt a) post"
      using step.prems(1) by (simp add: split(1) sorted_wrt_append)
    show "set post \<subseteq> set all_rows" using step.prems(2) by (auto simp: split(1))
    fix s assume s: "s \<in> set all_rows" "rotated s" "startedAt s < x'"
    then have "s \<in> set rows" using step.prems(3) r(5) by auto
    moreover have "\<forall>p\<in>set pre. startedAt q \<le> startedAt p"
      using step.prems(1) by (auto simp: split(1) sorted_wrt_append)
    ultimately show "s \<in> set post" using s(3) q(2) by (auto simp: split(1))
  qed
  ultimately show ?case by simp
qed

text \<open>What holds of the rows of the account along a run.\<close>

definition opened :: "session_row list \<Rightarrow> session_row list" where
  "opened rows = filter (\<lambda>r. endedAt r = None) rows"

definition in_past :: "millis \<Rightarrow> session_row \<Rightarrow> bool" where
  "in_past latest r \<longleftrightarrow>
     startedAt r \<le> latest \<and> (\<forall>e. endedAt r = Some e \<longrightarrow> e \<le> latest) \<and>
     (\<forall>l. lastSeenAt r = Some l \<longrightarrow> l \<le> latest)"

definition rotations_unique :: "session_row list \<Rightarrow> bool" where
  "rotations_unique rows \<longleftrightarrow>
     (\<forall>r\<in>set rows. \<forall>r'\<in>set rows. rotated r \<longrightarrow> rotated r' \<longrightarrow> endedAt r = endedAt r' \<longrightarrow>
        startedAt r = startedAt r')"

lemma rotations_uniqueI:
  "(\<And>r r'. r \<in> set rows \<Longrightarrow> r' \<in> set rows \<Longrightarrow> rotated r \<Longrightarrow> rotated r' \<Longrightarrow> endedAt r = endedAt r' \<Longrightarrow>
     startedAt r = startedAt r') \<Longrightarrow> rotations_unique rows"
  unfolding rotations_unique_def by blast

lemma rotations_uniqueD:
  "rotations_unique rows \<Longrightarrow> r \<in> set rows \<Longrightarrow> r' \<in> set rows \<Longrightarrow> rotated r \<Longrightarrow> rotated r' \<Longrightarrow>
   endedAt r = endedAt r' \<Longrightarrow> startedAt r = startedAt r'"
  unfolding rotations_unique_def by blast

lemma rotations_unique_sub:
  "rotations_unique rows \<Longrightarrow> (\<And>r. r \<in> set rows' \<Longrightarrow> rotated r \<Longrightarrow> r \<in> set rows) \<Longrightarrow> rotations_unique rows'"
  unfolding rotations_unique_def by blast

definition chain_ok :: "session_row list \<Rightarrow> millis option \<Rightarrow> bool" where
  "chain_ok rows since =
     (case since of
        None \<Rightarrow> opened rows = []
      | Some t \<Rightarrow> (\<exists>s. map startedAt (opened rows) = [s] \<and> (link rows)\<^sup>*\<^sup>* s t \<and> (\<forall>y. \<not> link rows t y)))"

definition rows_inv :: "session_row list \<Rightarrow> millis \<Rightarrow> millis option \<Rightarrow> bool" where
  "rows_inv rows latest since \<longleftrightarrow>
     list_all (in_past latest) rows \<and> rotations_unique rows \<and> chain_ok rows since"

lemma link_descends: "(link rows)\<^sup>*\<^sup>* s t \<Longrightarrow> t \<le> s"
  by (induction rule: rtranclp_induct) (auto simp: link_def)

lemma continuous_of_inv:
  assumes "rows_inv rows latest since" "latest \<le> now"
  shows "continuousSessionMs rows now = (case since of None \<Rightarrow> 0 | Some t \<Rightarrow> now - t)"
proof (cases since)
  case None
  with assms show ?thesis
    by (simp add: rows_inv_def chain_ok_def opened_def continuousSessionMs_def Let_def)
next
  case (Some t)
  obtain s where s: "map startedAt (opened rows) = [s]" "(link rows)\<^sup>*\<^sup>* s t" "\<And>y. \<not> link rows t y"
    using assms(1) by (auto simp: rows_inv_def chain_ok_def Some)
  let ?previous = "js_sort (\<lambda>left right. startedAt right - startedAt left)
    (filter (\<lambda>r. endedAt r \<noteq> None) rows)"
  have "follow ?previous s = t"
  proof (rule follow_chain [OF s(2,3)])
    show "startedAt r = startedAt r'" if "r \<in> set rows" "r' \<in> set rows" "rotated r" "rotated r'"
      "endedAt r = endedAt r'" for r r'
      by (rule rotations_uniqueD [OF _ that]) (use assms(1) in \<open>simp add: rows_inv_def\<close>)
    show "sorted_wrt (\<lambda>a b. startedAt b \<le> startedAt a) ?previous"
      using js_comparator.sorted_js_sort [OF js_comparator_descending [of startedAt],
          of "filter (\<lambda>r. endedAt r \<noteq> None) rows"] by simp
  qed (auto simp: rotated_def)
  moreover have "opened rows \<noteq> []" "Min (set (map startedAt (opened rows))) = s" using s(1) by auto
  ultimately have "continuousSessionMs rows now = max 0 (now - t)"
    by (simp add: continuousSessionMs_def opened_def follow_def Let_def)
  moreover have "s \<in> startedAt ` set (opened rows)" using s(1) by (metis list.set_intros(1) set_map)
  then have "s \<le> latest"
    using assms(1) by (auto simp: rows_inv_def in_past_def list_all_iff opened_def)
  then have "t \<le> now" using link_descends [OF s(2)] assms(2) by simp
  ultimately show ?thesis by (simp add: Some)
qed

text \<open>How the rows of an account change.\<close>

definition closed_at :: "(session_row \<Rightarrow> millis) \<Rightarrow> stop_reason \<Rightarrow> session_row \<Rightarrow> session_row" where
  "closed_at at reason r =
     (if endedAt r = None then r\<lparr>endedAt := Some (at r), stopReason := Some reason\<rparr> else r)"

definition fresh_row :: "millis \<Rightarrow> session_row \<Rightarrow> bool" where
  "fresh_row now r \<longleftrightarrow> startedAt r = now \<and> endedAt r = None \<and> stopReason r = None \<and> lastSeenAt r = Some now"

lemma in_past_later: "in_past l r \<Longrightarrow> l \<le> l' \<Longrightarrow> in_past l' r"
  by (auto simp: in_past_def)

lemma fresh_in_past: "fresh_row now r \<Longrightarrow> in_past now r" and fresh_not_rotated: "fresh_row now r \<Longrightarrow> \<not> rotated r"
  by (simp_all add: fresh_row_def in_past_def rotated_def)

lemma rows_inv_begin:
  assumes "rows_inv rows latest None" "latest < now" "fresh_row now r"
  shows "rows_inv (rows @ [r]) now (Some now)"
proof -
  have past: "in_past latest q" if "q \<in> set rows" for q
    using assms(1) that by (simp add: rows_inv_def list_all_iff)
  have "\<not> link (rows @ [r]) now y" for y
  proof
    assume "link (rows @ [r]) now y"
    then obtain q where q: "q \<in> set (rows @ [r])" "rotated q" "endedAt q = Some now" by (auto simp: link_def)
    then have "q \<in> set rows" using fresh_not_rotated [OF assms(3)] by auto
    then show False using past [of q] q(3) assms(2) by (auto simp: in_past_def)
  qed
  moreover have "map startedAt (opened (rows @ [r])) = [now]"
    using assms(1,3) by (simp add: rows_inv_def chain_ok_def opened_def fresh_row_def)
  ultimately have "chain_ok (rows @ [r]) (Some now)" by (simp add: chain_ok_def)
  moreover have "list_all (in_past now) (rows @ [r])"
    using past assms(2) fresh_in_past [OF assms(3)]
    by (auto simp: list_all_iff intro: in_past_later [of latest] less_imp_le)
  moreover have "rotations_unique (rows @ [r])"
    by (rule rotations_unique_sub [of rows])
      (use assms(1) fresh_not_rotated [OF assms(3)] in \<open>auto simp: rows_inv_def\<close>)
  ultimately show ?thesis by (simp add: rows_inv_def)
qed

lemma closed_at_rotated:
  "rotated (closed_at at Selection_changed r) \<longleftrightarrow> rotated r \<or> endedAt r = None"
  "reason \<noteq> Selection_changed \<Longrightarrow> rotated (closed_at at reason r) \<longleftrightarrow> rotated r"
  by (auto simp: closed_at_def rotated_def)

lemma closed_at_kept: "rotated r \<Longrightarrow> closed_at at reason r = r"
  by (auto simp: closed_at_def rotated_def)

lemma rows_inv_rotate:
  assumes inv: "rows_inv rows latest (Some t)" and later: "latest < now" and fresh: "fresh_row now r"
  shows "rows_inv (map (closed_at (\<lambda>_. now) Selection_changed) rows @ [r]) now (Some t)"
proof -
  let ?f = "closed_at (\<lambda>_. now) Selection_changed"
  let ?rows = "map ?f rows @ [r]"
  have past: "in_past latest q" if "q \<in> set rows" for q
    using inv that by (simp add: rows_inv_def list_all_iff)
  obtain s where s: "map startedAt (opened rows) = [s]" "(link rows)\<^sup>*\<^sup>* s t" "\<And>y. \<not> link rows t y"
    using inv by (auto simp: rows_inv_def chain_ok_def)
  obtain q where q: "opened rows = [q]" "startedAt q = s" using s(1) by auto
  then have "q \<in> set (opened rows)" by simp
  then have q': "q \<in> set rows" "endedAt q = None" by (simp_all add: opened_def)
  have only: "p = q" if "p \<in> set rows" "endedAt p = None" for p
  proof -
    have "p \<in> set (opened rows)" using that by (simp add: opened_def)
    then show ?thesis by (simp add: q(1))
  qed
  have s_past: "s < now" using past [OF q'(1)] q(2) later by (auto simp: in_past_def)
  have new_row: "rotated p \<and> p \<in> set ?rows \<Longrightarrow> (p \<in> set rows \<and> rotated p) \<or> p = ?f q" for p
    using only fresh_not_rotated [OF fresh] by (auto simp: closed_at_rotated closed_at_kept)
  have fq: "endedAt (?f q) = Some now" "startedAt (?f q) = s" "rotated (?f q)" "?f q \<in> set ?rows"
    using q' q(2) by (simp_all add: closed_at_def rotated_def)
  have old: "endedAt p \<noteq> Some now" if "p \<in> set rows" for p
    using past [OF that] later by (auto simp: in_past_def)
  have up: "link ?rows x y" if "link rows x y" for x y
    using that closed_at_kept [of _ "\<lambda>_. now" Selection_changed] unfolding link_def by (auto intro!: bexI)
  have "link ?rows now s" unfolding link_def using fq s_past by blast
  moreover have "(link ?rows)\<^sup>*\<^sup>* s t"
    using s(2) by (rule rtranclp_mono [THEN predicate2D, rotated]) (use up in blast)
  ultimately have chain: "(link ?rows)\<^sup>*\<^sup>* now t" by (rule converse_rtranclp_into_rtranclp)
  have "t < now" using link_descends [OF s(2)] s_past by simp
  then have stop: "\<not> link ?rows t y" for y
    using s(3) [of y] new_row fq(1) unfolding link_def by force
  have "opened ?rows = [r]"
    using fresh by (auto simp: opened_def closed_at_def fresh_row_def filter_empty_conv)
  then have "chain_ok ?rows (Some t)"
    using chain stop fresh by (auto simp: chain_ok_def fresh_row_def)
  moreover have "in_past now (?f p)" if "p \<in> set rows" for p
    using past [OF that] later by (auto simp: closed_at_def in_past_def)
  then have "list_all (in_past now) ?rows"
    using fresh_in_past [OF fresh] by (auto simp: list_all_iff)
  moreover have "rotations_unique ?rows"
  proof (rule rotations_uniqueI)
    fix p p' assume p: "p \<in> set ?rows" "p' \<in> set ?rows" "rotated p" "rotated p'" "endedAt p = endedAt p'"
    then have "(p \<in> set rows \<and> rotated p) \<or> p = ?f q" "(p' \<in> set rows \<and> rotated p') \<or> p' = ?f q"
      using new_row by blast+
    moreover have "rotations_unique rows" using inv by (simp add: rows_inv_def)
    then have "startedAt p = startedAt p'" if "p \<in> set rows" "p' \<in> set rows"
      by (rule rotations_uniqueD [OF _ that p(3-5)])
    ultimately show "startedAt p = startedAt p'"
      using p(5) fq(1) old [of p] old [of p'] by metis
  qed
  ultimately show ?thesis by (simp add: rows_inv_def)
qed

text \<open>Rows that change without a rotation.\<close>

lemma rows_inv_map:
  assumes inv: "rows_inv rows latest since" and later: "latest \<le> now"
    and same: "\<And>r. r \<in> set rows \<Longrightarrow> rotated (f r) \<longleftrightarrow> rotated r"
      "\<And>r. r \<in> set rows \<Longrightarrow> rotated r \<Longrightarrow> f r = r"
    and past: "\<And>r. r \<in> set rows \<Longrightarrow> in_past latest r \<Longrightarrow> in_past now (f r)"
    and since: "since' = None \<and> opened (map f rows) = [] \<or>
      since' = since \<and> map startedAt (opened (map f rows)) = map startedAt (opened rows)"
  shows "rows_inv (map f rows) now since'"
proof -
  have link: "link (map f rows) x y \<longleftrightarrow> link rows x y" for x y
    unfolding link_def using same by (auto simp: bex_simps)
  then have "link (map f rows) = link rows" by (intro ext)
  moreover have "opened (map f rows) = [] \<longleftrightarrow> map startedAt (opened (map f rows)) = []" by simp
  ultimately have "chain_ok (map f rows) since'"
    using since inv by (auto simp: chain_ok_def rows_inv_def split: option.splits)
  moreover have "list_all (in_past now) (map f rows)"
    using inv past by (auto simp: rows_inv_def list_all_iff)
  moreover have "rotations_unique (map f rows)"
    by (rule rotations_unique_sub [of rows]) (use inv same in \<open>auto simp: rows_inv_def\<close>)
  ultimately show ?thesis by (simp add: rows_inv_def)
qed

section \<open>The tracker keeps the rows in order\<close>

definition ids_distinct :: "boost_db \<Rightarrow> bool" where
  "ids_distinct db \<longleftrightarrow> distinct (map row_id (sessions db))"

lemma same_row: "ids_distinct db \<Longrightarrow> r \<in> set (sessions db) \<Longrightarrow> q \<in> set (sessions db) \<Longrightarrow>
    row_id r = row_id q \<Longrightarrow> r = q"
  by (simp add: ids_distinct_def distinct_map inj_on_def)

lemma close_rows_selected:
  assumes "ids_distinct db" "\<And>r. P r \<Longrightarrow> endedAt r = None"
  shows "close_rows (set (map row_id (filter P (sessions db)))) at reason (sessions db)
    = map (\<lambda>r. if P r then closed_at at reason r else r) (sessions db)"
proof -
  have "row_id r \<in> set (map row_id (filter P (sessions db))) \<longleftrightarrow> P r" if "r \<in> set (sessions db)" for r
    using same_row [OF assms(1) that] that by auto
  then show ?thesis using assms(2) by (auto simp: close_rows_def closed_at_def)
qed

lemma mine_map:
  "(\<And>r. row_account (f r) = row_account r) \<Longrightarrow> mine acc (map f rows) = map f (mine acc rows)"
  by (induction rows) (auto simp: mine_def)

lemma ids_distinct_map:
  "(\<And>r. row_id (f r) = row_id r) \<Longrightarrow> distinct (map row_id rows) \<Longrightarrow> distinct (map row_id (map f rows))"
  by (simp add: comp_def)

lemma closed_at_fields [simp]:
  "row_id (closed_at at reason r) = row_id r" "row_account (closed_at at reason r) = row_account r"
  "startedAt (closed_at at reason r) = startedAt r" "lastSeenAt (closed_at at reason r) = lastSeenAt r"
  by (simp_all add: closed_at_def)

lemma opened_mine: "opened (mine acc rows) = filter (open_row acc) rows"
  by (induction rows) (auto simp: opened_def mine_def open_row_def)

lemma endBoostSession_rows:
  assumes "ids_distinct db"
  shows "ids_distinct (endBoostSession acc reason at db)"
    and "mine acc (sessions (endBoostSession acc reason at db))
      = map (closed_at (\<lambda>_. at) reason) (mine acc (sessions db))"
    and "acc' \<noteq> acc \<Longrightarrow> mine acc' (sessions (endBoostSession acc reason at db)) = mine acc' (sessions db)"
proof -
  let ?f = "\<lambda>r. if open_row acc r then closed_at (\<lambda>_. at) reason r else r"
  have rows: "sessions (endBoostSession acc reason at db) = map ?f (sessions db)"
  proof (cases "filter (open_row acc) (sessions db) = []")
    case True
    then have "map ?f (sessions db) = sessions db" by (simp add: filter_empty_conv map_idI)
    with True show ?thesis by (simp add: endBoostSession_def)
  next
    case False
    then show ?thesis
      using close_rows_selected [OF assms, of "open_row acc" "\<lambda>_. at" reason]
      by (simp add: endBoostSession_def open_row_def Let_def)
  qed
  show "ids_distinct (endBoostSession acc reason at db)"
    using assms ids_distinct_map [of ?f "sessions db"] by (simp add: ids_distinct_def rows)
  have account: "row_account (?f r) = row_account r" for r by simp
  show "mine acc (sessions (endBoostSession acc reason at db))
      = map (closed_at (\<lambda>_. at) reason) (mine acc (sessions db))"
    unfolding rows mine_map [of ?f, OF account]
    by (auto simp: mine_def open_row_def closed_at_def)
  show "acc' \<noteq> acc \<Longrightarrow> mine acc' (sessions (endBoostSession acc reason at db)) = mine acc' (sessions db)"
    unfolding rows mine_map [of ?f, OF account] by (auto simp: mine_def open_row_def intro: map_idI)
qed

lemma resolve_preset_sessions:
  "resolve_preset acc activity stored db = (p, db') \<Longrightarrow> sessions db' = sessions db"
  by (auto simp: resolve_preset_def split: option.splits if_splits)

text \<open>The three ways a start can end.\<close>

lemma startBoostSession_cases:
  assumes "ids_distinct db"
  shows "sessions (startBoostSession acc activity new_id now db) = sessions db \<and>
      (js_get (active_presets db) acc \<noteq> None \<longrightarrow> (\<exists>r. filter (open_row acc) (sessions db) = [r])) \<or>
    (\<exists>r rows. fresh_row now r \<and> row_id r = new_id \<and> row_account r = acc \<and>
       sessions (startBoostSession acc activity new_id now db) = rows @ [r] \<and>
       (filter (open_row acc) (sessions db) = [] \<and> rows = sessions db \<or>
        filter (open_row acc) (sessions db) \<noteq> [] \<and>
        rows = sessions (endBoostSession acc Selection_changed now db)))"
proof (cases "js_get (active_presets db) acc")
  case None
  then show ?thesis by (simp add: startBoostSession_def)
next
  case (Some stored)
  obtain p db1 where res: "resolve_preset acc activity stored db = (p, db1)" by fastforce
  note same = resolve_preset_sessions [OF res]
  let ?existing = "filter (open_row acc) (sessions db)"
  let ?apps = "reported_apps acc activity db1"
  have end_same: "sessions (endBoostSession acc Selection_changed now db1)
      = sessions (endBoostSession acc Selection_changed now db)"
    by (simp add: endBoostSession_def same Let_def)
  show ?thesis
  proof (cases "case ?existing of [r] \<Rightarrow> row_preset r = p \<and> normalizeAppIds (appIds r) = ?apps | _ \<Rightarrow> False")
    case True
    then have "\<exists>r. ?existing = [r]" by (auto split: list.splits)
    moreover have "startBoostSession acc activity new_id now db = db1"
      using True by (simp add: startBoostSession_def Some res Let_def)
    ultimately show ?thesis using same by simp
  next
    case False
    let ?r = "\<lparr>row_id = new_id, row_account = acc, row_preset = p, appIds = ?apps,
      startedAt = now, endedAt = None, stopReason = None, lastSeenAt = Some now\<rparr>"
    have "sessions (startBoostSession acc activity new_id now db) =
        (if ?existing \<noteq> [] then sessions (endBoostSession acc Selection_changed now db) else sessions db) @ [?r]"
      using False end_same same by (simp add: startBoostSession_def Some res Let_def)
    moreover have "fresh_row now ?r" by (simp add: fresh_row_def)
    ultimately show ?thesis
      by (intro disjI2 exI [of _ ?r] exI [of _ "if ?existing \<noteq> []
          then sessions (endBoostSession acc Selection_changed now db) else sessions db"]) simp
  qed
qed

definition run_inv :: "account_id \<Rightarrow> boost_db \<Rightarrow> millis \<Rightarrow> millis option \<Rightarrow> bool" where
  "run_inv acc db latest since \<longleftrightarrow>
     ids_distinct db \<and> rows_inv (mine acc (sessions db)) latest since"

lemma rows_inv_later: "rows_inv rows latest since \<Longrightarrow> latest \<le> now \<Longrightarrow> rows_inv rows now since"
  using rows_inv_map [of rows latest since now "\<lambda>r. r" since] by (simp add: in_past_later)

lemma rows_inv_open:
  "rows_inv (mine acc rows) latest None \<Longrightarrow> filter (open_row acc) rows = []"
  "rows_inv (mine acc rows) latest (Some t) \<Longrightarrow> filter (open_row acc) rows \<noteq> []"
  unfolding opened_mine [symmetric] by (auto simp: rows_inv_def chain_ok_def)

lemma rows_inv_closed:
  assumes "rows_inv rows latest since" "latest \<le> now" "reason \<noteq> Selection_changed"
    and "\<And>r. r \<in> set rows \<Longrightarrow> in_past latest r \<Longrightarrow> at r \<le> now"
  shows "rows_inv (map (closed_at at reason) rows) now None"
proof (rule rows_inv_map [OF assms(1,2)])
  show "None = None \<and> opened (map (closed_at at reason) rows) = [] \<or>
      None = since \<and> map startedAt (opened (map (closed_at at reason) rows)) = map startedAt (opened rows)"
    by (auto simp: opened_def filter_empty_conv closed_at_def)
  show "in_past now (closed_at at reason r)" if "r \<in> set rows" "in_past latest r" for r
    using that assms(2) assms(4) [OF that] by (auto simp: in_past_def closed_at_def)
qed (use assms(3) in \<open>simp_all add: closed_at_rotated closed_at_kept\<close>)

lemma endBoostSession_ids:
  "row_id ` set (sessions (endBoostSession acc reason at db)) = row_id ` set (sessions db)"
proof -
  have "row_id \<circ> (\<lambda>r. if P r then r\<lparr>endedAt := x r, stopReason := y r\<rparr> else r) = row_id" for P x y
    by (rule ext) simp
  then have "map row_id (sessions (endBoostSession acc reason at db)) = map row_id (sessions db)"
    by (simp add: endBoostSession_def Let_def close_rows_def)
  then show ?thesis by (metis set_map)
qed

lemma run_inv_boost:
  assumes inv: "run_inv acc db latest since" and later: "latest < now"
    and account: "js_get (active_presets db) acc \<noteq> None" and new: "new_id \<notin> row_id ` set (sessions db)"
  shows "run_inv acc (startBoostSession acc activity new_id now db) now
    (Some (case since of None \<Rightarrow> now | Some t \<Rightarrow> t))"
proof -
  let ?db = "startBoostSession acc activity new_id now db"
  have ids: "ids_distinct db" and rows: "rows_inv (mine acc (sessions db)) latest since"
    using inv by (simp_all add: run_inv_def)
  from startBoostSession_cases [OF ids, of acc activity new_id now] show ?thesis
  proof (elim disjE conjE exE)
    assume same: "sessions ?db = sessions db"
      and "js_get (active_presets db) acc \<noteq> None \<longrightarrow> (\<exists>r. filter (open_row acc) (sessions db) = [r])"
    then have "filter (open_row acc) (sessions db) \<noteq> []" using account by auto
    then obtain t where "since = Some t" using rows_inv_open(1) rows by (cases since) auto
    with ids rows_inv_later [OF rows, of now] later show ?thesis
      by (simp add: run_inv_def ids_distinct_def same)
  next
    fix r old
    assume r: "fresh_row now r" "row_id r = new_id" "row_account r = acc"
      and db: "sessions ?db = old @ [r]"
      and none: "filter (open_row acc) (sessions db) = []" "old = sessions db"
    have "since = None" using rows_inv_open(2) rows none by (cases since) auto
    with rows_inv_begin [OF _ later r(1)] rows ids new r none(2) show ?thesis
      by (simp add: run_inv_def ids_distinct_def db mine_def)
  next
    fix r old
    assume r: "fresh_row now r" "row_id r = new_id" "row_account r = acc"
      and db: "sessions ?db = old @ [r]"
      and some: "filter (open_row acc) (sessions db) \<noteq> []"
        "old = sessions (endBoostSession acc Selection_changed now db)"
    obtain t where t: "since = Some t" using rows_inv_open(1) rows some(1) by (cases since) auto
    note ended = endBoostSession_rows [OF ids, where acc = acc and reason = Selection_changed and at = now]
    have "set (map row_id old) = row_id ` set (sessions db)"
      unfolding some(2) by (simp only: set_map endBoostSession_ids)
    then have "ids_distinct ?db"
      using ended(1) new r(2) by (simp add: ids_distinct_def db some(2))
    moreover have "mine acc (sessions ?db)
        = map (closed_at (\<lambda>_. now) Selection_changed) (mine acc (sessions db)) @ [r]"
      using ended(2) r(3) by (simp add: db some(2)) (simp add: mine_def)
    ultimately show ?thesis
      using rows_inv_rotate [OF _ later r(1)] rows by (simp add: run_inv_def t)
  qed
qed

lemma run_inv_end:
  assumes "run_inv acc db latest since" "latest < now" "reason \<noteq> Selection_changed"
  shows "run_inv acc (endBoostSession acc reason now db) now None"
proof -
  have ids: "ids_distinct db" using assms(1) by (simp add: run_inv_def)
  note ended = endBoostSession_rows [OF ids, where acc = acc and reason = reason and at = now]
  show ?thesis
    using rows_inv_closed [of "mine acc (sessions db)" latest since now reason "\<lambda>_. now"] assms ended(1)
    by (simp add: run_inv_def ended(2))
qed

lemma run_inv_other:
  assumes "run_inv acc db latest since" "latest < now" "acc' \<noteq> acc" "new_id \<notin> row_id ` set (sessions db)"
  shows "run_inv acc (trackBoostSession acc' status activity new_id now db) now since"
proof -
  have ids: "ids_distinct db" and rows: "rows_inv (mine acc (sessions db)) now since"
    using assms(1,2) rows_inv_later by (auto simp: run_inv_def)
  have ended: "ids_distinct (endBoostSession acc' reason now db)"
    "mine acc (sessions (endBoostSession acc' reason now db)) = mine acc (sessions db)"
    "row_id ` set (sessions (endBoostSession acc' reason now db)) = row_id ` set (sessions db)" for reason
  proof -
    note e = endBoostSession_rows [OF ids, where acc = acc' and reason = reason and at = now]
    show "ids_distinct (endBoostSession acc' reason now db)" by (rule e(1))
    show "mine acc (sessions (endBoostSession acc' reason now db)) = mine acc (sessions db)"
      by (rule e(3)) (use assms(3) in simp)
    show "row_id ` set (sessions (endBoostSession acc' reason now db)) = row_id ` set (sessions db)"
      by (rule endBoostSession_ids)
  qed
  have started: "ids_distinct (startBoostSession acc' activity new_id now db) \<and>
      mine acc (sessions (startBoostSession acc' activity new_id now db)) = mine acc (sessions db)"
    using startBoostSession_cases [OF ids, of acc' activity new_id now]
  proof (elim disjE conjE exE)
    assume "sessions (startBoostSession acc' activity new_id now db) = sessions db"
    then show ?thesis using ids by (simp add: ids_distinct_def)
  next
    fix r old
    assume r: "row_id r = new_id" "row_account r = acc'"
      and db: "sessions (startBoostSession acc' activity new_id now db) = old @ [r]" "old = sessions db"
    then show ?thesis using ids assms(3,4) by (simp add: ids_distinct_def mine_def)
  next
    fix r old
    assume r: "row_id r = new_id" "row_account r = acc'"
      and db: "sessions (startBoostSession acc' activity new_id now db) = old @ [r]"
        "old = sessions (endBoostSession acc' Selection_changed now db)"
    then show ?thesis
      using ended [of Selection_changed] assms(3,4) by (simp add: ids_distinct_def) (simp add: mine_def)
  qed
  show ?thesis
    using started ended rows unfolding trackBoostSession_def by (auto simp: run_inv_def)
qed

lemma run_inv_seen:
  assumes "run_inv acc db latest since" "latest < now"
  shows "run_inv acc (markOpenBoostSessionsSeen now db) now since"
proof -
  let ?f = "\<lambda>r. if endedAt r = None then r\<lparr>lastSeenAt := Some now\<rparr> else r"
  have rows: "rows_inv (mine acc (sessions db)) latest since" and ids: "ids_distinct db"
    using assms(1) by (simp_all add: run_inv_def)
  have "rows_inv (map ?f (mine acc (sessions db))) now since"
  proof (rule rows_inv_map [OF rows])
    show "since = None \<and> opened (map ?f (mine acc (sessions db))) = [] \<or>
        since = since \<and> map startedAt (opened (map ?f (mine acc (sessions db))))
          = map startedAt (opened (mine acc (sessions db)))"
    proof -
      have "map startedAt (opened (map ?f rows)) = map startedAt (opened rows)" for rows
        by (induction rows) (auto simp: opened_def)
      then show ?thesis by simp
    qed
  qed (use assms(2) in \<open>auto simp: rotated_def in_past_def\<close>)
  moreover have "mine acc (map ?f (sessions db)) = map ?f (mine acc (sessions db))"
    by (rule mine_map) simp
  moreover have "distinct (map row_id (map ?f (sessions db)))"
    by (rule ids_distinct_map) (use ids in \<open>simp_all add: ids_distinct_def\<close>)
  ultimately show ?thesis by (simp add: run_inv_def markOpenBoostSessionsSeen_def ids_distinct_def)
qed

lemma run_inv_restart:
  assumes "run_inv acc db latest since"
  shows "run_inv acc (snd (closeInterruptedBoostSessions db)) latest None"
proof -
  have rows: "rows_inv (mine acc (sessions db)) latest since" and ids: "ids_distinct db"
    using assms(1) by (simp_all add: run_inv_def)
  have eq: "sessions (snd (closeInterruptedBoostSessions db))
      = map (closed_at last_seen_end Interrupted) (sessions db)"
    using close_rows_selected [OF ids, of "\<lambda>r. endedAt r = None" last_seen_end Interrupted]
    by (simp add: closeInterruptedBoostSessions_def Let_def) (simp add: closed_at_def)
  have "rows_inv (map (closed_at last_seen_end Interrupted) (mine acc (sessions db))) latest None"
    by (rule rows_inv_closed [OF rows])
      (auto simp: in_past_def last_seen_end_def split: option.split)
  then show ?thesis
    using ids ids_distinct_map [of "closed_at last_seen_end Interrupted" "sessions db"]
    by (simp add: run_inv_def eq mine_map ids_distinct_def)
qed

lemma session_run_inv: "session_run acc db latest since \<Longrightarrow> run_inv acc db latest since"
proof (induction rule: session_run.induct)
  case (start db latest)
  then show ?case
    by (simp add: run_inv_def ids_distinct_def rows_inv_def mine_def rotations_unique_def chain_ok_def
        opened_def)
next
  case (boost db latest since now new_id status activity)
  then show ?case by (simp add: trackBoostSession_def run_inv_boost)
next
  case (no_boost db latest since now status activity new_id)
  then show ?case by (auto simp: trackBoostSession_def intro: run_inv_end)
qed (auto intro: run_inv_other run_inv_seen run_inv_restart)

text \<open>
  C13: The session cap measures uninterrupted boosting. Whatever statuses, selection changes,
  other accounts' sessions, stamps and restarts the tracker has recorded (at distinct instants),
  the time \<open>continuousSessionMs\<close> reads from the rows is the time since the account began to
  boost without a pause, not since the last change of the selection, and zero when it is not boosting.
\<close>

theorem session_cap_counts_unbroken_boosting:
  assumes "session_run acc db latest since" "latest \<le> now"
  shows "continuousSessionMs (filter (\<lambda>r. row_account r = acc) (sessions db)) now
    = (case since of None \<Rightarrow> 0 | Some t \<Rightarrow> now - t)"
  using continuous_of_inv [of "mine acc (sessions db)" latest since now]
    session_run_inv [OF assms(1)] assms(2)
  by (simp add: run_inv_def mine_def)

definition tracked_db :: boost_db where
  "tracked_db =
     (let db0 = \<lparr>sessions = [], active_presets = [(''a1'', None)], presets = [], account_games = [],
                  events = []\<rparr>;
          playing = (\<lambda>apps. Some \<lparr>activityMode = Some Farming_mode, activeAppIds = Some apps\<rparr>);
          db1 = trackBoostSession ''a1'' Boosting (playing [10]) ''r1'' 100 db0;
          db2 = markOpenBoostSessionsSeen 150 db1
      in trackBoostSession ''a1'' Boosting (playing [20, 10]) ''r2'' 200 db2)"

theorem session_cap_counts_unbroken_boosting_witness:
  "map endedAt (sessions tracked_db) = [Some 200, None] \<and>
   continuousSessionMs (filter (\<lambda>r. row_account r = ''a1'') (sessions tracked_db)) 300 = 200"
proof -
  let ?db0 = "\<lparr>sessions = [], active_presets = [(''a1'', None)], presets = [], account_games = [],
                  events = []\<rparr> :: boost_db"
  let ?playing = "\<lambda>apps. Some \<lparr>activityMode = Some Farming_mode, activeAppIds = Some apps\<rparr>"
  let ?db1 = "trackBoostSession ''a1'' Boosting (?playing [10]) ''r1'' 100 ?db0"
  let ?db2 = "markOpenBoostSessionsSeen 150 ?db1"
  have "session_run ''a1'' ?db0 0 None" by (rule session_run.start) simp
  then have "session_run ''a1'' ?db1 100 (Some 100)"
    using session_run.boost [of "''a1''" ?db0 0 None 100 "''r1''" Boosting "?playing [10]"]
    by (simp add: idle_def)
  then have run2: "session_run ''a1'' ?db2 150 (Some 100)" by (rule session_run.seen) simp
  have "session_run ''a1'' (trackBoostSession ''a1'' Boosting (?playing [20, 10]) ''r2'' 200 ?db2) 200
      (Some (case Some 100 of None \<Rightarrow> 200 | Some t \<Rightarrow> t))"
    by (rule session_run.boost [OF run2]) (simp, code_simp, code_simp, simp, simp add: idle_def)
  then have run: "session_run ''a1'' tracked_db 200 (Some 100)"
    by (simp add: tracked_db_def Let_def)
  have "map endedAt (sessions tracked_db) = [Some 200, None]" by code_simp
  then show ?thesis using session_cap_counts_unbroken_boosting [OF run, of 300] by simp
qed

end
