(* ===== verification/Notifications.thy ===== *)
theory Notifications
  imports Prelude
begin

text \<open>
  Notification rules and their delivery: \<open>apps/server/src/notifications/dispatcher.ts\<close> and the rule
  operations of \<open>apps/server/src/http/routes/operations.ts\<close>.

  The tables are lists of rows in insertion order; \<open>randomUUID\<close> is a counter of the store. The
  stored secret and \<open>decryptSecret\<close> are a text and a parameter. The dispatcher is a machine whose
  steps are its public operations, the timer, the next delivery of a drain and the end of a
  webhook request; rules and events change between the steps. The reads a delivery makes before
  its request are one step, and so are the writes after it. Failures of the database itself are
  not modelled.
\<close>

section \<open>Rows\<close>

datatype rule_target = Webhook | Browser

record rule_row =
  rule_id :: string
  revision :: nat
  startAfterEventId :: nat
  rule_name :: string
  rule_target :: rule_target
  rule_enabled :: bool
  eventTypes :: "string list"
  webhook_secret :: "string option"
  failureCount :: nat
  disabledUntil :: "millis option"
  rule_createdAt :: millis
  rule_updatedAt :: millis

record event_row =
  event_id :: nat
  event_type :: string
  event_status :: "string option"
  event_createdAt :: millis

datatype delivery_status = Pending | Retry | Delivered | Failed

record delivery_row =
  delivery_id :: nat
  delivery_rule :: string
  delivery_revision :: nat
  delivery_event :: nat
  delivery_status :: delivery_status
  attempts :: nat
  nextAttemptAt :: "millis option"
  lastError :: "string option"

record note_db =
  rules :: "rule_row list"
  events :: "event_row list"
  deliveries :: "delivery_row list"
  next_delivery :: nat

definition maxAttempts :: nat where
  "maxAttempts = 3"

definition is_open :: "delivery_row \<Rightarrow> bool" where
  "is_open d \<longleftrightarrow> delivery_status d = Pending \<or> delivery_status d = Retry"

definition find_rule :: "string \<Rightarrow> note_db \<Rightarrow> rule_row option" where
  "find_rule i db = find (\<lambda>r. rule_id r = i) (rules db)"

definition find_event :: "nat \<Rightarrow> note_db \<Rightarrow> event_row option" where
  "find_event i db = find (\<lambda>e. event_id e = i) (events db)"

definition find_delivery :: "nat \<Rightarrow> note_db \<Rightarrow> delivery_row option" where
  "find_delivery i db = find (\<lambda>d. delivery_id d = i) (deliveries db)"

definition latestSteamEventId :: "note_db \<Rightarrow> nat" where
  "latestSteamEventId db = foldl max 0 (map event_id (events db))"

section \<open>Rules\<close>

record rule_body =
  body_name :: string
  body_target :: rule_target
  body_enabled :: bool
  body_eventTypes :: "string list"
  body_secret :: "string option"

text \<open>\<open>body_secret\<close> is the encrypted form of the URL in the request body, if it has one.\<close>

definition ruleValues :: "string \<Rightarrow> rule_body \<Rightarrow> millis \<Rightarrow> note_db \<Rightarrow> rule_row" where
  "ruleValues i body now db =
     \<lparr>rule_id = i, revision = 1, startAfterEventId = latestSteamEventId db, rule_name = body_name body,
      rule_target = body_target body, rule_enabled = body_enabled body,
      eventTypes = js_unique (body_eventTypes body),
      webhook_secret = (if body_target body = Webhook then body_secret body else None),
      failureCount = 0, disabledUntil = None, rule_createdAt = now, rule_updatedAt = now\<rparr>"

definition replaced_rule :: "rule_row \<Rightarrow> rule_row \<Rightarrow> rule_row" where
  "replaced_rule values current =
     values\<lparr>rule_id := rule_id current, revision := revision current + 1,
       rule_createdAt := rule_createdAt current\<rparr>"

definition rewrite_rule :: "string \<Rightarrow> rule_row \<Rightarrow> note_db \<Rightarrow> note_db" where
  "rewrite_rule i values db =
     db\<lparr>deliveries := filter (\<lambda>d. delivery_rule d \<noteq> i) (deliveries db),
        rules := map (\<lambda>r. if rule_id r = i then replaced_rule values r else r) (rules db)\<rparr>"

definition replaceRuleConfiguration ::
    "string \<Rightarrow> rule_body \<Rightarrow> millis \<Rightarrow> note_db \<Rightarrow> error_code + note_db" where
  "replaceRuleConfiguration i body now db =
     (case find_rule i db of
        None \<Rightarrow> Inl notFound
      | Some _ \<Rightarrow> Inr (rewrite_rule i (ruleValues i body now db) db))"

definition insert_rule :: "rule_row \<Rightarrow> note_db \<Rightarrow> note_db" where
  "insert_rule r db = db\<lparr>rules := rules db @ [r]\<rparr>"

text \<open>The first browser rule by \<open>created_at, id\<close>.\<close>

definition browser_rule :: "note_db \<Rightarrow> rule_row option" where
  "browser_rule db =
     (case js_sort (\<lambda>a b. or_else (order_compare (rule_createdAt a) (rule_createdAt b))
             (order_compare (rule_id a) (rule_id b)))
           (filter (\<lambda>r. rule_target r = Browser) (rules db)) of
        [] \<Rightarrow> None | r # _ \<Rightarrow> Some r)"

definition upsertBrowserRule :: "string \<Rightarrow> rule_body \<Rightarrow> millis \<Rightarrow> note_db \<Rightarrow> note_db" where
  "upsertBrowserRule fresh body now db =
     (case browser_rule db of
        Some r \<Rightarrow> rewrite_rule (rule_id r) (ruleValues (rule_id r) body now db) db
      | None \<Rightarrow> insert_rule (ruleValues fresh body now db) db)"

definition create_rule :: "string \<Rightarrow> rule_body \<Rightarrow> millis \<Rightarrow> note_db \<Rightarrow> note_db" where
  "create_rule fresh body now db =
     (if body_target body = Browser then upsertBrowserRule fresh body now db
      else insert_rule (ruleValues fresh body now db) db)"

text \<open>Deleting a rule or an event cascades to its deliveries.\<close>

definition delete_rule :: "string \<Rightarrow> note_db \<Rightarrow> note_db" where
  "delete_rule i db =
     db\<lparr>rules := filter (\<lambda>r. rule_id r \<noteq> i) (rules db),
        deliveries := filter (\<lambda>d. delivery_rule d \<noteq> i) (deliveries db)\<rparr>"

definition delete_event :: "nat \<Rightarrow> note_db \<Rightarrow> note_db" where
  "delete_event i db =
     db\<lparr>events := filter (\<lambda>e. event_id e \<noteq> i) (events db),
        deliveries := filter (\<lambda>d. delivery_event d \<noteq> i) (deliveries db)\<rparr>"

datatype rule_status = Disabled | Suspended | Retrying | Failing | Active

record rule_health =
  effectiveEnabled :: bool
  effectiveStatus :: rule_status
  health_failureCount :: nat
  suspendedUntil :: "millis option"
  nextRetryAt :: "millis option"

definition notificationRuleHealth :: "rule_row \<Rightarrow> millis option \<Rightarrow> millis \<Rightarrow> rule_health" where
  "notificationRuleHealth r next_retry now =
     (let suspended = (case disabledUntil r of
                         None \<Rightarrow> None | Some t \<Rightarrow> if t > now then Some t else None)
      in \<lparr>effectiveEnabled = (rule_enabled r \<and> suspended = None),
          effectiveStatus =
            (if \<not> rule_enabled r then Disabled else if suspended \<noteq> None then Suspended
             else if next_retry \<noteq> None then Retrying
             else if failureCount r > 0 then Failing else Active),
          health_failureCount = failureCount r, suspendedUntil = suspended, nextRetryAt = next_retry\<rparr>)"

definition retry_times :: "rule_row \<Rightarrow> note_db \<Rightarrow> millis list" where
  "retry_times r db =
     concat (map (\<lambda>d. case nextAttemptAt d of None \<Rightarrow> [] | Some t \<Rightarrow> [t])
       (filter (\<lambda>d. delivery_rule d = rule_id r \<and> delivery_revision d = revision r \<and>
                    delivery_status d = Retry) (deliveries db)))"

definition listRules :: "millis \<Rightarrow> note_db \<Rightarrow> (rule_row \<times> rule_health) list" where
  "listRules now db =
     map (\<lambda>r. (r, notificationRuleHealth r
            (case retry_times r db of [] \<Rightarrow> None | t # ts \<Rightarrow> Some (foldl min t ts)) now)) (rules db)"

section \<open>Enqueueing\<close>

definition matchesRule :: "string list \<Rightarrow> event_row \<Rightarrow> bool" where
  "matchesRule types e \<longleftrightarrow>
     (let keys = event_type e #
        (case event_status e of None \<Rightarrow> [] | Some s \<Rightarrow> [event_type e @ ''.'' @ s])
      in ''*'' \<in> set types \<or> list_ex (\<lambda>k. k \<in> set types) keys)"

definition enabled_webhooks :: "note_db \<Rightarrow> rule_row list" where
  "enabled_webhooks db = filter (\<lambda>r. rule_enabled r \<and> rule_target r = Webhook) (rules db)"

text \<open>The unique index is on rule and event; the row must refer to an existing rule and event.\<close>

definition has_delivery :: "rule_row \<Rightarrow> event_row \<Rightarrow> note_db \<Rightarrow> bool" where
  "has_delivery r e db =
     list_ex (\<lambda>d. delivery_rule d = rule_id r \<and> delivery_event d = event_id e) (deliveries db)"

definition insert_delivery :: "millis \<Rightarrow> rule_row \<Rightarrow> event_row \<Rightarrow> note_db \<Rightarrow> string + note_db" where
  "insert_delivery now r e db =
     (if has_delivery r e db then Inr db
      else if find_rule (rule_id r) db = None \<or> find_event (event_id e) db = None
      then Inl ''FOREIGN KEY constraint failed''
      else Inr (db\<lparr>deliveries := deliveries db @
            [\<lparr>delivery_id = next_delivery db, delivery_rule = rule_id r, delivery_revision = revision r,
              delivery_event = event_id e, delivery_status = Pending, attempts = 0,
              nextAttemptAt = Some now, lastError = None\<rparr>],
          next_delivery := Suc (next_delivery db)\<rparr>))"

fun insert_each :: "millis \<Rightarrow> (rule_row \<times> event_row) list \<Rightarrow> note_db \<Rightarrow> string option \<times> note_db" where
  "insert_each now [] db = (None, db)"
| "insert_each now ((r, e) # ps) db =
     (if matchesRule (eventTypes r) e then
        (case insert_delivery now r e db of
           Inl err \<Rightarrow> (Some err, db) | Inr db' \<Rightarrow> insert_each now ps db')
      else insert_each now ps db)"

definition enqueueForRules ::
    "millis \<Rightarrow> event_row list \<Rightarrow> rule_row list \<Rightarrow> note_db \<Rightarrow> string option \<times> note_db" where
  "enqueueForRules now es rs db = insert_each now (List.product rs es) db"

fun reconcile_rules :: "millis \<Rightarrow> rule_row list \<Rightarrow> note_db \<Rightarrow> string option \<times> note_db" where
  "reconcile_rules now [] db = (None, db)"
| "reconcile_rules now (r # rs) db =
     (case enqueueForRules now (filter (\<lambda>e. event_id e > startAfterEventId r) (events db)) [r] db of
        (Some err, db') \<Rightarrow> (Some err, db') | (None, db') \<Rightarrow> reconcile_rules now rs db')"

definition reconcileNow :: "millis \<Rightarrow> note_db \<Rightarrow> string option \<times> note_db" where
  "reconcileNow now db = reconcile_rules now (enabled_webhooks db) db"

section \<open>Delivering\<close>

definition update_delivery ::
    "delivery_row \<Rightarrow> (delivery_row \<Rightarrow> delivery_row) \<Rightarrow> note_db \<Rightarrow> note_db" where
  "update_delivery d f db =
     db\<lparr>deliveries := map (\<lambda>x. if delivery_id x = delivery_id d \<and>
          delivery_revision x = delivery_revision d then f x else x) (deliveries db)\<rparr>"

definition update_rule :: "string \<Rightarrow> nat \<Rightarrow> (rule_row \<Rightarrow> rule_row) \<Rightarrow> note_db \<Rightarrow> note_db" where
  "update_rule i old f db =
     db\<lparr>rules := map (\<lambda>x. if rule_id x = i \<and> revision x = old then f x else x) (rules db)\<rparr>"

definition retry_backoff :: "nat \<Rightarrow> millis" where
  "retry_backoff n = 30000 * 2 ^ (n - 1)"

definition fail :: "millis \<Rightarrow> delivery_row \<Rightarrow> string \<Rightarrow> string \<Rightarrow> note_db \<Rightarrow> note_db" where
  "fail now d i message db =
     (let n = attempts d + 1; terminal = (n \<ge> maxAttempts)
      in case find (\<lambda>r. rule_id r = i \<and> revision r = delivery_revision d) (rules db) of
           None \<Rightarrow> db
         | Some r \<Rightarrow>
             let failures = failureCount r + 1
             in update_rule i (delivery_revision d)
                  (\<lambda>x. x\<lparr>failureCount := failures,
                     disabledUntil := (if failures \<ge> 5 then Some (now + 60 * one_minute) else None),
                     rule_updatedAt := now\<rparr>)
                  (update_delivery d
                    (\<lambda>x. x\<lparr>delivery_status := (if terminal then Failed else Retry), attempts := n,
                       nextAttemptAt := (if terminal then None else Some (now + retry_backoff n)),
                       lastError := Some message\<rparr>) db))"

definition succeed :: "millis \<Rightarrow> delivery_row \<Rightarrow> string \<Rightarrow> note_db \<Rightarrow> note_db" where
  "succeed now d i db =
     update_rule i (delivery_revision d)
       (\<lambda>x. x\<lparr>failureCount := 0, disabledUntil := None, rule_updatedAt := now\<rparr>)
       (update_delivery d
         (\<lambda>x. x\<lparr>delivery_status := Delivered, attempts := attempts d + 1, nextAttemptAt := None,
            lastError := None\<rparr>) db)"

definition rule_current :: "rule_row \<Rightarrow> delivery_row \<Rightarrow> bool" where
  "rule_current r d \<longleftrightarrow>
     revision r = delivery_revision d \<and> rule_enabled r \<and> rule_target r = Webhook"

definition suspended_at :: "rule_row \<Rightarrow> millis \<Rightarrow> millis option" where
  "suspended_at r now =
     (case disabledUntil r of None \<Rightarrow> None | Some t \<Rightarrow> if t > now then Some t else None)"

text \<open>What \<open>deliver\<close> does up to the request: nothing, a write, or a request of a URL.\<close>

datatype delivery_start = Nothing_to_send | Wrote note_db | Sending delivery_row rule_row event_row string

definition deliver :: "(string \<Rightarrow> string + string) \<Rightarrow> millis \<Rightarrow> nat \<Rightarrow> note_db \<Rightarrow> delivery_start" where
  "deliver decrypt now i db =
     (case find_delivery i db of
        None \<Rightarrow> Nothing_to_send
      | Some d \<Rightarrow>
          (case find_rule (delivery_rule d) db of
             None \<Rightarrow> Wrote (update_delivery d (\<lambda>x. x\<lparr>delivery_status := Failed, nextAttemptAt := None,
                 lastError := Some ''Notification rule is no longer active.''\<rparr>) db)
           | Some r \<Rightarrow>
               if \<not> rule_current r d then
                 Wrote (update_delivery d (\<lambda>x. x\<lparr>delivery_status := Failed, nextAttemptAt := None,
                   lastError := Some ''Notification rule is no longer active.''\<rparr>) db)
               else case suspended_at r now of
                 Some t \<Rightarrow> Wrote (update_delivery d
                     (\<lambda>x. x\<lparr>delivery_status := Retry, nextAttemptAt := Some t\<rparr>) db)
               | None \<Rightarrow>
                   (case webhook_secret r of
                      None \<Rightarrow> Wrote (fail now d (rule_id r) ''Webhook target is missing.'' db)
                    | Some secret \<Rightarrow>
                        (case decrypt secret of
                           Inl err \<Rightarrow> Wrote (fail now d (rule_id r) err db)
                         | Inr url \<Rightarrow>
                             (case find_event (delivery_event d) db of
                                None \<Rightarrow> Wrote (fail now d (rule_id r)
                                  ''Notification event is no longer available.'' db)
                              | Some e \<Rightarrow> Sending d r e url)))))"

section \<open>The dispatcher\<close>

datatype outcome = Sent | Refused string | Aborted string

record dispatcher =
  store :: note_db
  running :: bool
  drain_at :: "millis option"
  draining :: bool
  queue :: "nat list"
  sending :: "(delivery_row \<times> rule_row) option"
  sends :: "(nat \<times> outcome) list"

definition scheduleDrain :: "millis \<Rightarrow> millis \<Rightarrow> dispatcher \<Rightarrow> dispatcher" where
  "scheduleDrain delay now s = (if running s then s\<lparr>drain_at := Some (now + delay)\<rparr> else s)"

definition start_dispatcher :: "millis \<Rightarrow> dispatcher \<Rightarrow> dispatcher" where
  "start_dispatcher now s =
     scheduleDrain 0 now
       ((scheduleDrain 0 now (s\<lparr>running := True\<rparr>))\<lparr>store := snd (reconcileNow now (store s))\<rparr>)"

definition stop_dispatcher :: "dispatcher \<Rightarrow> dispatcher" where
  "stop_dispatcher s = s\<lparr>running := False, drain_at := None\<rparr>"

definition enqueue :: "millis \<Rightarrow> event_row \<Rightarrow> dispatcher \<Rightarrow> string option \<times> dispatcher" where
  "enqueue now e s =
     (case enqueueForRules now [e] (enabled_webhooks (store s)) (store s) of
        (Some err, db) \<Rightarrow> (Some err, s\<lparr>store := db\<rparr>)
      | (None, db) \<Rightarrow> (None, scheduleDrain 0 now (s\<lparr>store := db\<rparr>)))"

definition reconcile :: "millis \<Rightarrow> dispatcher \<Rightarrow> string option \<times> dispatcher" where
  "reconcile now s =
     (case reconcileNow now (store s) of
        (Some err, db) \<Rightarrow> (Some err, s\<lparr>store := db\<rparr>)
      | (None, db) \<Rightarrow> (None, scheduleDrain 0 now (s\<lparr>store := db\<rparr>)))"

definition is_due :: "millis \<Rightarrow> delivery_row \<Rightarrow> bool" where
  "is_due now d \<longleftrightarrow> is_open d \<and> (case nextAttemptAt d of None \<Rightarrow> True | Some t \<Rightarrow> t \<le> now)"

text \<open>The timer fires; a drain that is still in flight is joined, not started again.\<close>

definition drain :: "millis \<Rightarrow> dispatcher \<Rightarrow> dispatcher" where
  "drain now s =
     (if draining s then s\<lparr>drain_at := None\<rparr>
      else s\<lparr>drain_at := None, draining := True,
             queue := map delivery_id (take 20 (filter (is_due now) (deliveries (store s))))\<rparr>)"

text \<open>The open delivery due first, one without a due time before the others.\<close>

definition next_due :: "millis \<Rightarrow> note_db \<Rightarrow> millis option" where
  "next_due now db =
     (let dues = map nextAttemptAt (filter is_open (deliveries db))
      in if dues = [] then None
         else if None \<in> set dues then Some (now + 30000)
         else Some (foldl min (the (hd dues)) (map the (tl dues))))"

definition finish_drain :: "millis \<Rightarrow> dispatcher \<Rightarrow> dispatcher" where
  "finish_drain now s =
     (let s' = s\<lparr>draining := False, queue := []\<rparr>
      in if \<not> running s then s'
         else case next_due now (store s) of
           None \<Rightarrow> s' | Some t \<Rightarrow> scheduleDrain (max 1000 (t - now)) now s')"

definition drain_step :: "(string \<Rightarrow> string + string) \<Rightarrow> millis \<Rightarrow> dispatcher \<Rightarrow> dispatcher" where
  "drain_step decrypt now s =
     (if \<not> draining s \<or> sending s \<noteq> None then s
      else if \<not> running s then finish_drain now s
      else case queue s of
        [] \<Rightarrow> finish_drain now s
      | i # is \<Rightarrow>
          (case deliver decrypt now i (store s) of
             Nothing_to_send \<Rightarrow> s\<lparr>queue := is\<rparr>
           | Wrote db \<Rightarrow> s\<lparr>queue := is, store := db\<rparr>
           | Sending d r e url \<Rightarrow> s\<lparr>queue := is, sending := Some (d, r)\<rparr>))"

text \<open>The webhook request ends; an abort of a stopping dispatcher leaves the delivery as it was.\<close>

definition send_ends :: "millis \<Rightarrow> outcome \<Rightarrow> dispatcher \<Rightarrow> dispatcher" where
  "send_ends now out s =
     (case sending s of
        None \<Rightarrow> s
      | Some (d, r) \<Rightarrow>
          let s' = s\<lparr>sending := None, sends := sends s @ [(delivery_id d, out)]\<rparr>
          in case out of
               Sent \<Rightarrow> s'\<lparr>store := succeed now d (rule_id r) (store s)\<rparr>
             | Refused message \<Rightarrow> s'\<lparr>store := fail now d (rule_id r) message (store s)\<rparr>
             | Aborted message \<Rightarrow>
                 if \<not> running s then s\<lparr>sending := None\<rparr>
                 else s'\<lparr>store := fail now d (rule_id r) message (store s)\<rparr>)"

definition with_store :: "(note_db \<Rightarrow> note_db) \<Rightarrow> dispatcher \<Rightarrow> dispatcher" where
  "with_store f s = s\<lparr>store := f (store s)\<rparr>"

inductive note_step :: "(string \<Rightarrow> string + string) \<Rightarrow> dispatcher \<Rightarrow> dispatcher \<Rightarrow> bool" for decrypt where
  "note_step decrypt s (start_dispatcher now s)"
| "note_step decrypt s (stop_dispatcher s)"
| "note_step decrypt s (snd (enqueue now e s))"
| "note_step decrypt s (snd (reconcile now s))"
| "note_step decrypt s (drain now s)"
| "note_step decrypt s (drain_step decrypt now s)"
| "note_step decrypt s (send_ends now out s)"
| "replaceRuleConfiguration i body now (store s) = Inr db \<Longrightarrow> note_step decrypt s (s\<lparr>store := db\<rparr>)"
| "find_rule fresh (store s) = None \<Longrightarrow> note_step decrypt s (with_store (create_rule fresh body now) s)"
| "note_step decrypt s (with_store (delete_rule i) s)"
| "find_event (event_id e) (store s) = None \<Longrightarrow>
     note_step decrypt s (with_store (\<lambda>db. db\<lparr>events := events db @ [e]\<rparr>) s)"
| "note_step decrypt s (with_store (delete_event n) s)"

definition no_notes :: dispatcher where
  "no_notes = \<lparr>store = \<lparr>rules = [], events = [], deliveries = [], next_delivery = 0\<rparr>,
     running = False, drain_at = None, draining = False, queue = [], sending = None, sends = []\<rparr>"

inductive note_run :: "(string \<Rightarrow> string + string) \<Rightarrow> dispatcher \<Rightarrow> bool" for decrypt where
  "note_run decrypt no_notes"
| "note_run decrypt s \<Longrightarrow> note_step decrypt s s' \<Longrightarrow> note_run decrypt s'"

section \<open>The tables\<close>

definition row_ok :: "note_db \<Rightarrow> delivery_row \<Rightarrow> bool" where
  "row_ok db d \<longleftrightarrow>
     delivery_id d < next_delivery db \<and> delivery_rule d \<in> rule_id ` set (rules db) \<and>
     delivery_event d \<in> event_id ` set (events db) \<and>
     attempts d \<le> maxAttempts \<and> (is_open d \<longrightarrow> attempts d < maxAttempts)"

definition store_ok :: "note_db \<Rightarrow> bool" where
  "store_ok db \<longleftrightarrow>
     distinct (map delivery_id (deliveries db)) \<and>
     distinct (map (\<lambda>d. (delivery_rule d, delivery_event d)) (deliveries db)) \<and>
     distinct (map rule_id (rules db)) \<and> list_all (row_ok db) (deliveries db)"

lemma find_SomeD: "find P xs = Some x \<Longrightarrow> x \<in> set xs \<and> P x"
  by (induction xs) (auto split: if_splits)

lemma find_unique:
  "distinct (map key xs) \<Longrightarrow> x \<in> set xs \<Longrightarrow> find (\<lambda>y. key y = key x) xs = Some x"
  by (induction xs) (auto simp: image_iff)

text \<open>How the tables change outside a delivery: rows come fresh or stay with their rule's revision.\<close>

definition rule_at :: "note_db \<Rightarrow> string \<Rightarrow> nat \<Rightarrow> bool" where
  "rule_at db i n \<longleftrightarrow> list_ex (\<lambda>r. rule_id r = i \<and> revision r = n) (rules db)"

lemma rule_at_rules: "rules db' = rules db \<Longrightarrow> rule_at db' = rule_at db"
  by (simp add: rule_at_def fun_eq_iff)

definition row_stays :: "note_db \<Rightarrow> note_db \<Rightarrow> delivery_row \<Rightarrow> bool" where
  "row_stays db db' d \<longleftrightarrow>
     d \<in> set (deliveries db) \<and>
     (\<forall>n. rule_at db (delivery_rule d) n \<longrightarrow> rule_at db' (delivery_rule d) n)"

definition row_fresh :: "note_db \<Rightarrow> delivery_row \<Rightarrow> bool" where
  "row_fresh db d \<longleftrightarrow> next_delivery db \<le> delivery_id d \<and> is_open d \<and> attempts d = 0"

definition evolves :: "note_db \<Rightarrow> note_db \<Rightarrow> bool" where
  "evolves db db' \<longleftrightarrow>
     store_ok db' \<and> next_delivery db \<le> next_delivery db' \<and>
     list_all (\<lambda>d. row_stays db db' d \<or> row_fresh db d) (deliveries db')"

lemma evolves_refl: "store_ok db \<Longrightarrow> evolves db db"
  by (auto simp: evolves_def row_stays_def list_all_iff)

lemma evolves_trans:
  assumes "evolves db db'" "evolves db' db''"
  shows "evolves db db''"
proof -
  have "row_stays db db'' d \<or> row_fresh db d" if "d \<in> set (deliveries db'')" for d
  proof -
    from assms(2) that have "row_stays db' db'' d \<or> row_fresh db' d"
      by (simp add: evolves_def list_all_iff)
    then show ?thesis
    proof
      assume "row_fresh db' d"
      with assms(1) show ?thesis by (auto simp: row_fresh_def evolves_def)
    next
      assume s: "row_stays db' db'' d"
      then have "row_stays db db' d \<or> row_fresh db d"
        using assms(1) by (auto simp: evolves_def list_all_iff row_stays_def)
      with s show ?thesis by (fastforce simp: row_stays_def)
    qed
  qed
  with assms show ?thesis by (auto simp: evolves_def list_all_iff)
qed

lemma insert_delivery_evolves:
  assumes "store_ok db" "insert_delivery now r e db = Inr db'"
  shows "evolves db db' \<and> rules db' = rules db \<and> events db' = events db \<and> has_delivery r e db' \<and>
    (\<forall>r' e'. has_delivery r' e' db \<longrightarrow> has_delivery r' e' db')"
proof (cases "has_delivery r e db")
  case True
  with assms show ?thesis by (simp add: insert_delivery_def evolves_refl)
next
  case False
  have found: "rule_id r \<in> rule_id ` set (rules db)" "event_id e \<in> event_id ` set (events db)"
    and db': "db' = db\<lparr>deliveries := deliveries db @
            [\<lparr>delivery_id = next_delivery db, delivery_rule = rule_id r, delivery_revision = revision r,
              delivery_event = event_id e, delivery_status = Pending, attempts = 0,
              nextAttemptAt = Some now, lastError = None\<rparr>],
          next_delivery := Suc (next_delivery db)\<rparr>"
    using assms(2) False
    by (auto simp: insert_delivery_def find_rule_def find_event_def dest!: find_SomeD split: if_splits)
      (metis find_SomeD imageI)+
  have "store_ok db'"
    using assms(1) found False
    by (auto simp: db' store_ok_def row_ok_def list_all_iff is_open_def maxAttempts_def has_delivery_def
        list_ex_iff less_Suc_eq)
  then show ?thesis
    using assms(1)
    by (auto simp: db' evolves_def row_stays_def row_fresh_def list_all_iff is_open_def has_delivery_def
        list_ex_iff rule_at_def)
qed

lemma insert_each_evolves:
  assumes "store_ok db" "insert_each now ps db = (err, db')"
  shows "evolves db db' \<and> rules db' = rules db \<and> events db' = events db \<and>
    (\<forall>r e. has_delivery r e db \<longrightarrow> has_delivery r e db')"
  using assms
proof (induction ps arbitrary: db)
  case Nil
  then show ?case by (simp add: evolves_refl)
next
  case (Cons p ps)
  obtain r e where p: "p = (r, e)" by (cases p)
  show ?case
  proof (cases "matchesRule (eventTypes r) e")
    case False
    with Cons p show ?thesis by simp
  next
    case True
    show ?thesis
    proof (cases "insert_delivery now r e db")
      case (Inl x)
      with Cons p True show ?thesis by (simp add: evolves_refl)
    next
      case (Inr db1)
      note i = insert_delivery_evolves [OF Cons.prems(1) Inr]
      then have "store_ok db1" by (simp add: evolves_def)
      from Cons.IH [OF this] Cons.prems(2) p True Inr
      have "evolves db1 db' \<and> rules db' = rules db1 \<and> events db' = events db1 \<and>
        (\<forall>r e. has_delivery r e db1 \<longrightarrow> has_delivery r e db')" by simp
      with i evolves_trans [of db db1 db'] show ?thesis by auto
    qed
  qed
qed

lemma reconcile_rules_evolves:
  assumes "store_ok db" "reconcile_rules now rs db = (err, db')"
  shows "evolves db db' \<and> rules db' = rules db \<and> events db' = events db \<and>
    (\<forall>r e. has_delivery r e db \<longrightarrow> has_delivery r e db')"
  using assms
proof (induction rs arbitrary: db)
  case Nil
  then show ?case by (simp add: evolves_refl)
next
  case (Cons r rs)
  obtain err1 db1 where e: "enqueueForRules now (filter (\<lambda>e. event_id e > startAfterEventId r) (events db)) [r] db
      = (err1, db1)"
    by fastforce
  note i = insert_each_evolves [OF Cons.prems(1) e [unfolded enqueueForRules_def]]
  then have ok: "store_ok db1" by (simp add: evolves_def)
  show ?case
  proof (cases err1)
    case None
    with Cons.IH [OF ok] Cons.prems(2) e i evolves_trans [of db db1 db'] show ?thesis by auto
  qed (use Cons.prems(2) e i in simp)
qed

lemma rewrite_evolves:
  assumes "store_ok db"
  shows "evolves db (rewrite_rule i values db)"
proof -
  let ?f = "\<lambda>r. if rule_id r = i then replaced_rule values r else r"
  have ids: "map rule_id (map ?f (rules db)) = map rule_id (rules db)"
    by (simp add: replaced_rule_def)
  then have "rule_id ` set (map ?f (rules db)) = rule_id ` set (rules db)"
    by (metis set_map)
  then have "store_ok (rewrite_rule i values db)"
    using assms ids
    by (auto simp: store_ok_def rewrite_rule_def row_ok_def list_all_iff simp del: map_map
        intro: distinct_map_filter)
  moreover have "row_stays db (rewrite_rule i values db) d"
    if "d \<in> set (deliveries db)" "delivery_rule d \<noteq> i" for d
    using that by (auto simp: row_stays_def rewrite_rule_def rule_at_def list_ex_iff)
  ultimately show ?thesis by (auto simp: evolves_def list_all_iff rewrite_rule_def)
qed

lemma delete_rule_evolves: "store_ok db \<Longrightarrow> evolves db (delete_rule i db)"
  by (auto simp: evolves_def store_ok_def row_ok_def row_stays_def delete_rule_def list_all_iff
      distinct_map_filter image_iff rule_at_def list_ex_iff)

lemma delete_event_evolves: "store_ok db \<Longrightarrow> evolves db (delete_event i db)"
  by (auto simp: evolves_def store_ok_def row_ok_def row_stays_def delete_event_def list_all_iff
      distinct_map_filter image_iff rule_at_def list_ex_iff)

lemma insert_rule_evolves:
  "store_ok db \<Longrightarrow> find_rule (rule_id r) db = None \<Longrightarrow> evolves db (insert_rule r db)"
  by (auto simp: evolves_def store_ok_def row_ok_def row_stays_def insert_rule_def list_all_iff
      find_rule_def find_None_iff rule_at_def list_ex_iff)

lemma insert_event_evolves: "store_ok db \<Longrightarrow> evolves db (db\<lparr>events := events db @ [e]\<rparr>)"
  by (auto simp: evolves_def store_ok_def row_ok_def row_stays_def list_all_iff rule_at_def)

lemma create_rule_evolves:
  assumes "store_ok db" "find_rule fresh db = None"
  shows "evolves db (create_rule fresh body now db)"
  using insert_rule_evolves [OF assms(1), of "ruleValues fresh body now db"] rewrite_evolves [OF assms(1)]
    assms(2)
  by (auto simp: create_rule_def upsertBrowserRule_def ruleValues_def split: option.split)


section \<open>The life of a delivery\<close>

definition counted :: "nat \<Rightarrow> (nat \<times> outcome) list \<Rightarrow> nat" where
  "counted i log = length (filter (\<lambda>(j, out). j = i) log)"

definition sent :: "nat \<Rightarrow> (nat \<times> outcome) list \<Rightarrow> nat" where
  "sent i log = length (filter (\<lambda>(j, out). j = i \<and> out = Sent) log)"

lemma counted_simps [simp]:
  "counted i [] = 0" "counted i (log @ [(j, out)]) = counted i log + (if j = i then 1 else 0)"
  by (simp_all add: counted_def)

lemma sent_simps [simp]:
  "sent i [] = 0"
  "sent i (log @ [(j, out)]) = sent i log + (if j = i \<and> out = Sent then 1 else 0)"
  by (simp_all add: sent_def)

lemma sent_le_counted: "sent i log \<le> counted i log"
  by (induction log) (auto simp: sent_def counted_def)

definition row_logged :: "(nat \<times> outcome) list \<Rightarrow> delivery_row \<Rightarrow> bool" where
  "row_logged log d \<longleftrightarrow>
     counted (delivery_id d) log \<le> attempts d \<and>
     (delivery_status d \<noteq> Delivered \<longrightarrow> sent (delivery_id d) log = 0)"

text \<open>The delivery whose request is under way: its row is as it was read, or gone.\<close>

definition claimed :: "note_db \<Rightarrow> delivery_row \<Rightarrow> bool" where
  "claimed db d \<longleftrightarrow>
     delivery_id d < next_delivery db \<and> is_open d \<and> attempts d < maxAttempts \<and>
     list_all (\<lambda>x. delivery_id x = delivery_id d \<longrightarrow>
        x = d \<and> rule_at db (delivery_rule d) (delivery_revision d)) (deliveries db)"

definition flight_ok :: "dispatcher \<Rightarrow> bool" where
  "flight_ok s \<longleftrightarrow>
     (case sending s of
        None \<Rightarrow> True
      | Some (d, r) \<Rightarrow>
          draining s \<and> claimed (store s) d \<and> row_logged (sends s) d \<and> rule_id r = delivery_rule d \<and>
          delivery_id d \<notin> set (queue s))"

definition log_ok :: "dispatcher \<Rightarrow> bool" where
  "log_ok s \<longleftrightarrow>
     (\<forall>i. counted i (sends s) \<le> maxAttempts \<and> sent i (sends s) \<le> 1 \<and>
        (next_delivery (store s) \<le> i \<longrightarrow> counted i (sends s) = 0)) \<and>
     list_all (row_logged (sends s)) (deliveries (store s))"

definition queue_ok :: "dispatcher \<Rightarrow> bool" where
  "queue_ok s \<longleftrightarrow>
     distinct (queue s) \<and>
     list_all (\<lambda>d. delivery_id d \<in> set (queue s) \<longrightarrow> is_open d) (deliveries (store s))"

definition note_inv :: "dispatcher \<Rightarrow> bool" where
  "note_inv s \<longleftrightarrow> store_ok (store s) \<and> log_ok s \<and> flight_ok s \<and> queue_ok s"

lemma note_inv_frame:
  assumes "store s' = store s" "sends s' = sends s" "sending s' = sending s" "queue s' = queue s"
    "draining s' = draining s"
  shows "note_inv s' = note_inv s"
  using assms by (simp add: note_inv_def log_ok_def flight_ok_def queue_ok_def cong: option.case_cong)

lemma note_inv_schedule [simp]: "note_inv (scheduleDrain delay now s) = note_inv s"
  by (rule note_inv_frame) (simp_all add: scheduleDrain_def)

lemma note_inv_evolves:
  assumes "note_inv s" "evolves (store s) db"
  shows "note_inv (s\<lparr>store := db\<rparr>)"
proof -
  have rows: "row_stays (store s) db d \<or> row_fresh (store s) d" if "d \<in> set (deliveries db)" for d
    using assms(2) that by (auto simp: evolves_def list_all_iff)
  have le: "next_delivery (store s) \<le> next_delivery db" and ok: "store_ok db"
    using assms(2) by (simp_all add: evolves_def)
  have fresh: "row_logged (sends s) d" if "row_fresh (store s) d" for d
  proof -
    have "counted (delivery_id d) (sends s) = 0"
      using assms(1) that by (auto simp: note_inv_def log_ok_def row_fresh_def)
    with sent_le_counted [of "delivery_id d" "sends s"] show ?thesis by (simp add: row_logged_def)
  qed
  have "log_ok (s\<lparr>store := db\<rparr>)"
    using assms(1) rows fresh le
    by (fastforce simp: note_inv_def log_ok_def row_stays_def list_all_iff)
  moreover have "queue_ok (s\<lparr>store := db\<rparr>)"
    using assms(1) rows by (fastforce simp: note_inv_def queue_ok_def row_stays_def row_fresh_def list_all_iff)
  moreover have "claimed db d" if "claimed (store s) d" for d
    using that rows le by (fastforce simp: claimed_def row_stays_def row_fresh_def list_all_iff)
  then have "flight_ok (s\<lparr>store := db\<rparr>)"
    using assms(1) by (auto simp: note_inv_def flight_ok_def split: option.splits)
  ultimately show ?thesis using ok by (simp add: note_inv_def)
qed

text \<open>The write that follows a delivery replaces its row, if it is still there.\<close>

definition settled :: "delivery_row \<Rightarrow> delivery_row \<Rightarrow> note_db \<Rightarrow> note_db \<Rightarrow> bool" where
  "settled d d' db db' \<longleftrightarrow>
     deliveries db' = map (\<lambda>x. if delivery_id x = delivery_id d then d' else x) (deliveries db) \<and>
     delivery_id d' = delivery_id d \<and> delivery_rule d' = delivery_rule d \<and>
     delivery_event d' = delivery_event d \<and> attempts d \<le> attempts d' \<and> attempts d' \<le> maxAttempts \<and>
     (is_open d' \<longrightarrow> attempts d' < maxAttempts) \<and>
     next_delivery db' = next_delivery db \<and> events db' = events db \<and>
     map rule_id (rules db') = map rule_id (rules db)"

definition alone :: "note_db \<Rightarrow> delivery_row \<Rightarrow> bool" where
  "alone db d \<longleftrightarrow> list_all (\<lambda>x. delivery_id x = delivery_id d \<longrightarrow> x = d) (deliveries db)"

lemma alone_row: "store_ok db \<Longrightarrow> d \<in> set (deliveries db) \<Longrightarrow> alone db d"
  by (auto simp: alone_def store_ok_def list_all_iff dest: inj_onD [OF distinct_map [THEN iffD1, THEN conjunct2]])

lemma update_delivery_alone:
  "alone db d \<Longrightarrow> deliveries (update_delivery d f db)
     = map (\<lambda>x. if delivery_id x = delivery_id d then f d else x) (deliveries db)"
  by (auto simp: update_delivery_def alone_def list_all_iff)

lemma update_frame [simp]:
  "rules (update_delivery d f db) = rules db" "events (update_delivery d f db) = events db"
  "next_delivery (update_delivery d f db) = next_delivery db"
  "deliveries (update_rule i n g db) = deliveries db" "events (update_rule i n g db) = events db"
  "next_delivery (update_rule i n g db) = next_delivery db"
  by (simp_all add: update_delivery_def update_rule_def)

lemma update_rule_ids: "(\<And>r. rule_id (g r) = rule_id r) \<Longrightarrow> map rule_id (rules (update_rule i n g db)) = map rule_id (rules db)"
  by (simp add: update_rule_def)

lemma settled_ok:
  assumes "store_ok db" "settled d d' db db'" "alone db d"
  shows "store_ok db'"
proof -
  let ?f = "\<lambda>x. if delivery_id x = delivery_id d then d' else x"
  have same: "delivery_id (?f x) = delivery_id x" "delivery_rule (?f x) = delivery_rule x"
    "delivery_event (?f x) = delivery_event x" if "x \<in> set (deliveries db)" for x
    using assms(2,3) that by (auto simp: settled_def alone_def list_all_iff)
  have "map delivery_id (deliveries db') = map delivery_id (deliveries db)"
    "map (\<lambda>d. (delivery_rule d, delivery_event d)) (deliveries db')
      = map (\<lambda>d. (delivery_rule d, delivery_event d)) (deliveries db)"
    using same assms(2) by (simp_all add: settled_def)
  moreover from assms(2) have ids: "rule_id ` set (rules db') = rule_id ` set (rules db)"
    unfolding settled_def by (metis set_map)
  have row: "row_ok db' (?f x)" if "x \<in> set (deliveries db)" for x
    using assms that same [OF that] ids
    by (auto simp: settled_def store_ok_def list_all_iff row_ok_def alone_def)
  have "deliveries db' = map ?f (deliveries db)" using assms(2) by (simp add: settled_def)
  then have "list_all (row_ok db') (deliveries db')"
    using row unfolding list_all_iff by (metis (no_types, lifting) imageE list.set_map)
  moreover have "map rule_id (rules db') = map rule_id (rules db)"
    using assms(2) by (simp add: settled_def)
  ultimately show ?thesis
    using assms(1) by (simp add: store_ok_def)
qed

lemma fail_settled:
  assumes "alone db d" "is_open d" "attempts d < maxAttempts"
  obtains d' where "settled d d' db (fail now d i message db)" "delivery_status d' \<noteq> Delivered"
    "rule_at db i (delivery_revision d) \<Longrightarrow> attempts d' = attempts d + 1"
proof (cases "find (\<lambda>r. rule_id r = i \<and> revision r = delivery_revision d) (rules db)")
  case None
  have "map (\<lambda>x. if delivery_id x = delivery_id d then d else x) (deliveries db) = deliveries db"
    using assms(1) by (intro map_idI) (auto simp: alone_def list_all_iff)
  then have "settled d d db (fail now d i message db)"
    using assms None by (simp add: settled_def fail_def Let_def)
  then show ?thesis
    by (rule that) (use assms None in \<open>auto simp: is_open_def rule_at_def list_ex_iff find_None_iff\<close>)
next
  case (Some r)
  let ?f = "\<lambda>x. x\<lparr>delivery_status := (if attempts d + 1 \<ge> maxAttempts then Failed else Retry), attempts := attempts d + 1,
                       nextAttemptAt := (if attempts d + 1 \<ge> maxAttempts then None else Some (now + retry_backoff (attempts d + 1))),
                       lastError := Some message\<rparr>"
  have "settled d (?f d) db (fail now d i message db)"
    using assms Some update_delivery_alone [OF assms(1)] update_rule_ids
    by (auto simp: settled_def fail_def Let_def is_open_def maxAttempts_def update_rule_def)
  then show ?thesis by (rule that) simp_all
qed


lemma succeed_settled:
  assumes "alone db d" "attempts d < maxAttempts"
  obtains d' where "settled d d' db (succeed now d i db)" "attempts d' = attempts d + 1"
    "delivery_status d' = Delivered"
proof
  let ?f = "\<lambda>x. x\<lparr>delivery_status := Delivered, attempts := attempts d + 1, nextAttemptAt := None,
            lastError := None\<rparr>"
  show "settled d (?f d) db (succeed now d i db)"
    using assms update_delivery_alone [OF assms(1)]
    by (simp add: settled_def succeed_def is_open_def update_rule_ids)
qed simp_all

lemma update_settled:
  assumes "alone db d" "attempts d < maxAttempts" "delivery_id (f d) = delivery_id d"
    "delivery_rule (f d) = delivery_rule d" "delivery_event (f d) = delivery_event d"
    "attempts (f d) = attempts d"
  shows "settled d (f d) db (update_delivery d f db)"
  using assms update_delivery_alone [OF assms(1)] by (simp add: settled_def)

lemma find_delivery_row:
  "find_delivery i db = Some d \<Longrightarrow> d \<in> set (deliveries db) \<and> delivery_id d = i"
  by (auto simp: find_delivery_def dest: find_SomeD)

lemma find_rule_row: "find_rule i db = Some r \<Longrightarrow> r \<in> set (rules db) \<and> rule_id r = i"
  by (auto simp: find_rule_def dest: find_SomeD)

lemma deliver_settles:
  assumes "store_ok db" "find_delivery i db = Some d" "is_open d" "deliver decrypt now i db = Wrote db'"
  obtains d' where "settled d d' db db'" "delivery_status d' \<noteq> Delivered"
proof -
  have d: "d \<in> set (deliveries db)" using assms(2) by (simp add: find_delivery_row)
  have a: "alone db d" by (rule alone_row [OF assms(1) d])
  have n: "attempts d < maxAttempts"
    using assms(1,3) d by (auto simp: store_ok_def row_ok_def list_all_iff)
  note u = update_settled [OF a n] and f = fail_settled [OF a assms(3) n]
  from assms(4) consider
      "db' = update_delivery d (\<lambda>x. x\<lparr>delivery_status := Failed, nextAttemptAt := None,
         lastError := Some ''Notification rule is no longer active.''\<rparr>) db"
    | t where "db' = update_delivery d (\<lambda>x. x\<lparr>delivery_status := Retry, nextAttemptAt := Some t\<rparr>) db"
    | m j where "db' = fail now d j m db"
    by (auto simp: deliver_def assms(2) split: option.splits if_splits sum.splits)
  then show ?thesis
  proof cases
    case 1
    show ?thesis
      by (rule that [OF u [where f = "\<lambda>x. x\<lparr>delivery_status := Failed, nextAttemptAt := None,
         lastError := Some ''Notification rule is no longer active.''\<rparr>"
         , folded 1]]) simp_all
  next
    case (2 t)
    show ?thesis
      by (rule that [OF u [where f = "\<lambda>x. x\<lparr>delivery_status := Retry, nextAttemptAt := Some t\<rparr>"
         , folded 2]]) simp_all
  next
    case (3 m j)
    show ?thesis using f [of now j m thesis] that unfolding 3 by blast
  qed
qed

lemma deliver_sends:
  assumes "store_ok db" "find_delivery i db = Some d" "is_open d" "deliver decrypt now i db = Sending d' r e url"
  shows "d' = d" "rule_id r = delivery_rule d" "claimed db d" "rule_current r d"
    "suspended_at r now = None" "find_rule (delivery_rule d) db = Some r"
proof -
  have d: "d \<in> set (deliveries db)" using assms(2) by (simp add: find_delivery_row)
  have r: "d' = d \<and> find_rule (delivery_rule d) db = Some r \<and> rule_current r d \<and> suspended_at r now = None"
    using assms(4) by (auto simp: deliver_def assms(2) split: option.splits if_splits sum.splits)
  then show "d' = d" "rule_id r = delivery_rule d" "rule_current r d" "suspended_at r now = None"
    "find_rule (delivery_rule d) db = Some r"
    by (auto dest: find_rule_row)
  have "rule_at db (delivery_rule d) (delivery_revision d)"
    using r find_rule_row [of "delivery_rule d" db r] by (auto simp: rule_at_def list_ex_iff rule_current_def)
  then show "claimed db d"
    using assms(1,3) d alone_row [OF assms(1) d]
    by (auto simp: claimed_def alone_def store_ok_def row_ok_def list_all_iff)
qed

lemma settled_rows:
  "settled d d' db db' \<Longrightarrow> x \<in> set (deliveries db') \<Longrightarrow>
   x \<in> set (deliveries db) \<and> delivery_id x \<noteq> delivery_id d \<or>
   x = d' \<and> delivery_id x = delivery_id d \<and> (\<exists>y\<in>set (deliveries db). delivery_id y = delivery_id d)"
  by (auto simp: settled_def split: if_splits)

lemma drain_step_inv:
  assumes inv: "note_inv s"
  shows "note_inv (drain_step decrypt now s)"
proof -
  have fin: "note_inv (finish_drain now s)" if "sending s = None"
    using inv that
    by (auto simp: finish_drain_def Let_def note_inv_def log_ok_def flight_ok_def queue_ok_def
        scheduleDrain_def list_all_iff split: option.split)
  show ?thesis
  proof (cases "draining s \<and> sending s = None \<and> running s \<and> queue s \<noteq> []")
    case False
    then have "drain_step decrypt now s = s \<or> sending s = None \<and> drain_step decrypt now s = finish_drain now s"
      by (cases "sending s"; cases "queue s") (auto simp: drain_step_def)
    with fin inv show ?thesis by auto
  next
    case True
    then obtain i rest where q: "queue s = i # rest" by (cases "queue s") auto
    have ok: "store_ok (store s)" using inv by (simp add: note_inv_def)
    have shorter: "note_inv (s\<lparr>queue := rest\<rparr>)"
      using inv True q by (auto simp: note_inv_def log_ok_def flight_ok_def queue_ok_def list_all_iff)
    show ?thesis
    proof (cases "find_delivery i (store s)")
      case None
      then show ?thesis using True q shorter by (simp add: drain_step_def deliver_def)
    next
      case (Some d)
      have d: "d \<in> set (deliveries (store s))" "delivery_id d = i" using Some by (simp_all add: find_delivery_row)
      have opn: "is_open d" using inv q d by (auto simp: note_inv_def queue_ok_def list_all_iff)
      have logd: "row_logged (sends s) d" using inv d by (auto simp: note_inv_def log_ok_def list_all_iff)
      show ?thesis
      proof (cases "deliver decrypt now i (store s)")
        case Nothing_to_send
        then show ?thesis using True q shorter by (simp add: drain_step_def)
      next
        case (Wrote db')
        obtain d' where st: "settled d d' (store s) db'" and nd: "delivery_status d' \<noteq> Delivered"
          by (rule deliver_settles [OF ok Some opn Wrote])
        note ok' = settled_ok [OF ok st alone_row [OF ok d(1)]]
        have "row_logged (sends s) d'"
          using logd opn st by (auto simp: row_logged_def settled_def is_open_def)
        then have "log_ok (s\<lparr>queue := rest, store := db'\<rparr>)"
          using inv settled_rows [OF st] st
          by (auto simp: note_inv_def log_ok_def list_all_iff settled_def)
        moreover have "queue_ok (s\<lparr>queue := rest, store := db'\<rparr>)"
          using inv settled_rows [OF st] q d(2)
          by (fastforce simp: note_inv_def queue_ok_def list_all_iff)
        ultimately show ?thesis
          using True q Wrote ok' by (simp add: drain_step_def note_inv_def flight_ok_def)
      next
        case (Sending d' r e url)
        note g = deliver_sends [OF ok Some opn Sending]
        have "flight_ok (s\<lparr>queue := rest, sending := Some (d', r)\<rparr>)"
          using inv True q d(2) g logd by (auto simp: flight_ok_def note_inv_def queue_ok_def)
        then show ?thesis
          using shorter True q Sending by (simp add: drain_step_def note_inv_def log_ok_def queue_ok_def)
      qed
    qed
  qed
qed

lemma send_ends_inv:
  assumes inv: "note_inv s"
  shows "note_inv (send_ends now out s)"
proof (cases "sending s")
  case None
  with inv show ?thesis by (simp add: send_ends_def)
next
  case (Some dr)
  then obtain d r where dr: "sending s = Some (d, r)" by (cases dr) simp
  have ok: "store_ok (store s)" and cl: "claimed (store s) d" and lg: "row_logged (sends s) d"
    and rid: "rule_id r = delivery_rule d" and nq: "delivery_id d \<notin> set (queue s)"
    using inv dr by (auto simp: note_inv_def flight_ok_def)
  have al: "alone (store s) d" and opn: "is_open d" and att: "attempts d < maxAttempts"
    and nxt: "delivery_id d < next_delivery (store s)"
    using cl by (auto simp: claimed_def alone_def list_all_iff)
  have present: "rule_at (store s) (delivery_rule d) (delivery_revision d)"
    if "y \<in> set (deliveries (store s))" "delivery_id y = delivery_id d" for y
    using cl that by (auto simp: claimed_def list_all_iff)
  have ended: "note_inv (s\<lparr>sending := None, sends := sends s @ [(delivery_id d, out)], store := db'\<rparr>)"
    if st: "settled d d' (store s) db'"
      and cnt: "(\<exists>y\<in>set (deliveries (store s)). delivery_id y = delivery_id d) \<Longrightarrow> attempts d' = attempts d + 1"
      and dl: "delivery_status d' \<noteq> Delivered \<Longrightarrow> out \<noteq> Sent" for d' db'
  proof -
    let ?s = "s\<lparr>sending := None, sends := sends s @ [(delivery_id d, out)], store := db'\<rparr>"
    have "row_logged (sends ?s) x" if "x \<in> set (deliveries db')" for x
      using settled_rows [OF st that]
    proof (elim disjE conjE)
      assume "x \<in> set (deliveries (store s))" "delivery_id x \<noteq> delivery_id d"
      then show ?thesis using inv by (auto simp: note_inv_def log_ok_def list_all_iff row_logged_def)
    next
      assume "x = d'" "delivery_id x = delivery_id d" "\<exists>y\<in>set (deliveries (store s)). delivery_id y = delivery_id d"
      then show ?thesis using cnt dl lg opn by (auto simp: row_logged_def is_open_def)
    qed
    moreover have "counted i (sends ?s) \<le> maxAttempts \<and> sent i (sends ?s) \<le> 1 \<and>
        (next_delivery db' \<le> i \<longrightarrow> counted i (sends ?s) = 0)" for i
      using inv lg opn att nxt st
      by (auto simp: note_inv_def log_ok_def row_logged_def is_open_def settled_def maxAttempts_def)
    ultimately have "log_ok ?s" by (simp add: log_ok_def list_all_iff)
    moreover have "queue_ok ?s"
      using inv settled_rows [OF st] nq by (fastforce simp: note_inv_def queue_ok_def list_all_iff)
    ultimately show ?thesis
      using settled_ok [OF ok st al] by (simp add: note_inv_def flight_ok_def)
  qed
  have failed: "note_inv (s\<lparr>sending := None, sends := sends s @ [(delivery_id d, out)],
      store := fail now d (rule_id r) m (store s)\<rparr>)" if "out \<noteq> Sent" for m
  proof -
    obtain d' where st: "settled d d' (store s) (fail now d (rule_id r) m (store s))"
      and "rule_at (store s) (rule_id r) (delivery_revision d) \<Longrightarrow> attempts d' = attempts d + 1"
      using fail_settled [OF al opn att, of now "rule_id r" m thesis] by blast
    then show ?thesis using present rid that by (intro ended [OF st]) auto
  qed
  have succeeded: "note_inv (s\<lparr>sending := None, sends := sends s @ [(delivery_id d, out)],
      store := succeed now d (rule_id r) (store s)\<rparr>)"
  proof -
    obtain d' where st: "settled d d' (store s) (succeed now d (rule_id r) (store s))"
      and "attempts d' = attempts d + 1" "delivery_status d' = Delivered"
      by (rule succeed_settled [OF al att])
    then show ?thesis by (intro ended [OF st]) auto
  qed
  have "note_inv (s\<lparr>sending := None\<rparr>)"
    using inv by (simp add: note_inv_def log_ok_def flight_ok_def queue_ok_def)
  with failed succeeded show ?thesis
    by (cases out) (simp_all add: send_ends_def dr Let_def)
qed


lemma reconcileNow_evolves:
  assumes "store_ok db"
  shows "evolves db (snd (reconcileNow now db))"
  using reconcile_rules_evolves [OF assms, of now "enabled_webhooks db"]
  by (cases "reconcileNow now db") (simp add: reconcileNow_def)

lemma note_step_inv:
  assumes "note_step decrypt s s'" and inv: "note_inv s"
  shows "note_inv s'"
  using assms(1)
proof (cases rule: note_step.cases)
  case (1 now)
  have ok: "store_ok (store s)" using inv by (simp add: note_inv_def)
  have "note_inv (s\<lparr>store := snd (reconcileNow now (store s))\<rparr>)"
    by (rule note_inv_evolves [OF inv reconcileNow_evolves [OF ok]])
  then show ?thesis
    unfolding 1 start_dispatcher_def note_inv_schedule
    by (subst note_inv_frame [of _ "s\<lparr>store := snd (reconcileNow now (store s))\<rparr>"])
      (simp_all add: scheduleDrain_def)
next
  case 2
  then show ?thesis using inv note_inv_frame [of "stop_dispatcher s" s] by (simp add: stop_dispatcher_def)
next
  case (3 now e)
  obtain err db where e: "enqueueForRules now [e] (enabled_webhooks (store s)) (store s) = (err, db)"
    by fastforce
  have "evolves (store s) db"
    using insert_each_evolves [OF _ e [unfolded enqueueForRules_def]] inv by (simp add: note_inv_def)
  from note_inv_evolves [OF inv this] show ?thesis
    by (cases err) (simp_all add: 3 enqueue_def e)
next
  case (4 now)
  obtain err db where e: "reconcileNow now (store s) = (err, db)" by fastforce
  have "evolves (store s) db" using reconcileNow_evolves [of "store s" now] inv e by (simp add: note_inv_def)
  from note_inv_evolves [OF inv this] show ?thesis
    by (cases err) (simp_all add: 4 reconcile_def e)
next
  case (5 now)
  let ?ids = "map delivery_id (take 20 (filter (is_due now) (deliveries (store s))))"
  have dis: "distinct (map delivery_id (deliveries (store s)))" using inv by (simp add: note_inv_def store_ok_def)
  have "distinct ?ids"
    using dis by (metis distinct_map_filter distinct_take take_map)
  moreover have "is_open d" if "d \<in> set (deliveries (store s))" "delivery_id d \<in> set ?ids" for d
  proof -
    from that(2) obtain x where "x \<in> set (filter (is_due now) (deliveries (store s)))" "delivery_id x = delivery_id d"
      by (auto dest!: in_set_takeD)
    moreover from this have "x = d" using that(1) dis by (auto simp: distinct_map inj_on_def)
    ultimately show ?thesis by (simp add: is_due_def)
  qed
  ultimately have "queue_ok (s\<lparr>queue := ?ids\<rparr>)" by (simp add: queue_ok_def list_all_iff)
  moreover have "sending s = None" if "\<not> draining s" using inv that by (cases "sending s") (auto simp: note_inv_def flight_ok_def)
  ultimately show ?thesis
    using inv unfolding 5 drain_def
    by (auto simp: note_inv_def log_ok_def flight_ok_def queue_ok_def cong: option.case_cong)
next
  case (8 i body now db)
  then have "evolves (store s) db"
    using inv by (auto simp: replaceRuleConfiguration_def note_inv_def split: option.splits intro: rewrite_evolves)
  then show ?thesis unfolding 8 by (rule note_inv_evolves [OF inv])
qed (use inv in \<open>auto simp: with_store_def note_inv_def [of s] intro!: drain_step_inv send_ends_inv
    note_inv_evolves create_rule_evolves delete_rule_evolves insert_event_evolves delete_event_evolves\<close>)

lemma note_run_inv: "note_run decrypt s \<Longrightarrow> note_inv s"
proof (induction rule: note_run.induct)
  case 1
  show ?case
    by (simp add: note_inv_def no_notes_def store_ok_def log_ok_def flight_ok_def queue_ok_def)
qed (rule note_step_inv)

section \<open>Properties\<close>

text \<open>
  C18: However rules, events, timers, requests, starts and stops interleave, a rule has at most one
  delivery per event, the webhook of a delivery succeeds at most once, a delivery is tried at most
  three times (requests aborted by a stop do not count), and one that was delivered or has failed
  for good carries no more than these tries while an open one has a try left.
\<close>

theorem delivery_sent_at_most_once:
  assumes "note_run decrypt s"
  shows "distinct (map (\<lambda>d. (delivery_rule d, delivery_event d)) (deliveries (store s))) \<and>
    sent i (sends s) \<le> 1 \<and> counted i (sends s) \<le> 3 \<and>
    (\<forall>d. find_delivery i (store s) = Some d \<longrightarrow>
       counted i (sends s) \<le> attempts d \<and> attempts d \<le> 3 \<and>
       (is_open d \<longrightarrow> attempts d < 3 \<and> sent i (sends s) = 0))"
proof -
  have inv: "note_inv s" by (rule note_run_inv [OF assms])
  have "counted i (sends s) \<le> attempts d \<and> attempts d \<le> 3 \<and>
       (is_open d \<longrightarrow> attempts d < 3 \<and> sent i (sends s) = 0)"
    if "find_delivery i (store s) = Some d" for d
    using inv find_delivery_row [OF that]
    by (auto simp: note_inv_def log_ok_def store_ok_def list_all_iff row_logged_def row_ok_def maxAttempts_def is_open_def)
  with inv show ?thesis by (auto simp: note_inv_def store_ok_def log_ok_def maxAttempts_def)
qed

lemma find_rule_in: "r \<in> set (rules db) \<Longrightarrow> find_rule (rule_id r) db \<noteq> None"
  by (auto simp: find_rule_def find_None_iff)

lemma find_event_in: "e \<in> set (events db) \<Longrightarrow> find_event (event_id e) db \<noteq> None"
  by (auto simp: find_event_def find_None_iff)

lemma insert_each_complete:
  assumes "store_ok db" "list_all (\<lambda>(r, e). r \<in> set (rules db) \<and> e \<in> set (events db)) ps"
    "insert_each now ps db = (err, db')"
  shows "err = None \<and> (\<forall>(r, e)\<in>set ps. matchesRule (eventTypes r) e \<longrightarrow> has_delivery r e db')"
  using assms
proof (induction ps arbitrary: db)
  case (Cons p ps)
  obtain r e where p: "p = (r, e)" by (cases p)
  show ?case
  proof (cases "matchesRule (eventTypes r) e")
    case False
    with Cons p show ?thesis by simp
  next
    case True
    have "\<exists>db1. insert_delivery now r e db = Inr db1"
      using Cons.prems(2) p find_rule_in [of r db] find_event_in [of e db]
      by (auto simp: insert_delivery_def)
    then obtain db1 where i: "insert_delivery now r e db = Inr db1" ..
    note ev = insert_delivery_evolves [OF Cons.prems(1) i]
    then have ok: "store_ok db1" by (simp add: evolves_def)
    have rest: "insert_each now ps db1 = (err, db')" using Cons.prems(3) p True i by simp
    have "err = None \<and> (\<forall>(r, e)\<in>set ps. matchesRule (eventTypes r) e \<longrightarrow> has_delivery r e db')"
      using Cons.IH [OF ok _ rest] Cons.prems(2) ev by (auto simp: list_all_iff)
    moreover have "has_delivery r e db'"
      using insert_each_evolves [OF ok rest] ev by blast
    ultimately show ?thesis using p by auto
  qed
qed simp

lemma insert_each_idle:
  assumes "list_all (\<lambda>(r, e). matchesRule (eventTypes r) e \<longrightarrow> has_delivery r e db) ps"
  shows "insert_each now ps db = (None, db)"
  using assms by (induction ps) (auto simp: insert_delivery_def)

lemma reconcile_rules_complete:
  assumes "store_ok db" "set rs \<subseteq> set (rules db)" "reconcile_rules now rs db = (err, db')"
  shows "err = None \<and> (\<forall>r\<in>set rs. \<forall>e\<in>set (events db).
    startAfterEventId r < event_id e \<longrightarrow> matchesRule (eventTypes r) e \<longrightarrow> has_delivery r e db')"
  using assms
proof (induction rs arbitrary: db)
  case (Cons r rs)
  let ?es = "filter (\<lambda>e. event_id e > startAfterEventId r) (events db)"
  obtain err1 db1 where e: "insert_each now (List.product [r] ?es) db = (err1, db1)" by fastforce
  have "list_all (\<lambda>(r, e). r \<in> set (rules db) \<and> e \<in> set (events db)) (List.product [r] ?es)"
    using Cons.prems(2) by (auto simp: list_all_iff)
  note c = insert_each_complete [OF Cons.prems(1) this e]
  note ev = insert_each_evolves [OF Cons.prems(1) e]
  then have ok: "store_ok db1" by (simp add: evolves_def)
  have rest: "reconcile_rules now rs db1 = (err, db')"
    using Cons.prems(3) e c by (simp add: enqueueForRules_def)
  note later = reconcile_rules_evolves [OF ok rest]
  have "err = None \<and> (\<forall>r\<in>set rs. \<forall>e\<in>set (events db).
    startAfterEventId r < event_id e \<longrightarrow> matchesRule (eventTypes r) e \<longrightarrow> has_delivery r e db')"
    using Cons.IH [OF ok _ rest] Cons.prems(2) ev by simp
  with c later show ?case by auto
qed simp

lemma reconcile_rules_idle:
  assumes "\<forall>r\<in>set rs. \<forall>e\<in>set (events db).
    startAfterEventId r < event_id e \<longrightarrow> matchesRule (eventTypes r) e \<longrightarrow> has_delivery r e db"
  shows "reconcile_rules now rs db = (None, db)"
  using assms
proof (induction rs)
  case (Cons r rs)
  have "insert_each now (List.product [r] (filter (\<lambda>e. event_id e > startAfterEventId r) (events db))) db = (None, db)"
    by (rule insert_each_idle) (use Cons.prems in \<open>auto simp: list_all_iff\<close>)
  with Cons show ?case by (simp add: enqueueForRules_def)
qed simp

text \<open>
  C19: Reconciliation recovers every missed notification, once: it never fails, afterwards each
  enabled webhook rule has a delivery for each event after its starting point that it matches, and
  reconciling again changes no delivery.
\<close>

theorem reconcile_recovers_missed_events:
  assumes "note_run decrypt s" "reconcile now s = (err, s')"
  shows "err = None \<and>
    (\<forall>r\<in>set (enabled_webhooks (store s)). \<forall>e\<in>set (events (store s)).
       startAfterEventId r < event_id e \<and> matchesRule (eventTypes r) e \<longrightarrow> has_delivery r e (store s')) \<and>
    store (snd (reconcile later s')) = store s'"
proof -
  have ok: "store_ok (store s)" using note_run_inv [OF assms(1)] by (simp add: note_inv_def)
  obtain er db where e: "reconcile_rules now (enabled_webhooks (store s)) (store s) = (er, db)" by fastforce
  have sub: "set (enabled_webhooks (store s)) \<subseteq> set (rules (store s))" by (auto simp: enabled_webhooks_def)
  note c = reconcile_rules_complete [OF ok sub e] and ev = reconcile_rules_evolves [OF ok e]
  have s': "err = None" "store s' = db"
    using assms(2) e c by (auto simp: reconcile_def reconcileNow_def scheduleDrain_def split: if_splits)
  have "enabled_webhooks db = enabled_webhooks (store s)" using ev by (simp add: enabled_webhooks_def)
  then have "reconcile_rules later (enabled_webhooks db) db = (None, db)"
    using c ev by (intro reconcile_rules_idle) simp
  then have "store (snd (reconcile later s')) = db"
    by (simp add: reconcile_def reconcileNow_def s' scheduleDrain_def)
  with c s' show ?thesis by simp
qed

text \<open>
  The status shown for a rule is what the dispatcher does: for a delivery of the rule's current
  revision whose event exists and whose target can be read, a request is made if and only if the
  rule is shown as effectively enabled; while it is shown as suspended the delivery is put off to
  the end of the suspension without costing a try.
\<close>

theorem effective_status_matches_dispatcher:
  assumes "find_delivery i db = Some d" "find_rule (delivery_rule d) db = Some r"
    and "revision r = delivery_revision d" "rule_target r = Webhook"
    and "webhook_secret r = Some secret" "decrypt secret = Inr url"
    and "find_event (delivery_event d) db = Some e"
    and "health = notificationRuleHealth r next_retry now"
  shows "(deliver decrypt now i db = Sending d r e url \<longleftrightarrow> effectiveEnabled health) \<and>
    (\<forall>t. effectiveStatus health = Suspended \<and> suspendedUntil health = Some t \<longrightarrow>
       deliver decrypt now i db = Wrote (update_delivery d
         (\<lambda>x. x\<lparr>delivery_status := Retry, Notifications.nextAttemptAt := Some t\<rparr>) db))"
  using assms
  by (auto simp: deliver_def notificationRuleHealth_def Let_def rule_current_def suspended_at_def
      split: option.splits if_splits)

section \<open>A concrete run\<close>

definition note_body :: rule_body where
  "note_body = \<lparr>body_name = ''n'', body_target = Webhook, body_enabled = True,
     body_eventTypes = [''steam.status.error''], body_secret = Some ''s''\<rparr>"

definition note_event :: event_row where
  "note_event = \<lparr>event_id = 1, event_type = ''steam.status'', event_status = Some ''error'', event_createdAt = 5\<rparr>"

definition note_ready :: dispatcher where
  "note_ready =
     with_store (\<lambda>db. db\<lparr>events := events db @ [note_event]\<rparr>)
       (with_store (create_rule ''r'' note_body 1) no_notes)"

definition note_failed_once :: dispatcher where
  "note_failed_once =
     send_ends 40 (Refused ''HTTP 500'')
       (drain_step Inr 30 (drain 20 (start_dispatcher 10 note_ready)))"

lemma note_ready_runs: "note_run d note_ready"
  unfolding note_ready_def
  by (rule note_run.intros(2), rule note_run.intros(2), rule note_run.intros(1),
      rule note_step.intros(9), simp add: no_notes_def find_rule_def,
      rule note_step.intros(11), code_simp)

lemma note_failed_once_runs: "note_run Inr note_failed_once"
  unfolding note_failed_once_def
  by (intro note_run.intros(2) [OF _ note_step.intros(7)] note_run.intros(2) [OF _ note_step.intros(6)]
      note_run.intros(2) [OF _ note_step.intros(5)] note_run.intros(2) [OF _ note_step.intros(1)]
      note_ready_runs)

theorem delivery_sent_at_most_once_witness:
  "counted 0 (sends note_failed_once) = 1 \<and>
   map (\<lambda>d. (delivery_status d, attempts d)) (deliveries (store note_failed_once)) = [(Retry, 1)] \<and>
   sent 0 (sends note_failed_once) \<le> 1"
proof -
  have "counted 0 (sends note_failed_once) = 1"
    "map (\<lambda>d. (delivery_status d, attempts d)) (deliveries (store note_failed_once)) = [(Retry, 1)]"
    by code_simp+
  with delivery_sent_at_most_once [OF note_failed_once_runs, of 0] show ?thesis by simp
qed

theorem reconcile_recovers_missed_events_witness:
  "fst (reconcile 10 note_ready) = None \<and>
   store (snd (reconcile 30 (snd (reconcile 10 note_ready)))) = store (snd (reconcile 10 note_ready)) \<and>
   length (deliveries (store (snd (reconcile 10 note_ready)))) = 1"
proof -
  have "length (deliveries (store (snd (reconcile 10 note_ready)))) = 1" by code_simp
  with reconcile_recovers_missed_events [OF note_ready_runs prod.collapse [symmetric], of 10 30]
  show ?thesis by simp
qed

definition note_delivery :: delivery_row where
  "note_delivery = hd (deliveries (store (start_dispatcher 10 note_ready)))"

definition note_rule :: rule_row where
  "note_rule = (hd (rules (store note_ready)))\<lparr>disabledUntil := Some 99\<rparr>"

definition note_suspended :: note_db where
  "note_suspended = \<lparr>rules = [note_rule], events = [note_event], deliveries = [note_delivery], next_delivery = 1\<rparr>"

theorem effective_status_matches_dispatcher_witness:
  "effectiveStatus (notificationRuleHealth note_rule None 50) = Suspended \<and>
   deliver Inr 50 0 note_suspended = Wrote (update_delivery note_delivery
     (\<lambda>x. x\<lparr>delivery_status := Retry, Notifications.nextAttemptAt := Some 99\<rparr>) note_suspended) \<and>
   deliver Inr 100 0 note_suspended = Sending note_delivery note_rule note_event ''s''"
proof -
  have d: "find_delivery 0 note_suspended = Some note_delivery" by code_simp
  have r: "find_rule (delivery_rule note_delivery) note_suspended = Some note_rule" by code_simp
  have v: "revision note_rule = delivery_revision note_delivery" "rule_target note_rule = Webhook"
    "webhook_secret note_rule = Some ''s''" by code_simp+
  have e: "find_event (delivery_event note_delivery) note_suspended = Some note_event" by code_simp
  have h: "effectiveStatus (notificationRuleHealth note_rule None 50) = Suspended"
    "suspendedUntil (notificationRuleHealth note_rule None 50) = Some 99"
    "effectiveEnabled (notificationRuleHealth note_rule None 100)" by code_simp+
  note p = effective_status_matches_dispatcher [OF d r v(1) v(2) v(3), of Inr "''s''", OF refl e refl]
  from p [where next_retry = None and now = 50] p [where next_retry = None and now = 100] h show ?thesis by simp
qed

end
