(* ===== verification/Webhooks.thy ===== *)
theory Webhooks
  imports Prelude "HOL-Library.Word"
begin

text \<open>
  Where a webhook may connect: \<open>sendWebhook\<close>, \<open>resolvePublicAddresses\<close> and \<open>isPublicIp\<close> of
  \<open>apps/server/src/notifications/dispatcher.ts\<close>.

  Addresses are machine words. \<open>URL\<close>, \<open>isIP\<close> (with the reading of an address) and the name
  lookup are parameters. \<open>BlockList\<close> of \<open>node:net\<close> is modelled as it is documented: an IPv4
  address and its IPv4-mapped IPv6 form match the same rules.
\<close>

section \<open>Addresses and subnets\<close>

datatype ip = V4 "32 word" | V6 "128 word"

type_synonym subnet = "ip \<times> nat"

definition mapped :: "32 word \<Rightarrow> 128 word" where
  "mapped w = word_of_nat (65535 * 2 ^ 32 + unat w)"

definition is_mapped :: "128 word \<Rightarrow> bool" where
  "is_mapped a \<longleftrightarrow> unat a div 2 ^ 32 = 65535"

definition unmapped :: "128 word \<Rightarrow> 32 word" where
  "unmapped a = word_of_nat (unat a mod 2 ^ 32)"

definition same_prefix :: "nat \<Rightarrow> nat \<Rightarrow> nat \<Rightarrow> nat \<Rightarrow> bool" where
  "same_prefix bits p a network \<longleftrightarrow> a div 2 ^ (bits - p) = network div 2 ^ (bits - p)"

fun in_subnet :: "ip \<Rightarrow> subnet \<Rightarrow> bool" where
  "in_subnet (V4 a) (V4 n, p) = same_prefix 32 p (unat a) (unat n)"
| "in_subnet (V6 a) (V4 n, p) = (is_mapped a \<and> same_prefix 32 p (unat (unmapped a)) (unat n))"
| "in_subnet (V4 a) (V6 n, p) = same_prefix 128 p (unat (mapped a)) (unat n)"
| "in_subnet (V6 a) (V6 n, p) = same_prefix 128 p (unat a) (unat n)"

definition check :: "subnet list \<Rightarrow> ip \<Rightarrow> bool" where
  "check blocked a \<longleftrightarrow> list_ex (in_subnet a) blocked"

definition quad :: "nat list \<Rightarrow> ip" where
  "quad bytes = V4 (word_of_nat (foldl (\<lambda>n b. 256 * n + b) 0 bytes))"

definition groups :: "nat list \<Rightarrow> ip" where
  "groups gs = V6 (word_of_nat (foldl (\<lambda>n g. 65536 * n + g) 0 gs * 2 ^ (16 * (8 - length gs))))"

text \<open>\<open>groups\<close> takes the leading groups; \<open>::\<close> fills up with zeros.\<close>

definition ipv4_subnets :: "subnet list" where
  "ipv4_subnets =
     [(quad [0, 0, 0, 0], 8), (quad [10, 0, 0, 0], 8), (quad [100, 64, 0, 0], 10),
      (quad [127, 0, 0, 0], 8), (quad [169, 254, 0, 0], 16), (quad [172, 16, 0, 0], 12),
      (quad [192, 0, 0, 0], 24), (quad [192, 0, 2, 0], 24), (quad [192, 31, 196, 0], 24),
      (quad [192, 52, 193, 0], 24), (quad [192, 88, 99, 0], 24), (quad [192, 168, 0, 0], 16),
      (quad [192, 175, 48, 0], 24), (quad [198, 18, 0, 0], 15), (quad [198, 51, 100, 0], 24),
      (quad [203, 0, 113, 0], 24), (quad [224, 0, 0, 0], 3)]"

definition ipv6_subnets :: "subnet list" where
  "ipv6_subnets =
     [(groups [], 96), (groups [0x64, 0xff9b], 96), (groups [0x64, 0xff9b, 1], 48),
      (groups [0x100], 64), (groups [0x100, 0, 0, 1], 64), (groups [0x2001], 23),
      (groups [0x2001, 0xdb8], 32), (groups [0x2002], 16), (groups [0x2620, 0x4f, 0x8000], 48),
      (groups [0x3fff], 20), (groups [0x5f00], 16), (groups [0xfc00], 7), (groups [0xfe80], 10),
      (groups [0xfec0], 10), (groups [0xff00], 8)]"

definition blockedWebhookAddresses :: "subnet list" where
  "blockedWebhookAddresses = ipv4_subnets @ ipv6_subnets"

definition ipv4MappedWebhookAddresses :: "subnet list" where
  "ipv4MappedWebhookAddresses = [(groups [0, 0, 0, 0, 0, 0xffff], 96)]"

definition globallyAllocatedIpv6Addresses :: "subnet list" where
  "globallyAllocatedIpv6Addresses = [(groups [0x2000], 3)]"

fun is_v6 :: "ip \<Rightarrow> bool" where
  "is_v6 (V4 _) = False"
| "is_v6 (V6 _) = True"

definition isPublicAddress :: "ip \<Rightarrow> bool" where
  "isPublicAddress a \<longleftrightarrow>
     (if is_v6 a \<and> \<not> check ipv4MappedWebhookAddresses a \<and> \<not> check globallyAllocatedIpv6Addresses a
      then False else \<not> check blockedWebhookAddresses a)"

text \<open>\<open>isIP\<close> together with the reading of the address: \<open>None\<close> is the answer 0.\<close>

definition isPublicIp :: "(string \<Rightarrow> ip option) \<Rightarrow> string \<Rightarrow> bool" where
  "isPublicIp isIP address = (case isIP address of None \<Rightarrow> False | Some a \<Rightarrow> isPublicAddress a)"

section \<open>Resolving and sending\<close>

definition strip_brackets :: "string \<Rightarrow> string" where
  "strip_brackets host =
     (if host \<noteq> [] \<and> hd host = CHR ''['' \<and> last host = CHR '']''
      then take (length host - 2) (drop 1 host) else host)"

definition resolvePublicAddresses ::
    "(string \<Rightarrow> ip option) \<Rightarrow> (string \<Rightarrow> string + string list) \<Rightarrow> string \<Rightarrow> string + string list" where
  "resolvePublicAddresses isIP lookup hostname =
     (let name = strip_brackets hostname
      in and_then (if isIP name \<noteq> None then Inr [name] else lookup name) (\<lambda>addresses.
        if addresses = [] \<or> list_ex (\<lambda>a. \<not> isPublicIp isIP a) addresses
        then Inl ''Webhook target resolves to a private or reserved address.''
        else Inr addresses))"

record url =
  protocol :: string
  username :: string
  url_password :: string
  hostname :: string

text \<open>The target is checked and an address chosen; the request connects to that address.\<close>

definition webhook_target ::
    "(string \<Rightarrow> string + url) \<Rightarrow> (string \<Rightarrow> ip option) \<Rightarrow> (string \<Rightarrow> string + string list) \<Rightarrow> string
      \<Rightarrow> string + url \<times> string" where
  "webhook_target parse isIP lookup target =
     and_then (parse target) (\<lambda>u.
       if protocol u \<notin> set [''http:'', ''https:''] then Inl ''Webhook URL must use HTTP or HTTPS.''
       else if username u \<noteq> [] \<or> url_password u \<noteq> [] then
         Inl ''Webhook URL must not contain credentials.''
       else and_then (resolvePublicAddresses isIP lookup (hostname u)) (\<lambda>addresses.
         case addresses of [] \<Rightarrow> Inl ''Webhook host did not resolve.'' | a # _ \<Rightarrow> Inr (u, a)))"

definition maximumResponseBytes :: nat where
  "maximumResponseBytes = 64 * 1024"

text \<open>The chunks of the response until one exceeds the limit, then its status.\<close>

datatype response_error = Too_large | Http_status "nat option"

fun response_outcome :: "nat \<Rightarrow> nat list \<Rightarrow> nat option \<Rightarrow> response_error option" where
  "response_outcome received [] status =
     (case status of
        None \<Rightarrow> Some (Http_status None)
      | Some s \<Rightarrow> if s \<ge> 200 \<and> s < 300 then None else Some (Http_status (Some s)))"
| "response_outcome received (n # ns) status =
     (if received + n > maximumResponseBytes then Some Too_large
      else response_outcome (received + n) ns status)"

section \<open>Arithmetic of prefixes\<close>

lemma unat_mapped: "unat (mapped w) = 65535 * 2 ^ 32 + unat w"
proof -
  have "unat w < 2 ^ 32" using unsigned_less [of w] by simp
  then have "unat (word_of_nat (65535 * 2 ^ 32 + unat w) :: 128 word) = 65535 * 2 ^ 32 + unat w"
    by (simp only: unat_of_nat) simp
  then show ?thesis by (simp only: mapped_def)
qed

lemma mapped_mapped [simp]: "is_mapped (mapped w)" "unmapped (mapped w) = w"
proof -
  have w: "unat w < 2 ^ 32" using unsigned_less [of w] by simp
  then show "is_mapped (mapped w)" by (simp add: is_mapped_def unat_mapped)
  from w have "(65535 * 2 ^ 32 + unat w) mod 2 ^ 32 = unat w" by (simp only: mod_mult_self3 mod_less)
  then show "unmapped (mapped w) = w" by (simp add: unmapped_def unat_mapped)
qed

lemma same_prefix_range:
  "same_prefix bits p a n \<longleftrightarrow>
     n div 2 ^ (bits - p) * 2 ^ (bits - p) \<le> a \<and> a < (n div 2 ^ (bits - p) + 1) * 2 ^ (bits - p)"
  unfolding same_prefix_def
  by (metis add.commute div_nat_eqI div_times_less_eq_dividend dividend_less_div_times mult.commute
      mult_Suc plus_1_eq_Suc zero_less_numeral zero_less_power)

lemma quad_value: "unat (word_of_nat n :: 32 word) = n mod 2 ^ 32"
  by (simp add: unat_of_nat)

lemmas address_evals =
  isPublicAddress_def check_def blockedWebhookAddresses_def ipv4_subnets_def ipv6_subnets_def
  ipv4MappedWebhookAddresses_def globallyAllocatedIpv6Addresses_def quad_def groups_def
  unat_of_nat unat_mapped same_prefix_def is_mapped_def

text \<open>
  Which IPv4 addresses a webhook may reach, as ranges of the 32-bit address: everything except
  the private, loopback, link-local, shared, documentation, benchmark, anycast and multicast ranges.
\<close>

theorem public_ipv4_ranges:
  "isPublicAddress (V4 w) \<longleftrightarrow>
     list_all (\<lambda>(lo, hi). unat w < lo \<or> hi < unat w)
       [(0x00000000, 0x00ffffff), (0x0a000000, 0x0affffff), (0x64400000, 0x647fffff),
        (0x7f000000, 0x7fffffff), (0xa9fe0000, 0xa9feffff), (0xac100000, 0xac1fffff),
        (0xc0000000, 0xc00000ff), (0xc0000200, 0xc00002ff), (0xc01fc400, 0xc01fc4ff),
        (0xc034c100, 0xc034c1ff), (0xc0586300, 0xc05863ff), (0xc0a80000, 0xc0a8ffff),
        (0xc0af3000, 0xc0af30ff), (0xc6120000, 0xc613ffff), (0xc6336400, 0xc63364ff),
        (0xcb007100, 0xcb0071ff), (0xe0000000, 0xffffffff)]"
proof -
  have w: "unat w < 2 ^ 32" using unsigned_less [of w] by simp
  have v6: "\<not> list_ex (in_subnet (V4 w)) ipv6_subnets"
    using w by (simp add: ipv6_subnets_def groups_def unat_of_nat same_prefix_range unat_mapped)
  have v4: "list_ex (in_subnet (V4 w)) ipv4_subnets \<longleftrightarrow>
      list_ex (\<lambda>(lo, hi). lo \<le> unat w \<and> unat w \<le> hi)
       [(0x00000000, 0x00ffffff), (0x0a000000, 0x0affffff), (0x64400000, 0x647fffff),
        (0x7f000000, 0x7fffffff), (0xa9fe0000, 0xa9feffff), (0xac100000, 0xac1fffff),
        (0xc0000000, 0xc00000ff), (0xc0000200, 0xc00002ff), (0xc01fc400, 0xc01fc4ff),
        (0xc034c100, 0xc034c1ff), (0xc0586300, 0xc05863ff), (0xc0a80000, 0xc0a8ffff),
        (0xc0af3000, 0xc0af30ff), (0xc6120000, 0xc613ffff), (0xc6336400, 0xc63364ff),
        (0xcb007100, 0xcb0071ff), (0xe0000000, 0xffffffff)]"
    using w by (simp add: ipv4_subnets_def quad_def unat_of_nat same_prefix_range less_Suc_eq_le
        flip: Suc_le_eq)
  show ?thesis
    by (simp add: isPublicAddress_def check_def blockedWebhookAddresses_def v6 v4)
      (simp add: not_le imp_conv_disj)
qed

text \<open>
  Writing an address as IPv4-mapped IPv6 gets around nothing: the verdict is that of the IPv4
  address; and every other IPv6 address a webhook may reach is a global unicast address (2000::/3).
\<close>

theorem mapped_address_same_verdict:
  "(isPublicAddress (V6 (mapped w)) \<longleftrightarrow> isPublicAddress (V4 w)) \<and>
   (isPublicAddress (V6 a) \<longrightarrow> is_mapped a \<or> unat a div 2 ^ 125 = 1)"
proof -
  have w: "unat w < 2 ^ 32" using unsigned_less [of w] by simp
  have m: "check ipv4MappedWebhookAddresses (V6 (mapped w))"
    using w by (simp add: check_def ipv4MappedWebhookAddresses_def groups_def unat_of_nat same_prefix_def unat_mapped)
  have same: "in_subnet (V6 (mapped w)) s = in_subnet (V4 w) s" for s
    by (cases s; cases "fst s") auto
  have "check ipv4MappedWebhookAddresses (V6 a) \<longleftrightarrow> is_mapped a"
    by (simp add: check_def ipv4MappedWebhookAddresses_def groups_def unat_of_nat same_prefix_def is_mapped_def)
  moreover have "check globallyAllocatedIpv6Addresses (V6 a) \<longleftrightarrow> unat a div 2 ^ 125 = 1"
    by (simp add: check_def globallyAllocatedIpv6Addresses_def groups_def unat_of_nat same_prefix_def)
  ultimately show ?thesis
    using m by (auto simp: isPublicAddress_def check_def same list_ex_iff)
qed

theorem mapped_address_same_verdict_witness:
  "isPublicAddress (V6 0x20010000000000000000000000000001) = False \<and>
   isPublicAddress (V6 0x2a000000000000000000000000000001) \<and>
   unat (0x2a000000000000000000000000000001 :: 128 word) div 2 ^ 125 = 1"
proof -
  have p: "isPublicAddress (V6 0x2a000000000000000000000000000001)"
    "\<not> isPublicAddress (V6 0x20010000000000000000000000000001)"
    "\<not> is_mapped 0x2a000000000000000000000000000001"
    by (simp_all add: address_evals)
  with mapped_address_same_verdict [of 0 "0x2a000000000000000000000000000001"] show ?thesis by blast
qed

lemma resolved:
  assumes "resolvePublicAddresses isIP lookup host = Inr xs"
  shows "xs \<noteq> []" "list_all (isPublicIp isIP) xs"
    "if isIP (strip_brackets host) \<noteq> None then xs = [strip_brackets host]
     else lookup (strip_brackets host) = Inr xs"
proof -
  let ?found = "if isIP (strip_brackets host) \<noteq> None then Inr [strip_brackets host] else lookup (strip_brackets host)"
  obtain ys where ys: "?found = Inr ys" "\<not> (ys = [] \<or> list_ex (\<lambda>a. \<not> isPublicIp isIP a) ys)" "ys = xs"
    using assms unfolding resolvePublicAddresses_def Let_def by (auto elim!: and_thenE split: if_splits)
  then show "xs \<noteq> []" "list_all (isPublicIp isIP) xs" by (auto simp: list_ex_iff list_all_iff)
  show "if isIP (strip_brackets host) \<noteq> None then xs = [strip_brackets host]
     else lookup (strip_brackets host) = Inr xs"
    using ys(1,3) by (simp split: if_splits)
qed

text \<open>
  C20: A webhook request is only made to an HTTP or HTTPS URL without credentials, and connects to
  the first of the addresses the host resolved to, all of which are public; names and literal
  addresses, bracketed or not, are treated alike.
\<close>

theorem webhook_reaches_public_only:
  assumes "webhook_target parse isIP lookup target = Inr (u, a)"
  shows "parse target = Inr u \<and> protocol u \<in> set [''http:'', ''https:''] \<and> username u = [] \<and> url_password u = [] \<and>
    isPublicIp isIP a \<and>
    (\<exists>rest. list_all (isPublicIp isIP) rest \<and>
       (if isIP (strip_brackets (hostname u)) \<noteq> None then a = strip_brackets (hostname u) \<and> rest = []
        else lookup (strip_brackets (hostname u)) = Inr (a # rest)))"
proof -
  obtain xs where u: "parse target = Inr u" "protocol u \<in> set [''http:'', ''https:'']" "username u = []"
      "url_password u = []"
    and r: "resolvePublicAddresses isIP lookup (hostname u) = Inr xs" and a: "\<exists>rest. xs = a # rest"
    using assms unfolding webhook_target_def by (auto elim!: and_thenE split: if_splits list.splits)
  obtain rest where xs: "xs = a # rest" using a ..
  show ?thesis
    using u resolved(2,3) [OF r] by (auto simp: xs split: if_splits)
qed

definition demo_parse :: "string \<Rightarrow> string + url" where
  "demo_parse t = Inr \<lparr>protocol = ''https:'', username = [], url_password = [], hostname = t\<rparr>"

definition demo_isIP :: "string \<Rightarrow> ip option" where
  "demo_isIP t = (if t = ''8.8.8.8'' then Some (quad [8, 8, 8, 8])
     else if t = ''10.0.0.1'' then Some (quad [10, 0, 0, 1]) else None)"

theorem webhook_reaches_public_only_witness:
  "webhook_target demo_parse demo_isIP (\<lambda>_. Inr [''8.8.8.8'']) ''example.org''
     = Inr (\<lparr>protocol = ''https:'', username = [], url_password = [], hostname = ''example.org''\<rparr>, ''8.8.8.8'') \<and>
   isPublicIp demo_isIP ''8.8.8.8'' \<and>
   webhook_target demo_parse demo_isIP (\<lambda>_. Inr [''8.8.8.8'', ''10.0.0.1'']) ''example.org''
     = Inl ''Webhook target resolves to a private or reserved address.''"
proof -
  have t: "webhook_target demo_parse demo_isIP (\<lambda>_. Inr [''8.8.8.8'']) ''example.org''
     = Inr (\<lparr>protocol = ''https:'', username = [], url_password = [], hostname = ''example.org''\<rparr>, ''8.8.8.8'')"
    by (simp add: webhook_target_def demo_parse_def demo_isIP_def resolvePublicAddresses_def isPublicIp_def
        strip_brackets_def address_evals)
  have "webhook_target demo_parse demo_isIP (\<lambda>_. Inr [''8.8.8.8'', ''10.0.0.1'']) ''example.org''
     = Inl ''Webhook target resolves to a private or reserved address.''"
    by (simp add: webhook_target_def demo_parse_def demo_isIP_def resolvePublicAddresses_def isPublicIp_def
        strip_brackets_def address_evals)
  with webhook_reaches_public_only [OF t] t show ?thesis by blast
qed

end
