(* ===== verification/SteamCredentials.thy ===== *)
theory SteamCredentials
  imports Operations
begin

text \<open>
  The account row a Steam worker keeps (\<open>steamAccount\<close> of \<open>apps/server/src/db/schema.ts\<close>), its
  stored credential and the dates of its licenses: \<open>getRefreshToken\<close>, \<open>persistRefreshToken\<close> and
  \<open>acquisitionTimes\<close> of \<open>apps/server/src/steam/worker.ts\<close>.

  Encryption, decryption, the expiry and the subject of a token are parameters. The reads and
  the write of \<open>persistRefreshToken\<close> are one synchronous piece of code and hence one function.
\<close>

section \<open>Rows\<close>

record stored_secret =
  ciphertext :: string
  iv :: string
  authTag :: string
  keyVersion :: nat

record account_row =
  row_id :: account_id
  accountName :: string
  createdAt :: millis
  steamId :: "string option"
  row_status :: account_status
  desiredState :: desired_state
  lastError :: "string option"
  latestBoostStartedAt :: "millis option"
  personaState :: int
  customTitle :: "string option"
  activePresetId :: "string option"
  libraryImportedAt :: "millis option"
  tokenCiphertext :: "string option"
  tokenIv :: "string option"
  tokenAuthTag :: "string option"
  tokenKeyVersion :: nat
  tokenExpiresAt :: "millis option"
  updatedAt :: millis

record secrets =
  decryptSecret :: "stored_secret \<Rightarrow> string + string"
  encryptSecret :: "string \<Rightarrow> stored_secret"
  decodeJwtExpiry :: "string \<Rightarrow> millis option"
  jwt_subject :: "string \<Rightarrow> string option"

definition present :: "string option \<Rightarrow> bool" where
  "present v \<longleftrightarrow> v \<noteq> None \<and> v \<noteq> Some []"

definition stored_token :: "account_row \<Rightarrow> stored_secret option" where
  "stored_token r =
     (if present (tokenCiphertext r) \<and> present (tokenIv r) \<and> present (tokenAuthTag r)
      then Some \<lparr>ciphertext = the (tokenCiphertext r), iv = the (tokenIv r), authTag = the (tokenAuthTag r),
             keyVersion = tokenKeyVersion r\<rparr>
      else None)"

section \<open>The refresh token\<close>

text \<open>The token of the row in the database, if it still is the row the worker was made for.\<close>

definition getRefreshToken ::
    "secrets \<Rightarrow> account_row option \<Rightarrow> account_row \<Rightarrow> string + string option" where
  "getRefreshToken sec row acc =
     (case row of
        None \<Rightarrow> Inr None
      | Some r \<Rightarrow>
          if createdAt r \<noteq> createdAt acc then Inr None
          else (case stored_token r of
                  None \<Rightarrow> Inr None
                | Some s \<Rightarrow> and_then (decryptSecret sec s) (\<lambda>t. Inr (Some t))))"

record renewed_credential =
  refreshToken :: string
  previousRefreshToken :: string
  credential_steamId :: string

definition is_steam_id :: "string \<Rightarrow> bool" where
  "is_steam_id s \<longleftrightarrow> length s = 17 \<and> take 3 s = ''765'' \<and> list_all is_digit s"

text \<open>The renewal belongs to the account: same SteamID, or the first one, vouched for by the old token.\<close>

definition same_steam_identity :: "secrets \<Rightarrow> account_row \<Rightarrow> renewed_credential \<Rightarrow> bool" where
  "same_steam_identity sec r c \<longleftrightarrow>
     (case steamId r of
        Some i \<Rightarrow> i = credential_steamId c
      | None \<Rightarrow> jwt_subject sec (previousRefreshToken c) = Some (credential_steamId c))"

definition with_token :: "secrets \<Rightarrow> renewed_credential \<Rightarrow> millis \<Rightarrow> account_row \<Rightarrow> account_row" where
  "with_token sec c now r =
     (let e = encryptSecret sec (refreshToken c)
      in r\<lparr>tokenCiphertext := Some (ciphertext e), tokenIv := Some (iv e), tokenAuthTag := Some (authTag e),
           tokenKeyVersion := keyVersion e, tokenExpiresAt := decodeJwtExpiry sec (refreshToken c),
           updatedAt := now\<rparr>)"

text \<open>The result is the row and the worker's copy of it; \<open>Inl\<close> when the stored token cannot be read.\<close>

definition persistRefreshToken ::
    "secrets \<Rightarrow> renewed_credential \<Rightarrow> millis \<Rightarrow> account_row option \<Rightarrow> account_row
      \<Rightarrow> string + account_row option \<times> account_row" where
  "persistRefreshToken sec c now row acc =
     (case row of
        None \<Rightarrow> Inr (row, acc)
      | Some r \<Rightarrow>
          (case stored_token r of
             None \<Rightarrow> Inr (row, acc)
           | Some s \<Rightarrow>
               if accountName r \<noteq> accountName acc \<or> createdAt r \<noteq> createdAt acc then Inr (row, acc)
               else if \<not> is_steam_id (credential_steamId c) then Inr (row, acc)
               else if \<not> same_steam_identity sec r c then Inr (row, acc)
               else and_then (decryptSecret sec s) (\<lambda>stored.
                 if stored \<noteq> previousRefreshToken c \<or> refreshToken c = stored then Inr (row, acc)
                 else Inr (Some (with_token sec c now r), with_token sec c now acc))))"

text \<open>What the code relies on of the encryption: of a text that is not empty it yields texts that are
  not empty, and it can be undone.\<close>

definition encryption_works :: "secrets \<Rightarrow> bool" where
  "encryption_works sec \<longleftrightarrow>
     (\<forall>t. t \<noteq> [] \<longrightarrow> decryptSecret sec (encryptSecret sec t) = Inr t \<and> ciphertext (encryptSecret sec t) \<noteq> [] \<and>
        iv (encryptSecret sec t) \<noteq> [] \<and> authTag (encryptSecret sec t) \<noteq> [])"

lemma encryption_worksD:
  assumes "encryption_works sec" "t \<noteq> []"
  shows "decryptSecret sec (encryptSecret sec t) = Inr t" "ciphertext (encryptSecret sec t) \<noteq> []"
    "iv (encryptSecret sec t) \<noteq> []" "authTag (encryptSecret sec t) \<noteq> []"
  using assms by (simp_all add: encryption_works_def)

lemma stored_with_token:
  assumes "encryption_works sec" "refreshToken c \<noteq> []"
  shows "stored_token (with_token sec c now r) = Some (encryptSecret sec (refreshToken c))"
  using encryption_worksD [OF assms]
  by (simp add: stored_token_def present_def with_token_def Let_def)

lemma persist_cases:
  assumes "persistRefreshToken sec c now row acc = Inr (row', acc')"
  obtains "row' = row" "acc' = acc"
  | r s where "row = Some r" "stored_token r = Some s" "row' = Some (with_token sec c now r)"
      "acc' = with_token sec c now acc" "accountName r = accountName acc" "createdAt r = createdAt acc"
      "is_steam_id (credential_steamId c)" "same_steam_identity sec r c"
      "decryptSecret sec s = Inr (previousRefreshToken c)" "refreshToken c \<noteq> previousRefreshToken c"
proof (cases row)
  case None
  with assms that(1) show thesis by (simp add: persistRefreshToken_def)
next
  case r: (Some r)
  show thesis
  proof (cases "stored_token r")
    case None
    with assms r that(1) show thesis by (simp add: persistRefreshToken_def)
  next
    case s: (Some s)
    let ?ok = "accountName r = accountName acc \<and> createdAt r = createdAt acc \<and>
      is_steam_id (credential_steamId c) \<and> same_steam_identity sec r c"
    show thesis
    proof (cases ?ok)
      case False
      then have "persistRefreshToken sec c now row acc = Inr (row, acc)"
        by (auto simp: persistRefreshToken_def r s)
      with assms that(1) show thesis by simp
    next
      case True
      then obtain stored where d: "decryptSecret sec s = Inr stored"
        and k: "(if stored \<noteq> previousRefreshToken c \<or> refreshToken c = stored then Inr (row, acc)
          else Inr (Some (with_token sec c now r), with_token sec c now acc)) = (Inr (row', acc') :: string + _)"
        using assms unfolding r by (auto simp: persistRefreshToken_def s elim!: and_thenE)
      show thesis
      proof (cases "stored \<noteq> previousRefreshToken c \<or> refreshToken c = stored")
        case True
        with k that(1) show thesis by simp
      next
        case False
        with k d True s r that(2) [of r s] show thesis by simp
      qed
    qed
  qed
qed

text \<open>
  A renewed credential replaces the stored one only if it was renewed from exactly the stored
  token, for the same account and SteamID; then the stored token can be read back as the new one,
  everything else of the row but its time stamp is untouched, and the same notice again, or
  another renewal of the superseded token, changes nothing.
\<close>

theorem renewed_credential_is_compare_and_set:
  assumes "encryption_works sec" "refreshToken c \<noteq> []"
    and changed: "persistRefreshToken sec c now (Some r) acc = Inr (Some r', acc')" "r' \<noteq> r"
  shows "getRefreshToken sec (Some r) acc = Inr (Some (previousRefreshToken c)) \<and>
    getRefreshToken sec (Some r') acc' = Inr (Some (refreshToken c)) \<and>
    is_steam_id (credential_steamId c) \<and> (steamId r = Some (credential_steamId c) \<or> steamId r = None) \<and>
    r' = r\<lparr>tokenCiphertext := tokenCiphertext r', tokenIv := tokenIv r', tokenAuthTag := tokenAuthTag r',
           tokenKeyVersion := tokenKeyVersion r', tokenExpiresAt := tokenExpiresAt r', updatedAt := now\<rparr> \<and>
    persistRefreshToken sec (c\<lparr>refreshToken := other\<rparr>) later (Some r') acc' = Inr (Some r', acc')"
  using changed(1)
proof (cases rule: persist_cases)
  case 1
  with changed(2) show ?thesis by simp
next
  case (2 r0 s)
  then have r': "r' = with_token sec c now r" and s: "stored_token r = Some s"
    and id: "accountName r = accountName acc" "createdAt r = createdAt acc" by simp_all
  note e = encryption_worksD [OF assms(1,2)]
  note t = stored_with_token [OF assms(1,2), of now r]
  have acc': "accountName acc' = accountName acc" "createdAt acc' = createdAt acc"
    using 2 by (simp_all add: with_token_def Let_def)
  have new: "createdAt r' = createdAt r" "accountName r' = accountName r"
    by (simp_all add: r' with_token_def Let_def)
  have "getRefreshToken sec (Some r') acc' = Inr (Some (refreshToken c))"
    using t e(1) acc' id new by (simp add: getRefreshToken_def r')
  moreover have "getRefreshToken sec (Some r) acc = Inr (Some (previousRefreshToken c))"
    using s id 2 by (simp add: getRefreshToken_def)
  moreover have "steamId r = Some (credential_steamId c) \<or> steamId r = None"
    using 2 by (auto simp: same_steam_identity_def split: option.splits)
  moreover have "r' = r\<lparr>tokenCiphertext := tokenCiphertext r', tokenIv := tokenIv r', tokenAuthTag := tokenAuthTag r',
           tokenKeyVersion := tokenKeyVersion r', tokenExpiresAt := tokenExpiresAt r', updatedAt := now\<rparr>"
    by (simp add: r' with_token_def Let_def)
  moreover have "persistRefreshToken sec (c\<lparr>refreshToken := other\<rparr>) later (Some r') acc' = Inr (Some r', acc')"
    using t e(1) 2 unfolding r' persistRefreshToken_def by simp
  ultimately show ?thesis using 2 by blast
qed

definition plain_secrets :: secrets where
  "plain_secrets =
     \<lparr>decryptSecret = (\<lambda>s. Inr (tl (ciphertext s))),
      encryptSecret = (\<lambda>t. \<lparr>ciphertext = CHR ''x'' # t, iv = ''i'', authTag = ''a'', keyVersion = 1\<rparr>),
      decodeJwtExpiry = (\<lambda>_. None), jwt_subject = (\<lambda>_. None)\<rparr>"

definition demo_row :: account_row where
  "demo_row = \<lparr>row_id = ''a'', accountName = ''n'', createdAt = 1, steamId = Some ''76500000000000001'',
     row_status = Disconnected, desiredState = Desire_stopped, lastError = None, latestBoostStartedAt = None,
     personaState = 1, customTitle = None, activePresetId = None,
     libraryImportedAt = None, tokenCiphertext = Some ''xold'', tokenIv = Some ''i'',
     tokenAuthTag = Some ''a'', tokenKeyVersion = 1, tokenExpiresAt = None, updatedAt = 0\<rparr>"

definition demo_credential :: renewed_credential where
  "demo_credential = \<lparr>refreshToken = ''new'', previousRefreshToken = ''old'',
     credential_steamId = ''76500000000000001''\<rparr>"

theorem renewed_credential_is_compare_and_set_witness:
  "getRefreshToken plain_secrets (Some (with_token plain_secrets demo_credential 5 demo_row))
     (with_token plain_secrets demo_credential 5 demo_row) = Inr (Some ''new'')"
proof -
  let ?r = "with_token plain_secrets demo_credential 5 demo_row"
  have e: "encryption_works plain_secrets"
    by (simp add: encryption_works_def plain_secrets_def)
  have p: "persistRefreshToken plain_secrets demo_credential 5 (Some demo_row) demo_row = Inr (Some ?r, ?r)"
    by (simp add: persistRefreshToken_def stored_token_def present_def demo_row_def demo_credential_def
        plain_secrets_def is_steam_id_def is_digit_def same_steam_identity_def)
  have d: "?r \<noteq> demo_row"
  proof
    assume "?r = demo_row"
    then have "updatedAt ?r = updatedAt demo_row" by simp
    then show False by (simp add: with_token_def demo_row_def Let_def)
  qed
  have t: "refreshToken demo_credential = ''new''" by (simp add: demo_credential_def)
  then have n: "refreshToken demo_credential \<noteq> []" by simp
  from renewed_credential_is_compare_and_set [OF e n p d] t show ?thesis by simp
qed

section \<open>When an app was acquired\<close>

text \<open>
  A license as Steam sends it: the number of the package (\<open>Fractional\<close> for anything that is not a
  whole number) and the creation time in whole seconds (\<open>None\<close> for anything not finite).
\<close>

type_synonym license = "js_number \<times> int option"
type_synonym package_id = int
type_synonym apps_of = "package_id \<Rightarrow> int list"

text \<open>The client's answer: the app numbers of a package, \<open>None\<close> when they are not an array.\<close>

type_synonym package_info = "package_id \<Rightarrow> js_number list option"

definition package_app_ids :: "package_info \<Rightarrow> apps_of" where
  "package_app_ids info p =
     (case info p of None \<Rightarrow> [] | Some appids \<Rightarrow> map int_of (filter is_safe_integer appids))"

definition keep_min :: "int \<Rightarrow> millis \<Rightarrow> (int, millis) js_map \<Rightarrow> (int, millis) js_map" where
  "keep_min k t m = js_set k (case js_get m k of None \<Rightarrow> t | Some u \<Rightarrow> min u t) m"

fun license_times :: "license list \<Rightarrow> (package_id, millis) js_map \<Rightarrow> (package_id, millis) js_map" where
  "license_times [] m = m"
| "license_times ((p, s) # ls) m =
     (if \<not> is_safe_integer p \<or> int_of p \<le> 0 then license_times ls m
      else case s of
        None \<Rightarrow> license_times ls m
      | Some sec \<Rightarrow> if sec \<le> 0 then license_times ls m
                  else license_times ls (keep_min (int_of p) (sec * 1000) m))"

text \<open>Unknown packages are asked for in batches of 500; \<open>product_info\<close> is the client's answer.\<close>

function fetch_packages ::
    "(package_id list \<Rightarrow> 'e + package_info) \<Rightarrow> package_id list \<Rightarrow> (package_id, int list) js_map
      \<Rightarrow> 'e + (package_id, int list) js_map" where
  "fetch_packages product_info missing cache =
     (if missing = [] then Inr cache
      else and_then (product_info (take 500 missing)) (\<lambda>info.
        fetch_packages product_info (drop 500 missing)
          (foldl (\<lambda>m p. js_set p (package_app_ids info p) m) cache (take 500 missing))))"
  by pat_completeness auto
termination
  by (relation "measure (\<lambda>(_, missing, _). length missing)") auto

declare fetch_packages.simps [simp del]

definition app_times ::
    "int list \<Rightarrow> (package_id, int list) js_map \<Rightarrow> (package_id, millis) js_map \<Rightarrow> (int, millis) js_map" where
  "app_times wanted cache created =
     foldl (\<lambda>m (p, t). foldl (\<lambda>m app. if app \<in> set wanted then keep_min app t m else m) m
        (case js_get cache p of None \<Rightarrow> [] | Some apps \<Rightarrow> apps)) [] created"

definition acquisitionTimes ::
    "(package_id list \<Rightarrow> 'e + package_info) \<Rightarrow> license list \<Rightarrow> int list \<Rightarrow> (package_id, int list) js_map
      \<Rightarrow> 'e + (int, millis) js_map \<times> (package_id, int list) js_map" where
  "acquisitionTimes product_info licenses wanted packageApps =
     (let created = license_times licenses [];
          missing = filter (\<lambda>p. js_get packageApps p = None) (js_keys created)
      in and_then (fetch_packages product_info missing packageApps) (\<lambda>cache.
           Inr (app_times wanted cache created, cache)))"


section \<open>The dates are the earliest ones\<close>

text \<open>A map holds the least of the times that a set of pairs gives a key.\<close>

definition least_times :: "('k \<times> millis) set \<Rightarrow> ('k, millis) js_map \<Rightarrow> bool" where
  "least_times pairs m \<longleftrightarrow>
     (\<forall>k. case js_get m k of
        None \<Rightarrow> \<forall>t. (k, t) \<notin> pairs
      | Some t \<Rightarrow> (k, t) \<in> pairs \<and> (\<forall>u. (k, u) \<in> pairs \<longrightarrow> t \<le> u))"

lemma least_times_empty: "least_times {} []"
  by (simp add: least_times_def)

lemma least_times_insert:
  "least_times pairs m \<Longrightarrow> least_times (insert (k, t) pairs) (keep_min k t m)"
  unfolding least_times_def keep_min_def
  by (fastforce split: option.splits simp: min_def)

lemma least_times_SomeD:
  assumes "least_times pairs m" "js_get m k = Some t"
  shows "(k, t) \<in> pairs" "(k, u) \<in> pairs \<Longrightarrow> t \<le> u"
  using spec [OF assms(1) [unfolded least_times_def], of k] assms(2) by auto

lemma least_times_None_iff: "least_times pairs m \<Longrightarrow> js_get m k = None \<longleftrightarrow> (\<forall>t. (k, t) \<notin> pairs)"
  unfolding least_times_def by (drule spec [of _ k]) (auto split: option.splits)

lemma least_timesI:
  assumes "\<And>k t. js_get m k = None \<Longrightarrow> (k, t) \<notin> pairs"
    and "\<And>k t. js_get m k = Some t \<Longrightarrow> (k, t) \<in> pairs"
    and "\<And>k t u. js_get m k = Some t \<Longrightarrow> (k, u) \<in> pairs \<Longrightarrow> t \<le> u"
  shows "least_times pairs m"
  unfolding least_times_def using assms by (simp split: option.split)

lemma least_times_unique:
  assumes m: "least_times pairs m"
  shows "js_get m k = Some t \<longleftrightarrow> (k, t) \<in> pairs \<and> (\<forall>u. (k, u) \<in> pairs \<longrightarrow> t \<le> u)" (is "?l \<longleftrightarrow> ?r")
proof
  assume ?l
  then show ?r using least_times_SomeD [OF m] by blast
next
  assume r: ?r
  then obtain u where u: "js_get m k = Some u" using least_times_None_iff [OF m, of k] by blast
  with r least_times_SomeD [OF m u] have "u = t" by (meson antisym)
  with u show ?l by simp
qed

text \<open>Least times may be taken in two steps: first of each package, then of the packages with an app.\<close>

lemma least_times_compose:
  assumes m: "least_times pairs m" and ok: "js_map_ok m"
    and r: "least_times {(app, t). \<exists>p. (p, t) \<in> set m \<and> app \<in> F p} r"
  shows "least_times {(app, t). \<exists>p. (p, t) \<in> pairs \<and> app \<in> F p} r"
proof (rule least_timesI)
  have mem: "(p, t) \<in> set m \<longleftrightarrow> js_get m p = Some t" for p t
    using ok by (simp add: js_map_ok_def)
  have low: "\<exists>v. (p, v) \<in> set m \<and> v \<le> u" if "(p, u) \<in> pairs" for p u
  proof -
    from that obtain v where v: "js_get m p = Some v" using least_times_None_iff [OF m, of p] by blast
    from least_times_SomeD(2) [OF m v that] v show ?thesis by (auto simp: mem)
  qed
  fix app t
  show "(app, t) \<notin> {(app, t). \<exists>p. (p, t) \<in> pairs \<and> app \<in> F p}" if "js_get r app = None"
    using that least_times_None_iff [OF r, of app] low by blast
  show "(app, t) \<in> {(app, t). \<exists>p. (p, t) \<in> pairs \<and> app \<in> F p}" if "js_get r app = Some t"
    using least_times_SomeD(1) [OF r that] least_times_SomeD(1) [OF m] by (auto simp: mem)
  fix u
  show "t \<le> u" if s: "js_get r app = Some t" and u: "(app, u) \<in> {(app, t). \<exists>p. (p, t) \<in> pairs \<and> app \<in> F p}"
  proof -
    from u obtain p where p: "(p, u) \<in> pairs" "app \<in> F p" by blast
    from low [OF p(1)] obtain v where v: "(p, v) \<in> set m" "v \<le> u" by blast
    have "t \<le> v" using least_times_SomeD(2) [OF r s, of v] v(1) p(2) by blast
    with v(2) show ?thesis by simp
  qed
qed

definition valid_license :: "license \<Rightarrow> bool" where
  "valid_license l \<longleftrightarrow>
     is_safe_integer (fst l) \<and> int_of (fst l) > 0 \<and> (case snd l of None \<Rightarrow> False | Some s \<Rightarrow> s > 0)"

definition license_pair :: "license \<Rightarrow> package_id \<times> millis" where
  "license_pair l = (int_of (fst l), the (snd l) * 1000)"

lemma license_times_least:
  "least_times pairs m \<Longrightarrow>
   least_times (pairs \<union> license_pair ` {l \<in> set ls. valid_license l}) (license_times ls m)"
proof (induction ls arbitrary: m pairs)
  case Nil
  then show ?case by simp
next
  case (Cons l ls)
  obtain p s where l: "l = (p, s)" by (cases l)
  show ?case
  proof (cases "valid_license l")
    case False
    then have "license_times (l # ls) m = license_times ls m"
      by (auto simp: l valid_license_def split: option.splits)
    moreover have "{x \<in> set (l # ls). valid_license x} = {x \<in> set ls. valid_license x}" using False by auto
    ultimately show ?thesis using Cons by simp
  next
    case True
    then obtain sec where s: "s = Some sec" "sec > 0" "is_safe_integer p" "int_of p > 0"
      by (auto simp: l valid_license_def split: option.splits)
    from Cons.IH [OF least_times_insert [OF Cons.prems, of "int_of p" "sec * 1000"]]
    have "least_times (insert (int_of p, sec * 1000) pairs \<union> license_pair ` {x \<in> set ls. valid_license x})
        (license_times (l # ls) m)"
      using s by (simp add: l)
    moreover have "insert (int_of p, sec * 1000) pairs \<union> license_pair ` {x \<in> set ls. valid_license x}
        = pairs \<union> license_pair ` {x \<in> set (l # ls). valid_license x}"
    proof -
      have "{x \<in> set (l # ls). valid_license x} = insert l {x \<in> set ls. valid_license x}" using True by auto
      moreover have "license_pair l = (int_of p, sec * 1000)" by (simp add: l license_pair_def s)
      ultimately show ?thesis by simp
    qed
    ultimately show ?thesis by simp
  qed
qed

lemma keys_license_times: "js_map_ok m \<Longrightarrow> js_map_ok (license_times ls m)"
  by (induction ls m rule: license_times.induct) (auto simp: keep_min_def split: option.split)

text \<open>The packages known so far are known as the client would answer.\<close>

definition cache_ok :: "apps_of \<Rightarrow> (package_id, int list) js_map \<Rightarrow> bool" where
  "cache_ok apps cache \<longleftrightarrow> list_all (\<lambda>(p, as). as = apps p) cache"

lemma cache_ok_get: "cache_ok apps cache \<Longrightarrow> js_get cache p = Some as \<Longrightarrow> as = apps p"
  by (auto simp: cache_ok_def list_all_iff dest!: map_of_SomeD)

lemma cache_ok_set: "cache_ok apps cache \<Longrightarrow> cache_ok apps (js_set p (apps p) cache)"
  by (induction cache) (auto simp: cache_ok_def)

lemma cache_fold:
  "cache_ok apps cache \<Longrightarrow>
   cache_ok apps (foldl (\<lambda>m p. js_set p (apps p) m) cache ps) \<and>
   (\<forall>p. js_get (foldl (\<lambda>m p. js_set p (apps p) m) cache ps) p \<noteq> None \<longleftrightarrow> p \<in> set ps \<or> js_get cache p \<noteq> None)"
proof (induction ps arbitrary: cache)
  case (Cons p ps)
  from Cons.IH [OF cache_ok_set [OF Cons.prems]] show ?case by auto
qed simp

lemma fetch_packages_ok:
  assumes "cache_ok apps cache" "\<And>ps. product_info ps = Inr info" "apps = package_app_ids info"
  shows "\<exists>cache'. fetch_packages product_info missing cache = Inr cache' \<and> cache_ok apps cache' \<and>
    (\<forall>p. js_get cache' p \<noteq> None \<longleftrightarrow> p \<in> set missing \<or> js_get cache p \<noteq> None)"
  using assms(1)
proof (induction "length missing" arbitrary: missing cache rule: less_induct)
  case less
  show ?case
  proof (cases "missing = []")
    case True
    then show ?thesis using less.prems by (simp add: fetch_packages.simps)
  next
    case False
    let ?cache = "foldl (\<lambda>m p. js_set p (apps p) m) cache (take 500 missing)"
    note c = cache_fold [OF less.prems, of "take 500 missing"]
    have "length (drop 500 missing) < length missing" using False by simp
    then obtain cache' where f: "fetch_packages product_info (drop 500 missing) ?cache = Inr cache'"
      "cache_ok apps cache'"
      "\<forall>p. js_get cache' p \<noteq> None \<longleftrightarrow> p \<in> set (drop 500 missing) \<or> js_get ?cache p \<noteq> None"
      using less.hyps c by blast
    have "set missing = set (take 500 missing) \<union> set (drop 500 missing)"
      by (metis append_take_drop_id set_append)
    moreover have "fetch_packages product_info missing cache = Inr cache'"
      using False f(1) assms(2,3) by (subst fetch_packages.simps) simp
    ultimately show ?thesis using f(2,3) c by auto
  qed
qed

lemma fold_apps_least:
  "least_times pairs m \<Longrightarrow>
   least_times (pairs \<union> {(app, t) |app. app \<in> set as \<and> app \<in> set wanted})
     (foldl (\<lambda>m app. if app \<in> set wanted then keep_min app t m else m) m as)"
proof (induction as arbitrary: pairs m)
  case (Cons a as)
  have "pairs \<union> {(app, t) |app. app \<in> set (a # as) \<and> app \<in> set wanted}
      = (if a \<in> set wanted then insert (a, t) pairs else pairs) \<union> {(app, t) |app. app \<in> set as \<and> app \<in> set wanted}"
    by auto
  then show ?case
    using Cons.IH [OF Cons.prems] Cons.IH [OF least_times_insert [OF Cons.prems]] by simp
qed simp

lemma app_times_least:
  assumes "\<And>p t. (p, t) \<in> set created \<Longrightarrow> js_get cache p = Some (apps p)"
    and "least_times pairs m"
  shows "least_times (pairs \<union> {(app, t). \<exists>p. (p, t) \<in> set created \<and> app \<in> set (apps p) \<and> app \<in> set wanted})
    (foldl (\<lambda>m (p, t). foldl (\<lambda>m app. if app \<in> set wanted then keep_min app t m else m) m
        (case js_get cache p of None \<Rightarrow> [] | Some apps \<Rightarrow> apps)) m created)"
  using assms
proof (induction created arbitrary: pairs m)
  case (Cons x created)
  obtain p t where x: "x = (p, t)" by (cases x)
  have c: "js_get cache p = Some (apps p)" using Cons.prems(1) [of p t] by (simp add: x)
  have "pairs \<union> {(app, t). \<exists>p. (p, t) \<in> set (x # created) \<and> app \<in> set (apps p) \<and> app \<in> set wanted}
      = (pairs \<union> {(app, t) |app. app \<in> set (apps p) \<and> app \<in> set wanted})
        \<union> {(app, t). \<exists>p. (p, t) \<in> set created \<and> app \<in> set (apps p) \<and> app \<in> set wanted}"
    by (auto simp: x)
  moreover have "least_times ((pairs \<union> {(app, t) |app. app \<in> set (apps p) \<and> app \<in> set wanted})
        \<union> {(app, t). \<exists>p. (p, t) \<in> set created \<and> app \<in> set (apps p) \<and> app \<in> set wanted})
      (foldl (\<lambda>m (p, t). foldl (\<lambda>m app. if app \<in> set wanted then keep_min app t m else m) m
          (case js_get cache p of None \<Rightarrow> [] | Some apps \<Rightarrow> apps))
        (foldl (\<lambda>m app. if app \<in> set wanted then keep_min app t m else m) m (apps p)) created)"
    using Cons.prems(1) by (intro Cons.IH [OF _ fold_apps_least [OF Cons.prems(2)]]) auto
  ultimately show ?case by (simp only: foldl.simps x prod.case c option.case)
qed simp

text \<open>
  The acquisition time of an app is the earliest creation time among the valid licenses whose
  package contains it, for exactly the apps asked about; apps without such a license are left out.
  This does not depend on what was cached before, and the cache stays right.
\<close>

theorem acquisitionTimes_earliest_license:
  assumes "cache_ok apps packageApps" "\<And>ps. product_info ps = Inr info" "apps = package_app_ids info"
  shows "\<exists>times cache. acquisitionTimes product_info licenses wanted packageApps = Inr (times, cache) \<and>
    cache_ok apps cache \<and>
    (\<forall>app t. js_get times app = Some t \<longleftrightarrow>
       app \<in> set wanted \<and>
       (\<exists>l\<in>set licenses. valid_license l \<and> app \<in> set (apps (fst (license_pair l))) \<and> t = snd (license_pair l)) \<and>
       (\<forall>l\<in>set licenses. valid_license l \<and> app \<in> set (apps (fst (license_pair l))) \<longrightarrow> t \<le> snd (license_pair l)))"
proof -
  define created where "created = license_times licenses []"
  let ?missing = "filter (\<lambda>p. js_get packageApps p = None) (js_keys created)"
  obtain cache where f: "fetch_packages product_info ?missing packageApps = Inr cache" "cache_ok apps cache"
    "\<forall>p. js_get cache p \<noteq> None \<longleftrightarrow> p \<in> set ?missing \<or> js_get packageApps p \<noteq> None"
    using fetch_packages_ok [where product_info = product_info and missing = ?missing, OF assms] by blast
  have known: "js_get cache p = Some (apps p)" if "(p, t) \<in> set created" for p t
  proof -
    have "js_get cache p \<noteq> None" using f(3) that by (force simp: js_keys_def)
    then show ?thesis using cache_ok_get [OF f(2)] by auto
  qed
  have ok: "js_map_ok created" by (simp add: created_def keys_license_times)
  have least: "least_times (license_pair ` {l \<in> set licenses. valid_license l}) created"
    using license_times_least [OF least_times_empty, of licenses] by (simp add: created_def)
  have "least_times {(app, t). \<exists>p. (p, t) \<in> set created \<and> app \<in> {a. a \<in> set (apps p) \<and> a \<in> set wanted}}
      (app_times wanted cache created)"
    using app_times_least [of created cache apps "{}" "[]" wanted, OF known least_times_empty]
    by (simp add: app_times_def)
  note u = least_times_unique [OF least_times_compose [OF least ok this]]
  have pairs: "(app, u) \<in> {(app, t). \<exists>p. (p, t) \<in> license_pair ` {l \<in> set licenses. valid_license l} \<and>
        app \<in> {a. a \<in> set (apps p) \<and> a \<in> set wanted}} \<longleftrightarrow>
      app \<in> set wanted \<and>
      (\<exists>l\<in>set licenses. valid_license l \<and> app \<in> set (apps (fst (license_pair l))) \<and> u = snd (license_pair l))"
    for app u
    unfolding image_iff mem_Collect_eq prod.case prod_eq_iff fst_conv snd_conv by blast
  have "js_get (app_times wanted cache created) app = Some t \<longleftrightarrow>
       app \<in> set wanted \<and>
       (\<exists>l\<in>set licenses. valid_license l \<and> app \<in> set (apps (fst (license_pair l))) \<and> t = snd (license_pair l)) \<and>
       (\<forall>l\<in>set licenses. valid_license l \<and> app \<in> set (apps (fst (license_pair l))) \<longrightarrow> t \<le> snd (license_pair l))"
    for app t
    unfolding u pairs by blast
  then show ?thesis
    using f(1,2) by (auto simp: acquisitionTimes_def created_def [symmetric] Let_def)
qed

theorem acquisitionTimes_earliest_license_witness:
  "acquisitionTimes (\<lambda>_. Inr (\<lambda>p. if p = 3 then None else Some [Whole 10, Fractional]) :: nat + package_info)
     [(Whole 1, Some 7), (Whole 2, Some 5), (Fractional, Some 1), (Whole 3, Some 2)] [10, 20] []
   = Inr ([(10, 5000)], [(1, [10]), (2, [10]), (3, [])])"
proof -
  let ?info = "\<lambda>p :: int. if p = 3 then None else Some [Whole 10, Fractional]"
  let ?ls = "[(Whole 1, Some 7), (Whole 2, Some 5), (Fractional, Some 1), (Whole 3, Some 2)] :: license list"
  have r: "acquisitionTimes (\<lambda>_. Inr ?info :: nat + package_info) ?ls [10, 20] []
      = Inr ([(10, 5000)], [(1, [10]), (2, [10]), (3, [])])"
    by code_simp
  have "cache_ok (package_app_ids ?info) []" by (simp add: cache_ok_def)
  from acquisitionTimes_earliest_license
    [OF this, where product_info = "\<lambda>_. Inr ?info :: nat + package_info" and info = ?info and licenses = ?ls and wanted = "[10, 20]"]
  obtain m cache where "acquisitionTimes (\<lambda>_. Inr ?info :: nat + package_info) ?ls [10, 20] [] = Inr (m, cache)"
    by blast
  with r show ?thesis by simp
qed

end
