(* ===== verification/AccountTables.thy ===== *)
theory AccountTables
  imports SteamCredentials
begin

text \<open>
  The tables of games, libraries and presets and the transactions over them
  (\<open>apps/server/src/steam/repository.ts\<close>, \<open>apps/server/src/db/schema.ts\<close>). Tables are lists of rows;
  an insertion that breaks a unique index or refers to an account that is not there rejects, and a
  transaction that rejects leaves the tables as they were.
\<close>

section \<open>Tables\<close>

datatype row_source = Source_manual | Source_preset | Source_library

record game_row =
  g_account :: account_id
  g_app :: int
  enabled :: bool
  g_source :: row_source
  g_createdAt :: millis

record app_cache_row =
  c_app :: int
  c_name :: string
  c_playtime :: int
  c_source :: row_source
  c_updatedAt :: millis

record library_row =
  l_account :: account_id
  l_app :: int
  l_playtime :: int
  l_source :: row_source
  favorite :: bool
  hidden :: bool
  tagsJson :: string
  importedAt :: millis

record preset_row =
  p_id :: string
  p_account :: account_id
  p_name :: string
  p_personaState :: int
  p_customTitle :: "string option"
  p_createdAt :: millis
  p_updatedAt :: millis

record preset_game_row =
  pg_preset :: string
  pg_app :: int
  pg_createdAt :: millis

record account_tables =
  account_rows :: "account_row list"
  game_table :: "game_row list"
  app_cache :: "app_cache_row list"
  library_table :: "library_row list"
  presets :: "preset_row list"
  preset_games :: "preset_game_row list"

datatype sql_error = Unique_violation | Foreign_key_violation

type_synonym 'a sql = "(account_tables, sql_error, 'a) action"

definition account_of :: "account_id \<Rightarrow> account_tables \<Rightarrow> account_row option" where
  "account_of acc db = List.find (\<lambda>r. row_id r = acc) (account_rows db)"

definition update_where :: "('r \<Rightarrow> bool) \<Rightarrow> ('r \<Rightarrow> 'r) \<Rightarrow> 'r list \<Rightarrow> 'r list" where
  "update_where P f rows = map (\<lambda>r. if P r then f r else r) rows"

definition update_account :: "account_id \<Rightarrow> (account_row \<Rightarrow> account_row) \<Rightarrow> account_tables \<Rightarrow> account_tables" where
  "update_account acc f db = db\<lparr>account_rows := update_where (\<lambda>r. row_id r = acc) f (account_rows db)\<rparr>"

definition in_transaction :: "'a sql \<Rightarrow> 'a sql" where
  "in_transaction m db = (case m db of (Inl e, _) \<Rightarrow> (Inl e, db) | (Inr x, db') \<Rightarrow> (Inr x, db'))"

section \<open>Statements\<close>

definition insert_game :: "game_row \<Rightarrow> unit sql" where
  "insert_game g db =
     (if \<exists>r\<in>set (game_table db). g_account r = g_account g \<and> g_app r = g_app g then (Inl Unique_violation, db)
      else if account_of (g_account g) db = None then (Inl Foreign_key_violation, db)
      else (Inr (), db\<lparr>game_table := game_table db @ [g]\<rparr>))"

text \<open>\<open>ON CONFLICT DO NOTHING\<close> and \<open>ON CONFLICT DO UPDATE\<close>.\<close>

definition insert_cache :: "app_cache_row \<Rightarrow> unit sql" where
  "insert_cache c = modify (\<lambda>db.
     if \<exists>r\<in>set (app_cache db). c_app r = c_app c then db else db\<lparr>app_cache := app_cache db @ [c]\<rparr>)"

definition upsert_cache :: "app_cache_row \<Rightarrow> unit sql" where
  "upsert_cache c = modify (\<lambda>db.
     if \<exists>r\<in>set (app_cache db). c_app r = c_app c
     then db\<lparr>app_cache := update_where (\<lambda>r. c_app r = c_app c) (\<lambda>_. c) (app_cache db)\<rparr>
     else db\<lparr>app_cache := app_cache db @ [c]\<rparr>)"

definition insert_library :: "library_row \<Rightarrow> unit sql" where
  "insert_library l db =
     (if \<exists>r\<in>set (library_table db). l_account r = l_account l \<and> l_app r = l_app l then (Inl Unique_violation, db)
      else if account_of (l_account l) db = None then (Inl Foreign_key_violation, db)
      else (Inr (), db\<lparr>library_table := library_table db @ [l]\<rparr>))"

definition insert_preset :: "preset_row \<Rightarrow> unit sql" where
  "insert_preset p db =
     (if \<exists>r\<in>set (presets db). p_id r = p_id p then (Inl Unique_violation, db)
      else if account_of (p_account p) db = None then (Inl Foreign_key_violation, db)
      else (Inr (), db\<lparr>presets := presets db @ [p]\<rparr>))"

definition insert_preset_game :: "preset_game_row \<Rightarrow> unit sql" where
  "insert_preset_game g db =
     (if \<exists>r\<in>set (preset_games db). pg_preset r = pg_preset g \<and> pg_app r = pg_app g
      then (Inl Unique_violation, db)
      else if \<not> (\<exists>p\<in>set (presets db). p_id p = pg_preset g) then (Inl Foreign_key_violation, db)
      else (Inr (), db\<lparr>preset_games := preset_games db @ [g]\<rparr>))"

text \<open>Long lists are written in chunks of 100.\<close>

definition writeChunkSize :: nat where
  "writeChunkSize = 100"

function chunks :: "'a list \<Rightarrow> nat \<Rightarrow> 'a list list" where
  "chunks items n = (if items = [] then [] else take (max 1 n) items # chunks (drop (max 1 n) items) n)"
  by pat_completeness auto
termination
  by (relation "measure (\<lambda>(items, _). length items)") auto

declare chunks.simps [simp del]

definition in_chunks :: "('a \<Rightarrow> unit sql) \<Rightarrow> 'a list \<Rightarrow> unit sql" where
  "in_chunks f items = for_each (for_each f) (chunks items writeChunkSize)"

section \<open>The transactions\<close>

definition decimal_digit :: "nat \<Rightarrow> char" where
  "decimal_digit n = char_of (48 + n)"

fun nat_text :: "nat \<Rightarrow> string" where
  "nat_text n = (if n < 10 then [decimal_digit n] else nat_text (n div 10) @ [decimal_digit (n mod 10)])"

declare nat_text.simps [simp del]

definition int_text :: "int \<Rightarrow> string" where
  "int_text k = (if k < 0 then CHR ''-'' # nat_text (nat (- k)) else nat_text (nat k))"

definition default_app_name :: "int \<Rightarrow> string" where
  "default_app_name app = ''App '' @ int_text app"

text \<open>An undefined title (the outer \<open>None\<close>) leaves the stored one, \<open>null\<close> removes it.\<close>

record selection =
  sel_account :: account_id
  sel_appIds :: "int list"
  sel_source :: row_source
  sel_activePresetId :: "string option"
  sel_personaState :: "int option"
  sel_customTitle :: "string option option"

definition selected_game :: "selection \<Rightarrow> millis \<Rightarrow> int \<Rightarrow> game_row" where
  "selected_game input now app =
     \<lparr>g_account = sel_account input, g_app = app, enabled = True, g_source = sel_source input, g_createdAt = now\<rparr>"

definition insert_selected :: "selection \<Rightarrow> millis \<Rightarrow> int \<Rightarrow> unit sql" where
  "insert_selected input now app =
     then_do (insert_game (selected_game input now app)) (\<lambda>_.
       insert_cache \<lparr>c_app = app, c_name = default_app_name app, c_playtime = 0,
         c_source = sel_source input, c_updatedAt = now\<rparr>)"

definition with_selection :: "selection \<Rightarrow> millis \<Rightarrow> account_row \<Rightarrow> account_row" where
  "with_selection input now r =
     r\<lparr>activePresetId := sel_activePresetId input,
       personaState := (case sel_personaState input of None \<Rightarrow> personaState r | Some p \<Rightarrow> p),
       customTitle := (case sel_customTitle input of None \<Rightarrow> customTitle r | Some t \<Rightarrow> t),
       updatedAt := now\<rparr>"

definition replaceSelectedGames :: "selection \<Rightarrow> millis \<Rightarrow> unit sql" where
  "replaceSelectedGames input now = in_transaction (
     then_do (modify (\<lambda>db. db\<lparr>game_table := filter (\<lambda>g. g_account g \<noteq> sel_account input) (game_table db)\<rparr>)) (\<lambda>_.
     then_do (in_chunks (insert_selected input now) (sel_appIds input)) (\<lambda>_.
     modify (update_account (sel_account input) (with_selection input now)))))"

record preset_values =
  pv_name :: string
  pv_personaState :: int
  pv_customTitle :: "string option"
  pv_appIds :: "int list"

definition insertPresetGames :: "string \<Rightarrow> int list \<Rightarrow> millis \<Rightarrow> unit sql" where
  "insertPresetGames preset appIds now =
     in_chunks (\<lambda>app. insert_preset_game \<lparr>pg_preset = preset, pg_app = app, pg_createdAt = now\<rparr>) appIds"

definition createPresetRecord :: "string \<Rightarrow> account_id \<Rightarrow> preset_values \<Rightarrow> millis \<Rightarrow> unit sql" where
  "createPresetRecord preset acc v now = in_transaction (
     then_do (insert_preset \<lparr>p_id = preset, p_account = acc, p_name = pv_name v,
       p_personaState = pv_personaState v, p_customTitle = pv_customTitle v, p_createdAt = now,
       p_updatedAt = now\<rparr>) (\<lambda>_.
     insertPresetGames preset (pv_appIds v) now))"

definition updatePresetRecord :: "string \<Rightarrow> account_id \<Rightarrow> preset_values \<Rightarrow> millis \<Rightarrow> unit sql" where
  "updatePresetRecord preset acc v now = in_transaction (
     then_do (modify (\<lambda>db. db\<lparr>presets := update_where (\<lambda>p. p_id p = preset \<and> p_account p = acc)
       (\<lambda>p. p\<lparr>p_name := pv_name v, p_personaState := pv_personaState v, p_customTitle := pv_customTitle v,
          p_updatedAt := now\<rparr>) (presets db),
       preset_games := filter (\<lambda>g. pg_preset g \<noteq> preset) (preset_games db)\<rparr>)) (\<lambda>_.
     then_do (insertPresetGames preset (pv_appIds v) now) (\<lambda>_.
     modify (\<lambda>db. db\<lparr>account_rows := update_where (\<lambda>r. row_id r = acc \<and> activePresetId r = Some preset)
       (\<lambda>r. r\<lparr>activePresetId := None, updatedAt := now\<rparr>) (account_rows db)\<rparr>))))"

record owned_app =
  o_app :: int
  o_name :: string
  o_playtime :: int

record library_meta =
  m_favorite :: bool
  m_hidden :: bool
  m_tagsJson :: string

definition library_entry ::
    "account_id \<Rightarrow> (int, library_meta) js_map \<Rightarrow> millis \<Rightarrow> owned_app \<Rightarrow> library_row" where
  "library_entry acc meta now a =
     \<lparr>l_account = acc, l_app = o_app a, l_playtime = o_playtime a, l_source = Source_library,
      favorite = (case js_get meta (o_app a) of None \<Rightarrow> False | Some m \<Rightarrow> m_favorite m),
      hidden = (case js_get meta (o_app a) of None \<Rightarrow> False | Some m \<Rightarrow> m_hidden m),
      tagsJson = (case js_get meta (o_app a) of None \<Rightarrow> ''[]'' | Some m \<Rightarrow> m_tagsJson m),
      importedAt = now\<rparr>"

definition import_app :: "account_id \<Rightarrow> (int, library_meta) js_map \<Rightarrow> millis \<Rightarrow> owned_app \<Rightarrow> unit sql" where
  "import_app acc meta now a =
     then_do (upsert_cache \<lparr>c_app = o_app a, c_name = o_name a, c_playtime = o_playtime a,
       c_source = Source_library, c_updatedAt = now\<rparr>) (\<lambda>_.
     insert_library (library_entry acc meta now a))"

definition replaceAccountLibrary ::
    "account_id \<Rightarrow> owned_app list \<Rightarrow> (int, library_meta) js_map \<Rightarrow> millis \<Rightarrow> unit sql" where
  "replaceAccountLibrary acc apps meta now = in_transaction (
     then_do (modify (\<lambda>db. db\<lparr>library_table := filter (\<lambda>l. l_account l \<noteq> acc) (library_table db)\<rparr>)) (\<lambda>_.
     then_do (in_chunks (import_app acc meta now) apps) (\<lambda>_.
     modify (update_account acc (\<lambda>r. r\<lparr>libraryImportedAt := Some now\<rparr>)))))"

text \<open>The marks of the rows that the worker reads before it replaces them.\<close>

definition previous_meta :: "account_id \<Rightarrow> account_tables \<Rightarrow> (int, library_meta) js_map" where
  "previous_meta acc db =
     foldl (\<lambda>m l. js_set (l_app l) \<lparr>m_favorite = favorite l, m_hidden = hidden l, m_tagsJson = tagsJson l\<rparr> m) []
       (filter (\<lambda>l. l_account l = acc) (library_table db))"

definition hasAccountLibrary :: "account_id \<Rightarrow> account_tables \<Rightarrow> bool" where
  "hasAccountLibrary acc db = (case account_of acc db of None \<Rightarrow> False | Some r \<Rightarrow> libraryImportedAt r \<noteq> None)"

section \<open>What an import leaves\<close>

lemma for_each_append:
  "for_each f (xs @ ys) = then_do (for_each f xs) (\<lambda>_. for_each f ys)"
  by (induction xs) (auto simp: fun_eq_iff then_do_apply pure_def split: prod.split sum.split)

lemma in_chunks_eq: "in_chunks f items = for_each f items"
  unfolding in_chunks_def
proof (induction items writeChunkSize rule: chunks.induct)
  case (1 items)
  show ?case
  proof (cases "items = []")
    case True
    then show ?thesis by (simp add: chunks.simps)
  next
    case False
    let ?n = "max 1 writeChunkSize"
    have "for_each (for_each f) (chunks items writeChunkSize)
        = then_do (for_each f (take ?n items)) (\<lambda>_. for_each f (drop ?n items))"
      using False 1 [OF False] by (subst chunks.simps) simp
    then show ?thesis by (simp flip: for_each_append)
  qed
qed

lemma account_of_cong: "account_rows db = account_rows db' \<Longrightarrow> account_of acc db = account_of acc db'"
  by (simp add: account_of_def)

lemma library_entry_simps [simp]:
  "l_account (library_entry acc meta now a) = acc" "l_app (library_entry acc meta now a) = o_app a"
  by (simp_all add: library_entry_def)

lemma import_app_result:
  assumes "account_of acc db \<noteq> None"
  shows "import_app acc meta now a db =
    (if \<exists>r\<in>set (library_table db). l_account r = acc \<and> l_app r = o_app a
     then (Inl Unique_violation, snd (upsert_cache \<lparr>c_app = o_app a, c_name = o_name a, c_playtime = o_playtime a,
       c_source = Source_library, c_updatedAt = now\<rparr> db))
     else (Inr (), (snd (upsert_cache \<lparr>c_app = o_app a, c_name = o_name a, c_playtime = o_playtime a,
       c_source = Source_library, c_updatedAt = now\<rparr> db))
       \<lparr>library_table := library_table db @ [library_entry acc meta now a]\<rparr>))"
  using assms
  by (auto simp: import_app_def upsert_cache_def insert_library_def action_simps account_of_def)

lemma import_apps_ok:
  assumes "account_of acc db \<noteq> None" "distinct (map o_app apps)"
    and "\<And>r. r \<in> set (library_table db) \<Longrightarrow> l_account r = acc \<Longrightarrow> l_app r \<notin> set (map o_app apps)"
  shows "\<exists>db'. for_each (import_app acc meta now) apps db = (Inr (), db') \<and>
    library_table db' = library_table db @ map (library_entry acc meta now) apps \<and>
    account_rows db' = account_rows db"
  using assms
proof (induction apps arbitrary: db)
  case Nil
  then show ?case by (simp add: pure_def)
next
  case (Cons a apps)
  obtain db1 where s: "import_app acc meta now a db = (Inr (), db1)"
    and l: "library_table db1 = library_table db @ [library_entry acc meta now a]"
    and r: "account_rows db1 = account_rows db"
    using Cons.prems(1,3) by (auto simp: import_app_result upsert_cache_def action_simps)
  have "\<exists>db'. for_each (import_app acc meta now) apps db1 = (Inr (), db') \<and>
      library_table db' = library_table db1 @ map (library_entry acc meta now) apps \<and>
      account_rows db' = account_rows db1"
  proof (rule Cons.IH)
    fix x assume x: "x \<in> set (library_table db1)" "l_account x = acc"
    then show "l_app x \<notin> set (map o_app apps)"
      using Cons.prems(2) Cons.prems(3) [of x] by (cases "x \<in> set (library_table db)") (simp_all add: l)
  qed (use Cons.prems account_of_cong [OF r, of acc] in simp_all)
  then show ?case using s l r by (auto simp: then_do_known)
qed

lemma import_apps_duplicate:
  assumes "account_of acc db \<noteq> None"
    and "\<not> distinct (map o_app apps) \<or>
      (\<exists>r\<in>set (library_table db). l_account r = acc \<and> l_app r \<in> set (map o_app apps))"
  shows "fst (for_each (import_app acc meta now) apps db) = Inl Unique_violation"
  using assms
proof (induction apps arbitrary: db)
  case (Cons a apps)
  show ?case
  proof (cases "\<exists>r\<in>set (library_table db). l_account r = acc \<and> l_app r = o_app a")
    case True
    then show ?thesis using Cons.prems(1) by (simp add: import_app_result then_do_known)
  next
    case False
    obtain db1 where s: "import_app acc meta now a db = (Inr (), db1)"
      and l: "library_table db1 = library_table db @ [library_entry acc meta now a]"
      and r: "account_rows db1 = account_rows db"
      using Cons.prems(1) False by (auto simp: import_app_result upsert_cache_def action_simps)
    have "fst (for_each (import_app acc meta now) apps db1) = Inl Unique_violation"
      using Cons.prems False account_of_cong [OF r, of acc]
      by (intro Cons.IH) (auto simp: l)
    then show ?thesis using s by (simp add: then_do_known)
  qed
qed simp

text \<open>A row of the account keeps its marks; an app that was not there starts without any.\<close>

definition marks :: "account_id \<Rightarrow> int \<Rightarrow> account_tables \<Rightarrow> bool \<times> bool \<times> string" where
  "marks acc app db =
     (case List.find (\<lambda>l. l_account l = acc \<and> l_app l = app) (library_table db) of
        None \<Rightarrow> (False, False, ''[]'')
      | Some l \<Rightarrow> (favorite l, hidden l, tagsJson l))"

text \<open>The unique index on account and app.\<close>

definition library_unique :: "account_tables \<Rightarrow> bool" where
  "library_unique db \<longleftrightarrow> distinct (map (\<lambda>l. (l_account l, l_app l)) (library_table db))"

lemma find_append': "List.find P (xs @ ys) = (case List.find P xs of None \<Rightarrow> List.find P ys | Some x \<Rightarrow> Some x)"
  by (induction xs) auto

lemma find_filter: "List.find P (filter Q xs) = List.find (\<lambda>x. Q x \<and> P x) xs"
  by (induction xs) auto

lemma get_meta_fold:
  "distinct (map l_app ls) \<Longrightarrow>
   js_get (foldl (\<lambda>m l. js_set (l_app l) \<lparr>m_favorite = favorite l, m_hidden = hidden l, m_tagsJson = tagsJson l\<rparr> m) m ls) k
   = (case List.find (\<lambda>l. l_app l = k) ls of None \<Rightarrow> js_get m k
      | Some l \<Rightarrow> Some \<lparr>m_favorite = favorite l, m_hidden = hidden l, m_tagsJson = tagsJson l\<rparr>)"
proof (induction ls arbitrary: m)
  case (Cons l ls)
  have "List.find (\<lambda>x. l_app x = k) ls = None" if "l_app l = k"
    unfolding find_None_iff using Cons.prems that by (auto simp: image_iff)
  then show ?case using Cons by (cases "l_app l = k") (auto split: option.split)
qed simp

lemma marks_of_meta:
  assumes "library_unique db"
  shows "marks acc app db = (case js_get (previous_meta acc db) app of None \<Rightarrow> (False, False, ''[]'')
    | Some m \<Rightarrow> (m_favorite m, m_hidden m, m_tagsJson m))"
proof -
  have "distinct (map l_app (filter (\<lambda>l. l_account l = acc) (library_table db)))"
    using assms unfolding library_unique_def by (auto simp: distinct_map inj_on_def)
  then show ?thesis
    by (simp add: previous_meta_def get_meta_fold find_filter marks_def split: option.split)
qed

lemma imported_flag:
  "hasAccountLibrary acc (update_account acc (\<lambda>r. r\<lparr>libraryImportedAt := Some now\<rparr>) db) \<longleftrightarrow> account_of acc db \<noteq> None"
proof -
  have "List.find (\<lambda>r. row_id r = acc) (update_where (\<lambda>r. row_id r = acc) (\<lambda>r. r\<lparr>libraryImportedAt := Some now\<rparr>) rs)
      = map_option (\<lambda>r. r\<lparr>libraryImportedAt := Some now\<rparr>) (List.find (\<lambda>r. row_id r = acc) rs)" for rs
    by (induction rs) (auto simp: update_where_def)
  from this [of "account_rows db"] show ?thesis
    by (auto simp: hasAccountLibrary_def account_of_def update_account_def split: option.split)
qed

lemma find_entry:
  assumes "distinct (map o_app apps)" "a \<in> set apps"
  shows "List.find (\<lambda>l. l_account l = acc \<and> l_app l = o_app a) (map (library_entry acc meta now) apps)
    = Some (library_entry acc meta now a)"
  using assms by (induction apps) auto

text \<open>
  Importing the library of an account replaces exactly its rows by one for each owned app, in
  order, and marks the account as imported; favourites, hidden apps and tags of apps that are
  still owned survive and the rows of other accounts are untouched. If the answer lists an app
  twice, nothing is changed at all.
\<close>

theorem library_import_keeps_marks:
  assumes "account_of acc db \<noteq> None" "library_unique db"
  shows "case replaceAccountLibrary acc apps (previous_meta acc db) now db of
      (Inl e, db') \<Rightarrow> \<not> distinct (map o_app apps) \<and> db' = db
    | (Inr _, db') \<Rightarrow> distinct (map o_app apps) \<and> hasAccountLibrary acc db' \<and> library_unique db' \<and>
        map l_app (filter (\<lambda>l. l_account l = acc) (library_table db')) = map o_app apps \<and>
        filter (\<lambda>l. l_account l \<noteq> acc) (library_table db') = filter (\<lambda>l. l_account l \<noteq> acc) (library_table db) \<and>
        list_all (\<lambda>a. marks acc (o_app a) db' = marks acc (o_app a) db) apps"
proof -
  let ?meta = "previous_meta acc db"
  define db1 where "db1 = db\<lparr>library_table := filter (\<lambda>l. l_account l \<noteq> acc) (library_table db)\<rparr>"
  have acc1: "account_of acc db1 \<noteq> None" using assms(1) by (simp add: db1_def account_of_def)
  have run: "replaceAccountLibrary acc apps ?meta now db =
      (case for_each (import_app acc ?meta now) apps db1 of
         (Inl e, _) \<Rightarrow> (Inl e, db)
       | (Inr _, db2) \<Rightarrow> (Inr (), update_account acc (\<lambda>r. r\<lparr>libraryImportedAt := Some now\<rparr>) db2))"
    by (simp add: replaceAccountLibrary_def in_transaction_def in_chunks_eq db1_def [symmetric] then_do_apply
        action_simps split: prod.split sum.split)
  show ?thesis
  proof (cases "distinct (map o_app apps)")
    case False
    then have "fst (for_each (import_app acc ?meta now) apps db1) = Inl Unique_violation"
      using import_apps_duplicate [OF acc1] by blast
    with False show ?thesis unfolding run by (cases "for_each (import_app acc ?meta now) apps db1") auto
  next
    case d: True
    obtain db2 where s: "for_each (import_app acc ?meta now) apps db1 = (Inr (), db2)"
      and l: "library_table db2 = library_table db1 @ map (library_entry acc ?meta now) apps"
      and r: "account_rows db2 = account_rows db1"
      using import_apps_ok [OF acc1 d, where meta = ?meta and now = now] by (auto simp: db1_def)
    define db' where "db' = update_account acc (\<lambda>r. r\<lparr>libraryImportedAt := Some now\<rparr>) db2"
    have table: "library_table db' = filter (\<lambda>l. l_account l \<noteq> acc) (library_table db) @ map (library_entry acc ?meta now) apps"
      by (simp add: db'_def update_account_def l db1_def)
    have "hasAccountLibrary acc db'"
      using acc1 account_of_cong [OF r, of acc] by (simp add: db'_def imported_flag)
    moreover have "library_unique db'"
      using assms(2) d unfolding library_unique_def table
      by (auto simp: distinct_map inj_on_def comp_def)
    moreover have "marks acc (o_app a) db' = marks acc (o_app a) db" if "a \<in> set apps" for a
    proof -
      have "List.find (\<lambda>l. l_account l = acc \<and> l_app l = o_app a) (library_table db') = Some (library_entry acc ?meta now a)"
        proof -
        have "List.find (\<lambda>l. l_account l = acc \<and> l_app l = o_app a)
          (filter (\<lambda>l. l_account l \<noteq> acc) (library_table db)) = None"
          unfolding find_None_iff by auto
        then show ?thesis unfolding table find_append' find_entry [OF d that] by simp
      qed
      then show ?thesis
        unfolding marks_of_meta [OF assms(2)] by (simp add: marks_def library_entry_def split: option.split)
    qed
    moreover have "replaceAccountLibrary acc apps ?meta now db = (Inr (), db')"
      by (simp add: run s db'_def)
    ultimately show ?thesis using d by (simp add: table list_all_iff filter_map comp_def)
  qed
qed

definition demo_tables :: account_tables where
  "demo_tables =
     \<lparr>account_rows = [demo_row], game_table = [], app_cache = [],
      library_table =
        [\<lparr>l_account = ''a'', l_app = 10, l_playtime = 5, l_source = Source_library, favorite = True, hidden = False,
          tagsJson = ''[x]'', importedAt = 1\<rparr>],
      presets = [], preset_games = []\<rparr>"

theorem library_import_keeps_marks_witness:
  "marks ''a'' 10 (snd (replaceAccountLibrary ''a'' [\<lparr>o_app = 20, o_name = ''n'', o_playtime = 0\<rparr>,
     \<lparr>o_app = 10, o_name = ''m'', o_playtime = 6\<rparr>] (previous_meta ''a'' demo_tables) 9 demo_tables))
   = (True, False, ''[x]'')"
proof -
  let ?apps = "[\<lparr>o_app = 20, o_name = ''n'', o_playtime = 0\<rparr>, \<lparr>o_app = 10, o_name = ''m'', o_playtime = 6\<rparr>]"
  have a: "account_of ''a'' demo_tables \<noteq> None" by (simp add: account_of_def demo_tables_def demo_row_def)
  have u: "library_unique demo_tables" by (simp add: library_unique_def demo_tables_def)
  have m: "marks ''a'' 10 demo_tables = (True, False, ''[x]'')" by (simp add: marks_def demo_tables_def)
  from library_import_keeps_marks [OF a u, of ?apps 9] m show ?thesis
    by (cases "replaceAccountLibrary ''a'' ?apps (previous_meta ''a'' demo_tables) 9 demo_tables") 
      (auto split: sum.splits)
qed

end
