(* ===== verification/SteamWorker.thy ===== *)
theory SteamWorker
  imports AccountTables
begin

text \<open>
  The connection of one account to Steam: \<open>SteamWorker\<close> of \<open>apps/server/src/steam/worker.ts\<close>, with
  \<open>enforceGameLimit\<close> of \<open>steam/validation.ts\<close>.

  An asynchronous method is an action on a world that holds the fields of the worker, the tables
  it writes and what the Steam client was told. Every \<open>await\<close> is a \<open>moment\<close> supplied by the world: it
  may reject, time may pass, and what is not serialised may happen meanwhile (the shutdown begins,
  farming drops its selection, Steam events and renewed tokens arrive). Methods and events that go
  through \<open>runSerial\<close> run one after the other; a fired timer is one more such step, for the account
  manager runs it in the queue of the account.
\<close>

section \<open>The state of a worker\<close>

datatype game_entry = App int | Title string

datatype played_mode = Play_idle | Play_manual | Play_farming

record worker_activity =
  wa_mode :: played_mode
  wa_appIds :: "int list"

datatype conflict_source = Login_conflict | Live_conflict

record reconnect_timer =
  rt_due :: millis
  rt_generation :: nat
  rt_decision :: retry_decision

record conflict_timer =
  ct_due :: millis
  ct_generation :: nat
  ct_resetCycle :: bool

record worker =
  accountId :: account_id
  farmingAppIds :: "int list option"
  awaitingFarming :: bool
  farmingInterruptedByShutdown :: bool
  reportedAppIds :: "int list"
  reportedActivityMode :: played_mode
  lastActivityKey :: "worker_activity option"
  account :: account_row
  status :: account_status
  connected :: bool
  manuallyPaused :: bool
  blockedByOtherSession :: bool
  reconnectTimer :: "reconnect_timer option"
  sessionConflictTimer :: "conflict_timer option"
  reconnectAttempt :: nat
  sessionConflictAttempt :: nat
  sessionConflictMode :: "conflict_source option"
  loginAttemptId :: nat
  handledConflictLoginAttemptId :: "nat option"
  startInFlight :: bool
  quiescing :: bool
  intentGeneration :: nat
  credentialError :: bool
  shutdownPromise :: bool

definition new_worker :: "account_row \<Rightarrow> worker" where
  "new_worker acc =
     \<lparr>accountId = row_id acc, farmingAppIds = None, awaitingFarming = False,
      farmingInterruptedByShutdown = False, reportedAppIds = [], reportedActivityMode = Play_idle,
      lastActivityKey = None, account = acc, status = row_status acc, connected = False,
      manuallyPaused = False, blockedByOtherSession = False, reconnectTimer = None,
      sessionConflictTimer = None, reconnectAttempt = 0, sessionConflictAttempt = 0,
      sessionConflictMode = None, loginAttemptId = 0, handledConflictLoginAttemptId = None,
      startInFlight = False, quiescing = False, intentGeneration = 0, credentialError = False,
      shutdownPromise = False\<rparr>"

section \<open>The world around it\<close>

text \<open>What the Steam client is told; each entry of the log carries the worker that said it.\<close>

datatype client_call =
  Games_played "game_entry list"
| Log_on string
| Log_off
| Set_persona int
| Invalidate_community
| Client_begin_shutdown
| Client_drained

datatype client_event =
  Logged_on
| Playing_state bool
| Client_disconnected "int option" "string option"
| Client_error failure_value string

datatype interruption =
  Shutdown_begins
| Selection_cleared bool
| Event_arrives client_event
| Credential_renewed renewed_credential

record moment =
  fault :: "string option"
  elapsed :: millis
  meanwhile :: "interruption list"

record status_payload =
  sp_status :: account_status
  sp_activity :: worker_activity
  sp_error :: "string option"

record conflict_input =
  ci_attempt :: nat
  ci_nextRetryAt :: millis
  ci_cooldown :: bool
  ci_source :: conflict_source
  ci_errorCode :: "int option"

text \<open>
  \<open>moments\<close>, \<open>client_faults\<close>, \<open>answers\<close> (of \<open>shouldPause\<close>, \<open>shouldApply\<close> and
  \<open>farmingResumesAfterShutdown\<close>) and \<open>dice\<close> are what the surroundings will do; where a list has run
  out, nothing fails and every answer is yes. An owned app comes with its optional name and playtime.
\<close>

record world =
  self :: worker
  crypto :: secrets
  tables :: account_tables
  ops :: ops_db
  clock :: millis
  moments :: "moment list"
  client_faults :: "string option list"
  answers :: "bool list"
  dice :: "nat list"
  client_steamId :: "string option"
  owned_apps :: "(int \<times> string option \<times> int option) list"
  calls :: "(client_call \<times> worker) list"
  emitted :: "status_payload list"
  conflicts :: "conflict_input list"
  queued_events :: "(client_event \<times> nat) list"

type_synonym 'a io = "(world, string, 'a) action"

definition me :: "(worker \<Rightarrow> worker) \<Rightarrow> unit io" where
  "me f = modify (\<lambda>w. w\<lparr>self := f (self w)\<rparr>)"

primrec do_all :: "('s, 'e, unit) action list \<Rightarrow> ('s, 'e, unit) action" where
  "do_all [] = pure ()"
| "do_all (m # ms) = then_do m (\<lambda>_. do_all ms)"

declare do_all.simps [simp del]

definition branch :: "('s \<Rightarrow> bool) \<Rightarrow> ('s, 'e, 'a) action \<Rightarrow> ('s, 'e, 'a) action \<Rightarrow> ('s, 'e, 'a) action" where
  "branch c m n w = (if c w then m w else n w)"

definition looking :: "('s \<Rightarrow> ('s, 'e, 'a) action) \<Rightarrow> ('s, 'e, 'a) action" where
  "looking f w = f w w"

definition finally_do :: "('s, 'e, unit) action \<Rightarrow> ('s, 'e, unit) action \<Rightarrow> ('s, 'e, unit) action" where
  "finally_do m f w =
     (case m w of (r, w') \<Rightarrow> (case f w' of (Inl e, w'') \<Rightarrow> (Inl e, w'') | (Inr _, w'') \<Rightarrow> (r, w'')))"

definition captured :: "('s, 'e, unit) action \<Rightarrow> ('s, 'e, 'e option) action" where
  "captured m = catching (then_do m (\<lambda>_. pure None)) (\<lambda>e. pure (Some e))"

text \<open>An answer of the surroundings.\<close>

definition ask :: "bool io" where
  "ask w = (case answers w of [] \<Rightarrow> (Inr True, w) | b # bs \<Rightarrow> (Inr b, w\<lparr>answers := bs\<rparr>))"

definition roll :: "nat io" where
  "roll w = (case dice w of [] \<Rightarrow> (Inr 0, w) | d # ds \<Rightarrow> (Inr (d mod 2500), w\<lparr>dice := ds\<rparr>))"

text \<open>Calls of the client: \<open>tell\<close> cannot throw, \<open>call\<close> may.\<close>

definition tell :: "client_call \<Rightarrow> world \<Rightarrow> world" where
  "tell c w = w\<lparr>calls := (c, self w) # calls w\<rparr>"

definition call :: "client_call \<Rightarrow> unit io" where
  "call c w =
     (case client_faults w of
        [] \<Rightarrow> (Inr (), tell c w)
      | f # fs \<Rightarrow>
          let w = w\<lparr>client_faults := fs\<rparr> in
          (case f of None \<Rightarrow> (Inr (), tell c w) | Some e \<Rightarrow> (Inl e, w)))"

section \<open>Small methods\<close>

definition isFarming :: "worker \<Rightarrow> bool" where
  "isFarming s \<longleftrightarrow> farmingAppIds s \<noteq> None"

definition wants_running :: "worker \<Rightarrow> bool" where
  "wants_running s \<longleftrightarrow> desiredState (account s) = Desire_running"

definition getActivity :: "worker \<Rightarrow> worker_activity" where
  "getActivity s =
     (if \<not> connected s \<or> quiescing s \<or> manuallyPaused s \<or> blockedByOtherSession s
      then \<lparr>wa_mode = Play_idle, wa_appIds = []\<rparr>
      else \<lparr>wa_mode = (if isFarming s then Play_farming else reportedActivityMode s),
            wa_appIds = (if isFarming s \<and> reportedActivityMode s \<noteq> Play_farming then []
                         else reportedAppIds s)\<rparr>)"

fun app_entries :: "game_entry list \<Rightarrow> int list" where
  "app_entries [] = []"
| "app_entries (App a # es) = a # app_entries es"
| "app_entries (Title _ # es) = app_entries es"

definition reportGames :: "game_entry list \<Rightarrow> unit io" where
  "reportGames payload = do_all [
     call (Games_played payload),
     me (\<lambda>s. s\<lparr>reportedAppIds := app_entries payload,
       reportedActivityMode := (if isFarming s then Play_farming
         else if payload \<noteq> [] then Play_manual else Play_idle)\<rparr>)]"

definition clearFarmingSelection :: "bool \<Rightarrow> worker \<Rightarrow> worker" where
  "clearFarmingSelection keepAwaitingFarming s =
     s\<lparr>farmingAppIds := None, awaitingFarming := (keepAwaitingFarming \<and> awaitingFarming s)\<rparr>"

definition clearReconnect :: "worker \<Rightarrow> worker" where
  "clearReconnect s = s\<lparr>reconnectTimer := None\<rparr>"

definition clearSessionConflictTimer :: "worker \<Rightarrow> worker" where
  "clearSessionConflictTimer s = s\<lparr>sessionConflictTimer := None\<rparr>"

definition resetSessionConflict :: "worker \<Rightarrow> worker" where
  "resetSessionConflict s =
     s\<lparr>sessionConflictAttempt := 0, sessionConflictMode := None, handledConflictLoginAttemptId := None,
       blockedByOtherSession := False\<rparr>"

definition clearRetryTimers :: "worker \<Rightarrow> worker" where
  "clearRetryTimers s = clearSessionConflictTimer (clearReconnect s)"

definition beginShutdown :: "unit io" where
  "beginShutdown = branch (\<lambda>w. quiescing (self w)) (pure ()) (do_all [
     me (\<lambda>s. s\<lparr>quiescing := True\<rparr>),
     then_do (branch (\<lambda>w. isFarming (self w)) (then_do ask (\<lambda>resumes. pure (\<not> resumes))) (pure False))
       (\<lambda>interrupted. me (\<lambda>s. s\<lparr>farmingInterruptedByShutdown := interrupted\<rparr>)),
     me (clearFarmingSelection False),
     modify (tell Invalidate_community),
     me clearRetryTimers,
     me resetSessionConflict,
     modify (tell Client_begin_shutdown)])"

text \<open>An event remembers the intent under which it arrived; none is taken up after the shutdown began.\<close>

definition receive :: "client_event \<Rightarrow> world \<Rightarrow> world" where
  "receive e w =
     (if quiescing (self w) then w
      else w\<lparr>queued_events := queued_events w @ [(e, intentGeneration (self w))]\<rparr>)"

text \<open>A renewed token is stored at once, whatever the worker is doing; a failure is remembered.\<close>

definition credential_renewed :: "renewed_credential \<Rightarrow> world \<Rightarrow> world" where
  "credential_renewed c w =
     (case persistRefreshToken (crypto w) c (clock w) (account_of (accountId (self w)) (tables w)) (account (self w)) of
        Inl _ \<Rightarrow> w\<lparr>self := (self w)\<lparr>credentialError := True\<rparr>\<rparr>
      | Inr (row', acc') \<Rightarrow>
          w\<lparr>self := (self w)\<lparr>account := acc'\<rparr>,
            tables := (case row' of None \<Rightarrow> tables w | Some r \<Rightarrow> update_account (accountId (self w)) (\<lambda>_. r) (tables w))\<rparr>)"

fun interrupt :: "interruption \<Rightarrow> world \<Rightarrow> world" where
  "interrupt Shutdown_begins w = snd (beginShutdown w)"
| "interrupt (Selection_cleared keep) w = w\<lparr>self := clearFarmingSelection keep (self w)\<rparr>"
| "interrupt (Event_arrives e) w = receive e w"
| "interrupt (Credential_renewed c) w = credential_renewed c w"

text \<open>\<open>await\<close> of an operation with an effect outside the worker.\<close>

definition pass :: "moment \<Rightarrow> world \<Rightarrow> world" where
  "pass m w = foldl (\<lambda>w i. interrupt i w) (w\<lparr>clock := clock w + elapsed m\<rparr>) (meanwhile m)"

definition wait :: "(world \<Rightarrow> world) \<Rightarrow> unit io" where
  "wait effect w =
     (case moments w of
        [] \<Rightarrow> (Inr (), effect w)
      | m # ms \<Rightarrow>
          let w = w\<lparr>moments := ms\<rparr> in
          (case fault m of
             None \<Rightarrow> (Inr (), pass m (effect w))
           | Some e \<Rightarrow> (Inl e, pass m w)))"

definition write_row :: "(world \<Rightarrow> account_row \<Rightarrow> account_row) \<Rightarrow> world \<Rightarrow> world" where
  "write_row f w = w\<lparr>tables := update_account (accountId (self w)) (f w) (tables w)\<rparr>"

definition write_ops :: "(account_id \<Rightarrow> millis \<Rightarrow> ops_db \<Rightarrow> ops_db) \<Rightarrow> unit io" where
  "write_ops f = wait (\<lambda>w. w\<lparr>ops := f (accountId (self w)) (clock w) (ops w)\<rparr>)"

definition setDesiredState :: "desired_state \<Rightarrow> unit io" where
  "setDesiredState d = do_all [
     me (\<lambda>s. s\<lparr>intentGeneration := intentGeneration s + (if desiredState (account s) \<noteq> d then 1 else 0),
       account := (account s)\<lparr>desiredState := d\<rparr>\<rparr>),
     wait (write_row (\<lambda>w r. r\<lparr>desiredState := d, updatedAt := clock w\<rparr>))]"

text \<open>Nothing is written or announced when status, error and activity are as before.\<close>

definition with_status :: "account_status \<Rightarrow> string option \<Rightarrow> millis option \<Rightarrow> millis \<Rightarrow> account_row \<Rightarrow> account_row" where
  "with_status st err boost now r =
     r\<lparr>row_status := st, lastError := err, latestBoostStartedAt := boost, updatedAt := now\<rparr>"

definition setStatus :: "account_status \<Rightarrow> string option \<Rightarrow> unit io" where
  "setStatus st err = looking (\<lambda>w.
      let s = self w; activity = getActivity s;
          boost = (if st = Boosting
                   then Some (case latestBoostStartedAt (account s) of None \<Rightarrow> clock w | Some t \<Rightarrow> t)
                   else None);
          now = clock w
      in if status s = st \<and> lastError (account s) = err \<and> lastActivityKey s = Some activity then pure ()
         else do_all [
           me (\<lambda>s. s\<lparr>status := st, lastActivityKey := Some activity,
             account := with_status st err boost now (account s)\<rparr>),
           wait (write_row (\<lambda>_. with_status st err boost now)),
           modify (\<lambda>w. w\<lparr>emitted := \<lparr>sp_status = st, sp_activity = activity, sp_error = err\<rparr> # emitted w\<rparr>)])"

definition persistSteamId :: "unit io" where
  "persistSteamId = looking (\<lambda>w.
      case client_steamId w of
        None \<Rightarrow> pure ()
      | Some i \<Rightarrow>
          let now = clock w in
          if i = [] \<or> steamId (account (self w)) = Some i then pure ()
          else do_all [
            me (\<lambda>s. s\<lparr>account := (account s)\<lparr>steamId := Some i, updatedAt := now\<rparr>\<rparr>),
            wait (write_row (\<lambda>_ r. r\<lparr>steamId := Some i, updatedAt := now\<rparr>))])"

section \<open>Games\<close>

definition enforceGameLimit :: "int list \<Rightarrow> string option \<Rightarrow> string + unit" where
  "enforceGameLimit appIds title =
     (let limit = gameSelectionLimit title
      in if length appIds > limit
         then Inl (''Too many games selected. This configuration allows at most '' @ nat_text limit @ '' entries.'')
         else Inr ())"

definition title_entry :: "string option \<Rightarrow> game_entry list" where
  "title_entry t = (case t of None \<Rightarrow> [] | Some t \<Rightarrow> if js_trim t \<noteq> [] then [Title (js_trim t)] else [])"

definition enabled_apps :: "world \<Rightarrow> int list" where
  "enabled_apps w = map g_app (filter enabled (filter (\<lambda>g. g_account g = accountId (self w)) (game_table (tables w))))"

definition limited :: "int list \<Rightarrow> game_entry list \<Rightarrow> game_entry list io" where
  "limited appIds payload = looking (\<lambda>w.
      case enforceGameLimit appIds (customTitle (account (self w))) of
        Inl e \<Rightarrow> reject e
      | Inr _ \<Rightarrow> pure payload)"

definition selectedGamesPayload :: "game_entry list io" where
  "selectedGamesPayload = looking (\<lambda>w.
      case farmingAppIds (self w) of
        Some appIds \<Rightarrow> limited appIds (map App appIds)
      | None \<Rightarrow>
          if awaitingFarming (self w) then pure []
          else then_do (wait (\<lambda>w. w)) (\<lambda>_. looking (\<lambda>w.
                 let appIds = enabled_apps w
                 in limited appIds (title_entry (customTitle (account (self w))) @ map App appIds))))"

definition report_and_set :: "game_entry list \<Rightarrow> account_status \<Rightarrow> unit io" where
  "report_and_set payload st = do_all [reportGames payload, setStatus st None]"

definition report_selected :: "bool io \<Rightarrow> game_entry list \<Rightarrow> unit io" where
  "report_selected shouldApply payload =
     branch (\<lambda>w. quiescing (self w)) (pure ()) (then_do shouldApply (\<lambda>go.
       if \<not> go then pure ()
       else report_and_set payload (if payload \<noteq> [] then Boosting else Online)))"

definition applyGames :: "bool io \<Rightarrow> unit io" where
  "applyGames shouldApply =
     branch (\<lambda>w. quiescing (self w) \<or> \<not> connected (self w)) (pure ())
    (branch (\<lambda>w. manuallyPaused (self w)) (report_and_set [] Paused_manual)
    (branch (\<lambda>w. blockedByOtherSession (self w)) (report_and_set [] Paused_other_session)
    (then_do selectedGamesPayload (report_selected shouldApply))))"

text \<open>The default of \<open>shouldApply\<close> and \<open>shouldPause\<close>.\<close>

definition always :: "bool io" where
  "always = pure True"

section \<open>Commands\<close>

definition redundant_start :: "worker \<Rightarrow> bool" where
  "redundant_start s \<longleftrightarrow>
     startInFlight s \<or> status s = Connecting \<or> connected s \<and> status s \<in> {Online, Boosting}"

definition log_on :: "string \<Rightarrow> unit io" where
  "log_on token = finally_do
     (branch (\<lambda>w. quiescing (self w)) (pure ()) (do_all [
        me (\<lambda>s. s\<lparr>loginAttemptId := Suc (loginAttemptId s), handledConflictLoginAttemptId := None\<rparr>),
        call (Log_on token)]))
     (me (\<lambda>s. s\<lparr>startInFlight := False\<rparr>))"

definition begin_start :: "string \<Rightarrow> unit io" where
  "begin_start token = do_all [
     me (\<lambda>s. s\<lparr>manuallyPaused := False, startInFlight := True\<rparr>),
     setDesiredState Desire_running,
     setStatus Connecting None,
     log_on token]"

definition startNow :: "unit io" where
  "startNow =
     branch (\<lambda>w. quiescing (self w)) (pure ())
    (branch (\<lambda>w. redundant_start (self w)) (pure ()) (looking (\<lambda>w.
       case getRefreshToken (crypto w) (account_of (accountId (self w)) (tables w)) (account (self w)) of
         Inl e \<Rightarrow> reject e
       | Inr token \<Rightarrow>
           if \<not> present token then setStatus Login_required (Some ''Refresh token is missing or incomplete.'')
           else begin_start (the token))))"

definition stopNow :: "unit io" where
  "stopNow = do_all [
     me (clearFarmingSelection False),
     modify (tell Invalidate_community),
     me clearRetryTimers,
     me resetSessionConflict,
     write_ops clearRecoveryHealth,
     write_ops clearSafetyHold,
     setDesiredState Desire_stopped,
     reportGames [],
     call Log_off,
     me (\<lambda>s. s\<lparr>connected := False\<rparr>),
     setStatus Disconnected None]"

definition shutdownNow :: "unit io" where
  "shutdownNow =
     then_do (branch (\<lambda>w. farmingInterruptedByShutdown (self w))
       (captured (setDesiredState Desire_paused)) (pure None)) (\<lambda>farmingPauseError. do_all [
     me clearRetryTimers,
     me resetSessionConflict,
     reportGames [],
     wait (tell Client_drained),
     wait (\<lambda>w. w),
     me (\<lambda>s. s\<lparr>connected := False\<rparr>),
     setStatus Disconnected None,
     case farmingPauseError of None \<Rightarrow> pure () | Some e \<Rightarrow> reject e])"

definition shutdown :: "unit io" where
  "shutdown = branch (\<lambda>w. shutdownPromise (self w)) (pure ()) (do_all [
     beginShutdown,
     me (\<lambda>s. s\<lparr>shutdownPromise := True\<rparr>),
     wait (\<lambda>w. w),
     wait (\<lambda>w. w),
     shutdownNow,
     branch (\<lambda>w. credentialError (self w)) (reject ''Could not persist a renewed Steam credential.'') (pure ())])"

definition if_still :: "('s, 'e, bool) action \<Rightarrow> ('s, 'e, unit) action \<Rightarrow> ('s, 'e, unit) action" where
  "if_still shouldPause m = then_do shouldPause (\<lambda>go. if go then m else pure ())"

definition pauseNow :: "bool io \<Rightarrow> unit io" where
  "pauseNow shouldPause =
     if_still shouldPause (do_all [
       me (clearFarmingSelection False),
       me clearRetryTimers,
       me resetSessionConflict,
       write_ops clearRecoveryHealth,
       if_still shouldPause (do_all [
         me (\<lambda>s. s\<lparr>manuallyPaused := True\<rparr>),
         setDesiredState Desire_paused,
         if_still shouldPause (do_all [
           reportGames [],
           setStatus Paused_manual None])])])"

primrec first_failure :: "'e option list \<Rightarrow> ('s, 'e, unit) action" where
  "first_failure [] = pure ()"
| "first_failure (f # fs) = (case f of None \<Rightarrow> first_failure fs | Some e \<Rightarrow> reject e)"

text \<open>Every step is tried even if an earlier one failed; the first failure is thrown at the end.\<close>

definition forceDisconnectForSafety :: "string \<Rightarrow> bool io \<Rightarrow> unit io" where
  "forceDisconnectForSafety message shouldPause =
     if_still shouldPause (do_all [
       me (clearFarmingSelection False),
       modify (tell Invalidate_community),
       me clearRetryTimers,
       me resetSessionConflict,
       me (\<lambda>s. s\<lparr>manuallyPaused := True\<rparr>),
       then_do (captured (write_ops clearRecoveryHealth)) (\<lambda>f1.
       then_do (captured (setDesiredState Desire_paused)) (\<lambda>f2.
       if_still shouldPause (
       then_do (captured (reportGames [])) (\<lambda>f3.
       then_do (captured (call Log_off)) (\<lambda>f4.
       then_do (me (\<lambda>s. s\<lparr>connected := False\<rparr>)) (\<lambda>_.
       then_do (captured (setStatus Paused_manual (Some message))) (\<lambda>f5.
       first_failure [f1, f2, f3, f4, f5])))))))])"

definition attention_health :: recovery_input where
  "attention_health = \<lparr>in_nextRetryAt = None, in_retryAttempt = 0, in_errorClass = Class_terminal,
     in_errorCode = None, in_recoveryAction = Recovery_attention\<rparr>"

definition markSafetyAttention :: "string \<Rightarrow> unit io" where
  "markSafetyAttention message = do_all [
     me clearRetryTimers,
     me resetSessionConflict,
     me (\<lambda>s. s\<lparr>connected := False, manuallyPaused := True\<rparr>),
     setDesiredState Desire_paused,
     write_ops (\<lambda>acc. setRecoveryHealth acc attention_health),
     setStatus Errored (Some message)]"

definition start_or_apply :: "unit io" where
  "start_or_apply = branch (\<lambda>w. \<not> connected (self w)) startNow (applyGames always)"

definition resumeNow :: "unit io" where
  "resumeNow = do_all [
     me (\<lambda>s. s\<lparr>manuallyPaused := False, awaitingFarming := False\<rparr>),
     setDesiredState Desire_running,
     start_or_apply]"

definition resumeForFarming :: "unit io" where
  "resumeForFarming = do_all [
     me (\<lambda>s. s\<lparr>manuallyPaused := False, farmingAppIds := Some [], awaitingFarming := True\<rparr>),
     setDesiredState Desire_running,
     start_or_apply]"

definition updateAccountNow :: "account_row \<Rightarrow> unit io" where
  "updateAccountNow acc = do_all [
     branch (\<lambda>w. desiredState acc \<noteq> desiredState (account (self w)))
       (do_all [
          me (\<lambda>s. s\<lparr>intentGeneration := Suc (intentGeneration s)\<rparr>),
          if desiredState acc \<noteq> Desire_running
          then do_all [me clearRetryTimers, me resetSessionConflict, write_ops clearRecoveryHealth]
          else pure ()])
       (pure ()),
     me (\<lambda>s. s\<lparr>account := acc\<rparr>),
     branch (\<lambda>w. quiescing (self w)) (pure ()) (do_all [
       call (Set_persona (personaState acc)),
       applyGames always])]"

definition applyFarmingSelection :: "int list \<Rightarrow> bool io \<Rightarrow> unit io" where
  "applyFarmingSelection appIds shouldApply =
     then_do shouldApply (\<lambda>go.
     branch (\<lambda>w. \<not> go \<or> \<not> connected (self w) \<or> quiescing (self w) \<or> manuallyPaused (self w) \<or>
         blockedByOtherSession (self w))
       (reject ''The Steam account is unavailable for card farming.'')
       (then_do (limited appIds []) (\<lambda>_.
        then_do (me (\<lambda>s. s\<lparr>farmingAppIds := Some appIds, awaitingFarming := False\<rparr>)) (\<lambda>_.
        then_do shouldApply (\<lambda>go.
        if \<not> go then me (clearFarmingSelection False) else applyGames shouldApply)))))"

text \<open>The owned apps as the client lists them, with the marks of the rows they replace.\<close>

definition owned_app_of :: "int \<times> string option \<times> int option \<Rightarrow> owned_app" where
  "owned_app_of a =
     \<lparr>o_app = fst a, o_name = (if present (fst (snd a)) then the (fst (snd a)) else default_app_name (fst a)),
      o_playtime = (case snd (snd a) of None \<Rightarrow> 0 | Some t \<Rightarrow> t)\<rparr>"

definition store_library :: "owned_app list \<Rightarrow> millis \<Rightarrow> unit io" where
  "store_library apps now w =
     (case replaceAccountLibrary (accountId (self w)) apps (previous_meta (accountId (self w)) (tables w)) now (tables w) of
        (Inl _, _) \<Rightarrow> (Inl ''UNIQUE constraint failed'', w)
      | (Inr _, db) \<Rightarrow> (Inr (), w\<lparr>tables := db\<rparr>))"

definition importLibraryNow :: "unit io" where
  "importLibraryNow =
     branch (\<lambda>w. client_steamId w = None) (reject ''The account is not connected.'')
       (then_do (wait (\<lambda>w. w)) (\<lambda>_.
        then_do (reading (\<lambda>w. map owned_app_of (owned_apps w))) (\<lambda>apps.
        then_do (reading clock) (\<lambda>now.
        then_do (wait (\<lambda>w. w)) (\<lambda>_. store_library apps now)))))"

section \<open>Retries\<close>

definition backoff :: "nat \<Rightarrow> millis" where
  "backoff attempt = min (15 * one_minute) (10000 * 2 ^ min attempt 6)"

definition retry_health :: "retry_decision \<Rightarrow> millis option \<Rightarrow> nat \<Rightarrow> recovery_input" where
  "retry_health d at attempt = \<lparr>in_nextRetryAt = at, in_retryAttempt = attempt, in_errorClass = errorClass d,
     in_errorCode = errorCode d, in_recoveryAction = recoveryAction d\<rparr>"

definition arm_reconnect :: "retry_decision \<Rightarrow> millis \<Rightarrow> nat \<Rightarrow> unit io" where
  "arm_reconnect d wait_ms generation =
     modify (\<lambda>w. w\<lparr>self := (self w)\<lparr>reconnectTimer :=
       Some \<lparr>rt_due = clock w + wait_ms, rt_generation = generation, rt_decision = d\<rparr>\<rparr>\<rparr>)"

definition scheduleReconnect :: "retry_decision \<Rightarrow> unit io" where
  "scheduleReconnect d = do_all [
     me clearReconnect,
     me clearSessionConflictTimer,
     me resetSessionConflict,
     me (\<lambda>s. s\<lparr>reconnectAttempt := Suc (reconnectAttempt s)\<rparr>),
     then_do roll (\<lambda>jitter. looking (\<lambda>w.
       let s = self w;
           delay = max (backoff (reconnectAttempt s)) (minimumDelayMs d) + int jitter;
           at = clock w + delay
       in do_all [
         write_ops (\<lambda>acc. setRecoveryHealth acc (retry_health d (Some at) (reconnectAttempt s))),
         arm_reconnect d delay (intentGeneration s)]))]"

definition handleTerminalFailure :: "retry_decision \<Rightarrow> string \<Rightarrow> unit io" where
  "handleTerminalFailure d message = do_all [
     me clearRetryTimers,
     me resetSessionConflict,
     me (\<lambda>s. s\<lparr>connected := False, blockedByOtherSession := False\<rparr>),
     looking (\<lambda>w. write_ops (\<lambda>acc. setRecoveryHealth acc (retry_health d None (reconnectAttempt (self w))))),
     setDesiredState Desire_paused,
     setStatus (if errorClass d = Class_authentication then Login_required else Errored) (Some message)]"

definition scheduleSessionConflictRetry :: "millis \<Rightarrow> bool \<Rightarrow> unit io" where
  "scheduleSessionConflictRetry delay resetCycle =
     modify (\<lambda>w. w\<lparr>self := (self w)\<lparr>sessionConflictTimer :=
       Some \<lparr>ct_due = clock w + delay, ct_generation = intentGeneration (self w), ct_resetCycle = resetCycle\<rparr>\<rparr>\<rparr>)"

definition registerSessionConflict :: "conflict_source \<Rightarrow> int option \<Rightarrow> unit io" where
  "registerSessionConflict source code = do_all [
     me clearReconnect,
     me clearSessionConflictTimer,
     me (\<lambda>s. s\<lparr>sessionConflictMode := Some source, sessionConflictAttempt := Suc (sessionConflictAttempt s)\<rparr>),
     looking (\<lambda>w.
       let attempt = sessionConflictAttempt (self w);
           cooldown = attempt \<ge> 3;
           delay = sessionConflictDelay attempt;
           at = clock w + delay
       in do_all [
         write_ops (\<lambda>acc. setRecoveryHealth acc \<lparr>in_nextRetryAt = Some at, in_retryAttempt = attempt,
           in_errorClass = Class_session_replaced, in_errorCode = code,
           in_recoveryAction = (if cooldown then Recovery_wait else Recovery_retry)\<rparr>),
         wait (\<lambda>w. w\<lparr>conflicts := \<lparr>ci_attempt = attempt, ci_nextRetryAt = at, ci_cooldown = cooldown,
           ci_source = source, ci_errorCode = code\<rparr> # conflicts w\<rparr>),
         scheduleSessionConflictRetry delay cooldown])]"

definition conflict_handled :: "worker \<Rightarrow> bool" where
  "conflict_handled s \<longleftrightarrow> handledConflictLoginAttemptId s = Some (loginAttemptId s)"

definition handleLoginSessionConflict :: "retry_decision \<Rightarrow> unit io" where
  "handleLoginSessionConflict d =
     branch (\<lambda>w. conflict_handled (self w)) (pure ()) (do_all [
       me (\<lambda>s. s\<lparr>handledConflictLoginAttemptId := Some (loginAttemptId s), connected := False,
         blockedByOtherSession := False\<rparr>),
       setStatus Reconnecting None,
       registerSessionConflict Login_conflict (errorCode d)])"

definition retryLiveSessionConflict :: "unit io" where
  "retryLiveSessionConflict =
     branch (\<lambda>w. \<not> blockedByOtherSession (self w))
       (do_all [
          me resetSessionConflict,
          write_ops clearRecoveryHealth,
          applyGames always])
       (then_do selectedGamesPayload (\<lambda>payload.
          branch (\<lambda>w. quiescing (self w)) (pure ()) (do_all [
            reportGames payload,
            registerSessionConflict Live_conflict None])))"

section \<open>Events of the client\<close>

definition keepsRunningForFarming :: "retry_decision \<Rightarrow> bool io" where
  "keepsRunningForFarming d =
     branch (\<lambda>w. \<not> terminal d \<and> errorClass d \<noteq> Class_session_replaced \<and> \<not> conflict_handled (self w))
       ask (pure False)"

definition on_loggedOn :: "unit io" where
  "on_loggedOn = do_all [
     me (\<lambda>s. s\<lparr>connected := True\<rparr>),
     me clearReconnect,
     me (\<lambda>s. s\<lparr>reconnectAttempt := 0\<rparr>),
     me clearSessionConflictTimer,
     me resetSessionConflict,
     write_ops touchSteamContact,
     write_ops clearRecoveryHealth,
     persistSteamId,
     branch (\<lambda>w. quiescing (self w)) (pure ()) (do_all [
       looking (\<lambda>w. call (Set_persona (personaState (account (self w))))),
       setStatus Online None,
       applyGames always])]"

definition on_blocked :: "bool \<Rightarrow> unit io" where
  "on_blocked wasBlocked =
     then_do (reading (\<lambda>w. isFarming (self w))) (\<lambda>wasFarming. do_all [
       me (clearFarmingSelection False),
       if wasFarming
       then do_all [me (\<lambda>s. s\<lparr>manuallyPaused := True\<rparr>), setDesiredState Desire_paused]
       else pure (),
       reportGames [],
       setStatus Paused_other_session None,
       branch (\<lambda>w. \<not> wasBlocked \<and> wants_running (self w)) (registerSessionConflict Live_conflict None) (pure ())])"

definition on_available :: "unit io" where
  "on_available =
     branch (\<lambda>w. \<not> manuallyPaused (self w) \<and> wants_running (self w))
       (do_all [
          me clearSessionConflictTimer,
          me resetSessionConflict,
          write_ops clearRecoveryHealth,
          applyGames always])
       (pure ())"

definition on_playingState :: "bool \<Rightarrow> unit io" where
  "on_playingState blocked =
     then_do (write_ops touchSteamContact) (\<lambda>_.
     then_do (reading (\<lambda>w. blockedByOtherSession (self w))) (\<lambda>wasBlocked.
     then_do (me (\<lambda>s. s\<lparr>blockedByOtherSession := blocked\<rparr>)) (\<lambda>_.
     if blocked then on_blocked wasBlocked
     else if \<not> wasBlocked then pure ()
     else on_available)))"

text \<open>What a lost connection does to farming: resume it after the reconnect, or pause the account.\<close>

definition interrupt_farming :: "bool \<Rightarrow> bool \<Rightarrow> unit io" where
  "interrupt_farming wasFarming resumeFarming =
     (if resumeFarming then me (\<lambda>s. s\<lparr>awaitingFarming := True\<rparr>)
      else if wasFarming
      then do_all [me (\<lambda>s. s\<lparr>manuallyPaused := True\<rparr>), setDesiredState Desire_paused]
      else pure ())"

definition resumes_farming :: "bool \<Rightarrow> retry_decision \<Rightarrow> bool io" where
  "resumes_farming wasFarming d = (if wasFarming then keepsRunningForFarming d else pure False)"

definition on_disconnected :: "int option \<Rightarrow> string option \<Rightarrow> unit io" where
  "on_disconnected eresult message =
     (let d = classifySteamFailure (case eresult of None \<Rightarrow> Failure_other | Some k \<Rightarrow> Failure_number (Whole k))
      in then_do (reading (\<lambda>w. isFarming (self w))) (\<lambda>wasFarming.
         then_do (resumes_farming wasFarming d) (\<lambda>resumeFarming. do_all [
           me (clearFarmingSelection False),
           modify (tell Invalidate_community),
           interrupt_farming wasFarming resumeFarming,
           me (\<lambda>s. s\<lparr>connected := False\<rparr>),
           if eresult \<noteq> None then write_ops touchSteamContact else pure (),
           branch (\<lambda>w. conflict_handled (self w)) (pure ())
            (if errorClass d = Class_session_replaced then handleLoginSessionConflict d
             else if terminal d then handleTerminalFailure d
               (case message of None \<Rightarrow> ''Steam disconnected permanently.'' | Some m \<Rightarrow> m)
             else branch (\<lambda>w. wants_running (self w))
               (do_all [setStatus Reconnecting None, scheduleReconnect d])
               (setStatus Disconnected None))])))"

definition on_error :: "failure_value \<Rightarrow> string \<Rightarrow> unit io" where
  "on_error error message =
     (let d = classifySteamFailure error
      in then_do (reading (\<lambda>w. isFarming (self w))) (\<lambda>wasFarming.
         then_do (resumes_farming wasFarming d) (\<lambda>resumeFarming. do_all [
           me (clearFarmingSelection False),
           me (\<lambda>s. s\<lparr>connected := False\<rparr>),
           modify (tell Invalidate_community),
           interrupt_farming wasFarming resumeFarming,
           branch (\<lambda>w. conflict_handled (self w)) (pure ())
            (if errorClass d = Class_session_replaced then handleLoginSessionConflict d
             else if terminal d then handleTerminalFailure d message
             else do_all [
               setStatus Errored (Some message),
               branch (\<lambda>w. wants_running (self w)) (scheduleReconnect d) (pure ())])])))"

fun on_event :: "client_event \<Rightarrow> unit io" where
  "on_event Logged_on = on_loggedOn"
| "on_event (Playing_state blocked) = on_playingState blocked"
| "on_event (Client_disconnected eresult message) = on_disconnected eresult message"
| "on_event (Client_error error message) = on_error error message"

section \<open>Serialised operations\<close>

definition runSerial :: "unit io \<Rightarrow> unit io" where
  "runSerial handler = branch (\<lambda>w. quiescing (self w)) (reject ''Steam worker is shutting down.'') handler"

definition handle_event :: "client_event \<Rightarrow> nat \<Rightarrow> unit io" where
  "handle_event e generation =
     runSerial
       (branch (\<lambda>w. generation \<noteq> intentGeneration (self w)) (pure ())
       (branch (\<lambda>w. e = Logged_on \<and> \<not> wants_running (self w)) (pure ())
         (on_event e)))"

definition superseded :: "nat \<Rightarrow> worker \<Rightarrow> bool" where
  "superseded generation s \<longleftrightarrow> quiescing s \<or> \<not> wants_running s \<or> intentGeneration s \<noteq> generation"

definition reconnect_fires :: "unit io" where
  "reconnect_fires = looking (\<lambda>w.
      case reconnectTimer (self w) of
        None \<Rightarrow> pure ()
      | Some t \<Rightarrow>
          then_do (me clearReconnect) (\<lambda>_.
          branch (\<lambda>w. superseded (rt_generation t) (self w)) (pure ())
            (catching (runSerial startNow) (\<lambda>_.
               branch (\<lambda>w. wants_running (self w) \<and> intentGeneration (self w) = rt_generation t)
                 (scheduleReconnect (rt_decision t)) (pure ())))))"

definition conflict_timer_fires :: "unit io" where
  "conflict_timer_fires = looking (\<lambda>w.
      case sessionConflictTimer (self w) of
        None \<Rightarrow> pure ()
      | Some t \<Rightarrow>
          then_do (me clearSessionConflictTimer) (\<lambda>_.
          branch (\<lambda>w. superseded (ct_generation t) (self w)) (pure ()) (do_all [
            me (\<lambda>s. if ct_resetCycle t then s\<lparr>sessionConflictAttempt := 0\<rparr> else s),
            branch (\<lambda>w. sessionConflictMode (self w) = Some Live_conflict)
              retryLiveSessionConflict startNow])))"

datatype command =
  Start | Stop | Shutdown | Pause | Force_disconnect string | Safety_attention string | Resume
| Resume_for_farming | Update_account account_row | Import_library | Apply_farming "int list"

fun run_command :: "command \<Rightarrow> unit io" where
  "run_command Start = runSerial startNow"
| "run_command Stop = runSerial stopNow"
| "run_command Shutdown = shutdown"
| "run_command Pause = runSerial (pauseNow ask)"
| "run_command (Force_disconnect message) = runSerial (forceDisconnectForSafety message ask)"
| "run_command (Safety_attention message) = runSerial (markSafetyAttention message)"
| "run_command Resume = runSerial resumeNow"
| "run_command Resume_for_farming = runSerial resumeForFarming"
| "run_command (Update_account acc) = runSerial (updateAccountNow acc)"
| "run_command Import_library = runSerial importLibraryNow"
| "run_command (Apply_farming appIds) = runSerial (applyFarmingSelection appIds ask)"

text \<open>
  A step: a command, the next event of the queue, a timer that is due, something that is not
  serialised, or the surroundings: they decide about faults, answers, time and the tables.
\<close>

record surroundings =
  sr_moments :: "moment list"
  sr_faults :: "string option list"
  sr_answers :: "bool list"
  sr_dice :: "nat list"
  sr_clock :: millis
  sr_tables :: account_tables
  sr_ops :: ops_db
  sr_steamId :: "string option"
  sr_owned :: "(int \<times> string option \<times> int option) list"

datatype step =
  Command command
| Next_event
| Reconnect_timer
| Conflict_timer
| Meanwhile interruption
| Surroundings surroundings

fun run_step :: "step \<Rightarrow> world \<Rightarrow> world" where
  "run_step (Command c) w = snd (run_command c w)"
| "run_step Next_event w =
     (case queued_events w of
        [] \<Rightarrow> w
      | (e, generation) # es \<Rightarrow> snd (handle_event e generation (w\<lparr>queued_events := es\<rparr>)))"
| "run_step Reconnect_timer w =
     (case reconnectTimer (self w) of
        None \<Rightarrow> w
      | Some t \<Rightarrow> if rt_due t \<le> clock w then snd (reconnect_fires w) else w)"
| "run_step Conflict_timer w =
     (case sessionConflictTimer (self w) of
        None \<Rightarrow> w
      | Some t \<Rightarrow> if ct_due t \<le> clock w then snd (conflict_timer_fires w) else w)"
| "run_step (Meanwhile i) w = interrupt i w"
| "run_step (Surroundings s) w =
     w\<lparr>moments := sr_moments s, client_faults := sr_faults s, answers := sr_answers s, dice := sr_dice s,
       clock := sr_clock s, tables := sr_tables s, ops := sr_ops s, client_steamId := sr_steamId s,
       owned_apps := sr_owned s\<rparr>"

definition run_steps :: "step list \<Rightarrow> world \<Rightarrow> world" where
  "run_steps = fold run_step"

text \<open>Just created; nothing said to the client.\<close>

definition fresh :: "world \<Rightarrow> bool" where
  "fresh w \<longleftrightarrow> self w = new_worker (account (self w)) \<and> calls w = []"

section \<open>Relations that every method keeps\<close>

text \<open>
  A relation between the world before and after is kept by a method if it is kept by its parts:
  the first locale says so for every way to combine actions. The second asks for the parts of a
  worker: changes inside the worker that neither start nor end a login attempt
  nor make a halted account run, and calls that neither log on nor report games.
\<close>

fun harmless :: "client_call \<Rightarrow> bool" where
  "harmless (Games_played p) = (p = [])"
| "harmless (Log_on t) = False"
| "harmless _ = True"

definition quiet_change :: "worker \<Rightarrow> worker \<Rightarrow> bool" where
  "quiet_change s s' \<longleftrightarrow>
     startInFlight s' = startInFlight s \<and> (wants_running s' \<longrightarrow> wants_running s)"

lemma snd_then_pure: "snd (then_do m pure w) = snd (m w)"
  by (simp add: then_do_apply pure_def split: prod.split sum.split)

lemma tell_simps [simp]: "self (tell c w) = self w" "calls (tell c w) = (c, self w) # calls w"
  by (simp_all add: tell_def)

lemma quiet_simple:
  "quiet_change s (clearFarmingSelection keep s)" "quiet_change s (clearRetryTimers s)"
  "quiet_change s (clearReconnect s)" "quiet_change s (clearSessionConflictTimer s)"
  "quiet_change s (resetSessionConflict s)" "quiet_change s s"
  by (simp_all add: quiet_change_def clearFarmingSelection_def clearRetryTimers_def clearReconnect_def
      clearSessionConflictTimer_def resetSessionConflict_def wants_running_def)

lemma persist_desired:
  "persistRefreshToken sec c now row acc = Inr (row', acc') \<Longrightarrow> desiredState acc' = desiredState acc"
  by (erule persist_cases) (simp_all add: with_token_def Let_def)

locale kept_relation =
  fixes r :: "'s \<Rightarrow> 's \<Rightarrow> bool"
  assumes refl: "r w w"
    and trans: "r w w' \<Longrightarrow> r w' w'' \<Longrightarrow> r w w''"
begin

lemma relation: "reflp r" "transp r"
  using refl trans by (auto intro: reflpI transpI)

lemma kept_at: "keeps r m \<Longrightarrow> r w (snd (m w))"
  by (simp add: keeps_def)

lemma kept_pure: "keeps r (pure x)" "keeps r (reject e)" "keeps r (reading f)"
  by (simp_all add: keeps_basic relation)

lemma kept_then_do: "keeps r m \<Longrightarrow> (\<And>x. keeps r (k x)) \<Longrightarrow> keeps r (then_do m k)"
  by (rule keeps_then_do [OF relation(2)])

lemma kept_catching: "keeps r m \<Longrightarrow> (\<And>e. keeps r (h e)) \<Longrightarrow> keeps r (catching m h)"
  by (rule keeps_catching [OF relation(2)])

lemma kept_do_all: "\<forall>m\<in>set ms. keeps r m \<Longrightarrow> keeps r (do_all ms)"
  by (induction ms) (auto simp: do_all.simps intro: kept_pure kept_then_do)

lemma kept_branch: "keeps r m \<Longrightarrow> keeps r n \<Longrightarrow> keeps r (branch c m n)"
  by (simp add: keeps_def branch_def)

lemma kept_looking: "(\<And>w. keeps r (f w)) \<Longrightarrow> keeps r (looking f)"
  by (simp add: keeps_def looking_def)

lemma kept_captured: "keeps r m \<Longrightarrow> keeps r (captured m)"
  unfolding captured_def by (intro kept_catching kept_then_do kept_pure)

lemma kept_if_still: "keeps r should \<Longrightarrow> keeps r m \<Longrightarrow> keeps r (if_still should m)"
  unfolding if_still_def by (intro kept_then_do) (simp_all add: kept_pure)

lemma kept_first_failure: "keeps r (first_failure fs)"
  by (induction fs) (auto intro: kept_pure split: option.split)

lemma kept_update: "(\<And>w. r w (f w)) \<Longrightarrow> keeps r (modify f)"
  by (rule keeps_basic(4))

lemma then_at:
  "r w (snd (m w)) \<Longrightarrow> (\<And>x w'. m w = (Inr x, w') \<Longrightarrow> r w' (snd (k x w'))) \<Longrightarrow> r w (snd (then_do m k w))"
  by (auto simp: then_do_apply split: prod.split sum.split) (metis snd_conv trans)

lemma finally_at: "r w (snd (m w)) \<Longrightarrow> keeps r f \<Longrightarrow> r w (snd (finally_do m f w))"
  unfolding finally_do_def keeps_def by (auto split: prod.split sum.split) (metis snd_conv trans)+

lemma kept_finally: "keeps r m \<Longrightarrow> keeps r f \<Longrightarrow> keeps r (finally_do m f)"
  by (simp add: keeps_def [of r "finally_do m f"] finally_at kept_at)

lemmas kept_parts = kept_pure kept_looking kept_then_do kept_catching kept_do_all kept_branch kept_captured
  kept_if_still kept_finally ballI

end

locale preserved = kept_relation r for r :: "world \<Rightarrow> world \<Rightarrow> bool" +
  assumes quiet: "calls w' = calls w \<Longrightarrow> quiet_change (self w) (self w') \<Longrightarrow> r w w'"
    and told: "harmless c \<Longrightarrow> r w (tell c w)"
begin

lemma kept_modify: "(\<And>w. calls (f w) = calls w \<and> quiet_change (self w) (self (f w))) \<Longrightarrow> keeps r (modify f)"
  by (rule keeps_basic(4)) (simp add: quiet)

lemma kept_me: "(\<And>s. quiet_change s (f s)) \<Longrightarrow> keeps r (me f)"
  unfolding me_def by (rule kept_modify) simp

lemma kept_tell: "harmless c \<Longrightarrow> keeps r (modify (tell c))"
  by (rule keeps_basic(4)) (rule told)

lemma kept_call: "harmless c \<Longrightarrow> keeps r (call c)"
proof -
  assume c: "harmless c"
  have "r w (snd (call c w))" for w
    using told [OF c] quiet [of "w\<lparr>client_faults := tl (client_faults w)\<rparr>" w] trans
    by (auto simp: call_def Let_def quiet_simple split: list.split option.split)
  then show ?thesis by (simp add: keeps_def)
qed

lemma kept_ask: "keeps r ask" "keeps r roll" "keeps r always"
  by (auto simp: keeps_def ask_def roll_def always_def pure_def refl quiet quiet_simple split: list.split)

lemma kept_beginShutdown: "keeps r beginShutdown"
  unfolding beginShutdown_def
  by (intro kept_branch kept_pure kept_do_all ballI)
    (auto intro!: kept_me kept_tell kept_then_do kept_branch kept_ask kept_pure quiet_simple
      simp: quiet_change_def wants_running_def)

lemma kept_interrupt: "r w (interrupt i w)"
proof (cases i)
  case Shutdown_begins
  then show ?thesis using kept_beginShutdown by (simp add: keeps_def)
next
  case (Credential_renewed c)
  then show ?thesis
    by (auto simp: credential_renewed_def quiet_change_def wants_running_def dest: persist_desired
        intro!: quiet split: sum.split)
qed (auto simp: receive_def quiet_simple intro!: quiet)

lemma kept_pass: "r w (pass m w)"
proof -
  have "r w (foldl (\<lambda>w i. interrupt i w) w is)" for w "is"
    by (induction "is" arbitrary: w) (auto intro: refl trans [OF kept_interrupt])
  then show ?thesis
    unfolding pass_def by (rule trans [rotated]) (assumption | rule quiet; simp add: quiet_simple)+
qed

lemma kept_wait:
  assumes "\<And>w. r w (effect w)"
  shows "keeps r (wait effect)"
proof -
  have drop: "r w (w\<lparr>moments := ms\<rparr>)" for w ms by (rule quiet) (simp_all add: quiet_simple)
  have "r w (snd (wait effect w))" for w
    using assms trans [OF drop kept_pass] trans [OF drop trans [OF assms kept_pass]]
    by (auto simp: wait_def Let_def split: list.split option.split)
  then show ?thesis by (simp add: keeps_def)
qed

lemma kept_await:
  "keeps r (wait (\<lambda>w. w))" "keeps r (wait (write_row f))" "keeps r (write_ops g)"
  "keeps r (wait (tell Client_drained))"
  "keeps r (wait (\<lambda>w. w\<lparr>conflicts := ci # conflicts w\<rparr>))"
  by (auto simp: write_ops_def write_row_def intro!: kept_wait quiet told quiet_simple refl)

lemmas kept = kept_pure kept_looking kept_then_do kept_catching kept_do_all kept_branch kept_me kept_tell kept_call
  kept_ask kept_captured kept_await ballI

lemma kept_setDesiredState: "d \<noteq> Desire_running \<Longrightarrow> keeps r (setDesiredState d)"
  unfolding setDesiredState_def
  by (intro kept) (auto intro!: kept simp: quiet_change_def wants_running_def)

lemma kept_emit: "keeps r (modify (\<lambda>w. w\<lparr>emitted := e # emitted w\<rparr>))"
  by (rule kept_modify) (simp add: quiet_simple)

lemma quiet_with_status:
  "quiet_change s (s\<lparr>status := st, lastActivityKey := a, account := with_status st err b now (account s)\<rparr>)"
  by (simp add: quiet_change_def wants_running_def with_status_def)

lemma kept_setStatus: "keeps r (setStatus st err)"
  unfolding setStatus_def Let_def
  by (auto intro!: kept kept_emit quiet_with_status)

lemma kept_persistSteamId: "keeps r persistSteamId"
  unfolding persistSteamId_def Let_def
  by (auto intro!: kept simp: quiet_change_def wants_running_def split: option.split)

lemma kept_reportNothing: "keeps r (reportGames [])"
  unfolding reportGames_def by (auto intro!: kept simp: quiet_change_def wants_running_def)

lemma kept_arm: "keeps r (arm_reconnect d delay g)" "keeps r (scheduleSessionConflictRetry delay cooldown)"
  unfolding arm_reconnect_def scheduleSessionConflictRetry_def
  by (rule kept_modify; simp add: quiet_change_def wants_running_def)+

lemmas kept_methods = kept_setStatus kept_persistSteamId kept_reportNothing kept_arm quiet_simple

lemma kept_limited: "keeps r (limited appIds payload)"
  unfolding limited_def by (auto intro!: kept split: sum.split)

lemma kept_selectedGamesPayload: "keeps r selectedGamesPayload"
  unfolding selectedGamesPayload_def Let_def by (auto intro!: kept kept_limited split: option.split)

lemma kept_scheduleReconnect: "keeps r (scheduleReconnect d)"
  unfolding scheduleReconnect_def Let_def
  by (auto intro!: kept kept_methods simp: quiet_change_def wants_running_def)

lemma kept_handleTerminalFailure: "keeps r (handleTerminalFailure d message)"
  unfolding handleTerminalFailure_def
  by (auto intro!: kept kept_methods kept_setDesiredState simp: quiet_change_def wants_running_def)

lemma kept_registerSessionConflict: "keeps r (registerSessionConflict source code)"
  unfolding registerSessionConflict_def Let_def
  by (auto intro!: kept kept_methods simp: quiet_change_def wants_running_def)

lemma kept_handleLoginSessionConflict: "keeps r (handleLoginSessionConflict d)"
  unfolding handleLoginSessionConflict_def
  by (auto intro!: kept kept_methods kept_registerSessionConflict simp: quiet_change_def wants_running_def)

lemma kept_store_library: "keeps r (store_library apps now)"
  unfolding store_library_def keeps_def
  by (auto intro!: refl quiet quiet_simple split: prod.split sum.split)

lemma kept_importLibraryNow: "keeps r importLibraryNow"
  unfolding importLibraryNow_def by (auto intro!: kept kept_store_library)

lemma kept_stopNow: "keeps r stopNow"
  unfolding stopNow_def
  by (auto intro!: kept kept_methods kept_setDesiredState simp: quiet_change_def wants_running_def)

lemma kept_shutdown: "keeps r shutdown"
  unfolding shutdown_def shutdownNow_def
  by (auto intro!: kept kept_methods kept_setDesiredState kept_beginShutdown
      simp: quiet_change_def wants_running_def split: option.split)

lemma kept_pauseNow: "keeps r (pauseNow ask)"
  unfolding pauseNow_def
  by (auto intro!: kept kept_methods kept_setDesiredState kept_if_still simp: quiet_change_def wants_running_def)

lemma kept_forceDisconnectForSafety: "keeps r (forceDisconnectForSafety message ask)"
  unfolding forceDisconnectForSafety_def
  by (auto intro!: kept kept_methods kept_setDesiredState kept_if_still kept_first_failure
      simp: quiet_change_def wants_running_def simp del: first_failure.simps)

lemma kept_markSafetyAttention: "keeps r (markSafetyAttention message)"
  unfolding markSafetyAttention_def
  by (auto intro!: kept kept_methods kept_setDesiredState simp: quiet_change_def wants_running_def)

lemma kept_interrupt_farming: "keeps r (interrupt_farming wasFarming resumeFarming)"
  unfolding interrupt_farming_def
  by (auto intro!: kept kept_setDesiredState simp: quiet_change_def wants_running_def)

lemma kept_resumes_farming: "keeps r (resumes_farming wasFarming d)"
  unfolding resumes_farming_def keepsRunningForFarming_def by (auto intro!: kept)

lemma kept_on_disconnected: "keeps r (on_disconnected eresult message)"
  unfolding on_disconnected_def Let_def
  by (auto intro!: kept kept_methods kept_interrupt_farming kept_resumes_farming
      kept_handleLoginSessionConflict kept_handleTerminalFailure kept_scheduleReconnect
      simp: quiet_change_def wants_running_def)

lemma kept_on_error: "keeps r (on_error error message)"
  unfolding on_error_def Let_def
  by (auto intro!: kept kept_methods kept_interrupt_farming kept_resumes_farming
      kept_handleLoginSessionConflict kept_handleTerminalFailure kept_scheduleReconnect
      simp: quiet_change_def wants_running_def)

lemma kept_on_blocked: "keeps r (on_blocked wasBlocked)"
  unfolding on_blocked_def
  by (auto intro!: kept kept_methods kept_setDesiredState kept_registerSessionConflict
      simp: quiet_change_def wants_running_def)

lemma kept_runSerial: "keeps r m \<Longrightarrow> keeps r (runSerial m)"
  unfolding runSerial_def by (intro kept)

end

text \<open>
  What is left: reporting games, the login, and the probe of a live conflict; the last two only for
  an account that is to run.
\<close>

locale preserved_machine = preserved +
  assumes games: "keeps r (applyGames always)" "keeps r (applyGames ask)"
    and start: "wants_running (self w) \<Longrightarrow> r w (snd (startNow w))"
    and live: "wants_running (self w) \<Longrightarrow> sessionConflictMode (self w) = Some Live_conflict \<Longrightarrow>
      r w (snd (retryLiveSessionConflict w))"
begin

lemma kept_on_event: "keeps r (on_event e)"
proof (cases e)
  case Logged_on
  then show ?thesis
    by (auto simp: on_loggedOn_def quiet_change_def wants_running_def intro!: kept kept_methods games)
next
  case (Playing_state blocked)
  then show ?thesis
    by (auto simp: on_playingState_def on_available_def quiet_change_def wants_running_def
        intro!: kept kept_methods games kept_on_blocked)
qed (simp_all add: kept_on_disconnected kept_on_error)

lemma kept_handle_event: "keeps r (handle_event e generation)"
  unfolding handle_event_def by (intro kept_runSerial kept kept_on_event)

lemma kept_applyFarmingSelection: "keeps r (applyFarmingSelection appIds ask)"
  unfolding applyFarmingSelection_def
  by (auto intro!: kept kept_limited quiet_simple games simp: quiet_change_def wants_running_def)

lemma kept_updateAccountNow:
  assumes "keeps r (me (\<lambda>s. s\<lparr>account := acc\<rparr>))"
  shows "keeps r (updateAccountNow acc)"
  unfolding updateAccountNow_def
  by (auto intro!: kept games quiet_simple assms simp: quiet_change_def wants_running_def)

lemma kept_reconnect_fires: "keeps r reconnect_fires"
proof -
  have "r w (snd (reconnect_fires w))" for w
  proof (cases "reconnectTimer (self w)")
    case None
    then show ?thesis by (simp add: reconnect_fires_def looking_def pure_def refl)
  next
    case (Some t)
    let ?w = "w\<lparr>self := clearReconnect (self w)\<rparr>"
    have first: "r w ?w" by (rule quiet) (simp_all add: quiet_simple)
    show ?thesis
    proof (cases "superseded (rt_generation t) (self ?w)")
      case True
      with first show ?thesis
        by (simp add: reconnect_fires_def looking_def Some me_def branch_def pure_def)
    next
      case False
      then have run: "wants_running (self ?w)" "\<not> quiescing (self ?w)" by (simp_all add: superseded_def)
      have retry: "keeps r (branch (\<lambda>w. wants_running (self w) \<and> intentGeneration (self w) = rt_generation t)
          (scheduleReconnect (rt_decision t)) (pure ()))"
        by (intro kept kept_scheduleReconnect)
      have "r ?w (snd (catching (runSerial startNow) (\<lambda>_. branch (\<lambda>w. wants_running (self w) \<and>
          intentGeneration (self w) = rt_generation t) (scheduleReconnect (rt_decision t)) (pure ())) ?w))"
        using start [OF run(1)] retry run(2) trans
        by (auto simp: catching_def runSerial_def branch_def [of "\<lambda>w. quiescing (self w)"] keeps_def
            split: prod.split sum.split)
      with first trans show ?thesis
        using False by (simp add: reconnect_fires_def looking_def Some me_def) (simp add: branch_def)
    qed
  qed
  then show ?thesis by (simp add: keeps_def)
qed

lemma kept_conflict_timer_fires: "keeps r conflict_timer_fires"
proof -
  have "r w (snd (conflict_timer_fires w))" for w
  proof (cases "sessionConflictTimer (self w)")
    case None
    then show ?thesis by (simp add: conflict_timer_fires_def looking_def pure_def refl)
  next
    case (Some t)
    let ?w = "w\<lparr>self := clearSessionConflictTimer (self w)\<rparr>"
    let ?w' = "?w\<lparr>self := (if ct_resetCycle t then (self ?w)\<lparr>sessionConflictAttempt := 0\<rparr> else self ?w)\<rparr>"
    have first: "r w ?w" by (rule quiet) (simp_all add: quiet_simple)
    have second: "r ?w ?w'" by (rule quiet) (simp_all add: quiet_change_def wants_running_def)
    show ?thesis
    proof (cases "superseded (ct_generation t) (self ?w)")
      case True
      with first show ?thesis
        by (simp add: conflict_timer_fires_def looking_def Some me_def branch_def pure_def)
    next
      case False
      then have run: "wants_running (self ?w')" by (simp add: superseded_def wants_running_def)
      have "r ?w' (snd (branch (\<lambda>w. sessionConflictMode (self w) = Some Live_conflict)
          retryLiveSessionConflict startNow ?w'))"
        using start [OF run] live [OF run] by (simp add: branch_def)
      from trans [OF first trans [OF second this]] show ?thesis
        using False
        by (cases "ct_resetCycle t") (simp_all add: conflict_timer_fires_def looking_def Some me_def
            do_all.simps snd_then_pure branch_def [of "\<lambda>w. superseded (ct_generation t) (self w)"])
    qed
  qed
  then show ?thesis by (simp add: keeps_def)
qed

end

text \<open>The commands that may make an account run.\<close>

fun wakes :: "step \<Rightarrow> bool" where
  "wakes (Command Start) = True"
| "wakes (Command Resume) = True"
| "wakes (Command Resume_for_farming) = True"
| "wakes (Command (Update_account acc)) = (desiredState acc = Desire_running)"
| "wakes _ = False"

context preserved_machine
begin

lemma kept_asleep_command: "\<not> wakes (Command c) \<Longrightarrow> keeps r (run_command c)"
  by (cases c)
    (auto intro!: kept_runSerial kept_stopNow kept_shutdown kept_pauseNow kept_forceDisconnectForSafety
      kept_markSafetyAttention kept_importLibraryNow kept_applyFarmingSelection kept_updateAccountNow kept_me
      simp: quiet_change_def wants_running_def)

lemma step_by_command:
  assumes "\<And>c. st = Command c \<Longrightarrow> keeps r (run_command c)"
  shows "r w (run_step st w)"
proof (cases st)
  case (Command c)
  then show ?thesis using assms kept_at by simp
next
  case Next_event
  show ?thesis
  proof (cases "queued_events w")
    case Nil
    then show ?thesis by (simp add: Next_event refl)
  next
    case (Cons e es)
    have "r w (w\<lparr>queued_events := es\<rparr>)" by (rule quiet) (simp_all add: quiet_simple)
    from trans [OF this kept_at [OF kept_handle_event]] show ?thesis
      by (cases e) (simp add: Next_event Cons)
  qed
next
  case (Meanwhile i)
  then show ?thesis by (simp add: kept_interrupt)
next
  case (Surroundings s)
  have "r w (run_step (Surroundings s) w)" by (rule quiet) (simp_all add: quiet_simple)
  with Surroundings show ?thesis by simp
qed (auto simp: refl kept_at kept_reconnect_fires kept_conflict_timer_fires split: option.split)

lemma asleep_step: "\<not> wakes st \<Longrightarrow> r w (run_step st w)"
  by (rule step_by_command) (simp add: kept_asleep_command)

lemma asleep_steps: "list_all (\<lambda>st. \<not> wakes st) sts \<Longrightarrow> r w (run_steps sts w)"
  unfolding run_steps_def by (induction sts arbitrary: w) (auto intro: refl trans [OF asleep_step])

end

text \<open>Relations that the waking commands keep as well, and hence every step.\<close>

locale preserved_always = preserved_machine +
  assumes start_any: "keeps r startNow"
    and quiet_wake: "(\<And>s. startInFlight (f s) = startInFlight s) \<Longrightarrow> keeps r (me f)"
begin

lemma wake: "keeps r (setDesiredState d)" "keeps r (me (\<lambda>s. s\<lparr>account := acc\<rparr>))"
  by (auto simp: setDesiredState_def intro!: kept quiet_wake)

lemma kept_start_or_apply: "keeps r start_or_apply"
  unfolding start_or_apply_def by (intro kept start_any games)

lemma kept_command: "keeps r (run_command c)"
  by (cases c)
    (auto intro!: kept_runSerial kept_stopNow kept_shutdown kept_pauseNow kept_forceDisconnectForSafety
      kept_markSafetyAttention kept_importLibraryNow kept_applyFarmingSelection kept_updateAccountNow wake start_any
      kept_start_or_apply kept quiet_wake simp: resumeNow_def resumeForFarming_def)

lemma every_step: "r w (run_step st w)"
  by (rule step_by_command) (simp add: kept_command)

lemma every_steps: "r w (run_steps sts w)"
  unfolding run_steps_def by (induction sts arbitrary: w) (auto intro: refl trans [OF every_step])

end

text \<open>Relations that do not look at reported games.\<close>

locale preserved_reports = preserved +
  assumes told_games: "r w (tell (Games_played p) w)"
begin

lemma kept_reportGames: "keeps r (reportGames p)"
proof -
  have "r w (snd (call (Games_played p) w))" for w
    using told_games [of _ p] quiet [of "w\<lparr>client_faults := tl (client_faults w)\<rparr>" w] trans
    by (auto simp: call_def Let_def quiet_simple split: list.split option.split)
  then have "keeps r (call (Games_played p))" by (simp add: keeps_def)
  then show ?thesis
    unfolding reportGames_def by (auto intro!: kept simp: quiet_change_def wants_running_def)
qed

lemma kept_report_and_set: "keeps r (report_and_set p st)"
  unfolding report_and_set_def by (auto intro!: kept kept_reportGames kept_methods)

lemma kept_applyGames: "keeps r should \<Longrightarrow> keeps r (applyGames should)"
  unfolding applyGames_def report_selected_def
  by (auto intro!: kept kept_report_and_set kept_selectedGamesPayload)

lemma kept_retryLive: "keeps r retryLiveSessionConflict"
  unfolding retryLiveSessionConflict_def
  by (auto intro!: kept kept_reportGames kept_applyGames kept_selectedGamesPayload kept_registerSessionConflict
      quiet_simple)

end

section \<open>Logins\<close>

fun is_log_on :: "client_call \<times> worker \<Rightarrow> bool" where
  "is_log_on (Log_on t, _) = True"
| "is_log_on _ = False"

definition logins :: "world \<Rightarrow> (client_call \<times> worker) list" where
  "logins w = filter is_log_on (calls w)"

lemma logins_same: "calls w' = calls w \<Longrightarrow> logins w' = logins w"
  by (simp add: logins_def)

lemma logins_harmless: "harmless c \<Longrightarrow> logins (tell c w) = logins w" "logins (tell (Games_played p) w) = logins w"
  by (cases c; simp add: logins_def tell_def)+

text \<open>An account that is not to run is not logged in.\<close>

definition stays_off :: "world \<Rightarrow> world \<Rightarrow> bool" where
  "stays_off w w' \<longleftrightarrow> wants_running (self w) \<or> \<not> wants_running (self w') \<and> logins w' = logins w"

interpretation off: preserved_reports stays_off
proof
  show "stays_off w w" for w by (simp add: stays_off_def)
  show "stays_off w w''" if "stays_off w w'" "stays_off w' w''" for w w' w''
    using that by (auto simp: stays_off_def)
  show "stays_off w w'" if "calls w' = calls w" "quiet_change (self w) (self w')" for w w'
    using that by (auto simp: stays_off_def quiet_change_def logins_def)
  show "stays_off w (tell c w)" if "harmless c" for c w
    using that by (simp add: stays_off_def logins_harmless)
  show "stays_off w (tell (Games_played p) w)" for p w
    by (simp add: stays_off_def logins_harmless)
qed

interpretation off: preserved_machine stays_off
proof
  show "keeps stays_off (applyGames always)" "keeps stays_off (applyGames ask)"
    by (simp_all add: off.kept_applyGames off.kept_ask)
  show "stays_off w (snd (startNow w))" if "wants_running (self w)" for w
    using that by (simp add: stays_off_def)
  show "stays_off w (snd (retryLiveSessionConflict w))" if "wants_running (self w)" for w
    using that by (simp add: stays_off_def)
qed

text \<open>
  C22: An account that is not meant to run stays that way, and is never logged in, by Steam events,
  reconnect and conflict timers, failures, renewed tokens or any command other than start, resume
  and an update that asks for it.
\<close>

theorem halted_account_is_never_logged_in:
  assumes "\<not> wants_running (self w)" "list_all (\<lambda>st. \<not> wakes st) sts"
  shows "\<not> wants_running (self (run_steps sts w)) \<and> logins (run_steps sts w) = logins w"
  using off.asleep_steps [OF assms(2), of w] assms(1) by (simp add: stays_off_def)

definition worker_world :: "account_row \<Rightarrow> moment list \<Rightarrow> world" where
  "worker_world acc ms =
     \<lparr>self = new_worker acc, crypto = plain_secrets,
      tables = demo_tables\<lparr>account_rows := [acc], game_table :=
        [\<lparr>g_account = row_id acc, g_app = 10, enabled = True, g_source = Source_manual, g_createdAt = 0\<rparr>]\<rparr>,
      ops = \<lparr>health_rows = [], safety_rows = [], imports_at = []\<rparr>, clock = 5, moments = ms,
      client_faults = [], answers = [], dice = [], client_steamId = steamId acc, owned_apps = [],
      calls = [], emitted = [], conflicts = [], queued_events = []\<rparr>"

theorem halted_account_is_never_logged_in_witness:
  "logins (run_steps [Meanwhile (Event_arrives Logged_on), Next_event, Reconnect_timer, Command Pause]
     (worker_world demo_row [])) = []"
proof -
  let ?sts = "[Meanwhile (Event_arrives Logged_on), Next_event, Reconnect_timer, Command Pause]"
  have off: "\<not> wants_running (self (worker_world demo_row []))" by code_simp
  have asleep: "list_all (\<lambda>st. \<not> wakes st) ?sts" by simp
  have none: "logins (worker_world demo_row []) = []" by (simp add: logins_def worker_world_def)
  from halted_account_is_never_logged_in [OF off asleep] none show ?thesis by simp
qed

text \<open>A login attempt that was begun and never ended.\<close>

definition stays_stuck :: "world \<Rightarrow> world \<Rightarrow> bool" where
  "stays_stuck w w' \<longleftrightarrow> (startInFlight (self w) \<longrightarrow> startInFlight (self w') \<and> logins w' = logins w)"

lemma stuck_start: "startInFlight (self w) \<Longrightarrow> startNow w = (Inr (), w)"
  by (simp add: startNow_def branch_def redundant_start_def pure_def)

interpretation stuck: preserved_reports stays_stuck
proof
  show "stays_stuck w w" for w by (simp add: stays_stuck_def)
  show "stays_stuck w w''" if "stays_stuck w w'" "stays_stuck w' w''" for w w' w''
    using that by (auto simp: stays_stuck_def)
  show "stays_stuck w w'" if "calls w' = calls w" "quiet_change (self w) (self w')" for w w'
    using that by (auto simp: stays_stuck_def quiet_change_def logins_def)
  show "stays_stuck w (tell c w)" if "harmless c" for c w
    using that by (simp add: stays_stuck_def logins_harmless)
  show "stays_stuck w (tell (Games_played p) w)" for p w
    by (simp add: stays_stuck_def logins_harmless)
qed

lemma stuck_startNow: "stays_stuck w (snd (startNow w))"
  by (simp add: stays_stuck_def stuck_start)

interpretation stuck: preserved_always stays_stuck
proof
  show "keeps stays_stuck (applyGames always)" "keeps stays_stuck (applyGames ask)"
    by (simp_all add: stuck.kept_applyGames stuck.kept_ask)
  show "stays_stuck w (snd (startNow w))" for w by (rule stuck_startNow)
  show "stays_stuck w (snd (retryLiveSessionConflict w))" for w by (rule stuck.kept_at [OF stuck.kept_retryLive])
  show "keeps stays_stuck startNow" by (simp add: keeps_def stuck_startNow)
  show "keeps stays_stuck (me f)" if "\<And>s. startInFlight (f s) = startInFlight s" for f
    using that by (simp add: keeps_def me_def action_simps stays_stuck_def logins_def)
qed

text \<open>
  C23: A start whose first database write fails leaves \<open>startInFlight\<close> set, and from then on the worker
  never logs on again, whatever start, resume or timer follows: the flag is set before the two
  writes, and only the code after them resets it.
\<close>

theorem failed_write_blocks_every_later_start:
  assumes "\<not> quiescing (self w)" "\<not> redundant_start (self w)"
    and "getRefreshToken (crypto w) (account_of (accountId (self w)) (tables w)) (account (self w)) = Inr token"
    and "present token" "moments w = m # ms" "fault m = Some e"
  shows "fst (run_command Start w) = Inl e \<and>
    logins (run_steps sts (run_step (Command Start) w)) = logins w"
proof -
  define w1 where "w1 = w\<lparr>self := (self w)\<lparr>manuallyPaused := False, startInFlight := True,
      intentGeneration := intentGeneration (self w) + (if desiredState (account (self w)) \<noteq> Desire_running then 1 else 0),
      account := (account (self w))\<lparr>desiredState := Desire_running\<rparr>\<rparr>, moments := ms\<rparr>"
  have start: "startNow w = begin_start (the token) w"
    using assms by (simp add: startNow_def branch_def looking_def)
  also have "\<dots> = (Inl e, pass m w1)"
    by (simp add: begin_start_def do_all.simps me_def setDesiredState_def then_do_apply action_simps wait_def
        assms(5,6) w1_def)
  finally have run: "run_command Start w = (Inl e, pass m w1)"
    using assms(1) by (simp add: runSerial_def branch_def)
  have "stays_stuck w1 (run_steps sts (pass m w1))"
    using stuck.trans [OF stuck.kept_pass stuck.every_steps] .
  moreover have "startInFlight (self w1)" "logins w1 = logins w" by (simp_all add: w1_def logins_def)
  ultimately show ?thesis by (simp add: run stays_stuck_def del: run_command.simps)
qed

theorem failed_write_blocks_every_later_start_witness:
  "logins (run_steps [Command Start, Command Resume, Command Stop, Command Start]
     (run_step (Command Start) (worker_world demo_row
       [\<lparr>fault = Some ''disk full'', elapsed = 1, meanwhile = []\<rparr>]))) = []"
proof -
  let ?m = "\<lparr>fault = Some ''disk full'', elapsed = 1, meanwhile = []\<rparr>"
  let ?w = "worker_world demo_row [?m]"
  have q: "\<not> quiescing (self ?w)" "\<not> redundant_start (self ?w)"
    by (simp_all add: worker_world_def new_worker_def redundant_start_def demo_row_def)
  have t: "getRefreshToken (crypto ?w) (account_of (accountId (self ?w)) (tables ?w)) (account (self ?w)) = Inr (Some ''old'')"
    by code_simp
  have p: "present (Some ''old'')" by (simp add: present_def)
  have m: "moments ?w = ?m # []" "fault ?m = Some ''disk full''" by (simp_all add: worker_world_def)
  have "logins ?w = []" by (simp add: logins_def worker_world_def)
  with failed_write_blocks_every_later_start [OF q t p m] show ?thesis by simp
qed

section \<open>Which games are reported\<close>

text \<open>
  What does not change while a method waits, unless the shutdown begins: other methods of the worker
  run later, and what is not serialised leaves these fields alone.
\<close>

definition stable :: "worker \<Rightarrow> worker \<Rightarrow> bool" where
  "stable s s' \<longleftrightarrow> (quiescing s \<longrightarrow> quiescing s') \<and>
     (quiescing s' \<or> connected s' = connected s \<and> manuallyPaused s' = manuallyPaused s \<and>
        blockedByOtherSession s' = blockedByOtherSession s \<and> sessionConflictMode s' = sessionConflictMode s \<and>
        desiredState (account s') = desiredState (account s))"

lemma stable_refl: "stable s s"
  by (simp add: stable_def)

lemma stable_trans: "stable s s' \<Longrightarrow> stable s' s'' \<Longrightarrow> stable s s''"
  by (auto simp: stable_def)

lemma quiescing_beginShutdown: "quiescing (self (snd (beginShutdown w)))"
  by (auto simp: beginShutdown_def branch_def do_all.simps me_def then_do_apply action_simps ask_def isFarming_def
      clearFarmingSelection_def clearRetryTimers_def clearReconnect_def clearSessionConflictTimer_def
      resetSessionConflict_def split: prod.split sum.split list.split)

lemma stable_interrupt: "stable (self w) (self (interrupt i w))"
proof (cases i)
  case Shutdown_begins
  then show ?thesis using quiescing_beginShutdown [of w] by (simp add: stable_def)
next
  case (Credential_renewed c)
  then show ?thesis
    by (auto simp: credential_renewed_def stable_def dest: persist_desired split: sum.split)
qed (simp_all add: receive_def stable_def clearFarmingSelection_def)

lemma stable_pass: "stable (self w) (self (pass m w))"
proof -
  have "stable (self w) (self (foldl (\<lambda>w i. interrupt i w) w is))" for w "is"
    by (induction "is" arbitrary: w) (auto intro: stable_refl stable_trans [OF stable_interrupt])
  from this [of "w\<lparr>clock := clock w + elapsed m\<rparr>" "meanwhile m"] show ?thesis by (simp add: pass_def)
qed

lemma stable_wait:
  assumes "\<And>w. self (effect w) = self w"
  shows "stable (self w) (self (snd (wait effect w)))"
proof (cases "moments w")
  case Nil
  then show ?thesis by (simp add: wait_def assms stable_refl)
next
  case (Cons m ms)
  then show ?thesis
    using stable_pass [of "w\<lparr>moments := ms\<rparr>" m] stable_pass [of "effect (w\<lparr>moments := ms\<rparr>)" m]
    by (simp add: wait_def Let_def assms split: option.split)
qed

definition may_play :: "worker \<Rightarrow> bool" where
  "may_play s \<longleftrightarrow> \<not> quiescing s \<and>
     (connected s \<and> \<not> manuallyPaused s \<and> \<not> blockedByOtherSession s \<or>
      blockedByOtherSession s \<and> sessionConflictMode s = Some Live_conflict \<and> wants_running s)"

fun lawful_call :: "client_call \<times> worker \<Rightarrow> bool" where
  "lawful_call (Games_played p, s) = (p = [] \<or> may_play s \<and> length p \<le> MAX_GAMES)"
| "lawful_call (Log_on t, s) = (\<not> quiescing s \<and> wants_running s)"
| "lawful_call (_, s) = True"

definition lawful :: "world \<Rightarrow> world \<Rightarrow> bool" where
  "lawful w w' \<longleftrightarrow> (list_all lawful_call (calls w) \<longrightarrow> list_all lawful_call (calls w'))"

interpretation lawful: preserved lawful
proof
  show "lawful w w" for w by (simp add: lawful_def)
  show "lawful w w''" if "lawful w w'" "lawful w' w''" for w w' w''
    using that by (simp add: lawful_def)
  show "lawful w w'" if "calls w' = calls w" for w w'
    using that by (simp add: lawful_def)
  show "lawful w (tell c w)" if "harmless c" for c w
    using that by (cases c) (auto simp: lawful_def)
qed

lemma lawful_me: "keeps lawful (me f)"
  by (simp add: keeps_def me_def action_simps lawful_def)

lemma lawful_call_at: "lawful_call (c, self w) \<Longrightarrow> lawful w (snd (call c w))"
  by (auto simp: call_def Let_def lawful_def split: list.split option.split)

lemma lawful_reportGames: "lawful_call (Games_played p, self w) \<Longrightarrow> lawful w (snd (reportGames p w))"
  unfolding reportGames_def do_all.simps
  by (intro lawful.then_at lawful_call_at lawful.kept_at lawful.kept_then_do lawful_me lawful.kept_pure)

lemma selected_length:
  assumes "selectedGamesPayload w = (Inr payload, w')"
  shows "length payload \<le> MAX_GAMES"
proof -
  have limit: "length appIds \<le> gameSelectionLimit t" if "enforceGameLimit appIds t = Inr u" for appIds t u
    using that by (simp add: enforceGameLimit_def Let_def split: if_splits)
  have titled: "length (title_entry t) + gameSelectionLimit t \<le> MAX_GAMES" for t
    by (simp add: title_entry_def gameSelectionLimit_def MAX_GAMES_def MAX_GAMES_WITH_CUSTOM_TITLE_def split: option.split)
  have ids: "length p \<le> MAX_GAMES"
    if "limited appIds p w1 = (Inr q, w2)" "length p \<le> length (title_entry (customTitle (account (self w1)))) + length appIds"
    for appIds p q w1 w2
    using that limit [of appIds "customTitle (account (self w1))"] titled [of "customTitle (account (self w1))"]
    by (auto simp: limited_def looking_def pure_def reject_def split: sum.splits)
  have same: "q = p" if "limited appIds p w1 = (Inr q, w2)" for appIds p q w1 w2
    using that by (auto simp: limited_def looking_def pure_def reject_def split: sum.splits)
  show ?thesis
    using assms ids same
    by (auto simp: selectedGamesPayload_def looking_def [of _ w] pure_def Let_def then_do_apply
        split: option.splits if_splits prod.splits sum.splits)
      (force simp: looking_def)+
qed

lemma limited_world: "snd (limited appIds p w) = w"
  by (simp add: limited_def looking_def pure_def reject_def split: sum.split)

lemma stable_selected: "stable (self w) (self (snd (selectedGamesPayload w)))"
  using stable_wait [of "\<lambda>w. w" w]
  by (auto simp: selectedGamesPayload_def looking_def Let_def pure_def limited_world stable_refl then_do_apply
      split: option.split prod.split sum.split)

lemma lawful_report_and_set:
  "lawful_call (Games_played p, self w) \<Longrightarrow> lawful w (snd (report_and_set p st w))"
  unfolding report_and_set_def do_all.simps
  by (intro lawful.then_at lawful_reportGames lawful.kept_at lawful.kept_setStatus lawful.kept_pure)

lemma ask_self: "ask w = (x, w') \<Longrightarrow> self w' = self w"
  by (auto simp: ask_def split: list.splits)

lemma lawful_applyGames:
  assumes should: "keeps lawful should" "\<And>w x w'. should w = (x, w') \<Longrightarrow> self w' = self w"
  shows "keeps lawful (applyGames should)"
proof -
  have report: "lawful w1 (snd (report_selected should payload w1))"
    if "length payload \<le> MAX_GAMES" "quiescing (self w1) \<or> may_play (self w1)" for payload w1
  proof (cases "quiescing (self w1)")
    case True
    then show ?thesis by (simp add: report_selected_def branch_def pure_def lawful.refl)
  next
    case False
    with that have play: "may_play (self w1)" by simp
    have "lawful w1 (snd (then_do should (\<lambda>go. if \<not> go then pure ()
       else report_and_set payload (if payload \<noteq> [] then Boosting else Online)) w1))"
    proof (rule lawful.then_at)
      show "lawful w1 (snd (should w1))" by (rule lawful.kept_at [OF should(1)])
      fix go w2 assume "should w1 = (Inr go, w2)"
      then have "self w2 = self w1" by (rule should(2))
      with play that(1) show "lawful w2 (snd ((if \<not> go then pure ()
         else report_and_set payload (if payload \<noteq> [] then Boosting else Online)) w2))"
        by (cases go) (auto simp: pure_def lawful.refl intro!: lawful_report_and_set)
    qed
    with False show ?thesis by (simp add: report_selected_def branch_def)
  qed
  have "lawful w (snd (applyGames should w))" for w
  proof (cases "\<not> quiescing (self w) \<and> connected (self w) \<and> \<not> manuallyPaused (self w) \<and> \<not> blockedByOtherSession (self w)")
    case False
    then show ?thesis
      using lawful_report_and_set [of "[]" w]
      by (auto simp: applyGames_def branch_def pure_def lawful.refl)
  next
    case True
    have "lawful w (snd (then_do selectedGamesPayload (report_selected should) w))"
    proof (rule lawful.then_at)
      show "lawful w (snd (selectedGamesPayload w))" by (rule lawful.kept_at [OF lawful.kept_selectedGamesPayload])
      fix payload w1 assume s: "selectedGamesPayload w = (Inr payload, w1)"
      have "quiescing (self w1) \<or> may_play (self w1)"
        using stable_selected [of w] True by (auto simp: s stable_def may_play_def)
      with selected_length [OF s] show "lawful w1 (snd (report_selected should payload w1))" by (rule report)
    qed
    with True show ?thesis by (simp add: applyGames_def branch_def)
  qed
  then show ?thesis by (simp add: keeps_def)
qed

lemma always_self: "always w = (x, w') \<Longrightarrow> self w' = self w"
  by (simp add: always_def pure_def)

lemmas lawful_games = lawful_applyGames [OF lawful.kept_ask(3) always_self] lawful_applyGames [OF lawful.kept_ask(1) ask_self]

lemma lawful_retryLive:
  assumes "wants_running (self w)" "sessionConflictMode (self w) = Some Live_conflict"
  shows "lawful w (snd (retryLiveSessionConflict w))"
proof (cases "blockedByOtherSession (self w)")
  case False
  have "keeps lawful (do_all [me resetSessionConflict, write_ops clearRecoveryHealth, applyGames always])"
    by (auto intro!: lawful.kept lawful_games lawful_me)
  with False show ?thesis by (simp add: retryLiveSessionConflict_def branch_def lawful.kept_at)
next
  case True
  have "lawful w (snd (then_do selectedGamesPayload (\<lambda>payload. branch (\<lambda>w. quiescing (self w)) (pure ())
      (do_all [reportGames payload, registerSessionConflict Live_conflict None])) w))"
  proof (rule lawful.then_at)
    show "lawful w (snd (selectedGamesPayload w))" by (rule lawful.kept_at [OF lawful.kept_selectedGamesPayload])
    fix payload w1 assume s: "selectedGamesPayload w = (Inr payload, w1)"
    have "quiescing (self w1) \<or> may_play (self w1)"
      using stable_selected [of w] True assms by (auto simp: s stable_def may_play_def wants_running_def)
    then have "quiescing (self w1) \<or> lawful w1 (snd (do_all [reportGames payload,
        registerSessionConflict Live_conflict None] w1))"
      using selected_length [OF s] unfolding do_all.simps
      by (auto intro!: lawful.then_at [of _ "reportGames payload"] lawful_reportGames
          lawful.kept_at [OF lawful.kept_then_do [OF lawful.kept_registerSessionConflict lawful.kept_pure(1)]])
    then show "lawful w1 (snd (branch (\<lambda>w. quiescing (self w)) (pure ())
        (do_all [reportGames payload, registerSessionConflict Live_conflict None]) w1))"
      by (auto simp: branch_def pure_def lawful.refl)
  qed
  with True show ?thesis by (simp add: retryLiveSessionConflict_def branch_def)
qed

text \<open>Nothing but the start of the shutdown can stop a login that was begun.\<close>

lemma stable_setStatus: "stable (self w) (self (snd (setStatus st err w)))"
proof -
  let ?s = "\<lambda>b. (self w)\<lparr>status := st, lastActivityKey := Some (getActivity (self w)),
      account := with_status st err b (clock w) (account (self w))\<rparr>"
  have "stable (self w) (?s b)" for b by (simp add: stable_def with_status_def)
  moreover have "stable (?s b) (self (snd (wait (write_row f) (w\<lparr>self := ?s b\<rparr>))))" for b f
    using stable_wait [of "write_row f" "w\<lparr>self := ?s b\<rparr>"] by (simp add: write_row_def)
  ultimately have "stable (self w) (self (snd (wait (write_row f) (w\<lparr>self := ?s b\<rparr>))))" for b f
    using stable_trans by blast
  then show ?thesis
    by (auto simp: setStatus_def looking_def Let_def do_all.simps me_def then_do_apply action_simps stable_refl
        split: prod.split sum.split) (metis snd_conv)+
qed

lemma lawful_log_on:
  assumes "quiescing (self w) \<or> wants_running (self w)"
  shows "lawful w (snd (log_on token w))"
  unfolding log_on_def
proof (rule lawful.finally_at [OF _ lawful_me])
  let ?w = "w\<lparr>self := (self w)\<lparr>loginAttemptId := Suc (loginAttemptId (self w)), handledConflictLoginAttemptId := None\<rparr>\<rparr>"
  have "lawful w (snd (call (Log_on token) ?w))" if "\<not> quiescing (self w)"
    using assms that lawful_call_at [of "Log_on token" ?w] by (auto simp: lawful_def wants_running_def)
  then show "lawful w (snd (branch (\<lambda>w. quiescing (self w)) (pure ()) (do_all [
      me (\<lambda>s. s\<lparr>loginAttemptId := Suc (loginAttemptId s), handledConflictLoginAttemptId := None\<rparr>),
      call (Log_on token)]) w))"
    by (simp add: branch_def do_all.simps snd_then_pure me_def lawful.refl action_simps)
qed

lemma wants_running_stable:
  "stable s s' \<Longrightarrow> quiescing s \<or> wants_running s \<Longrightarrow> quiescing s' \<or> wants_running s'"
  by (auto simp: stable_def wants_running_def)

lemma lawful_begin_start: "keeps lawful (begin_start token)"
proof -
  have desired: "quiescing (self w') \<or> wants_running (self w')"
    if "setDesiredState Desire_running w = (Inr x, w')" for w x w'
  proof -
    let ?s = "(self w)\<lparr>intentGeneration := intentGeneration (self w) +
        (if desiredState (account (self w)) \<noteq> Desire_running then 1 else 0),
      account := (account (self w))\<lparr>desiredState := Desire_running\<rparr>\<rparr>"
    have "stable ?s (self w')"
      using that stable_wait [of "write_row (\<lambda>w r. r\<lparr>desiredState := Desire_running, updatedAt := clock w\<rparr>)" "w\<lparr>self := ?s\<rparr>"]
      by (auto simp: setDesiredState_def do_all.simps me_def then_do_apply action_simps write_row_def
          split: prod.splits sum.splits)
    then show ?thesis by (rule wants_running_stable) (simp add: wants_running_def)
  qed
  have "lawful w (snd (begin_start token w))" for w
    unfolding begin_start_def do_all.simps
  proof (intro lawful.then_at lawful.kept_at [OF lawful_me])
    fix x w1
    show "lawful w1 (snd (setDesiredState Desire_running w1))"
      unfolding setDesiredState_def by (auto intro!: lawful.kept_at lawful.kept lawful_me)
    fix y w2 assume "setDesiredState Desire_running w1 = (Inr y, w2)"
    note q = desired [OF this]
    show "lawful w2 (snd (setStatus Connecting None w2))" by (rule lawful.kept_at [OF lawful.kept_setStatus])
    fix z w3 assume "setStatus Connecting None w2 = (Inr z, w3)"
    then have "quiescing (self w3) \<or> wants_running (self w3)"
      using wants_running_stable [OF stable_setStatus q, of Connecting None] by simp
    then show "lawful w3 (snd (log_on token w3))" by (rule lawful_log_on)
  qed (simp add: pure_def lawful.refl)
  then show ?thesis by (simp add: keeps_def)
qed

lemma lawful_startNow: "keeps lawful startNow"
  unfolding startNow_def
  by (auto intro!: lawful.kept lawful.kept_setStatus lawful_begin_start split: sum.split)

interpretation lawful: preserved_always lawful
  by unfold_locales
    (simp_all add: lawful_games lawful_retryLive lawful_startNow lawful.kept_at lawful_me)

text \<open>
  C21: Games are only ever reported while the worker is not shutting down, at most 32 at a time, and
  to an account that is connected, not paused by hand and not in use elsewhere; the one exception
  is the probe that asks whether another session has ended, for an account that is to run. The
  client is told to log on only for an account that is to run. This holds for every order of
  commands, events, timers and interruptions, and whatever fails.
\<close>

theorem games_reported_only_when_allowed:
  assumes "fresh w"
  shows "list_all lawful_call (calls (run_steps sts w))"
  using lawful.every_steps [of w sts] assms by (simp add: lawful_def fresh_def)

theorem games_reported_only_when_allowed_witness:
  "map fst (calls (run_steps [Command Start, Meanwhile (Event_arrives Logged_on), Next_event] (worker_world demo_row [])))
     = [Games_played [App 10], Set_persona 1, Log_on ''old''] \<and>
   list_all lawful_call (calls (run_steps [Command Start, Meanwhile (Event_arrives Logged_on), Next_event]
     (worker_world demo_row [])))"
proof
  show "map fst (calls (run_steps [Command Start, Meanwhile (Event_arrives Logged_on), Next_event] (worker_world demo_row [])))
     = [Games_played [App 10], Set_persona 1, Log_on ''old'']"
    by code_simp
  have "fresh (worker_world demo_row [])" by (simp add: fresh_def worker_world_def new_worker_def)
  then show "list_all lawful_call (calls (run_steps [Command Start, Meanwhile (Event_arrives Logged_on), Next_event]
     (worker_world demo_row [])))"
    by (rule games_reported_only_when_allowed)
qed

end
