(* ===== verification/AccountManager.thy ===== *)
theory AccountManager
  imports SteamWorker
begin

text \<open>
  What happens to one account in the manager (\<open>apps/server/src/steam/manager.ts\<close>), with its queue and
  remembered context (\<open>account-operation-state.ts\<close>), its status events (\<open>status-event-recorder.ts\<close>)
  and its automatic library import (\<open>auto-library-importer.ts\<close>).

  A manager works on the world of the account's worker, whose tables and clock it shares. The
  accounts do not share anything else, so this is the part of the manager's maps that belongs to
  one account. Public methods do what they do at once and append a job to the account's queue; jobs
  run one after the other. An \<open>await\<close> of the manager is a moment of its own, in which it may be told
  to shut down or the farming of the account may be halted. What the farming controller, the batches
  and the schedule coordinator are told is logged; what they answer is supplied.
\<close>

section \<open>Data\<close>

record operation_context =
  correlationId :: "string option"
  ctx_source :: "string option"
  ctx_action :: "string option"

definition no_context :: operation_context where
  "no_context = \<lparr>correlationId = None, ctx_source = None, ctx_action = None\<rparr>"

datatype event_level = Level_info | Level_error

record event_row =
  ev_level :: event_level
  ev_type :: string
  ev_message :: string
  ev_context :: operation_context
  ev_createdAt :: millis

text \<open>What waits in the queue of the account; a job of the worker is one of its own steps.\<close>

datatype job =
  Run_start operation_context
| Run_stop operation_context
| Run_pause operation_context
| Run_resume operation_context
| Run_refresh operation_context
| Run_preset string operation_context
| Run_interrupted bool job
| Run_forget operation_context bool
| Run_pause_until millis operation_context
| Run_import operation_context
| Run_resume_for_farming operation_context
| Run_apply_farming "int list"
| Run_end_farming
| Run_schedule_pause operation_context
| Run_schedule_resume operation_context
| Run_schedule_preset string operation_context
| Run_safety_pause operation_context
| Run_status nat status_payload
| Run_safety_resume
| Run_worker step

datatype disturbance =
  Manager_shutdown bool
| Farming_halted string
| In_worker interruption

record manager_moment =
  mm_fault :: "string option"
  mm_elapsed :: millis
  mm_meanwhile :: "disturbance list"

record manager =
  accountKey :: account_id
  wk :: world
  current :: "nat option"
  made :: nat
  listening :: bool
  safetyResume :: "millis option"
  farmingCleanup :: bool
  m_quiescing :: bool
  terminalShutdown :: bool
  remembered :: "(operation_context \<times> millis) option"
  jobs :: "job list"
  m_moments :: "manager_moment list"
  redactText :: "string \<Rightarrow> string"
  hold_owner_now :: hold_owner
  may_resume_held :: bool
  events :: "event_row list"
  lastRecordedStatus :: "(string \<times> millis) option"
  import_completed :: bool
  halts :: "string list"
  farming_stopped :: bool
  batch_stops :: nat
  schedule_clears :: nat
  broadcasts :: "status_payload list"
  tracked :: "account_status list"

type_synonym 'a mio = "(manager, string, 'a) action"

section \<open>Effects\<close>

definition active_status :: "account_status \<Rightarrow> bool" where
  "active_status st \<longleftrightarrow> st = Online \<or> st = Boosting"

definition worker_of :: "manager \<Rightarrow> worker option" where
  "worker_of m = (case current m of None \<Rightarrow> None | Some _ \<Rightarrow> Some (self (wk m)))"

definition set_self :: "(worker \<Rightarrow> worker) \<Rightarrow> manager \<Rightarrow> manager" where
  "set_self f m = m\<lparr>wk := (wk m)\<lparr>self := f (self (wk m))\<rparr>\<rparr>"

definition haltFarming :: "string \<Rightarrow> bool \<Rightarrow> manager \<Rightarrow> manager" where
  "haltFarming reason keepAwaitingFarming m =
     (let m = m\<lparr>halts := reason # halts m\<rparr>
      in if current m = None then m else set_self (clearFarmingSelection keepAwaitingFarming) m)"

definition stopAccountBatches :: "manager \<Rightarrow> manager" where
  "stopAccountBatches m = m\<lparr>batch_stops := Suc (batch_stops m)\<rparr>"

definition clearSafetyResume :: "manager \<Rightarrow> manager" where
  "clearSafetyResume m = m\<lparr>safetyResume := None\<rparr>"

definition manager_beginShutdown :: "bool \<Rightarrow> manager \<Rightarrow> manager" where
  "manager_beginShutdown for_good m =
     (let m = m\<lparr>farming_stopped := True, batch_stops := Suc (batch_stops m),
                terminalShutdown := (terminalShutdown m \<or> for_good), m_quiescing := True, safetyResume := None\<rparr>
      in if current m = None then m else m\<lparr>wk := snd (beginShutdown (wk m))\<rparr>)"

fun disturb :: "disturbance \<Rightarrow> manager \<Rightarrow> manager" where
  "disturb (Manager_shutdown for_good) m = manager_beginShutdown for_good m"
| "disturb (Farming_halted reason) m = haltFarming reason False m"
| "disturb (In_worker i) m = (if current m = None then m else m\<lparr>wk := interrupt i (wk m)\<rparr>)"

definition m_pass :: "manager_moment \<Rightarrow> manager \<Rightarrow> manager" where
  "m_pass x m = foldl (\<lambda>m d. disturb d m) (m\<lparr>wk := (wk m)\<lparr>clock := clock (wk m) + mm_elapsed x\<rparr>\<rparr>) (mm_meanwhile x)"

definition m_wait :: "(manager \<Rightarrow> manager) \<Rightarrow> unit mio" where
  "m_wait effect m =
     (case m_moments m of
        [] \<Rightarrow> (Inr (), effect m)
      | x # xs \<Rightarrow>
          let m = m\<lparr>m_moments := xs\<rparr> in
          (case mm_fault x of
             None \<Rightarrow> (Inr (), m_pass x (effect m))
           | Some e \<Rightarrow> (Inl e, m_pass x m)))"

definition m_ops :: "(account_id \<Rightarrow> millis \<Rightarrow> ops_db \<Rightarrow> ops_db) \<Rightarrow> unit mio" where
  "m_ops f = m_wait (\<lambda>m. m\<lparr>wk := (wk m)\<lparr>ops := f (accountKey m) (clock (wk m)) (ops (wk m))\<rparr>\<rparr>)"

text \<open>The same question, asked by the manager and by the worker.\<close>

definition asks :: "bool io \<Rightarrow> bool mio" where
  "asks still m = (case still (wk m) of (r, w) \<Rightarrow> (r, m\<lparr>wk := w\<rparr>))"

text \<open>
  A status the worker emits is handled at once: farming and batches stop unless the account is
  active, and its processing is queued. The worker does nothing to the farming selection between
  the emission and the end of the method, so the methods are run first.
\<close>

definition handleWorkerStatus :: "status_payload \<Rightarrow> manager \<Rightarrow> manager" where
  "handleWorkerStatus p m =
     (case current m of
        None \<Rightarrow> m
      | Some k \<Rightarrow>
          if \<not> listening m then m
          else let m = (if active_status (sp_status p) then m
                        else stopAccountBatches
                          (if sp_status p = Paused_manual \<and> farmingCleanup m then m
                           else haltFarming (status_text (sp_status p)) True m))
               in m\<lparr>jobs := jobs m @ [Run_status k p]\<rparr>)"

definition new_statuses :: "world \<Rightarrow> world \<Rightarrow> status_payload list" where
  "new_statuses w w' = rev (take (length (emitted w') - length (emitted w)) (emitted w'))"

definition in_worker :: "'a io \<Rightarrow> 'a mio" where
  "in_worker a m =
     (case a (wk m) of (r, w') \<Rightarrow>
        (r, foldl (\<lambda>m p. handleWorkerStatus p m) (m\<lparr>wk := w'\<rparr>) (new_statuses (wk m) w')))"

section \<open>The remembered context\<close>

definition contextTtlMs :: millis where
  "contextTtlMs = 2 * one_minute"

definition remember :: "string \<Rightarrow> operation_context \<Rightarrow> unit mio" where
  "remember fallbackAction context = modify (\<lambda>m.
     let action = (case ctx_action context of None \<Rightarrow> fallbackAction | Some a \<Rightarrow> a)
     in if \<not> present (correlationId context) \<and> \<not> present (ctx_source context) \<and> action = [] then m
        else m\<lparr>remembered := Some (context\<lparr>ctx_action := Some action\<rparr>, clock (wk m) + contextTtlMs)\<rparr>)"

definition metadata :: "manager \<Rightarrow> operation_context \<times> manager" where
  "metadata m =
     (case remembered m of
        None \<Rightarrow> (no_context, m)
      | Some (c, expires) \<Rightarrow>
          if expires \<le> clock (wk m) then (no_context, m\<lparr>remembered := None\<rparr>) else (c, m))"

section \<open>Events\<close>

text \<open>\<open>recordEvent\<close> may fail; the callers that must not notice use \<open>record_safely\<close>.\<close>

definition recordEvent :: "event_level \<Rightarrow> string \<Rightarrow> string \<Rightarrow> operation_context \<Rightarrow> unit mio" where
  "recordEvent level type message context = m_wait (\<lambda>m.
     m\<lparr>events := \<lparr>ev_level = level, ev_type = type, ev_message = redactText m message, ev_context = context,
        ev_createdAt = clock (wk m)\<rparr> # events m\<rparr>)"

definition record_safely :: "event_level \<Rightarrow> string \<Rightarrow> string \<Rightarrow> operation_context \<Rightarrow> unit mio" where
  "record_safely level type message context = catching (recordEvent level type message context) (\<lambda>_. pure ())"

definition with_metadata :: "(operation_context \<Rightarrow> unit mio) \<Rightarrow> unit mio" where
  "with_metadata k m = (case metadata m of (c, m') \<Rightarrow> k c m')"

definition recordInfo :: "string \<Rightarrow> string \<Rightarrow> unit mio" where
  "recordInfo type message = with_metadata (record_safely Level_info type message)"

definition recordError :: "string \<Rightarrow> string \<Rightarrow> operation_context \<Rightarrow> unit mio" where
  "recordError type message context = record_safely Level_error type message context"

subsection \<open>Status events\<close>

fun statusLabel :: "account_status \<Rightarrow> string" where
  "statusLabel Disconnected = ''Not connected''"
| "statusLabel Connecting = ''Connecting''"
| "statusLabel Online = ''Online''"
| "statusLabel Boosting = ''Boosting active''"
| "statusLabel Paused_manual = ''Paused manually''"
| "statusLabel Paused_other_session = ''Another Steam client active''"
| "statusLabel Login_required = ''Login required''"
| "statusLabel Reconnecting = ''Reconnect''"
| "statusLabel Errored = ''Error''"

fun status_message :: "account_status \<Rightarrow> string" where
  "status_message Disconnected = ''Steam session is disconnected.''"
| "status_message Connecting = ''Steam connection is starting.''"
| "status_message Online = ''Steam session is online.''"
| "status_message Boosting = ''Active game selection is being reported to Steam.''"
| "status_message Paused_manual = ''Boosting was paused manually.''"
| "status_message Paused_other_session = ''Paused because another Steam client is active.''"
| "status_message Login_required = ''Steam login must be renewed.''"
| "status_message Reconnecting = ''Steam connection is reconnecting.''"
| "status_message Errored = ''Steam session is in an error state.''"

definition steamStatusEventMessage :: "account_status \<Rightarrow> string option \<Rightarrow> string" where
  "steamStatusEventMessage st err =
     (if present err then statusLabel st @ '': '' @ the err else status_message st)"

definition statusDedupeWindowMs :: millis where
  "statusDedupeWindowMs = 5 * one_minute"

text \<open>The latest stored status event of the account (the first of those with the greatest time).\<close>

fun latest_status_event :: "event_row list \<Rightarrow> event_row option" where
  "latest_status_event [] = None"
| "latest_status_event (e # es) =
     (if ev_type e \<noteq> ''steam.status'' then latest_status_event es
      else case latest_status_event es of
        None \<Rightarrow> Some e
      | Some f \<Rightarrow> if ev_createdAt f > ev_createdAt e then Some f else Some e)"

definition isRecentInMemoryDuplicate :: "string \<Rightarrow> millis \<Rightarrow> manager \<Rightarrow> bool" where
  "isRecentInMemoryDuplicate signature now m =
     (case lastRecordedStatus m of
        None \<Rightarrow> False
      | Some (s, at) \<Rightarrow> s = signature \<and> now - at < statusDedupeWindowMs)"

definition findRecentStoredDuplicate :: "string \<Rightarrow> millis \<Rightarrow> manager \<Rightarrow> millis option" where
  "findRecentStoredDuplicate message now m =
     (case latest_status_event (events m) of
        None \<Rightarrow> None
      | Some e \<Rightarrow> if ev_message e = message \<and> now - ev_createdAt e < statusDedupeWindowMs
                  then Some (ev_createdAt e) else None)"

definition remember_status :: "string \<Rightarrow> millis \<Rightarrow> unit mio" where
  "remember_status signature at = modify (\<lambda>m. m\<lparr>lastRecordedStatus := Some (signature, at)\<rparr>)"

definition record_status :: "status_payload \<Rightarrow> unit mio" where
  "record_status p = looking (\<lambda>m.
     let message = redactText m (steamStatusEventMessage (sp_status p) (sp_error p));
         signature = status_text (sp_status p) @ '':'' @ message;
         now = clock (wk m)
     in if isRecentInMemoryDuplicate signature now m then pure ()
        else then_do (catching (then_do (reading (findRecentStoredDuplicate message now))
               (\<lambda>found. then_do (m_wait (\<lambda>m. m)) (\<lambda>_. pure found))) (\<lambda>_. pure None)) (\<lambda>found.
             case found of
               Some at \<Rightarrow> remember_status signature at
             | None \<Rightarrow>
                 catching (do_all [
                   with_metadata (recordEvent (if present (sp_error p) then Level_error else Level_info)
                     ''steam.status'' message),
                   remember_status signature now]) (\<lambda>_. pure ())))"

section \<open>Workers\<close>

definition getAccountOrThrow :: "account_row mio" where
  "getAccountOrThrow = then_do (m_wait (\<lambda>m. m)) (\<lambda>_. looking (\<lambda>m.
     case account_of (accountKey m) (tables (wk m)) of
       None \<Rightarrow> reject ''Steam account was not found.''
     | Some r \<Rightarrow> pure r))"

definition getOrCreateWorker :: "account_row \<Rightarrow> unit mio" where
  "getOrCreateWorker acc =
     branch m_quiescing (reject ''Steam manager is shutting down.'')
    (branch (\<lambda>m. current m \<noteq> None) (pure ())
      (modify (\<lambda>m. m\<lparr>current := Some (made m), made := Suc (made m), listening := True,
        wk := (wk m)\<lparr>self := new_worker acc, queued_events := []\<rparr>\<rparr>)))"

definition getWorkerForAccount :: "unit mio" where
  "getWorkerForAccount = then_do getAccountOrThrow getOrCreateWorker"

section \<open>Starting, stopping and pausing\<close>

definition m_startNow :: "operation_context \<Rightarrow> bool \<Rightarrow> unit mio" where
  "m_startNow context preserveSafetyHold = do_all [
     getWorkerForAccount,
     modify clearSafetyResume,
     remember ''start'' context,
     if preserveSafetyHold then pure () else m_ops clearSafetyHold,
     m_ops clearRecoveryHealth,
     in_worker (runSerial startNow),
     recordInfo ''steam.start'' ''Steam session is starting.'']"

definition m_stopNow :: "operation_context \<Rightarrow> unit mio" where
  "m_stopNow context = do_all [
     getWorkerForAccount,
     modify clearSafetyResume,
     remember ''stop'' context,
     in_worker (runSerial stopNow),
     recordInfo ''steam.stop'' ''Boosting was stopped.'']"

definition m_pauseNow :: "operation_context \<Rightarrow> bool io \<Rightarrow> unit mio" where
  "m_pauseNow context still =
     if_still (asks still) (do_all [
       modify stopAccountBatches,
       if ctx_source context \<noteq> Some ''farming'' then modify (haltFarming ''paused'' False) else pure (),
       getWorkerForAccount,
       if_still (asks still) (do_all [
         modify clearSafetyResume,
         remember ''pause'' context,
         if ctx_source context \<noteq> Some ''scheduler'' \<and> ctx_source context \<noteq> Some ''safety''
         then do_all [
           m_ops (\<lambda>acc. setSafetyHold acc Hold_manual None Unscheduled),
           modify (\<lambda>m. m\<lparr>schedule_clears := Suc (schedule_clears m)\<rparr>)]
         else pure (),
         if_still (asks still) (do_all [
           in_worker (runSerial (pauseNow still)),
           if_still (asks still) (recordInfo ''steam.pause'' ''Boosting was paused.'')])])])"

text \<open>
  A pause for safety that fails falls back to cutting the connection, and if that fails as well to a
  hold that needs attention.
\<close>

definition safety_attention :: "operation_context \<Rightarrow> string \<Rightarrow> unit mio" where
  "safety_attention context disconnectError = do_all [
     m_ops (\<lambda>acc. setSafetyHold acc Hold_safety_failure None Unscheduled),
     in_worker (runSerial (markSafetyAttention ''Safety enforcement could not confirm that the Steam client stopped.'')),
     recordError ''steam.safety.failure'' (''Safety enforcement failed and needs attention: '' @ disconnectError) context,
     reject disconnectError]"

definition force_disconnect :: "operation_context \<Rightarrow> string \<Rightarrow> bool io \<Rightarrow> unit mio" where
  "force_disconnect context pauseError still =
     catching (do_all [
       in_worker (runSerial (forceDisconnectForSafety ''SteamBee force-disconnected after the safety pause failed.'' still)),
       if_still (asks still) (recordError ''steam.safety.fallback''
         (''Safety pause failed; SteamBee force-disconnected its client: '' @ pauseError) context)])
     (\<lambda>disconnectError. if_still (asks still) (safety_attention context disconnectError))"

definition pauseForSafety :: "operation_context \<Rightarrow> bool io \<Rightarrow> unit mio" where
  "pauseForSafety context still =
     if_still (asks still) (do_all [
       branch (\<lambda>m. current m = None) getWorkerForAccount (pure ()),
       if_still (asks still)
         (catching (m_pauseNow context still)
            (\<lambda>pauseError. if_still (asks still) (force_disconnect context pauseError still)))])"

definition m_resumeNow :: "operation_context \<Rightarrow> unit mio" where
  "m_resumeNow context = do_all [
     getWorkerForAccount,
     modify clearSafetyResume,
     remember ''resume'' context,
     m_ops clearSafetyHold,
     m_ops clearRecoveryHealth,
     in_worker (runSerial resumeNow),
     recordInfo ''steam.resume'' ''Boosting was resumed.'']"

definition refreshWorkerNow :: "operation_context \<Rightarrow> unit mio" where
  "refreshWorkerNow context = then_do (remember ''refresh'' context) (\<lambda>_.
     then_do getAccountOrThrow (\<lambda>acc. do_all [
       getOrCreateWorker acc,
       in_worker (runSerial (updateAccountNow acc))]))"

definition preset_selection :: "account_id \<Rightarrow> preset_row \<Rightarrow> int list \<Rightarrow> selection" where
  "preset_selection acc p appIds =
     \<lparr>sel_account = acc, sel_appIds = appIds, sel_source = Source_preset, sel_activePresetId = Some (p_id p),
      sel_personaState = Some (p_personaState p), sel_customTitle = Some (p_customTitle p)\<rparr>"

definition store_selection :: "preset_row \<Rightarrow> int list \<Rightarrow> unit mio" where
  "store_selection p appIds m =
     (case enforceGameLimit appIds (p_customTitle p) of
        Inl e \<Rightarrow> (Inl e, m)
      | Inr _ \<Rightarrow>
          (case replaceSelectedGames (preset_selection (accountKey m) p appIds) (clock (wk m)) (tables (wk m)) of
             (Inl _, _) \<Rightarrow> (Inl ''SQLITE_CONSTRAINT'', m)
           | (Inr _, db) \<Rightarrow> (Inr (), m\<lparr>wk := (wk m)\<lparr>tables := db\<rparr>\<rparr>)))"

definition applyPresetNow :: "string \<Rightarrow> operation_context \<Rightarrow> unit mio" where
  "applyPresetNow preset context = do_all [
     modify (haltFarming ''preset-applied'' False),
     remember ''preset-apply'' context,
     m_wait (\<lambda>m. m),
     looking (\<lambda>m.
       case List.find (\<lambda>p. p_id p = preset \<and> p_account p = accountKey m) (presets (tables (wk m))) of
         None \<Rightarrow> reject ''Preset was not found.''
       | Some p \<Rightarrow> do_all [
           m_wait (\<lambda>m. m),
           looking (\<lambda>m. store_selection p
             (map pg_app (filter (\<lambda>g. pg_preset g = preset) (preset_games (tables (wk m)))))),
           recordInfo ''steam.preset.apply'' (''Preset '' @ [CHR 0x22] @ p_name p @ [CHR 0x22] @ '' applied.''),
           refreshWorkerNow context])]"

definition m_importLibraryNow :: "operation_context \<Rightarrow> unit mio" where
  "m_importLibraryNow context = do_all [
     remember ''library-import'' context,
     getWorkerForAccount,
     recordInfo ''steam.library.import.start'' ''Library import started.'',
     catching (do_all [
         in_worker (runSerial importLibraryNow),
         looking (\<lambda>m. recordInfo ''steam.library.import'' (nat_text (length (owned_apps (wk m))) @ '' games imported.''))])
       (\<lambda>e. do_all [
         with_metadata (recordError ''steam.library.import.error'' (''Library import failed: '' @ e)),
         reject e])]"

section \<open>Forgetting an account\<close>

definition track :: "account_status \<Rightarrow> unit mio" where
  "track st = m_wait (\<lambda>m. m\<lparr>tracked := st # tracked m\<rparr>)"

definition closeBoostSession :: "unit mio" where
  "closeBoostSession = catching (track Disconnected) (\<lambda>_. pure ())"

definition clearAccountState :: "manager \<Rightarrow> manager" where
  "clearAccountState m = m\<lparr>safetyResume := None, remembered := None, lastRecordedStatus := None,
     import_completed := False, schedule_clears := Suc (schedule_clears m)\<rparr>"

text \<open>
  The transport has 25 seconds to close (\<open>asks ask\<close> says whether it kept to them). A worker that has not
  closed safely stays, shut down, so that no other takes its place. The result says whether it has
  closed, and with which error.
\<close>

definition close_worker :: "(bool \<times> string option) mio" where
  "close_worker =
     then_do (modify (\<lambda>m. m\<lparr>listening := False\<rparr>)) (\<lambda>_.
     then_do (captured (in_worker (runSerial stopNow))) (\<lambda>stopError.
     then_do (captured (in_worker shutdown)) (\<lambda>shutdownError.
     then_do (asks ask) (\<lambda>intime.
     pure (shutdownError = None \<and> intime,
       if \<not> intime then Some ''Runtime shutdown exceeded its deadline; retaining the data lease until process exit.''
       else if shutdownError \<noteq> None then shutdownError else stopError)))))"

definition rethrow :: "string option \<Rightarrow> unit mio" where
  "rethrow e = (case e of None \<Rightarrow> pure () | Some e \<Rightarrow> reject e)"

definition forgetNow :: "operation_context \<Rightarrow> unit mio" where
  "forgetNow context = then_do (remember ''forget'' context) (\<lambda>_.
     then_do (branch (\<lambda>m. current m = None) (pure (True, None)) close_worker) (\<lambda>(safelyClosed, e).
     if safelyClosed
     then do_all [closeBoostSession, modify (\<lambda>m. clearAccountState (m\<lparr>current := None\<rparr>)), rethrow e]
     else do_all [modify (\<lambda>m. m\<lparr>wk := snd (beginShutdown (wk m))\<rparr>), rethrow e]))"

definition delete_account :: "unit mio" where
  "delete_account = m_wait (\<lambda>m. m\<lparr>wk := (wk m)\<lparr>tables := (tables (wk m))\<lparr>account_rows :=
     filter (\<lambda>r. row_id r \<noteq> accountKey m) (account_rows (tables (wk m)))\<rparr>\<rparr>\<rparr>)"

section \<open>Pausing until a later time\<close>

definition read_policy :: "manager \<Rightarrow> safety_policy option" where
  "read_policy m = fst (getAccountSafetyPolicy (accountKey m) (clock (wk m)) (ops (wk m)))"

definition held_for :: "hold_reason \<Rightarrow> manager \<Rightarrow> bool" where
  "held_for reason m \<longleftrightarrow> (case read_policy m of None \<Rightarrow> False | Some p \<Rightarrow> sp_holdReason p = Some reason)"

definition scheduleSafetyResume :: "millis \<Rightarrow> unit mio" where
  "scheduleSafetyResume resumeAt = modify (\<lambda>m.
     m\<lparr>safetyResume := Some (clock (wk m) + max 0 (min (resumeAt - clock (wk m)) 2147483647))\<rparr>)"

definition m_pauseUntil :: "millis \<Rightarrow> operation_context \<Rightarrow> unit mio" where
  "m_pauseUntil until context = then_do getAccountOrThrow (\<lambda>acc.
     if desiredState acc \<noteq> Desire_running
     then reject ''Only a running account can be paused until a later time.''
     else then_do (m_wait (\<lambda>m. m)) (\<lambda>_.
       then_do (reading hold_owner_now) (\<lambda>owner. do_all [
         m_ops (\<lambda>acc. setSafetyHold acc Hold_pause_until (Some until) owner),
         pauseForSafety (context\<lparr>ctx_source := Some ''safety'', ctx_action := Some ''pause-until''\<rparr>) always,
         m_wait (\<lambda>m. m),
         branch (held_for Hold_pause_until) (scheduleSafetyResume until) (pure ())])))"

text \<open>What the timer of a pause does when it fires; the owner of the hold may have a say.\<close>

definition expired_context :: operation_context where
  "expired_context = \<lparr>correlationId = None, ctx_source = Some ''safety'', ctx_action = Some ''pause-until-expired''\<rparr>"

definition end_pause :: "unit mio" where
  "end_pause = do_all [
     getWorkerForAccount,
     m_ops clearSafetyHold,
     branch (\<lambda>m. connected (self (wk m))) (m_resumeNow expired_context) (m_startNow expired_context False)]"

definition resume_held :: "unit mio" where
  "resume_held = then_do getAccountOrThrow (\<lambda>acc.
     if desiredState acc \<noteq> Desire_paused then m_ops clearSafetyHold
     else then_do (m_wait (\<lambda>m. m)) (\<lambda>_. then_do (m_wait (\<lambda>m. m)) (\<lambda>_.
       branch (\<lambda>m. \<not> may_resume_held m) (m_ops clearSafetyHold) end_pause)))"

definition still_held_until :: "manager \<Rightarrow> millis option" where
  "still_held_until m =
     (case read_policy m of
        None \<Rightarrow> None
      | Some p \<Rightarrow> (case sp_pauseUntil p of None \<Rightarrow> None | Some t \<Rightarrow> if t > clock (wk m) then Some t else None))"

definition safety_resume_job :: "unit mio" where
  "safety_resume_job = then_do (m_wait (\<lambda>m. m)) (\<lambda>_.
     branch (\<lambda>m. \<not> held_for Hold_pause_until m) (pure ())
       (looking (\<lambda>m. case still_held_until m of
          Some t \<Rightarrow> scheduleSafetyResume t
        | None \<Rightarrow> resume_held)))"

section \<open>Farming\<close>

datatype unavailable =
  Shutting_down | Held automation_hold | Not_running | Not_connected

record farming_availability =
  fa_reason :: "unavailable option"
  fa_resumable :: bool
  fa_gameLimit :: nat

definition availability_of :: "account_row \<Rightarrow> automation_hold option \<Rightarrow> manager \<Rightarrow> farming_availability" where
  "availability_of acc hold m =
     \<lparr>fa_reason =
        (if m_quiescing m then Some Shutting_down
         else case hold of
           Some h \<Rightarrow> Some (Held h)
         | None \<Rightarrow>
             if desiredState acc \<noteq> Desire_running then Some Not_running
             else case worker_of m of
               None \<Rightarrow> Some Not_connected
             | Some s \<Rightarrow> if \<not> connected s \<or> \<not> active_status (status s) then Some Not_connected else None),
      fa_resumable = (\<not> m_quiescing m \<and>
        (case hold of None \<Rightarrow> True | Some (Safety_hold Hold_manual _) \<Rightarrow> True | _ \<Rightarrow> False) \<and>
        desiredState acc \<noteq> Desire_running),
      fa_gameLimit = gameSelectionLimit (customTitle acc)\<rparr>"

definition getFarmingAvailability :: "farming_availability mio" where
  "getFarmingAvailability = then_do getAccountOrThrow (\<lambda>acc.
     then_do (m_wait (\<lambda>m. m)) (\<lambda>_. reading (\<lambda>m.
       availability_of acc (fst (getActiveAutomationHold (accountKey m) (clock (wk m)) (ops (wk m)))) m)))"

definition m_resumeForFarming :: "operation_context \<Rightarrow> unit mio" where
  "m_resumeForFarming context = then_do getFarmingAvailability (\<lambda>a.
     if fa_reason a = None \<or> \<not> fa_resumable a then pure ()
     else do_all [
       getWorkerForAccount,
       modify clearSafetyResume,
       remember ''resume'' context,
       m_ops clearSafetyHold,
       m_ops clearRecoveryHealth,
       in_worker (runSerial resumeForFarming),
       recordInfo ''steam.resume'' ''The account was resumed for card farming.''])"

definition applyFarmingGames :: "int list \<Rightarrow> unit mio" where
  "applyFarmingGames appIds = then_do getFarmingAvailability (\<lambda>a.
     then_do (asks ask) (\<lambda>go.
     if \<not> go \<or> fa_reason a \<noteq> None then reject ''The account is unavailable for card farming.''
     else do_all [
       getWorkerForAccount,
       if_still (asks ask) (in_worker (runSerial (applyFarmingSelection appIds ask)))]))"

definition farming_context :: operation_context where
  "farming_context = \<lparr>correlationId = None, ctx_source = Some ''farming'', ctx_action = Some ''farming-stop''\<rparr>"

definition m_endFarming :: "unit mio" where
  "m_endFarming = if_still (asks ask)
     (branch (\<lambda>m. case worker_of m of None \<Rightarrow> True | Some s \<Rightarrow> \<not> isFarming s) (pure ()) (do_all [
        finally_do
          (do_all [modify (\<lambda>m. m\<lparr>farmingCleanup := True\<rparr>), pauseForSafety farming_context ask])
          (modify (\<lambda>m. m\<lparr>farmingCleanup := False\<rparr>)),
        if_still (asks ask) (record_safely Level_info ''steam.farming.stop'' ''Card farming stopped; the account was paused.''
          \<lparr>correlationId = None, ctx_source = Some ''manual'', ctx_action = Some ''farming-stop''\<rparr>)]))"

text \<open>An interrupted farm does not keep playing when the command that interrupted it fails.\<close>

definition interrupted_context :: operation_context where
  "interrupted_context = \<lparr>correlationId = None, ctx_source = Some ''manual'', ctx_action = Some ''farming-interrupted''\<rparr>"

definition farming_interruption :: "bool \<Rightarrow> unit mio \<Rightarrow> unit mio" where
  "farming_interruption wasFarming operation = catching operation (\<lambda>e. do_all [
     if wasFarming then catching (pauseForSafety interrupted_context always) (\<lambda>_. pure ()) else pure (),
     reject e])"

section \<open>Statuses\<close>

definition auto_import :: "unit mio" where
  "auto_import = branch import_completed (pure ()) (catching
     (then_do (m_wait (\<lambda>m. m)) (\<lambda>_.
      branch (\<lambda>m. hasAccountLibrary (accountKey m) (tables (wk m)))
        (modify (\<lambda>m. m\<lparr>import_completed := True\<rparr>))
        (do_all [
           recordInfo ''steam.library.import.start'' ''Automatic library import started.'',
           getWorkerForAccount,
           in_worker (runSerial importLibraryNow),
           modify (\<lambda>m. m\<lparr>import_completed := True\<rparr>),
           looking (\<lambda>m. recordInfo ''steam.library.import'' (nat_text (length (owned_apps (wk m))) @ '' games imported.''))])))
     (\<lambda>e. with_metadata (recordError ''steam.library.import.error'' (''Library import failed: '' @ e))))"

definition processWorkerStatus :: "status_payload \<Rightarrow> unit mio" where
  "processWorkerStatus p = do_all [
     modify (\<lambda>m. m\<lparr>broadcasts := p # broadcasts m\<rparr>),
     record_status p,
     track (sp_status p),
     if \<not> present (sp_error p) \<and> importable (ACCOUNT_STATUS_CAPABILITIES (sp_status p)) then auto_import else pure ()]"

section \<open>The queue of an account\<close>

definition resumeOrStartFromSchedule :: "operation_context \<Rightarrow> unit mio" where
  "resumeOrStartFromSchedule context = then_do getAccountOrThrow (\<lambda>acc.
     if desiredState acc = Desire_paused then m_resumeNow context else m_startNow context False)"

fun run_job :: "job \<Rightarrow> unit mio" where
  "run_job (Run_start c) = m_startNow c False"
| "run_job (Run_stop c) = m_stopNow c"
| "run_job (Run_pause c) = m_pauseNow c always"
| "run_job (Run_resume c) = m_resumeNow c"
| "run_job (Run_refresh c) = refreshWorkerNow c"
| "run_job (Run_preset p c) = applyPresetNow p c"
| "run_job (Run_interrupted wasFarming j) = farming_interruption wasFarming (run_job j)"
| "run_job (Run_forget c for_good) = then_do (forgetNow c) (\<lambda>_. if for_good then delete_account else pure ())"
| "run_job (Run_pause_until until c) = m_pauseUntil until c"
| "run_job (Run_import c) = m_importLibraryNow c"
| "run_job (Run_resume_for_farming c) = m_resumeForFarming c"
| "run_job (Run_apply_farming appIds) = applyFarmingGames appIds"
| "run_job Run_end_farming = m_endFarming"
| "run_job (Run_schedule_pause c) = m_pauseNow c always"
| "run_job (Run_schedule_resume c) = resumeOrStartFromSchedule c"
| "run_job (Run_schedule_preset p c) = applyPresetNow p c"
| "run_job (Run_safety_pause c) = pauseForSafety c always"
| "run_job (Run_status k p) = branch (\<lambda>m. current m \<noteq> Some k) (pure ()) (processWorkerStatus p)"
| "run_job Run_safety_resume = safety_resume_job"
| "run_job (Run_worker st) = (\<lambda>m. if current m = None then (Inr (), m)
     else in_worker (\<lambda>w. (Inr (), run_step st w)) m)"

text \<open>
  Statuses and the timer of a pause go straight to the queue; every other job is rejected while the
  manager shuts down.
\<close>

fun unguarded :: "job \<Rightarrow> bool" where
  "unguarded (Run_status k p) = True"
| "unguarded Run_safety_resume = True"
| "unguarded _ = False"

definition runAccountOperation :: "job \<Rightarrow> unit mio" where
  "runAccountOperation j =
     branch (\<lambda>m. m_quiescing m \<and> \<not> unguarded j) (reject ''Steam manager is shutting down.'') (run_job j)"

definition enqueue :: "job \<Rightarrow> manager \<Rightarrow> manager" where
  "enqueue j m = (if m_quiescing m \<and> \<not> unguarded j then m else m\<lparr>jobs := jobs m @ [j]\<rparr>)"

definition runFarmingInterruption :: "string \<Rightarrow> job \<Rightarrow> manager \<Rightarrow> manager" where
  "runFarmingInterruption reason j m =
     (let wasFarming = (case worker_of m of None \<Rightarrow> False | Some s \<Rightarrow> isFarming s)
      in enqueue (Run_interrupted wasFarming j) (haltFarming reason False m))"

definition redundant_farm_start :: "manager \<Rightarrow> bool" where
  "redundant_farm_start m \<longleftrightarrow>
     (case worker_of m of None \<Rightarrow> False | Some s \<Rightarrow> connected s \<and> isFarming s \<and> active_status (status s))"

section \<open>Start and end of the manager\<close>

definition hold_at_start :: "manager \<Rightarrow> automation_hold option" where
  "hold_at_start m = fst (getActiveAutomationHold (accountKey m) (clock (wk m)) (ops (wk m)))"

definition timed_hold :: "manager \<Rightarrow> millis option" where
  "timed_hold m =
     (case read_policy m of
        None \<Rightarrow> None
      | Some p \<Rightarrow> if sp_holdReason p = Some Hold_pause_until then sp_pauseUntil p else None)"

text \<open>The part of \<open>init\<close> for an account, after the first tick of the schedules.\<close>

definition init_account :: "unit mio" where
  "init_account = then_do getAccountOrThrow (\<lambda>acc. do_all [
     getOrCreateWorker acc,
     m_wait (\<lambda>m. m),
     looking (\<lambda>m. case timed_hold m of
       Some until \<Rightarrow> scheduleSafetyResume until
     | None \<Rightarrow>
         if desiredState acc \<noteq> Desire_running then pure ()
         else do_all [
           m_wait (\<lambda>m. m),
           branch (\<lambda>m. hold_at_start m \<noteq> None) (pure ()) (do_all [
             m_ops clearRecoveryHealth,
             catching (in_worker (runSerial startNow)) (\<lambda>_. pure ())])])])"

text \<open>The part of \<open>shutdownNow\<close> for an account, after its queue has drained.\<close>

definition shutdown_account :: "unit mio" where
  "shutdown_account = do_all [
     modify (\<lambda>m. clearSafetyResume (m\<lparr>listening := False\<rparr>)),
     branch (\<lambda>m. current m = None) (pure ()) (do_all [
       catching (in_worker shutdown) (\<lambda>_. pure ()),
       closeBoostSession]),
     modify (\<lambda>m. m\<lparr>current := None, remembered := None, lastRecordedStatus := None, import_completed := False,
       schedule_clears := Suc (schedule_clears m), m_quiescing := terminalShutdown m\<rparr>)]"

section \<open>Steps\<close>

datatype manager_step =
  Init_account
| Finish_shutdown
| Call_start operation_context
| Call_stop operation_context
| Call_pause operation_context
| Call_resume operation_context
| Call_refresh operation_context
| Call_preset string operation_context
| Call_forget operation_context bool
| Call_job job
| Next_job
| Safety_timer
| Disturbance disturbance
| Supply "manager_moment list" hold_owner bool surroundings

fun run_manager_step :: "manager_step \<Rightarrow> manager \<Rightarrow> manager" where
  "run_manager_step Init_account m = snd (init_account m)"
| "run_manager_step Finish_shutdown m = (if m_quiescing m \<and> jobs m = [] then snd (shutdown_account m) else m)"
| "run_manager_step (Call_start c) m =
     (if redundant_farm_start m then m else runFarmingInterruption ''manual-start'' (Run_start c) m)"
| "run_manager_step (Call_stop c) m = runFarmingInterruption ''stopped'' (Run_stop c) (stopAccountBatches m)"
| "run_manager_step (Call_pause c) m = runFarmingInterruption ''paused'' (Run_pause c) (stopAccountBatches m)"
| "run_manager_step (Call_resume c) m = runFarmingInterruption ''manual-resume'' (Run_resume c) m"
| "run_manager_step (Call_refresh c) m = runFarmingInterruption ''settings-changed'' (Run_refresh c) m"
| "run_manager_step (Call_preset p c) m = runFarmingInterruption ''preset-applied'' (Run_preset p c) m"
| "run_manager_step (Call_forget c for_good) m =
     enqueue (Run_forget c for_good) (haltFarming ''account-removed'' False (stopAccountBatches m))"
| "run_manager_step (Call_job j) m = enqueue j m"
| "run_manager_step Next_job m =
     (case jobs m of [] \<Rightarrow> m | j # js \<Rightarrow> snd (runAccountOperation j (m\<lparr>jobs := js\<rparr>)))"
| "run_manager_step Safety_timer m =
     (case safetyResume m of
        None \<Rightarrow> m
      | Some due \<Rightarrow>
          if due \<le> clock (wk m) then enqueue Run_safety_resume (m\<lparr>safetyResume := None\<rparr>) else m)"
| "run_manager_step (Disturbance d) m = disturb d m"
| "run_manager_step (Supply ms owner may s) m =
     m\<lparr>m_moments := ms, hold_owner_now := owner, may_resume_held := may, wk := run_step (Surroundings s) (wk m)\<rparr>"

definition manager_steps :: "manager_step list \<Rightarrow> manager \<Rightarrow> manager" where
  "manager_steps = fold run_manager_step"

section \<open>A pause for safety\<close>

text \<open>Paused by hand and not meant to run, or shutting down: nothing is played.\<close>

definition paused_worker :: "worker \<Rightarrow> bool" where
  "paused_worker s \<longleftrightarrow> quiescing s \<or> manuallyPaused s \<and> \<not> wants_running s"

definition stays_paused :: "world \<Rightarrow> world \<Rightarrow> bool" where
  "stays_paused w w' \<longleftrightarrow> (paused_worker (self w) \<longrightarrow> paused_worker (self w'))"

interpretation pausing: kept_relation stays_paused
  by unfold_locales (auto simp: stays_paused_def)

lemma paused_stable: "stable s s' \<Longrightarrow> paused_worker s \<Longrightarrow> paused_worker s'"
  by (auto simp: stable_def paused_worker_def wants_running_def)

lemma pausing_me: "(\<And>s. paused_worker s \<Longrightarrow> paused_worker (f s)) \<Longrightarrow> keeps stays_paused (me f)"
  by (simp add: keeps_def me_def action_simps stays_paused_def)

lemma pausing_wait:
  assumes "\<And>w. self (effect w) = self w"
  shows "keeps stays_paused (wait effect)"
  using paused_stable [OF stable_wait [OF assms]] by (simp add: keeps_def stays_paused_def)

lemma pausing_call: "keeps stays_paused (call c)"
  by (auto simp: keeps_def call_def Let_def stays_paused_def split: list.split option.split)

lemma pausing_setStatus: "keeps stays_paused (setStatus st err)"
  using paused_stable [OF stable_setStatus] by (simp add: keeps_def stays_paused_def)

lemma pausing_ops: "keeps stays_paused (write_ops f)"
  unfolding write_ops_def by (rule pausing_wait) simp

lemma pausing_reportGames: "keeps stays_paused (reportGames p)"
  unfolding reportGames_def
  by (auto intro!: pausing.kept_parts pausing_call pausing_me simp: paused_worker_def wants_running_def)

lemmas pausing_methods = pausing_call pausing_setStatus pausing_ops pausing_reportGames

lemma setDesiredState_pauses:
  assumes "quiescing (self w) \<or> manuallyPaused (self w)"
  shows "paused_worker (self (snd (setDesiredState Desire_paused w)))"
proof -
  let ?s = "(self w)\<lparr>intentGeneration := intentGeneration (self w) +
      (if desiredState (account (self w)) \<noteq> Desire_paused then 1 else 0),
    account := (account (self w))\<lparr>desiredState := Desire_paused\<rparr>\<rparr>"
  let ?wait = "wait (write_row (\<lambda>w r. r\<lparr>desiredState := Desire_paused, updatedAt := clock w\<rparr>)) (w\<lparr>self := ?s\<rparr>)"
  have "paused_worker ?s" using assms by (auto simp: paused_worker_def wants_running_def)
  moreover have "stable ?s (self (snd ?wait))"
    using stable_wait [of "write_row (\<lambda>w r. r\<lparr>desiredState := Desire_paused, updatedAt := clock w\<rparr>)" "w\<lparr>self := ?s\<rparr>"]
    by (simp add: write_row_def)
  ultimately have "paused_worker (self (snd ?wait))" by (rule paused_stable [rotated])
  then show ?thesis by (simp add: setDesiredState_def do_all.simps snd_then_pure me_def)
qed

text \<open>Once the state is the right one, the rest of a method keeps it, however it ends.\<close>

lemma pauses_then:
  assumes "paused_worker (self (snd (m w)))" "\<And>x. keeps stays_paused (k x)"
  shows "paused_worker (self (snd (then_do m k w)))"
  using assms by (auto simp: then_do_apply keeps_def stays_paused_def split: prod.splits sum.splits)

lemma pauses_setDesired:
  assumes "quiescing (self w) \<or> manuallyPaused (self w)" "\<And>x. keeps stays_paused (k x)"
  shows "paused_worker (self (snd (then_do (setDesiredState Desire_paused) k w)))"
  by (rule pauses_then [where k = k]) (use assms setDesiredState_pauses in auto)

lemma snd_captured: "snd (captured m w) = snd (m w)"
  by (auto simp: captured_def catching_def then_do_apply pure_def split: prod.split sum.split)

lemma captured_Inr: "\<exists>e. fst (captured m w) = Inr e"
  by (auto simp: captured_def catching_def then_do_apply pure_def split: prod.split sum.split)

lemma snd_then_unit: "snd (then_do m (\<lambda>_. pure ()) w) = snd (m w)"
  by (simp add: then_do_apply pure_def split: prod.split sum.split)

lemma if_still_always [simp]: "if_still always m = m"
  by (simp add: if_still_def always_def)

text \<open>What holds whenever an action resolves.\<close>

definition resolves_with :: "('s \<Rightarrow> bool) \<Rightarrow> ('s, 'e, 'a) action \<Rightarrow> bool" where
  "resolves_with P m \<longleftrightarrow> (\<forall>s x s'. m s = (Inr x, s') \<longrightarrow> P s')"

lemma resolves_then: "(\<And>x. resolves_with P (k x)) \<Longrightarrow> resolves_with P (then_do m k)"
  by (auto simp: resolves_with_def elim!: then_do_InrE)

lemma resolves_last: "(\<And>s. P (snd (m s))) \<Longrightarrow> resolves_with P (then_do m (\<lambda>_. pure ()))"
  unfolding resolves_with_def by (metis snd_conv snd_then_unit)

lemma pauseNow_pauses: "resolves_with (\<lambda>w. paused_worker (self w)) (pauseNow always)"
proof -
  have rest: "paused_worker (self (snd (do_all [me (\<lambda>s. s\<lparr>manuallyPaused := True\<rparr>), setDesiredState Desire_paused,
      do_all [reportGames [], setStatus Paused_manual None]] w)))" for w
    unfolding do_all.simps me_def then_do_modify
    by (rule pauses_setDesired)
      (auto intro!: pausing.kept_parts pausing_methods)
  show ?thesis
    unfolding pauseNow_def if_still_always
      do_all.simps(2) [of "me (clearFarmingSelection False)"] do_all.simps(2) [of "me clearRetryTimers"]
      do_all.simps(2) [of "me resetSessionConflict"] do_all.simps(2) [of "write_ops clearRecoveryHealth"]
      do_all.simps(2) [of "do_all _" "[]"] do_all.simps(1)
    by (rule resolves_then, rule resolves_then, rule resolves_then, rule resolves_then, rule resolves_last, rule rest)
qed

lemma disconnect_steps_pause:
  assumes "manuallyPaused (self w)" "\<And>f1 f2. keeps stays_paused (k f1 f2)"
  shows "paused_worker (self (snd (then_do (captured (write_ops clearRecoveryHealth)) (\<lambda>f1.
    then_do (captured (setDesiredState Desire_paused)) (k f1)) w)))"
proof -
  let ?ops = "write_ops clearRecoveryHealth :: unit io"
  obtain f1 w1 where ops: "captured ?ops w = (Inr f1, w1)" using captured_Inr [of ?ops w] by (metis prod.collapse)
  have "w1 = snd (?ops w)" using snd_captured [of ?ops w] ops by simp
  moreover have "stable (self w) (self (snd (?ops w)))" unfolding write_ops_def by (rule stable_wait) simp
  ultimately have "quiescing (self w1) \<or> manuallyPaused (self w1)" using assms(1) by (auto simp: stable_def)
  then have "paused_worker (self (snd (captured (setDesiredState Desire_paused) w1)))"
    unfolding snd_captured by (rule setDesiredState_pauses)
  then have "paused_worker (self (snd (then_do (captured (setDesiredState Desire_paused)) (k f1) w1)))"
    by (rule pauses_then) (rule assms(2))
  then show ?thesis by (simp add: then_do_apply [of "captured ?ops"] ops)
qed

lemma after_prefix:
  "\<exists>w1. snd (do_all [me f1, modify (tell c), me f2, me f3, me (\<lambda>s. s\<lparr>manuallyPaused := True\<rparr>), rest] w)
      = snd (rest w1) \<and> manuallyPaused (self w1)"
  by (rule exI [of _ "(tell c (w\<lparr>self := f1 (self w)\<rparr>))\<lparr>self := (f3 (f2 (f1 (self w))))\<lparr>manuallyPaused := True\<rparr>\<rparr>"])
    (simp add: do_all.simps me_def snd_then_pure tell_def)

lemma forceDisconnect_pauses: "paused_worker (self (snd (forceDisconnectForSafety message always w)))"
proof -
  have rest: "keeps stays_paused (then_do (captured (reportGames [])) (\<lambda>f3.
       then_do (captured (call Log_off)) (\<lambda>f4.
       then_do (me (\<lambda>s. s\<lparr>connected := False\<rparr>)) (\<lambda>_.
       then_do (captured (setStatus Paused_manual (Some message))) (\<lambda>f5.
       first_failure [f1, f2, f3, f4, f5])))))" for f1 f2
    by (intro pausing.kept_parts pausing_methods pausing.kept_first_failure pausing_me)
      (simp add: paused_worker_def wants_running_def)
  show ?thesis
    unfolding forceDisconnectForSafety_def if_still_always
    by (rule exE [OF after_prefix], erule conjE, erule ssubst, erule disconnect_steps_pause) (rule rest)
qed

lemma markSafetyAttention_pauses: "paused_worker (self (snd (markSafetyAttention message w)))"
  unfolding markSafetyAttention_def do_all.simps me_def then_do_modify
  by (rule pauses_setDesired) (auto intro!: pausing.kept_parts pausing_methods)

lemma runSerial_pauses:
  "paused_worker (self (snd (m w))) \<Longrightarrow> paused_worker (self (snd (runSerial m w)))"
  "resolves_with (\<lambda>w. paused_worker (self w)) m \<Longrightarrow> resolves_with (\<lambda>w. paused_worker (self w)) (runSerial m)"
  by (auto simp: runSerial_def branch_def reject_def paused_worker_def resolves_with_def)

subsection \<open>In the manager\<close>

definition keeps_worker_paused :: "manager \<Rightarrow> manager \<Rightarrow> bool" where
  "keeps_worker_paused m m' \<longleftrightarrow> (paused_worker (self (wk m)) \<longrightarrow> paused_worker (self (wk m')))"

interpretation m_pausing: kept_relation keeps_worker_paused
  by unfold_locales (auto simp: keeps_worker_paused_def)

lemma paused_haltFarming: "paused_worker (self (wk (haltFarming reason keep m))) = paused_worker (self (wk m))"
  by (simp add: haltFarming_def Let_def set_self_def clearFarmingSelection_def paused_worker_def wants_running_def)

lemma paused_beginShutdown: "paused_worker (self (snd (beginShutdown w)))"
  using quiescing_beginShutdown by (simp add: paused_worker_def)

lemma paused_disturb: "keeps_worker_paused m (disturb d m)"
proof (cases d)
  case (In_worker i)
  then show ?thesis using paused_stable [OF stable_interrupt] by (simp add: keeps_worker_paused_def)
qed (auto simp: keeps_worker_paused_def paused_haltFarming manager_beginShutdown_def Let_def paused_beginShutdown)

lemma paused_m_pass: "keeps_worker_paused m (m_pass x m)"
proof -
  have "keeps_worker_paused m (foldl (\<lambda>m d. disturb d m) m ds)" for m ds
    by (induction ds arbitrary: m) (auto intro: m_pausing.refl m_pausing.trans [OF paused_disturb])
  from this [of "m\<lparr>wk := (wk m)\<lparr>clock := clock (wk m) + mm_elapsed x\<rparr>\<rparr>" "mm_meanwhile x"]
  show ?thesis by (simp add: m_pass_def keeps_worker_paused_def)
qed

lemma paused_m_wait: "(\<And>m. self (wk (effect m)) = self (wk m)) \<Longrightarrow> keeps keeps_worker_paused (m_wait effect)"
  using paused_m_pass by (fastforce simp: keeps_def m_wait_def Let_def keeps_worker_paused_def split: list.split option.split)

lemma paused_status: "paused_worker (self (wk (handleWorkerStatus p m))) = paused_worker (self (wk m))"
  by (simp add: handleWorkerStatus_def Let_def stopAccountBatches_def paused_haltFarming split: option.split)

lemma paused_statuses:
  "paused_worker (self (wk (foldl (\<lambda>m p. handleWorkerStatus p m) m ps))) = paused_worker (self (wk m))"
  by (induction ps arbitrary: m) (simp_all add: paused_status)

lemma in_worker_paused: "paused_worker (self (wk (snd (in_worker a m)))) = paused_worker (self (snd (a (wk m))))"
  by (simp add: in_worker_def paused_statuses split: prod.split)

lemma in_worker_resolves:
  "resolves_with (\<lambda>w. paused_worker (self w)) a \<Longrightarrow> resolves_with (\<lambda>m. paused_worker (self (wk m))) (in_worker a)"
  by (auto simp: resolves_with_def in_worker_def paused_statuses split: prod.splits)

lemma asks_always [simp]: "if_still (asks always) m = m"
  by (simp add: fun_eq_iff if_still_def asks_def always_def then_do_apply pure_def)

lemma paused_metadata: "wk (snd (metadata m)) = wk m"
  by (simp add: metadata_def split: option.split prod.split)

lemma paused_events: "keeps keeps_worker_paused (recordEvent level type message context)"
  "keeps keeps_worker_paused (record_safely level type message context)"
  "keeps keeps_worker_paused (recordInfo type message)" "keeps keeps_worker_paused (recordError type message context)"
proof -
  show e: "keeps keeps_worker_paused (recordEvent level type message c)" for level type message c
    unfolding recordEvent_def by (rule paused_m_wait) simp
  then show s: "keeps keeps_worker_paused (record_safely level type message c)" for level type message c
    unfolding record_safely_def by (intro m_pausing.kept_parts)
  then show "keeps keeps_worker_paused (recordError type message context)" by (simp add: recordError_def)
  show "keeps keeps_worker_paused (recordInfo type message)"
    using s by (fastforce simp: keeps_def recordInfo_def with_metadata_def keeps_worker_paused_def paused_metadata
        split: prod.split dest: arg_cong [of _ _ snd])
qed

lemma resolves_do_all: "ms \<noteq> [] \<Longrightarrow> resolves_with P (last ms) \<Longrightarrow> resolves_with P (do_all ms)"
proof (induction ms)
  case (Cons m ms)
  show ?case
  proof (cases "ms = []")
    case True
    with Cons.prems show ?thesis
      by (auto simp: do_all.simps resolves_with_def pure_def elim!: then_do_InrE)
  next
    case False
    with Cons show ?thesis by (simp add: do_all.simps resolves_then)
  qed
qed simp

lemma m_pauseNow_pauses: "resolves_with (\<lambda>m. paused_worker (self (wk m))) (m_pauseNow c always)"
proof -
  have pause: "resolves_with (\<lambda>m. paused_worker (self (wk m))) (in_worker (runSerial (pauseNow always)))"
    by (intro in_worker_resolves runSerial_pauses pauseNow_pauses)
  have "resolves_with (\<lambda>m. paused_worker (self (wk m)))
      (do_all [in_worker (runSerial (pauseNow always)), recordInfo type message])" for type message
    using pause paused_events(3) [of type message]
    by (auto simp: do_all.simps resolves_with_def keeps_def keeps_worker_paused_def pure_def elim!: then_do_InrE)
      (metis snd_conv)
  then show ?thesis
    unfolding m_pauseNow_def asks_always by (auto intro!: resolves_do_all)
qed

lemma m_pauses_catching:
  assumes "paused_worker (self (wk (snd (m s))))" "\<And>e. keeps keeps_worker_paused (h e)"
  shows "paused_worker (self (wk (snd (catching m h s))))"
  using assms by (auto simp: catching_def keeps_def keeps_worker_paused_def split: prod.splits sum.splits)

lemma m_pauses_then:
  assumes "paused_worker (self (wk (snd (m s))))" "\<And>x. keeps keeps_worker_paused (k x)"
  shows "paused_worker (self (wk (snd (then_do m k s))))"
  using assms by (auto simp: then_do_apply keeps_def keeps_worker_paused_def split: prod.splits sum.splits)

lemma safety_attention_keeps: "keeps keeps_worker_paused (safety_attention c e)"
proof -
  have "keeps keeps_worker_paused (in_worker (runSerial (markSafetyAttention message)))" for message
    using runSerial_pauses(1) [OF markSafetyAttention_pauses]
    by (simp add: keeps_def keeps_worker_paused_def in_worker_paused)
  then show ?thesis
    unfolding safety_attention_def m_ops_def
    by (intro m_pausing.kept_do_all) (auto intro!: paused_m_wait paused_events m_pausing.kept_pure)
qed

lemma force_disconnect_pauses: "paused_worker (self (wk (snd (force_disconnect c e always m))))"
  unfolding force_disconnect_def asks_always do_all.simps
proof (rule m_pauses_catching [OF m_pauses_then])
  show "paused_worker (self (wk (snd (in_worker (runSerial (forceDisconnectForSafety message always)) m))))" for message
    unfolding in_worker_paused by (rule runSerial_pauses(1) [OF forceDisconnect_pauses])
qed (intro m_pausing.kept_parts paused_events safety_attention_keeps)+

text \<open>
  C24: However a pause for safety goes, whichever of its database writes and Steam calls fail and
  whatever happens while it waits, the worker of the account is paused by hand and not meant to run
  afterwards (or it is shutting down): nothing is played and nothing is started again.
\<close>

theorem safety_pause_always_pauses:
  assumes "current m \<noteq> None"
  shows "paused_worker (self (wk (snd (pauseForSafety c always m))))"
proof -
  have pause: "snd (pauseForSafety c always m) =
      snd (catching (m_pauseNow c always) (\<lambda>e. force_disconnect c e always) m)"
    using assms by (auto simp: pauseForSafety_def do_all.simps branch_def snd_then_pure action_simps
        then_do_apply [of "branch _ _ _"])
  show ?thesis
  proof (cases "m_pauseNow c always m")
    case (Pair result m1)
    show ?thesis
    proof (cases result)
      case (Inl e)
      then show ?thesis
        unfolding pause using force_disconnect_pauses [of c e m1] by (simp add: catching_def Pair)
    next
      case (Inr u)
      then show ?thesis
        unfolding pause using m_pauseNow_pauses [of c] Pair by (simp add: catching_def resolves_with_def)
    qed
  qed
qed

section \<open>The end of a timed pause\<close>

definition stays_halted :: "manager \<Rightarrow> manager \<Rightarrow> bool" where
  "stays_halted m m' \<longleftrightarrow> stays_off (wk m) (wk m')"

interpretation halted: kept_relation stays_halted
  by unfold_locales (auto simp: stays_halted_def intro: off.refl off.trans)

lemma halted_same: "self (wk m') = self (wk m) \<Longrightarrow> calls (wk m') = calls (wk m) \<Longrightarrow> stays_halted m m'"
  by (simp add: stays_halted_def off.quiet quiet_simple)

lemma halted_disturb: "stays_halted m (disturb d m)"
proof (cases d)
  case (Manager_shutdown for_good)
  then show ?thesis
    using off.kept_at [OF off.kept_beginShutdown, of "wk m"]
    by (auto simp: stays_halted_def manager_beginShutdown_def Let_def off.refl)
next
  case (Farming_halted reason)
  have "stays_off (wk m) ((wk m)\<lparr>self := clearFarmingSelection False (self (wk m))\<rparr>)"
    by (rule off.quiet) (simp_all add: quiet_simple)
  with Farming_halted show ?thesis
    by (simp add: stays_halted_def haltFarming_def Let_def set_self_def off.refl)
next
  case (In_worker i)
  then show ?thesis by (simp add: stays_halted_def off.kept_interrupt off.refl)
qed

lemma halted_m_pass: "stays_halted m (m_pass x m)"
proof -
  have "stays_halted m (foldl (\<lambda>m d. disturb d m) m ds)" for m ds
    by (induction ds arbitrary: m) (auto intro: halted.refl halted.trans [OF halted_disturb])
  then show ?thesis
    unfolding m_pass_def by (rule halted.trans [OF halted_same, rotated 2]) simp_all
qed

lemma halted_m_wait:
  assumes "\<And>m. self (wk (effect m)) = self (wk m)" "\<And>m. calls (wk (effect m)) = calls (wk m)"
  shows "keeps stays_halted (m_wait effect)"
proof -
  have drop: "stays_halted m (m\<lparr>m_moments := xs\<rparr>)" for m xs by (rule halted_same) simp_all
  have eff: "stays_halted m (effect m)" for m by (rule halted_same) (simp_all add: assms)
  have "stays_halted m (snd (m_wait effect m))" for m
    using eff halted.trans [OF drop halted_m_pass] halted.trans [OF drop halted.trans [OF eff halted_m_pass]]
    by (simp add: m_wait_def Let_def split: list.split option.split)
  then show ?thesis by (simp add: keeps_def)
qed

lemma halted_ops: "keeps stays_halted (m_ops f)"
  unfolding m_ops_def by (rule halted_m_wait) simp_all

lemma halted_schedule: "keeps stays_halted (scheduleSafetyResume t)"
  unfolding scheduleSafetyResume_def by (rule halted.kept_update) (rule halted_same; simp)

lemma then_do_assoc: "then_do (then_do m k) l = then_do m (\<lambda>x. then_do (k x) l)"
  by (auto simp: fun_eq_iff then_do_apply split: prod.split sum.split)

definition after_wait :: "manager \<Rightarrow> manager" where
  "after_wait m = snd (m_wait (\<lambda>m. m) m)"

lemma halted_after_wait: "stays_halted m (after_wait m)"
  unfolding after_wait_def by (rule halted.kept_at [OF halted_m_wait]) simp_all

lemma halted_wait_then:
  assumes "stays_halted (after_wait m) (snd (k (after_wait m)))"
  shows "stays_halted m (snd (then_do (m_wait (\<lambda>m. m)) (\<lambda>_. k) m))"
  using halted.trans [OF halted_after_wait assms] halted_after_wait [of m]
  by (auto simp: then_do_apply after_wait_def split: prod.splits sum.splits)

definition may_end_pause :: "manager \<Rightarrow> bool" where
  "may_end_pause m \<longleftrightarrow>
     (let m1 = after_wait m; m2 = after_wait m1; m3 = after_wait m2; m4 = after_wait m3
      in held_for Hold_pause_until m1 \<and> still_held_until m1 = None \<and>
         (case account_of (accountKey m2) (tables (wk m2)) of
            None \<Rightarrow> False
          | Some r \<Rightarrow> desiredState r = Desire_paused) \<and>
         may_resume_held m4)"

lemma resume_held_halted:
  assumes "\<not> ((case account_of (accountKey (after_wait m)) (tables (wk (after_wait m))) of
      None \<Rightarrow> False | Some r \<Rightarrow> desiredState r = Desire_paused) \<and> may_resume_held (after_wait (after_wait (after_wait m))))"
  shows "stays_halted m (snd (resume_held m))"
proof -
  let ?read = "looking (\<lambda>m. case account_of (accountKey m) (tables (wk m)) of
      None \<Rightarrow> reject ''Steam account was not found.'' | Some r \<Rightarrow> pure r) :: account_row mio"
  let ?k = "\<lambda>acc. if desiredState acc \<noteq> Desire_paused then m_ops clearSafetyHold
     else then_do (m_wait (\<lambda>m. m)) (\<lambda>_. then_do (m_wait (\<lambda>m. m)) (\<lambda>_.
       branch (\<lambda>m. \<not> may_resume_held m) (m_ops clearSafetyHold) end_pause))"
  have "stays_halted (after_wait m) (snd (then_do ?read ?k (after_wait m)))"
  proof (cases "account_of (accountKey (after_wait m)) (tables (wk (after_wait m)))")
    case None
    then show ?thesis by (simp add: then_do_apply looking_def reject_def halted.refl)
  next
    case (Some r)
    have "stays_halted (after_wait m) (snd (?k r (after_wait m)))"
    proof (cases "desiredState r = Desire_paused")
      case False
      then show ?thesis by (simp add: halted.kept_at [OF halted_ops])
    next
      case True
      with assms Some have "\<not> may_resume_held (after_wait (after_wait (after_wait m)))" by simp
      then have "stays_halted (after_wait m) (snd (then_do (m_wait (\<lambda>m. m)) (\<lambda>_. then_do (m_wait (\<lambda>m. m))
          (\<lambda>_. branch (\<lambda>m. \<not> may_resume_held m) (m_ops clearSafetyHold) end_pause)) (after_wait m)))"
        by (intro halted_wait_then) (simp add: branch_def halted.kept_at [OF halted_ops])
      with True show ?thesis by simp
    qed
    then show ?thesis by (simp add: then_do_apply [of ?read] looking_def Some pure_def)
  qed
  then have "stays_halted m (snd (then_do (m_wait (\<lambda>m. m)) (\<lambda>_. then_do ?read ?k) m))"
    by (rule halted_wait_then)
  moreover have "then_do (m_wait (\<lambda>m. m)) (\<lambda>_. then_do ?read ?k) = resume_held"
    by (simp add: resume_held_def getAccountOrThrow_def then_do_assoc)
  ultimately show ?thesis by simp
qed

text \<open>
  C25: When the timer of a pause fires, the account starts to run again or is logged in only if its
  hold still is a timed pause whose time has come, the account still is paused, and the owner of the
  hold lets it resume; each condition is the one read at that point, whatever happens in between.
\<close>

theorem timed_pause_ends_only_when_due:
  assumes "\<not> wants_running (self (wk m))"
    and "wants_running (self (wk (snd (run_job Run_safety_resume m)))) \<or>
      logins (wk (snd (run_job Run_safety_resume m))) \<noteq> logins (wk m)"
  shows "may_end_pause m"
proof (rule ccontr)
  assume no: "\<not> may_end_pause m"
  let ?k = "branch (\<lambda>m. \<not> held_for Hold_pause_until m) (pure ())
       (looking (\<lambda>m. case still_held_until m of
          Some t \<Rightarrow> scheduleSafetyResume t
        | None \<Rightarrow> resume_held))"
  have "stays_halted (after_wait m) (snd (?k (after_wait m)))"
    using no resume_held_halted [of "after_wait m"] halted.kept_at [OF halted_schedule]
    by (auto simp: branch_def looking_def pure_def halted.refl may_end_pause_def Let_def split: option.split)
  then have "stays_halted m (snd (safety_resume_job m))"
    unfolding safety_resume_job_def by (rule halted_wait_then)
  with assms show False by (auto simp: stays_halted_def stays_off_def)
qed

section \<open>Examples\<close>

definition demo_manager :: "account_row \<Rightarrow> ops_db \<Rightarrow> manager_moment list \<Rightarrow> manager" where
  "demo_manager acc db ms =
     \<lparr>accountKey = row_id acc, wk = (worker_world acc [])\<lparr>ops := db\<rparr>, current = Some 0, made = 1, listening = True,
      safetyResume = None, farmingCleanup = False, m_quiescing = False, terminalShutdown = False,
      remembered = None, jobs = [], m_moments = ms, redactText = (\<lambda>t. t), hold_owner_now = Unscheduled,
      may_resume_held = True, events = [], lastRecordedStatus = None, import_completed = False, halts = [],
      farming_stopped = False, batch_stops = 0, schedule_clears = 0, broadcasts = [], tracked = []\<rparr>"

definition failing_moment :: manager_moment where
  "failing_moment = \<lparr>mm_fault = Some ''locked'', mm_elapsed = 1, mm_meanwhile = []\<rparr>"

theorem safety_pause_always_pauses_witness:
  "paused_worker (self (wk (snd (pauseForSafety no_context always
     (demo_manager demo_row empty_ops [failing_moment])))))"
  by (rule safety_pause_always_pauses) (simp add: demo_manager_def)

definition paused_row :: account_row where
  "paused_row = demo_row\<lparr>desiredState := Desire_paused\<rparr>"

theorem timed_pause_ends_only_when_due_witness:
  "may_end_pause (demo_manager paused_row (setSafetyHold ''a'' Hold_pause_until (Some 3) Unscheduled 1 empty_ops) [])"
proof -
  let ?m = "demo_manager paused_row (setSafetyHold ''a'' Hold_pause_until (Some 3) Unscheduled 1 empty_ops) []"
  have off: "\<not> wants_running (self (wk ?m))" by code_simp
  have "wants_running (self (wk (snd (run_job Run_safety_resume ?m))))" by code_simp
  then have "wants_running (self (wk (snd (run_job Run_safety_resume ?m)))) \<or>
      logins (wk (snd (run_job Run_safety_resume ?m))) \<noteq> logins (wk ?m)" by (rule disjI1)
  with off show ?thesis by (rule timed_pause_ends_only_when_due)
qed

end
