(* ===== verification/AdminAuth.thy ===== *)
theory AdminAuth
  imports Accounts
begin

text \<open>
  The administrator's password, sessions and setup token: \<open>apps/server/src/auth/service.ts\<close> and
  \<open>setup-token.ts\<close>.

  Password hashing (argon2) and the hash of session tokens are parameters; random values are
  arguments. An operation that waits for the hashing is cut there: what is left of it is a \<open>task\<close>, and
  other requests run before the task goes on.
\<close>

section \<open>Data\<close>

record admin_user =
  user_id :: string
  passwordHash :: string
  user_createdAt :: millis
  user_updatedAt :: millis

record admin_session =
  session_id :: string
  tokenHash :: string
  csrfToken :: string
  expiresAt :: millis
  session_createdAt :: millis
  lastSeenAt :: millis

text \<open>The library functions the code calls.\<close>

record hashing =
  password_hash :: "string \<Rightarrow> string \<Rightarrow> string"
  password_verify :: "string \<Rightarrow> string \<Rightarrow> bool"
  sha256 :: "string \<Rightarrow> string"

record fresh_values =
  fr_id :: string
  fr_token :: string
  fr_csrf :: string
  fr_salt :: string

datatype auth_error =
  Setup_complete | Setup_token_invalid | Setup_required | Login_invalid | Current_password_invalid
| Current_session_protected

datatype task =
  Setup_checked bool string string
| Setup_hashed string millis
| Login_found "admin_user option" string
| Login_verified bool
| Change_found "admin_user option" string string string
| Change_verified bool admin_user string string
| Change_hashed admin_user string string
| Change_written string
| Change_selected nat string

record auth_state =
  users :: "admin_user list"
  sessions :: "admin_session list"
  activeToken :: "string option"
  token_file :: "string option"
  auth_clock :: millis
  tasks :: "task list"

definition SESSION_DAYS :: int where
  "SESSION_DAYS = 7"

definition LAST_SEEN_WRITE_INTERVAL_MS :: millis where
  "LAST_SEEN_WRITE_INTERVAL_MS = 5 * one_minute"

section \<open>The setup token\<close>

text \<open>A configured token, or one kept in a file that is made once and read back after a restart.\<close>

definition MIN_SETUP_TOKEN_LENGTH :: nat where
  "MIN_SETUP_TOKEN_LENGTH = 8"

definition readSetupTokenFile :: "auth_state \<Rightarrow> string + string option" where
  "readSetupTokenFile s =
     (case token_file s of
        None \<Rightarrow> Inr None
      | Some text \<Rightarrow>
          if length (js_trim text) < MIN_SETUP_TOKEN_LENGTH then Inl ''Setup token is invalid. Remove it to generate a new token.''
          else Inr (Some (js_trim text)))"

definition removeSetupTokenFile :: "auth_state \<Rightarrow> auth_state" where
  "removeSetupTokenFile s = s\<lparr>token_file := None\<rparr>"

definition initializeSetupToken ::
    "bool \<Rightarrow> string option \<Rightarrow> string \<Rightarrow> auth_state \<Rightarrow> string + auth_state" where
  "initializeSetupToken complete_already configured generated s =
     (if complete_already then Inr (removeSetupTokenFile (s\<lparr>activeToken := None\<rparr>))
      else case configured of
        Some t \<Rightarrow> Inr (s\<lparr>activeToken := Some t\<rparr>)
      | None \<Rightarrow>
          (if token_file s = None
           then Inr (s\<lparr>token_file := Some (generated @ [CHR 0x0A]), activeToken := Some generated\<rparr>)
           else case readSetupTokenFile s of
             Inl e \<Rightarrow> Inl e
           | Inr None \<Rightarrow> Inl ''Setup token file disappeared before it could be read.''
           | Inr (Some t) \<Rightarrow> Inr (s\<lparr>activeToken := Some t\<rparr>)))"

definition assertSetupToken :: "auth_state \<Rightarrow> string \<Rightarrow> bool" where
  "assertSetupToken s candidate \<longleftrightarrow> (case activeToken s of None \<Rightarrow> False | Some t \<Rightarrow> t \<noteq> [] \<and> t = candidate)"

definition completeSetupToken :: "auth_state \<Rightarrow> auth_state" where
  "completeSetupToken s = removeSetupTokenFile (s\<lparr>activeToken := None\<rparr>)"

definition isSetupTokenRequired :: "auth_state \<Rightarrow> bool" where
  "isSetupTokenRequired s \<longleftrightarrow> activeToken s \<noteq> None"

section \<open>Sessions\<close>

definition isSetupComplete :: "auth_state \<Rightarrow> bool" where
  "isSetupComplete s \<longleftrightarrow> users s \<noteq> []"

definition first_user :: "auth_state \<Rightarrow> admin_user option" where
  "first_user s = (case users s of [] \<Rightarrow> None | u # _ \<Rightarrow> Some u)"

definition cleanupExpiredSessions :: "auth_state \<Rightarrow> nat \<times> auth_state" where
  "cleanupExpiredSessions s =
     (length (filter (\<lambda>x. expiresAt x \<le> auth_clock s) (sessions s)),
      s\<lparr>sessions := filter (\<lambda>x. \<not> expiresAt x \<le> auth_clock s) (sessions s)\<rparr>)"

definition touch :: "millis \<Rightarrow> string \<Rightarrow> admin_session list \<Rightarrow> admin_session list" where
  "touch now i = map (\<lambda>x. if session_id x = i then x\<lparr>lastSeenAt := now\<rparr> else x)"

definition validateSession :: "hashing \<Rightarrow> string option \<Rightarrow> auth_state \<Rightarrow> admin_session option \<times> auth_state" where
  "validateSession h token s =
     (case token of
        None \<Rightarrow> (None, s)
      | Some t \<Rightarrow>
          if t = [] then (None, s)
          else let s = snd (cleanupExpiredSessions s) in
            (case List.find (\<lambda>x. tokenHash x = sha256 h t) (sessions s) of
               None \<Rightarrow> (None, s)
             | Some x \<Rightarrow>
                 (Some x,
                  if auth_clock s - lastSeenAt x \<ge> LAST_SEEN_WRITE_INTERVAL_MS
                  then s\<lparr>sessions := touch (auth_clock s) (session_id x) (sessions s)\<rparr> else s)))"

definition deleteSession :: "hashing \<Rightarrow> string option \<Rightarrow> auth_state \<Rightarrow> auth_state" where
  "deleteSession h token s =
     (case token of
        None \<Rightarrow> s
      | Some t \<Rightarrow>
          if t = [] then s else s\<lparr>sessions := filter (\<lambda>x. tokenHash x \<noteq> sha256 h t) (sessions s)\<rparr>)"

definition listAdminSessions :: "string \<Rightarrow> auth_state \<Rightarrow> (admin_session \<times> bool) list" where
  "listAdminSessions current s =
     map (\<lambda>x. (x, session_id x = current)) (rev (sort_key lastSeenAt (rev (sessions s))))"

definition deleteAdminSessionById :: "string \<Rightarrow> string \<Rightarrow> auth_state \<Rightarrow> auth_error + bool \<times> auth_state" where
  "deleteAdminSessionById i current s =
     (if i = current then Inl Current_session_protected
      else if \<not> list_ex (\<lambda>x. session_id x = i) (sessions s) then Inr (False, s)
      else Inr (True, s\<lparr>sessions := filter (\<lambda>x. session_id x \<noteq> i) (sessions s)\<rparr>))"

definition delete_others :: "string \<Rightarrow> auth_state \<Rightarrow> auth_state" where
  "delete_others current s = s\<lparr>sessions := filter (\<lambda>x. session_id x = current) (sessions s)\<rparr>"

definition other_sessions :: "string \<Rightarrow> auth_state \<Rightarrow> nat" where
  "other_sessions current s = length (filter (\<lambda>x. session_id x \<noteq> current) (sessions s))"

definition deleteOtherAdminSessions :: "string \<Rightarrow> auth_state \<Rightarrow> nat \<times> auth_state" where
  "deleteOtherAdminSessions current s =
     (other_sessions current s, if other_sessions current s = 0 then s else delete_others current s)"

section \<open>Tasks\<close>

text \<open>The transaction, with its unique index on the single administrator.\<close>

definition createAdmin :: "string \<Rightarrow> string \<Rightarrow> millis \<Rightarrow> auth_state \<Rightarrow> auth_error + auth_state" where
  "createAdmin i hashed now s =
     (if users s \<noteq> [] then Inl Setup_complete
      else Inr (s\<lparr>users := [\<lparr>user_id = i, passwordHash = hashed, user_createdAt = now, user_updatedAt = now\<rparr>]\<rparr>))"

definition new_admin_session :: "hashing \<Rightarrow> fresh_values \<Rightarrow> millis \<Rightarrow> admin_session" where
  "new_admin_session h f now =
     \<lparr>session_id = fr_id f, tokenHash = sha256 h (fr_token f), csrfToken = fr_csrf f,
      expiresAt = now + SESSION_DAYS * 24 * 60 * 60 * 1000, session_createdAt = now, lastSeenAt = now\<rparr>"

definition write_password :: "admin_user \<Rightarrow> string \<Rightarrow> auth_state \<Rightarrow> auth_state" where
  "write_password u hashed s =
     s\<lparr>users := map (\<lambda>v. if user_id v = user_id u
       then v\<lparr>passwordHash := hashed, user_updatedAt := auth_clock s\<rparr> else v) (users s)\<rparr>"

text \<open>
  What is left of a task when its hashing or query returns, until it waits again: the error it ends
  with, or the task that is left.
\<close>

type_synonym segment_result = "(auth_error + task option) \<times> auth_state"

definition setup_checked :: "hashing \<Rightarrow> fresh_values \<Rightarrow> bool \<Rightarrow> string \<Rightarrow> string \<Rightarrow> auth_state \<Rightarrow> segment_result" where
  "setup_checked h f complete password token s =
     (if complete then (Inl Setup_complete, s)
      else if \<not> assertSetupToken s token then (Inl Setup_token_invalid, s)
      else (Inr (Some (Setup_hashed (password_hash h (fr_salt f) password) (auth_clock s))), s))"

definition setup_hashed :: "fresh_values \<Rightarrow> string \<Rightarrow> millis \<Rightarrow> auth_state \<Rightarrow> segment_result" where
  "setup_hashed f hashed now s =
     (case createAdmin (fr_id f) hashed now s of
        Inl e \<Rightarrow> (Inl e, s)
      | Inr s' \<Rightarrow> (Inr None, completeSetupToken s'))"

definition login_found :: "hashing \<Rightarrow> admin_user option \<Rightarrow> string \<Rightarrow> auth_state \<Rightarrow> segment_result" where
  "login_found h user password s =
     (case user of
        None \<Rightarrow> (Inl Setup_required, s)
      | Some u \<Rightarrow> (Inr (Some (Login_verified (password_verify h (passwordHash u) password))), s))"

definition login_verified :: "hashing \<Rightarrow> fresh_values \<Rightarrow> bool \<Rightarrow> auth_state \<Rightarrow> segment_result" where
  "login_verified h f valid s =
     (if \<not> valid then (Inl Login_invalid, s)
      else (Inr None, s\<lparr>sessions := sessions s @ [new_admin_session h f (auth_clock s)]\<rparr>))"

definition change_found ::
    "hashing \<Rightarrow> admin_user option \<Rightarrow> string \<Rightarrow> string \<Rightarrow> string \<Rightarrow> auth_state \<Rightarrow> segment_result" where
  "change_found h user currentPassword newPassword current s =
     (case user of
        None \<Rightarrow> (Inl Setup_required, s)
      | Some u \<Rightarrow>
          (Inr (Some (Change_verified (password_verify h (passwordHash u) currentPassword) u newPassword current)), s))"

definition change_verified ::
    "hashing \<Rightarrow> fresh_values \<Rightarrow> bool \<Rightarrow> admin_user \<Rightarrow> string \<Rightarrow> string \<Rightarrow> auth_state \<Rightarrow> segment_result" where
  "change_verified h f valid u newPassword current s =
     (if \<not> valid then (Inl Current_password_invalid, s)
      else (Inr (Some (Change_hashed u (password_hash h (fr_salt f) newPassword) current)), s))"

fun segment :: "hashing \<Rightarrow> fresh_values \<Rightarrow> task \<Rightarrow> auth_state \<Rightarrow> segment_result" where
  "segment h f (Setup_checked complete password token) s = setup_checked h f complete password token s"
| "segment h f (Setup_hashed hashed now) s = setup_hashed f hashed now s"
| "segment h f (Login_found user password) s = login_found h user password s"
| "segment h f (Login_verified valid) s = login_verified h f valid s"
| "segment h f (Change_found user old new current) s = change_found h user old new current s"
| "segment h f (Change_verified valid u new current) s = change_verified h f valid u new current s"
| "segment h f (Change_hashed u hashed current) s = (Inr (Some (Change_written current)), write_password u hashed s)"
| "segment h f (Change_written current) s = (Inr (Some (Change_selected (other_sessions current s) current)), s)"
| "segment h f (Change_selected n current) s = (Inr None, if n = 0 then s else delete_others current s)"

lemmas segment_defs = setup_checked_def setup_hashed_def login_found_def login_verified_def change_found_def
  change_verified_def

section \<open>Steps\<close>

datatype auth_request =
  Setup_admin string string
| Create_session string
| Change_password string string string
| Continue nat fresh_values
| Validate "string option"
| Log_out "string option"
| Revoke string string
| Revoke_others string
| Restart "string option" string
| Time_passes millis

definition resume_task :: "hashing \<Rightarrow> nat \<Rightarrow> fresh_values \<Rightarrow> auth_state \<Rightarrow> auth_state" where
  "resume_task h i f s =
     (if i < length (tasks s) then
        (let t = tasks s ! i; rest = take i (tasks s) @ drop (Suc i) (tasks s)
         in case segment h f t (s\<lparr>tasks := rest\<rparr>) of
              (Inl e, s') \<Rightarrow> s'
            | (Inr None, s') \<Rightarrow> s'
            | (Inr (Some t'), s') \<Rightarrow> s'\<lparr>tasks := tasks s' @ [t']\<rparr>)
      else s)"

definition start_task :: "task \<Rightarrow> auth_state \<Rightarrow> auth_state" where
  "start_task t s = s\<lparr>tasks := tasks s @ [t]\<rparr>"

fun auth_step :: "hashing \<Rightarrow> auth_request \<Rightarrow> auth_state \<Rightarrow> auth_state" where
  "auth_step h (Setup_admin password token) s = start_task (Setup_checked (isSetupComplete s) password token) s"
| "auth_step h (Create_session password) s = start_task (Login_found (first_user s) password) s"
| "auth_step h (Change_password currentPassword newPassword current) s =
     start_task (Change_found (first_user s) currentPassword newPassword current) s"
| "auth_step h (Continue i f) s = resume_task h i f s"
| "auth_step h (Validate token) s = snd (validateSession h token s)"
| "auth_step h (Log_out token) s = deleteSession h token s"
| "auth_step h (Revoke i current) s =
     (case deleteAdminSessionById i current s of Inl e \<Rightarrow> s | Inr (_, s') \<Rightarrow> s')"
| "auth_step h (Revoke_others current) s = snd (deleteOtherAdminSessions current s)"
| "auth_step h (Restart configured generated) s =
     (case initializeSetupToken (isSetupComplete s) configured generated (s\<lparr>tasks := []\<rparr>) of
        Inl e \<Rightarrow> s\<lparr>tasks := [], activeToken := None\<rparr>
      | Inr s' \<Rightarrow> s')"
| "auth_step h (Time_passes d) s = s\<lparr>auth_clock := auth_clock s + max 0 d\<rparr>"

definition auth_steps :: "hashing \<Rightarrow> auth_request list \<Rightarrow> auth_state \<Rightarrow> auth_state" where
  "auth_steps h = fold (auth_step h)"
section \<open>One administrator\<close>

text \<open>The setup token is gone once there is an administrator; a session lasts seven days.\<close>

definition auth_ok :: "auth_state \<Rightarrow> bool" where
  "auth_ok s \<longleftrightarrow> length (users s) \<le> 1 \<and> (users s \<noteq> [] \<longrightarrow> activeToken s = None) \<and>
     list_all (\<lambda>x. expiresAt x = session_createdAt x + SESSION_DAYS * 24 * 60 * 60 * 1000) (sessions s)"

definition same_admin :: "auth_state \<Rightarrow> auth_state \<Rightarrow> bool" where
  "same_admin s s' \<longleftrightarrow> (users s \<noteq> [] \<longrightarrow> map user_id (users s') = map user_id (users s))"

lemma touch_ok:
  "list_all (\<lambda>x. expiresAt x = session_createdAt x + d) xs \<Longrightarrow>
   list_all (\<lambda>x. expiresAt x = session_createdAt x + d) (touch now i xs)"
  by (induction xs) (auto simp: touch_def)

lemma sessions_filter:
  "list_all P xs \<Longrightarrow> list_all P (filter Q xs)"
  by (auto simp: list_all_iff)

lemmas auth_changes = auth_ok_def same_admin_def cleanupExpiredSessions_def delete_others_def deleteSession_def
  validateSession_def deleteAdminSessionById_def deleteOtherAdminSessions_def sessions_filter touch_ok

lemma segment_ok:
  assumes "auth_ok s" "segment h f t s = (r, s')"
  shows "auth_ok s' \<and> same_admin s s'"
  using assms
  by (cases t)
    (auto simp: segment_defs auth_ok_def same_admin_def createAdmin_def completeSetupToken_def removeSetupTokenFile_def
      new_admin_session_def Let_def write_password_def delete_others_def sessions_filter
      split: if_splits option.splits)

lemma tasks_irrelevant: "auth_ok (s\<lparr>tasks := ts\<rparr>) = auth_ok s" "same_admin (s\<lparr>tasks := ts\<rparr>) s' = same_admin s s'"
  "same_admin s (s'\<lparr>tasks := ts\<rparr>) = same_admin s s'"
  by (simp_all add: auth_ok_def same_admin_def)

lemma resume_ok:
  assumes "auth_ok s"
  shows "auth_ok (resume_task h i f s) \<and> same_admin s (resume_task h i f s)"
proof (cases "i < length (tasks s)")
  case False
  then show ?thesis using assms by (simp add: resume_task_def same_admin_def)
next
  case True
  let ?s = "s\<lparr>tasks := take i (tasks s) @ drop (Suc i) (tasks s)\<rparr>"
  obtain r s' where seg: "segment h f (tasks s ! i) ?s = (r, s')" by (cases "segment h f (tasks s ! i) ?s")
  then have "auth_ok s' \<and> same_admin s s'"
    using segment_ok [of ?s h f "tasks s ! i"] assms by (simp add: tasks_irrelevant)
  then show ?thesis
    using True seg by (simp add: resume_task_def Let_def tasks_irrelevant split: sum.split option.split)
qed

lemma restart_ok:
  assumes "auth_ok s"
  shows "auth_ok (auth_step h (Restart configured generated) s) \<and>
    same_admin s (auth_step h (Restart configured generated) s)"
  using assms
  by (auto simp: initializeSetupToken_def removeSetupTokenFile_def isSetupComplete_def auth_ok_def same_admin_def
      split: sum.split option.split)

lemma auth_step_ok:
  assumes "auth_ok s"
  shows "auth_ok (auth_step h st s) \<and> same_admin s (auth_step h st s)"
proof (cases st)
  case (Continue i f)
  then show ?thesis using resume_ok [OF assms] by simp
next
  case (Restart c g)
  then show ?thesis using restart_ok [OF assms] by simp
next
  case (Validate t)
  then show ?thesis
    using assms by (auto simp: auth_changes Let_def split: option.split)
qed (use assms in \<open>auto simp: auth_changes start_task_def Let_def split: option.split\<close>)

text \<open>
  C26: There is never more than one administrator, and once there is one it stays the same account:
  no setup token is accepted any more, whatever setups were under way, restarts included; sessions
  last seven days from their creation.
\<close>

theorem setup_happens_once:
  assumes "auth_ok s"
  shows "auth_ok (auth_steps h sts s) \<and> same_admin s (auth_steps h sts s) \<and>
    (users (auth_steps h sts s) \<noteq> [] \<longrightarrow> \<not> assertSetupToken (auth_steps h sts s) candidate)"
proof -
  have "auth_ok (auth_steps h sts s) \<and> same_admin s (auth_steps h sts s)"
    using assms
  proof (induction sts arbitrary: s)
    case Nil
    then show ?case by (simp add: auth_steps_def same_admin_def)
  next
    case (Cons st sts)
    from Cons.IH [of "auth_step h st s"] auth_step_ok [OF Cons.prems, of h st]
    show ?case by (auto simp: auth_steps_def same_admin_def)
  qed
  then show ?thesis by (auto simp: auth_ok_def assertSetupToken_def)
qed

definition plain_hashing :: hashing where
  "plain_hashing = \<lparr>password_hash = \<lambda>salt p. salt @ p, password_verify = \<lambda>hashed p. hashed = ''salt'' @ p, sha256 = id\<rparr>"

definition values_of :: "string \<Rightarrow> fresh_values" where
  "values_of i = \<lparr>fr_id = i, fr_token = ''token-'' @ i, fr_csrf = ''csrf-'' @ i, fr_salt = ''salt''\<rparr>"

definition before_setup :: auth_state where
  "before_setup =
     \<lparr>users = [], sessions = [], activeToken = Some ''setup-token'', token_file = Some ''setup-token'', auth_clock = 0,
      tasks = []\<rparr>"

text \<open>Two setups pass the checks before either has hashed its password; then the process restarts.\<close>

definition two_setups :: "auth_request list" where
  "two_setups =
     [Setup_admin ''first'' ''setup-token'', Setup_admin ''second'' ''setup-token'',
      Continue 0 (values_of ''a''), Continue 0 (values_of ''b''), Continue 0 (values_of ''a''),
      Continue 0 (values_of ''b''), Restart None ''other-token'']"

lemma setup_happens_once_witness:
  "auth_ok (auth_steps plain_hashing two_setups before_setup) \<and>
   map passwordHash (users (auth_steps plain_hashing two_setups before_setup)) = [''saltfirst''] \<and>
   \<not> assertSetupToken (auth_steps plain_hashing two_setups before_setup) ''setup-token''"
proof -
  have "users (auth_steps plain_hashing two_setups before_setup) \<noteq> []"
    "map passwordHash (users (auth_steps plain_hashing two_setups before_setup)) = [''saltfirst'']" by code_simp+
  then show ?thesis
    using setup_happens_once [of before_setup plain_hashing two_setups "''setup-token''"]
    by (simp add: auth_ok_def before_setup_def)
qed

section \<open>A login during a password change\<close>

text \<open>
  A login that has checked the old password, the whole change of the password, and the end of the
  login.
\<close>

definition racing_steps :: "string \<Rightarrow> string \<Rightarrow> string \<Rightarrow> fresh_values \<Rightarrow> fresh_values \<Rightarrow> auth_request list" where
  "racing_steps old new current f g =
     [Create_session old, Continue 0 f, Change_password old new current, Continue 1 g, Continue 1 g, Continue 1 g,
      Continue 1 g, Continue 1 g, Continue 0 f]"

lemma fresh_session_validates:
  assumes "sessions s = xs @ [x]" "tokenHash x = sha256 h t" "t \<noteq> []"
    and "\<forall>y\<in>set xs. tokenHash y \<noteq> sha256 h t" "auth_clock s < expiresAt x"
  shows "fst (validateSession h (Some t) s) = Some x"
proof -
  have "List.find (\<lambda>y. tokenHash y = sha256 h t) (filter P xs @ [x]) = Some x" for P
    using assms(2,4) by (induction xs) auto
  then show ?thesis
    using assms by (simp add: validateSession_def cleanupExpiredSessions_def Let_def)
qed

text \<open>
  Changing the password ends every other session, but not a login that is still checking the
  old one: it gets a session that is valid after the change, although the old password no longer is.
\<close>

theorem login_in_progress_outlives_password_change:
  assumes "users s = [u]" "tasks s = []" "password_verify h (passwordHash u) old"
    and "\<not> password_verify h (password_hash h (fr_salt g) new) old"
    and "fr_token f \<noteq> []" "\<forall>x\<in>set (sessions s). tokenHash x \<noteq> sha256 h (fr_token f)"
  shows "fst (validateSession h (Some (fr_token f)) (auth_steps h (racing_steps old new current f g) s)) \<noteq> None \<and>
    (\<forall>v\<in>set (users (auth_steps h (racing_steps old new current f g) s)).
       \<not> password_verify h (passwordHash v) old)"
proof -
  let ?new = "new_admin_session h f (auth_clock s)"
  let ?s = "auth_steps h (racing_steps old new current f g) s"
  have s: "users ?s = [u\<lparr>passwordHash := password_hash h (fr_salt g) new, user_updatedAt := auth_clock s\<rparr>]"
    "auth_clock ?s = auth_clock s"
    "sessions ?s = (if other_sessions current s = 0 then sessions s
       else filter (\<lambda>x. session_id x = current) (sessions s)) @ [?new]"
    using assms(1-3)
    by (simp_all add: auth_steps_def racing_steps_def start_task_def resume_task_def first_user_def write_password_def
        segment_defs delete_others_def other_sessions_def Let_def)
  obtain xs where xs: "sessions ?s = xs @ [?new]" "set xs \<subseteq> set (sessions s)"
    using s(3) by (auto split: if_splits)
  have "fst (validateSession h (Some (fr_token f)) ?s) = Some ?new"
    using assms(5,6) xs s(2)
    by (intro fresh_session_validates [where xs = xs]) (auto simp: new_admin_session_def SESSION_DAYS_def)
  then show ?thesis using assms(4) s(1) by simp
qed

definition set_up :: auth_state where
  "set_up = before_setup\<lparr>users := [\<lparr>user_id = ''a'', passwordHash = ''saltold'', user_createdAt = 0, user_updatedAt = 0\<rparr>],
     activeToken := None, token_file := None\<rparr>"

lemma login_in_progress_outlives_password_change_witness:
  "fst (validateSession plain_hashing (Some ''token-f'')
     (auth_steps plain_hashing (racing_steps ''old'' ''new'' ''c'' (values_of ''f'') (values_of ''g'')) set_up)) \<noteq> None"
  using login_in_progress_outlives_password_change
    [of set_up "\<lparr>user_id = ''a'', passwordHash = ''saltold'', user_createdAt = 0, user_updatedAt = 0\<rparr>"
        plain_hashing "''old''" "values_of ''g''" "''new''" "values_of ''f''" "''c''"]
  by (simp add: set_up_def before_setup_def plain_hashing_def values_of_def)

end
