(* ===== verification/InstanceLease.thy ===== *)
theory InstanceLease
  imports Prelude
begin

text \<open>
  The guard of the data directory: \<open>apps/server/src/instance-lease.ts\<close>. Several processes, each
  with any number of \<open>InstanceLease\<close> objects, share one guard file, an SQLite database whose
  exclusive lock says who runs.

  The locks of the operating system are a parameter (\<open>lock_ops\<close>): POSIX locks belong to a process, so
  a second connection of the same process is not refused, and closing any descriptor of a file drops
  the lock the process has on it. The code is cut where another process may act in between: after
  the checks of the file, and after the database is opened.
\<close>

section \<open>The guard file and its database\<close>

type_synonym inode = nat
type_synonym process = nat

record file_node =
  is_directory :: bool
  is_plain_file :: bool
  nlink :: nat
  file_mode :: nat

record guard_row =
  singleton :: int
  owner_id :: string
  owner_kind :: string
  pid :: int
  acquired_at :: int
  restore_required :: int

record guard_database =
  user_version :: int
  application_id :: int
  schema_objects :: "(string \<times> string \<times> string) list"
  instance_guard :: "guard_row list"
  quick_check_ok :: bool
  journal_mode :: string

definition applicationId :: int where
  "applicationId = 0x53424947"

definition schemaVersion :: int where
  "schemaVersion = 1"

definition guard_schema :: string where
  "guard_schema =
     ''CREATE TABLE instance_guard (
  singleton INTEGER PRIMARY KEY CHECK (singleton = 1),
  owner_id TEXT NOT NULL,
  owner_kind TEXT NOT NULL CHECK (owner_kind IN ('runtime', 'restore')),
  pid INTEGER NOT NULL,
  acquired_at INTEGER NOT NULL,
  restore_required INTEGER NOT NULL CHECK (restore_required IN (0, 1))
)''"

definition blank_database :: guard_database where
  "blank_database =
     \<lparr>user_version = 0, application_id = 0, schema_objects = [], instance_guard = [], quick_check_ok = True,
      journal_mode = ''delete''\<rparr>"

definition private_file :: file_node where
  "private_file = \<lparr>is_directory = False, is_plain_file = True, nlink = 1, file_mode = 384\<rparr>"

text \<open>A regular file (no link to one), with one name, and mode 0600.\<close>

definition private_node :: "file_node \<Rightarrow> bool" where
  "private_node n \<longleftrightarrow> is_plain_file n \<and> nlink n = 1 \<and> file_mode n = 384"

section \<open>Leases\<close>

datatype lease_kind = Runtime | Restore

primrec kind_text :: "lease_kind \<Rightarrow> string" where
  "kind_text Runtime = ''runtime''"
| "kind_text Restore = ''restore''"

datatype lease_state = Lease_idle | Lease_held | Lease_contended

record lease_metadata =
  md_owner :: string
  md_kind :: lease_kind
  md_acquiredAt :: int
  md_heartbeatAt :: int

text \<open>Where \<open>acquire\<close> is: not running, the inode is registered, or the database is open as well.\<close>

datatype acquiring = Resting | Registered | Opened inode

record lease =
  lease_process :: process
  ownerId :: string
  ownerKind :: lease_kind
  lease_database :: "inode option"
  lease_inode :: "inode option"
  metadata :: "lease_metadata option"
  lease_state :: lease_state
  acquiring :: acquiring

record 'os lock_ops =
  lock_begin :: "process \<Rightarrow> inode \<Rightarrow> 'os \<Rightarrow> 'os option"
  lock_close :: "process \<Rightarrow> inode \<Rightarrow> 'os \<Rightarrow> 'os"
  lock_exit :: "process \<Rightarrow> 'os \<Rightarrow> 'os"
  lock_holder :: "'os \<Rightarrow> inode \<Rightarrow> process option"

record 'os machine =
  guard_path :: "inode option"
  nodes :: "inode \<Rightarrow> file_node"
  databases :: "inode \<Rightarrow> guard_database"
  sidecars :: "(string \<times> file_node) list"
  locks :: 'os
  heldInodes :: "process \<Rightarrow> inode list"
  leases :: "nat \<Rightarrow> lease"

definition change_lease :: "nat \<Rightarrow> (lease \<Rightarrow> lease) \<Rightarrow> 'os machine \<Rightarrow> 'os machine" where
  "change_lease l f w = w\<lparr>leases := (leases w)(l := f (leases w l))\<rparr>"

definition holds_inode :: "process \<Rightarrow> inode \<Rightarrow> 'os machine \<Rightarrow> 'os machine" where
  "holds_inode p i w = w\<lparr>heldInodes := (heldInodes w)(p := i # heldInodes w p)\<rparr>"

definition drops_inode :: "process \<Rightarrow> inode option \<Rightarrow> 'os machine \<Rightarrow> 'os machine" where
  "drops_inode p i w =
     (case i of None \<Rightarrow> w
      | Some i \<Rightarrow> w\<lparr>heldInodes := (heldInodes w)(p := filter (\<lambda>j. j \<noteq> i) (heldInodes w p))\<rparr>)"

definition closes :: "'os lock_ops \<Rightarrow> process \<Rightarrow> inode option \<Rightarrow> 'os machine \<Rightarrow> 'os machine" where
  "closes L p i w = (case i of None \<Rightarrow> w | Some i \<Rightarrow> w\<lparr>locks := lock_close L p i (locks w)\<rparr>)"

section \<open>Acquiring\<close>

definition ensureGuardFile :: "inode \<Rightarrow> 'os machine \<Rightarrow> 'os machine" where
  "ensureGuardFile fresh w =
     (if guard_path w \<noteq> None then w
      else w\<lparr>guard_path := Some fresh, nodes := (nodes w)(fresh := private_file),
             databases := (databases w)(fresh := blank_database)\<rparr>)"

definition guardIdentity :: "'os machine \<Rightarrow> inode option" where
  "guardIdentity w =
     (case guard_path w of
        None \<Rightarrow> None
      | Some i \<Rightarrow> if is_directory (nodes w i) \<or> \<not> private_node (nodes w i) then None else Some i)"

definition validateSidecars :: "'os machine \<Rightarrow> bool" where
  "validateSidecars w \<longleftrightarrow>
     list_all (\<lambda>suffix. case map_of (sidecars w) suffix of
         None \<Rightarrow> True
       | Some n \<Rightarrow> suffix = ''-journal'' \<and> private_node n) [''-journal'', ''-wal'', ''-shm'']"

text \<open>The catch block: the connection is closed, the inode is released, the state is contended.\<close>

definition acquire_failed :: "'os lock_ops \<Rightarrow> nat \<Rightarrow> 'os machine \<Rightarrow> 'os machine" where
  "acquire_failed L l w =
     (let x = leases w l
      in change_lease l (\<lambda>x. x\<lparr>lease_inode := None, lease_state := Lease_contended, acquiring := Resting\<rparr>)
          (drops_inode (lease_process x) (lease_inode x)
             (closes L (lease_process x) (case acquiring x of Opened j \<Rightarrow> Some j | _ \<Rightarrow> None) w)))"

definition acquire_start :: "'os lock_ops \<Rightarrow> nat \<Rightarrow> inode \<Rightarrow> 'os machine \<Rightarrow> 'os machine" where
  "acquire_start L l fresh w =
     (if acquiring (leases w l) \<noteq> Resting \<or> metadata (leases w l) \<noteq> None then w
      else let w1 = ensureGuardFile fresh w; p = lease_process (leases w l) in
        (case guardIdentity w1 of
           None \<Rightarrow> acquire_failed L l w1
         | Some i \<Rightarrow>
             if i \<in> set (heldInodes w1 p) \<or> \<not> validateSidecars w1 then acquire_failed L l w1
             else change_lease l (\<lambda>x. x\<lparr>lease_inode := Some i, acquiring := Registered\<rparr>) (holds_inode p i w1)))"

text \<open>The path is opened again, and need not be the file that was checked.\<close>

definition acquire_open :: "'os lock_ops \<Rightarrow> nat \<Rightarrow> bool \<Rightarrow> 'os machine \<Rightarrow> 'os machine" where
  "acquire_open L l fails w =
     (if acquiring (leases w l) \<noteq> Registered then w
      else case guard_path w of
        None \<Rightarrow> acquire_failed L l w
      | Some j \<Rightarrow>
          if fails then acquire_failed L l w
          else change_lease l (\<lambda>x. x\<lparr>acquiring := Opened j\<rparr>) w)"

definition initialized_database :: "guard_database \<Rightarrow> guard_database" where
  "initialized_database d =
     d\<lparr>schema_objects := [(''table'', ''instance_guard'', guard_schema)], application_id := applicationId,
       user_version := schemaVersion\<rparr>"

definition validateSchema :: "guard_database \<Rightarrow> (bool \<times> guard_database) option" where
  "validateSchema d =
     (if user_version d = 0 \<and> application_id d = 0 \<and> schema_objects d = [] then Some (True, initialized_database d)
      else if user_version d \<noteq> schemaVersion \<or> application_id d \<noteq> applicationId \<or>
        schema_objects d \<noteq> [(''table'', ''instance_guard'', guard_schema)] then None
      else if \<not> quick_check_ok d then None
      else Some (False, d))"

definition valid_row :: "guard_row \<Rightarrow> bool" where
  "valid_row r \<longleftrightarrow>
     singleton r = 1 \<and> owner_id r \<noteq> [] \<and> owner_kind r \<in> {''runtime'', ''restore''} \<and> is_safe_int (pid r) \<and> pid r > 0 \<and>
     is_safe_int (acquired_at r) \<and> restore_required r \<in> {0, 1}"

definition previous_ok :: "bool \<Rightarrow> guard_row list \<Rightarrow> bool" where
  "previous_ok initialized previous \<longleftrightarrow>
     length previous = (if initialized then 0 else 1) \<and> list_all valid_row previous"

definition owner_row :: "lease \<Rightarrow> int \<Rightarrow> guard_row" where
  "owner_row x now =
     \<lparr>singleton = 1, owner_id = ownerId x, owner_kind = kind_text (ownerKind x), pid = int (lease_process x),
      acquired_at = now, restore_required = (if ownerKind x = Restore then 1 else 0)\<rparr>"

text \<open>What the transaction leaves in the database, or that it is rolled back.\<close>

definition guard_transaction :: "lease \<Rightarrow> int \<Rightarrow> guard_database \<Rightarrow> guard_database option" where
  "guard_transaction x now d =
     (case validateSchema d of
        None \<Rightarrow> None
      | Some (initialized, d1) \<Rightarrow>
          if \<not> previous_ok initialized (instance_guard d1) then None
          else if list_ex (\<lambda>r. restore_required r = 1) (instance_guard d1) then None
          else Some (d1\<lparr>instance_guard :=
                 owner_row x now # filter (\<lambda>r. singleton r \<noteq> 1) (instance_guard d1)\<rparr>))"

definition held_lease :: "inode \<Rightarrow> int \<Rightarrow> lease \<Rightarrow> lease" where
  "held_lease j now x =
     x\<lparr>lease_database := Some j, lease_state := Lease_held, acquiring := Resting,
       metadata := Some \<lparr>md_owner = ownerId x, md_kind = ownerKind x, md_acquiredAt = now, md_heartbeatAt = now\<rparr>\<rparr>"

text \<open>From \<open>BEGIN EXCLUSIVE\<close>, which does not wait, to \<open>COMMIT\<close>; any statement may fail.\<close>

definition acquire_commit :: "'os lock_ops \<Rightarrow> nat \<Rightarrow> int \<Rightarrow> bool \<Rightarrow> 'os machine \<Rightarrow> 'os machine" where
  "acquire_commit L l now fails w =
     (let x = leases w l in
      case acquiring x of
        Opened j \<Rightarrow>
          (if journal_mode (databases w j) \<noteq> ''delete'' then acquire_failed L l w
           else case lock_begin L (lease_process x) j (locks w) of
             None \<Rightarrow> acquire_failed L l w
           | Some os \<Rightarrow>
               (case guard_transaction x now (databases w j) of
                  None \<Rightarrow> acquire_failed L l (w\<lparr>locks := os\<rparr>)
                | Some d \<Rightarrow>
                    if fails \<or> guardIdentity w \<noteq> lease_inode x then acquire_failed L l (w\<lparr>locks := os\<rparr>)
                    else change_lease l (held_lease j now) (w\<lparr>locks := os, databases := (databases w)(j := d)\<rparr>)))
      | _ \<Rightarrow> w)"

section \<open>Holding\<close>

text \<open>The process ends: its objects are gone and the system closes its files.\<close>

definition fresh_lease :: "lease \<Rightarrow> lease" where
  "fresh_lease x =
     x\<lparr>lease_database := None, lease_inode := None, metadata := None, lease_state := Lease_idle, acquiring := Resting\<rparr>"

definition process_exit :: "'os lock_ops \<Rightarrow> process \<Rightarrow> 'os machine \<Rightarrow> 'os machine" where
  "process_exit L p w =
     w\<lparr>locks := lock_exit L p (locks w), heldInodes := (heldInodes w)(p := []),
       leases := (\<lambda>l. if lease_process (leases w l) = p then fresh_lease (leases w l) else leases w l)\<rparr>"

definition assertIdentity :: "nat \<Rightarrow> 'os machine \<Rightarrow> bool" where
  "assertIdentity l w \<longleftrightarrow> lease_database (leases w l) \<noteq> None \<and> guardIdentity w \<noteq> None \<and> guardIdentity w = lease_inode (leases w l)"

definition failStop :: "'os lock_ops \<Rightarrow> nat \<Rightarrow> 'os machine \<Rightarrow> 'os machine" where
  "failStop L l w = process_exit L (lease_process (leases w l)) w"

definition heartbeat :: "'os lock_ops \<Rightarrow> nat \<Rightarrow> int \<Rightarrow> 'os machine \<Rightarrow> 'os machine" where
  "heartbeat L l now w =
     (if lease_state (leases w l) \<noteq> Lease_held then w
      else if \<not> assertIdentity l w then failStop L l w
      else change_lease l (\<lambda>x. x\<lparr>metadata := map_option (\<lambda>m. m\<lparr>md_heartbeatAt := now\<rparr>) (metadata x)\<rparr>) w)"

text \<open>The number of rows that change, and the database after it.\<close>

definition clear_restore :: "string \<Rightarrow> guard_database \<Rightarrow> nat \<times> guard_database" where
  "clear_restore owner d =
     (length (filter (\<lambda>r. singleton r = 1 \<and> owner_id r = owner) (instance_guard d)),
      d\<lparr>instance_guard := map (\<lambda>r. if singleton r = 1 \<and> owner_id r = owner then r\<lparr>restore_required := 0\<rparr> else r)
          (instance_guard d)\<rparr>)"

definition completeRestore :: "'os lock_ops \<Rightarrow> nat \<Rightarrow> 'os machine \<Rightarrow> bool \<times> 'os machine" where
  "completeRestore L l w =
     (let x = leases w l in
      case lease_database x of
        None \<Rightarrow> (False, w)
      | Some j \<Rightarrow>
          if map_option md_kind (metadata x) \<noteq> Some Restore then (False, w)
          else if \<not> assertIdentity l w then (False, failStop L l w)
          else if fst (clear_restore (ownerId x) (databases w j)) \<noteq> 1 then (False, failStop L l w)
          else (True, w\<lparr>databases := (databases w)(j := snd (clear_restore (ownerId x) (databases w j)))\<rparr>))"

definition release :: "'os lock_ops \<Rightarrow> nat \<Rightarrow> 'os machine \<Rightarrow> 'os machine" where
  "release L l w =
     (let x = leases w l
      in change_lease l fresh_lease
           (drops_inode (lease_process x) (lease_inode x) (closes L (lease_process x) (lease_database x) w)))"

definition status :: "lease \<Rightarrow> lease_state \<times> string option \<times> int option \<times> int option" where
  "status x =
     (lease_state x, map_option md_owner (metadata x), map_option md_acquiredAt (metadata x),
      map_option md_heartbeatAt (metadata x))"

section \<open>Steps\<close>

datatype lease_event =
  Acquire_start nat inode
| Acquire_open nat bool
| Acquire_commit nat int bool
| Heartbeat nat int
| Complete_restore nat
| Release nat
| Process_exit process
| Replace_guard "inode option" file_node guard_database

fun lease_step :: "'os lock_ops \<Rightarrow> lease_event \<Rightarrow> 'os machine \<Rightarrow> 'os machine" where
  "lease_step L (Acquire_start l fresh) w = acquire_start L l fresh w"
| "lease_step L (Acquire_open l fails) w = acquire_open L l fails w"
| "lease_step L (Acquire_commit l now fails) w = acquire_commit L l now fails w"
| "lease_step L (Heartbeat l now) w = (if acquiring (leases w l) = Resting then heartbeat L l now w else w)"
| "lease_step L (Complete_restore l) w = (if acquiring (leases w l) = Resting then snd (completeRestore L l w) else w)"
| "lease_step L (Release l) w = (if acquiring (leases w l) = Resting then release L l w else w)"
| "lease_step L (Process_exit p) w = process_exit L p w"
| "lease_step L (Replace_guard i n d) w =
     (case i of
        None \<Rightarrow> w\<lparr>guard_path := None\<rparr>
      | Some i \<Rightarrow> w\<lparr>guard_path := Some i, nodes := (nodes w)(i := n), databases := (databases w)(i := d)\<rparr>)"

definition lease_steps :: "'os lock_ops \<Rightarrow> lease_event list \<Rightarrow> 'os machine \<Rightarrow> 'os machine" where
  "lease_steps L = fold (lease_step L)"

section \<open>The locks of the operating system\<close>

text \<open>
  What POSIX says of advisory locks: one is granted when no other process has it; closing a
  descriptor drops the lock the process has on that file; the end of a process drops all of its locks.
\<close>

definition posix_locks :: "'os lock_ops \<Rightarrow> bool" where
  "posix_locks L \<longleftrightarrow>
     (\<forall>p i os os'. lock_begin L p i os = Some os' \<longrightarrow>
        lock_holder L os i \<in> {None, Some p} \<and> lock_holder L os' = (lock_holder L os)(i := Some p)) \<and>
     (\<forall>p i os. lock_holder L (lock_close L p i os) =
        (if lock_holder L os i = Some p then (lock_holder L os)(i := None) else lock_holder L os)) \<and>
     (\<forall>p os. lock_holder L (lock_exit L p os) =
        (\<lambda>i. if lock_holder L os i = Some p then None else lock_holder L os i))"

lemma posix_locksD:
  assumes "posix_locks L"
  shows "lock_begin L p i os = Some os' \<Longrightarrow> lock_holder L os i \<in> {None, Some p}"
    and "lock_begin L p i os = Some os' \<Longrightarrow> lock_holder L os' = (lock_holder L os)(i := Some p)"
    and "lock_holder L (lock_close L p i os) =
      (if lock_holder L os i = Some p then (lock_holder L os)(i := None) else lock_holder L os)"
    and "lock_holder L (lock_exit L p os) = (\<lambda>i. if lock_holder L os i = Some p then None else lock_holder L os i)"
  using assms unfolding posix_locks_def by blast+

section \<open>The invariant\<close>

abbreviation engaged :: "lease \<Rightarrow> bool" where
  "engaged x \<equiv> lease_inode x \<noteq> None"

abbreviation holding :: "lease \<Rightarrow> bool" where
  "holding x \<equiv> metadata x \<noteq> None"

definition lease_wf :: "inode option \<Rightarrow> lease \<Rightarrow> bool" where
  "lease_wf g x \<longleftrightarrow>
     (case metadata x of
        Some m \<Rightarrow> acquiring x = Resting \<and> lease_state x = Lease_held \<and> lease_database x = g \<and> lease_inode x = g \<and> g \<noteq> None
      | None \<Rightarrow>
          lease_database x = None \<and> lease_state x \<noteq> Lease_held \<and>
          (case acquiring x of
             Resting \<Rightarrow> lease_inode x = None
           | Registered \<Rightarrow> lease_inode x = g \<and> g \<noteq> None
           | Opened j \<Rightarrow> lease_inode x = g \<and> g = Some j))"

definition machine_ok :: "'os lock_ops \<Rightarrow> 'os machine \<Rightarrow> bool" where
  "machine_ok L w \<longleftrightarrow>
     (\<forall>l. lease_wf (guard_path w) (leases w l)) \<and>
     (\<forall>l i. lease_inode (leases w l) = Some i \<longrightarrow> i \<in> set (heldInodes w (lease_process (leases w l)))) \<and>
     (\<forall>l l'. engaged (leases w l) \<and> engaged (leases w l') \<and>
        lease_process (leases w l) = lease_process (leases w l') \<longrightarrow> l = l') \<and>
     (\<forall>l i. holding (leases w l) \<and> guard_path w = Some i \<longrightarrow>
        lock_holder L (locks w) i = Some (lease_process (leases w l)))"

lemma machine_okD:
  assumes "machine_ok L w"
  shows "lease_wf (guard_path w) (leases w l)"
    and "lease_inode (leases w l) = Some i \<Longrightarrow> i \<in> set (heldInodes w (lease_process (leases w l)))"
    and "engaged (leases w l) \<Longrightarrow> engaged (leases w l') \<Longrightarrow>
      lease_process (leases w l) = lease_process (leases w l') \<Longrightarrow> l = l'"
    and "holding (leases w l) \<Longrightarrow> guard_path w = Some i \<Longrightarrow> lock_holder L (locks w) i = Some (lease_process (leases w l))"
  using assms unfolding machine_ok_def by blast+

lemma lease_wf_engaged: "lease_wf g x \<Longrightarrow> lease_inode x = Some i \<Longrightarrow> g = Some i"
  by (auto simp: lease_wf_def split: option.splits acquiring.splits)

lemma lease_wf_holding: "lease_wf g x \<Longrightarrow> holding x \<Longrightarrow> engaged x"
  by (auto simp: lease_wf_def split: option.splits)

lemma only_engaged:
  assumes "machine_ok L w" "engaged (leases w l)" "k \<noteq> l" "lease_process (leases w k) = lease_process (leases w l)"
  shows "lease_inode (leases w k) = None"
  using machine_okD(3) [OF assms(1), of k l] assms(2-4) by blast

lemma lease_wf_resting: "lease_wf g x \<Longrightarrow> acquiring x = Resting \<Longrightarrow> metadata x = None \<Longrightarrow> lease_inode x = None \<and> lease_database x = None"
  by (auto simp: lease_wf_def)

text \<open>Changing one lease keeps the invariant when it changes only what belongs to it.\<close>

lemma machine_ok_change:
  assumes "machine_ok L w" and w': "guard_path w' = guard_path w"
    "\<And>k. k \<noteq> l \<Longrightarrow> leases w' k = leases w k" "lease_process (leases w' l) = lease_process (leases w l)"
    "lease_wf (guard_path w) (leases w' l)"
    and held: "\<And>i. lease_inode (leases w' l) = Some i \<Longrightarrow> i \<in> set (heldInodes w' (lease_process (leases w l)))"
    and other_held: "\<And>q. q \<noteq> lease_process (leases w l) \<Longrightarrow> heldInodes w' q = heldInodes w q"
    and alone: "\<And>k. k \<noteq> l \<Longrightarrow> lease_process (leases w k) = lease_process (leases w l) \<Longrightarrow>
        (engaged (leases w' l) \<longrightarrow> \<not> engaged (leases w k)) \<and>
        (\<forall>i. lease_inode (leases w k) = Some i \<longrightarrow> i \<in> set (heldInodes w' (lease_process (leases w l))))"
    and lock: "\<And>i. holding (leases w' l) \<Longrightarrow> guard_path w = Some i \<Longrightarrow>
        lock_holder L (locks w') i = Some (lease_process (leases w l))"
    and other_lock: "\<And>k i. k \<noteq> l \<Longrightarrow> holding (leases w k) \<Longrightarrow> guard_path w = Some i \<Longrightarrow>
        lock_holder L (locks w') i = lock_holder L (locks w) i"
  shows "machine_ok L w'"
proof -
  note ok = machine_okD [OF assms(1)]
  have "lease_wf (guard_path w') (leases w' k)" for k
    using w' ok(1) by (cases "k = l") auto
  moreover have "i \<in> set (heldInodes w' (lease_process (leases w' k)))" if "lease_inode (leases w' k) = Some i" for k i
  proof (cases "k = l")
    case True
    then show ?thesis using held w'(3) that by simp
  next
    case False
    then show ?thesis
      using ok(2) [of k i] alone [OF False] other_held w'(2) [OF False] that
      by (cases "lease_process (leases w k) = lease_process (leases w l)") auto
  qed
  moreover have "k = k'" if "engaged (leases w' k)" "engaged (leases w' k')"
    "lease_process (leases w' k) = lease_process (leases w' k')" for k k'
    using that ok(3) [of k k'] alone [of k] alone [of k'] w'(2,3) by (cases "k = l"; cases "k' = l") auto
  moreover have "lock_holder L (locks w') i = Some (lease_process (leases w' k))"
    if "holding (leases w' k)" "guard_path w' = Some i" for k i
    using that ok(4) [of k i] lock other_lock w' by (cases "k = l") auto
  ultimately show ?thesis unfolding machine_ok_def by blast
qed

text \<open>What the parts of a step do to the machine.\<close>

lemma change_lease_simps [simp]:
  "leases (change_lease l f w) k = (if k = l then f (leases w l) else leases w k)"
  "guard_path (change_lease l f w) = guard_path w" "heldInodes (change_lease l f w) = heldInodes w"
  "locks (change_lease l f w) = locks w" "databases (change_lease l f w) = databases w"
  by (simp_all add: change_lease_def)

lemma drops_inode_simps [simp]:
  "leases (drops_inode p i w) = leases w" "guard_path (drops_inode p i w) = guard_path w"
  "locks (drops_inode p i w) = locks w" "databases (drops_inode p i w) = databases w"
  "q \<noteq> p \<Longrightarrow> heldInodes (drops_inode p i w) q = heldInodes w q"
  by (simp_all add: drops_inode_def split: option.split)

lemma holds_inode_simps [simp]:
  "leases (holds_inode p i w) = leases w" "guard_path (holds_inode p i w) = guard_path w"
  "locks (holds_inode p i w) = locks w" "databases (holds_inode p i w) = databases w"
  "heldInodes (holds_inode p i w) q = (if q = p then i # heldInodes w p else heldInodes w q)"
  by (simp_all add: holds_inode_def)

lemma closes_simps [simp]:
  "leases (closes L p i w) = leases w" "guard_path (closes L p i w) = guard_path w"
  "heldInodes (closes L p i w) = heldInodes w" "databases (closes L p i w) = databases w"
  by (simp_all add: closes_def split: option.split)

lemma closes_keeps_others:
  assumes "posix_locks L" "lock_holder L (locks w) k = Some q" "q \<noteq> p"
  shows "lock_holder L (locks (closes L p i w)) k = Some q"
  using assms posix_locksD(3) [OF assms(1)] by (auto simp: closes_def split: option.split)

text \<open>A lease that has nothing any more leaves the others as they are, when no other one of its process is engaged.\<close>

lemma machine_ok_reset:
  assumes L: "posix_locks L" and ok: "machine_ok L w"
    and alone: "\<And>k. k \<noteq> l \<Longrightarrow> lease_process (leases w k) = lease_process (leases w l) \<Longrightarrow>
        engaged (leases w k) \<Longrightarrow> i = None \<and> j = None"
    and f: "lease_process (f (leases w l)) = lease_process (leases w l)" "lease_wf (guard_path w) (f (leases w l))"
      "lease_inode (f (leases w l)) = None" "metadata (f (leases w l)) = None"
  shows "machine_ok L (change_lease l f (drops_inode (lease_process (leases w l)) i (closes L (lease_process (leases w l)) j w)))"
    (is "machine_ok L ?w'")
proof (rule machine_ok_change [OF ok, where l = l])
  fix k m
  assume k: "k \<noteq> l" "holding (leases w k)" and m: "guard_path w = Some m"
  have held: "lock_holder L (locks w) m = Some (lease_process (leases w k))"
    using machine_okD(4) [OF ok k(2) m] .
  show "lock_holder L (locks ?w') m = lock_holder L (locks w) m"
  proof (cases "lease_process (leases w k) = lease_process (leases w l)")
    case True
    then have "j = None" using alone [OF k(1)] lease_wf_holding [OF machine_okD(1) [OF ok] k(2)] by simp
    then show ?thesis by (simp add: closes_def)
  next
    case False
    then show ?thesis using closes_keeps_others [OF L held] held by simp
  qed
next
  fix k
  assume k: "k \<noteq> l" "lease_process (leases w k) = lease_process (leases w l)"
  show "(engaged (leases ?w' l) \<longrightarrow> \<not> engaged (leases w k)) \<and>
    (\<forall>m. lease_inode (leases w k) = Some m \<longrightarrow> m \<in> set (heldInodes ?w' (lease_process (leases w l))))"
  proof (cases "engaged (leases w k)")
    case True
    then show ?thesis
      using alone [OF k] machine_okD(2) [OF ok, of k] k(2) f(3) by (auto simp: drops_inode_def)
  qed simp
qed (use f in auto)

lemma acquire_failed_ok:
  assumes L: "posix_locks L" and ok: "machine_ok L w" and "metadata (leases w l) = None"
  shows "machine_ok L (acquire_failed L l w)"
proof -
  have wf: "lease_wf (guard_path w) (leases w l)" by (rule machine_okD(1) [OF ok])
  have "i = None \<and> j = None"
    if "k \<noteq> l" "lease_process (leases w k) = lease_process (leases w l)" "engaged (leases w k)"
      "i = lease_inode (leases w l)" "j = (case acquiring (leases w l) of Opened j \<Rightarrow> Some j | _ \<Rightarrow> None)" for k i j
    using machine_okD(3) [OF ok, of k l] that wf assms(3)
    by (auto simp: lease_wf_def split: acquiring.splits)
  then show ?thesis
    unfolding acquire_failed_def Let_def
    using wf assms(3) by (intro machine_ok_reset [OF L ok]) (auto simp: lease_wf_def)
qed

lemma ensureGuardFile_ok:
  assumes "machine_ok L w"
  shows "machine_ok L (ensureGuardFile fresh w)"
proof (cases "guard_path w")
  case None
  have none: "metadata (leases w l) = None \<and> lease_inode (leases w l) = None \<and>
      lease_wf (Some fresh) (leases w l)" for l
    using machine_okD(1) [OF assms, of l] None by (auto simp: lease_wf_def split: option.splits acquiring.splits)
  then show ?thesis using None by (simp add: machine_ok_def ensureGuardFile_def)
qed (use assms in \<open>simp add: ensureGuardFile_def\<close>)

lemma ensureGuardFile_simps [simp]:
  "leases (ensureGuardFile fresh w) = leases w" "heldInodes (ensureGuardFile fresh w) = heldInodes w"
  "guard_path w = Some i \<Longrightarrow> ensureGuardFile fresh w = w"
  by (simp_all add: ensureGuardFile_def)

lemma guardIdentity_path: "guardIdentity w = Some i \<Longrightarrow> guard_path w = Some i"
  by (auto simp: guardIdentity_def split: option.splits if_splits)

lemma acquire_start_ok:
  assumes L: "posix_locks L" and ok: "machine_ok L w"
  shows "machine_ok L (acquire_start L l fresh w)"
proof (cases "acquiring (leases w l) \<noteq> Resting \<or> metadata (leases w l) \<noteq> None")
  case False
  let ?w = "ensureGuardFile fresh w" and ?p = "lease_process (leases w l)"
  have okw: "machine_ok L ?w" by (rule ensureGuardFile_ok [OF ok])
  have wf: "lease_inode (leases w l) = None \<and> lease_database (leases w l) = None"
    using lease_wf_resting [OF machine_okD(1) [OF ok, of l]] False by simp
  have failed: "machine_ok L (acquire_failed L l ?w)"
    using acquire_failed_ok [OF L okw] False by simp
  show ?thesis
  proof (cases "guardIdentity ?w")
    case None
    then show ?thesis using False failed by (simp add: acquire_start_def Let_def)
  next
    case (Some i)
    show ?thesis
    proof (cases "i \<in> set (heldInodes w ?p) \<or> \<not> validateSidecars ?w")
      case True
      then show ?thesis using False failed Some by (auto simp: acquire_start_def Let_def)
    next
      case fresh_inode: False
      have path: "guard_path ?w = Some i" by (rule guardIdentity_path [OF Some])
      let ?w' = "change_lease l (\<lambda>x. x\<lparr>lease_inode := Some i, acquiring := Registered\<rparr>) (holds_inode ?p i ?w)"
      have "machine_ok L ?w'"
      proof (rule machine_ok_change [OF okw, where l = l])
        fix k
        assume "k \<noteq> l" "lease_process (leases ?w k) = lease_process (leases ?w l)"
        then show "(engaged (leases ?w' l) \<longrightarrow> \<not> engaged (leases ?w k)) \<and>
          (\<forall>m. lease_inode (leases ?w k) = Some m \<longrightarrow> m \<in> set (heldInodes ?w' (lease_process (leases ?w l))))"
          using machine_okD(1,2) [OF okw, of k] lease_wf_engaged fresh_inode path by force
      qed (use False wf path machine_okD(1) [OF okw, of l] in \<open>auto simp: lease_wf_def\<close>)
      then show ?thesis using False Some fresh_inode by (simp add: acquire_start_def Let_def)
    qed
  qed
qed (use ok in \<open>auto simp: acquire_start_def\<close>)

lemma acquire_open_ok:
  assumes L: "posix_locks L" and ok: "machine_ok L w"
  shows "machine_ok L (acquire_open L l fails w)"
proof (cases "acquiring (leases w l) = Registered")
  case True
  have wf: "metadata (leases w l) = None" "lease_database (leases w l) = None"
    "lease_state (leases w l) \<noteq> Lease_held" "lease_inode (leases w l) = guard_path w"
    using machine_okD(1) [OF ok, of l] True by (auto simp: lease_wf_def split: option.splits)
  have failed: "machine_ok L (acquire_failed L l w)" by (rule acquire_failed_ok [OF L ok wf(1)])
  have "machine_ok L (change_lease l (\<lambda>x. x\<lparr>acquiring := Opened j\<rparr>) w)" if "guard_path w = Some j" for j
  proof (rule machine_ok_change [OF ok, where l = l])
    have "engaged (leases w l)" using wf(4) that by simp
    from only_engaged [OF ok this]
    show "\<And>k. k \<noteq> l \<Longrightarrow> lease_process (leases w k) = lease_process (leases w l) \<Longrightarrow>
      (engaged (leases (change_lease l (\<lambda>x. x\<lparr>acquiring := Opened j\<rparr>) w) l) \<longrightarrow> \<not> engaged (leases w k)) \<and>
      (\<forall>m. lease_inode (leases w k) = Some m \<longrightarrow>
        m \<in> set (heldInodes (change_lease l (\<lambda>x. x\<lparr>acquiring := Opened j\<rparr>) w) (lease_process (leases w l))))"
      by simp
  qed (use wf that machine_okD(2) [OF ok, of l] in \<open>simp_all add: lease_wf_def\<close>)
  then show ?thesis using failed True by (auto simp: acquire_open_def split: option.split)
qed (use ok in \<open>simp add: acquire_open_def\<close>)

text \<open>Who gets the lock while others hold theirs: nobody else does.\<close>

lemma begin_ok:
  assumes L: "posix_locks L" and ok: "machine_ok L w" and "engaged (leases w l)" "\<not> holding (leases w l)"
    and path: "guard_path w = Some j"
    and granted: "lock_begin L (lease_process (leases w l)) j (locks w) = Some os"
  shows "\<not> holding (leases w k)"
proof
  assume k: "holding (leases w k)"
  then have "lock_holder L (locks w) j = Some (lease_process (leases w k))" using machine_okD(4) [OF ok] path by blast
  then have "lease_process (leases w k) = lease_process (leases w l)" using posix_locksD(1) [OF L granted] by auto
  moreover have "engaged (leases w k)" using lease_wf_holding [OF machine_okD(1) [OF ok] k] .
  ultimately have "k = l" using machine_okD(3) [OF ok] assms(3) by blast
  then show False using k assms(4) by simp
qed

lemma machine_ok_locks:
  "machine_ok L w \<Longrightarrow> (\<And>k. \<not> holding (leases w k)) \<Longrightarrow> machine_ok L (w\<lparr>locks := os, databases := ds\<rparr>)"
  "machine_ok L w \<Longrightarrow> (\<And>k. \<not> holding (leases w k)) \<Longrightarrow> machine_ok L (w\<lparr>locks := os\<rparr>)"
  by (simp_all add: machine_ok_def)

lemma acquire_commit_ok:
  assumes L: "posix_locks L" and ok: "machine_ok L w"
  shows "machine_ok L (acquire_commit L l now fails w)"
proof (cases "acquiring (leases w l)")
  case (Opened j)
  let ?x = "leases w l"
  have wf: "metadata ?x = None" "lease_inode ?x = Some j" "guard_path w = Some j"
    using machine_okD(1) [OF ok, of l] Opened by (auto simp: lease_wf_def split: option.splits)
  have failed: "machine_ok L (acquire_failed L l w)" by (rule acquire_failed_ok [OF L ok wf(1)])
  show ?thesis
  proof (cases "lock_begin L (lease_process ?x) j (locks w)")
    case None
    then show ?thesis using failed Opened by (simp add: acquire_commit_def Let_def)
  next
    case (Some os)
    have free: "\<not> holding (leases w k)" for k
      using begin_ok [OF L ok _ _ wf(3) Some] wf by simp
    have failed': "machine_ok L (acquire_failed L l (w\<lparr>locks := os\<rparr>))"
      using acquire_failed_ok [OF L machine_ok_locks(2) [OF ok free]] wf(1) by simp
    have held: "machine_ok L (change_lease l (held_lease j now) (w\<lparr>locks := os, databases := ds\<rparr>))" (is "machine_ok L ?w'") for ds
    proof (rule machine_ok_change [OF machine_ok_locks(1) [OF ok free], where l = l])
      fix k
      assume "k \<noteq> l" "lease_process (leases (w\<lparr>locks := os, databases := ds\<rparr>) k) =
        lease_process (leases (w\<lparr>locks := os, databases := ds\<rparr>) l)"
      then show "(engaged (leases ?w' l) \<longrightarrow> \<not> engaged (leases (w\<lparr>locks := os, databases := ds\<rparr>) k)) \<and>
        (\<forall>m. lease_inode (leases (w\<lparr>locks := os, databases := ds\<rparr>) k) = Some m \<longrightarrow>
          m \<in> set (heldInodes ?w' (lease_process (leases (w\<lparr>locks := os, databases := ds\<rparr>) l))))"
        using only_engaged [OF ok, of l k] wf(2) by simp
    qed (use wf machine_okD(2) [OF ok, of l] posix_locksD(2) [OF L Some] free in
        \<open>auto simp: lease_wf_def held_lease_def\<close>)
    show ?thesis
      using failed failed' held Opened Some by (simp add: acquire_commit_def Let_def split: option.split)
  qed
qed (use ok in \<open>simp_all add: acquire_commit_def\<close>)

lemma process_exit_ok:
  assumes L: "posix_locks L" and ok: "machine_ok L w"
  shows "machine_ok L (process_exit L p w)"
proof -
  let ?w' = "process_exit L p w"
  have leases: "leases ?w' k = (if lease_process (leases w k) = p then fresh_lease (leases w k) else leases w k)"
    "lease_process (leases ?w' k) = lease_process (leases w k)"
    "heldInodes ?w' q = (if q = p then [] else heldInodes w q)" "guard_path ?w' = guard_path w" for k q
    by (simp_all add: process_exit_def fresh_lease_def)
  have "lock_holder L (locks ?w') i = Some (lease_process (leases w k))"
    if "lease_process (leases w k) \<noteq> p" "holding (leases w k)" "guard_path w = Some i" for k i
    using machine_okD(4) [OF ok that(2,3)] that(1) posix_locksD(4) [OF L] by (simp add: process_exit_def)
  moreover have "lease_wf (guard_path w) (fresh_lease x)" for x by (simp add: lease_wf_def fresh_lease_def)
  moreover have "\<not> engaged (fresh_lease x)" "\<not> holding (fresh_lease x)" for x by (simp_all add: fresh_lease_def)
  ultimately show ?thesis
    using machine_okD [OF ok] unfolding machine_ok_def leases by (auto split: if_splits)
qed

lemma release_ok:
  assumes L: "posix_locks L" and ok: "machine_ok L w" and "acquiring (leases w l) = Resting"
  shows "machine_ok L (release L l w)"
proof -
  have wf: "lease_wf (guard_path w) (leases w l)" by (rule machine_okD(1) [OF ok])
  have "lease_inode (leases w l) = None \<and> lease_database (leases w l) = None"
    if "k \<noteq> l" "lease_process (leases w k) = lease_process (leases w l)" "engaged (leases w k)" for k
    using machine_okD(3) [OF ok, of k l] that wf assms(3) by (auto simp: lease_wf_def split: option.splits)
  then show ?thesis
    unfolding release_def Let_def
    by (intro machine_ok_reset [OF L ok]) (auto simp: lease_wf_def fresh_lease_def)
qed

lemma heartbeat_ok:
  assumes L: "posix_locks L" and ok: "machine_ok L w"
  shows "machine_ok L (heartbeat L l now w)"
proof -
  let ?w' = "change_lease l (\<lambda>x. x\<lparr>metadata := map_option (\<lambda>m. m\<lparr>md_heartbeatAt := now\<rparr>) (metadata x)\<rparr>) w"
  have "machine_ok L ?w'"
  proof (rule machine_ok_change [OF ok, where l = l])
    fix k
    assume k: "k \<noteq> l" "lease_process (leases w k) = lease_process (leases w l)"
    show "(engaged (leases ?w' l) \<longrightarrow> \<not> engaged (leases w k)) \<and>
      (\<forall>m. lease_inode (leases w k) = Some m \<longrightarrow> m \<in> set (heldInodes ?w' (lease_process (leases w l))))"
      using only_engaged [OF ok _ k] machine_okD(2) [OF ok, of k] k(2) by (cases "engaged (leases w l)") simp_all
  qed (use machine_okD(1) [OF ok, of l] machine_okD(2,4) [OF ok, of l] in
      \<open>simp_all add: lease_wf_def split: option.splits acquiring.splits\<close>)
  then show ?thesis using ok process_exit_ok [OF L ok] by (simp add: heartbeat_def failStop_def)
qed

lemma completeRestore_ok:
  assumes L: "posix_locks L" and ok: "machine_ok L w"
  shows "machine_ok L (snd (completeRestore L l w))"
proof -
  have "machine_ok L (w\<lparr>databases := ds\<rparr>)" for ds using ok by (simp add: machine_ok_def)
  then show ?thesis
    using ok process_exit_ok [OF L ok] by (simp add: completeRestore_def failStop_def Let_def split: option.split)
qed

text \<open>A holder whose file was replaced or removed ends its process at the next heartbeat.\<close>

lemma heartbeat_notices_replacement:
  assumes "lease_state (leases w l) = Lease_held" "guard_path w \<noteq> lease_inode (leases w l)"
  shows "leases (heartbeat L l now w) l = fresh_lease (leases w l)"
  using assms guardIdentity_path [of w]
  by (cases "guardIdentity w") (auto simp: heartbeat_def assertIdentity_def failStop_def process_exit_def)

primrec replaces :: "lease_event \<Rightarrow> bool" where
  "replaces (Acquire_start l i) = False"
| "replaces (Acquire_open l b) = False"
| "replaces (Acquire_commit l n b) = False"
| "replaces (Heartbeat l n) = False"
| "replaces (Complete_restore l) = False"
| "replaces (Release l) = False"
| "replaces (Process_exit p) = False"
| "replaces (Replace_guard i n d) = True"

lemma lease_step_ok:
  assumes L: "posix_locks L" and ok: "machine_ok L w" and "\<not> replaces e"
  shows "machine_ok L (lease_step L e w)"
  using assms
  by (cases e) (simp_all add: acquire_start_ok acquire_open_ok acquire_commit_ok heartbeat_ok completeRestore_ok
      release_ok process_exit_ok)

lemma lease_steps_ok:
  assumes "posix_locks L" "machine_ok L w" "\<not> list_ex replaces es"
  shows "machine_ok L (lease_steps L es w)"
  using assms(2,3)
  by (induction es arbitrary: w) (simp_all add: lease_steps_def lease_step_ok [OF assms(1)])

section \<open>One owner\<close>

text \<open>
  C27: As long as nobody replaces the guard file, at most one lease is held, among all processes and
  all objects of one process, through any interleaving of acquisitions, failures, releases and
  crashes; and its process has the lock of the system on the guard.
\<close>

theorem one_lease_is_held:
  assumes "posix_locks L" "machine_ok L w" "\<not> list_ex replaces es"
    and "lease_state (leases (lease_steps L es w) k) = Lease_held"
    and "lease_state (leases (lease_steps L es w) l) = Lease_held"
  shows "k = l \<and> (\<exists>i. guard_path (lease_steps L es w) = Some i \<and> lease_inode (leases (lease_steps L es w) l) = Some i \<and>
    lock_holder L (locks (lease_steps L es w)) i = Some (lease_process (leases (lease_steps L es w) l)))"
proof -
  let ?w = "lease_steps L es w"
  have ok: "machine_ok L ?w" by (rule lease_steps_ok [OF assms(1-3)])
  have held: "holding (leases ?w m) \<and> lease_inode (leases ?w m) = guard_path ?w \<and> guard_path ?w \<noteq> None"
    if "lease_state (leases ?w m) = Lease_held" for m
    using machine_okD(1) [OF ok, of m] that by (auto simp: lease_wf_def split: option.splits)
  then obtain i where i: "guard_path ?w = Some i" using assms(4) by blast
  have lock: "lock_holder L (locks ?w) i = Some (lease_process (leases ?w m))" if "lease_state (leases ?w m) = Lease_held" for m
    using machine_okD(4) [OF ok _ i] held that by blast
  have same: "lease_process (leases ?w k) = lease_process (leases ?w l)"
    using lock [OF assms(4)] lock [OF assms(5)] by simp
  have "k = l" by (rule machine_okD(3) [OF ok _ _ same]) (use held assms(4,5) i in auto)
  then show ?thesis using held [OF assms(5)] lock [OF assms(5)] i by simp
qed

text \<open>Two processes at once, and a second object in the first: locks as a table of holders.\<close>

definition table_locks :: "(inode \<Rightarrow> process option) lock_ops" where
  "table_locks =
     \<lparr>lock_begin = \<lambda>p i os. if os i = None \<or> os i = Some p then Some (os(i := Some p)) else None,
      lock_close = \<lambda>p i os. if os i = Some p then os(i := None) else os,
      lock_exit = \<lambda>p os i. if os i = Some p then None else os i,
      lock_holder = \<lambda>os. os\<rparr>"

lemma table_locks_posix: "posix_locks table_locks"
  by (auto simp: posix_locks_def table_locks_def split: if_splits)

definition idle_lease :: "process \<Rightarrow> string \<Rightarrow> lease_kind \<Rightarrow> lease" where
  "idle_lease p owner kind =
     \<lparr>lease_process = p, ownerId = owner, ownerKind = kind, lease_database = None, lease_inode = None,
      metadata = None, lease_state = Lease_idle, acquiring = Resting\<rparr>"

definition empty_directory :: "(inode \<Rightarrow> process option) machine" where
  "empty_directory =
     \<lparr>guard_path = None, nodes = \<lambda>_. private_file, databases = \<lambda>_. blank_database, sidecars = [],
      locks = \<lambda>_. None, heldInodes = \<lambda>_. [],
      leases = \<lambda>l. if l = 0 then idle_lease 10 ''first'' Restore else if l = 1 then idle_lease 10 ''again'' Runtime
        else idle_lease 20 ''other'' Runtime\<rparr>"

lemma empty_directory_ok: "machine_ok table_locks empty_directory"
  by (simp add: machine_ok_def empty_directory_def idle_lease_def lease_wf_def)

definition contention :: "lease_event list" where
  "contention =
     [Acquire_start 0 5, Acquire_start 2 6, Acquire_start 1 7, Acquire_open 2 False, Acquire_open 0 False,
      Acquire_commit 0 1000 False, Acquire_commit 2 1001 False, Heartbeat 0 2000]"

lemma one_lease_is_held_witness:
  "map (\<lambda>l. lease_state (leases (lease_steps table_locks contention empty_directory) l)) [0, 1, 2] =
     [Lease_held, Lease_contended, Lease_contended] \<and>
   locks (lease_steps table_locks contention empty_directory) 5 = Some 10"
proof -
  have held: "lease_state (leases (lease_steps table_locks contention empty_directory) 0) = Lease_held"
    and others: "map (\<lambda>l. lease_state (leases (lease_steps table_locks contention empty_directory) l)) [0, 1, 2] =
     [Lease_held, Lease_contended, Lease_contended]"
    and data: "guard_path (lease_steps table_locks contention empty_directory) = Some 5"
      "lease_process (leases (lease_steps table_locks contention empty_directory) 0) = 10"
    by code_simp+
  have "\<not> list_ex replaces contention" by (simp add: contention_def)
  from one_lease_is_held [OF table_locks_posix empty_directory_ok this held held] data others
  show ?thesis by (simp add: table_locks_def)
qed

section \<open>The fence of a restore\<close>

text \<open>The guard says that a restore of this owner has not been completed.\<close>

definition fence_row :: "string \<Rightarrow> guard_row \<Rightarrow> bool" where
  "fence_row owner r \<longleftrightarrow> restore_required r = 1 \<and> owner_id r = owner"

definition fenced :: "string \<Rightarrow> 'os machine \<Rightarrow> bool" where
  "fenced owner w \<longleftrightarrow> (\<exists>i. guard_path w = Some i \<and> list_ex (fence_row owner) (instance_guard (databases w i)))"

text \<open>Steps other than replacing the file and completing the restore of that owner.\<close>

primrec completed_by :: "lease_event \<Rightarrow> nat option" where
  "completed_by (Acquire_start l i) = None"
| "completed_by (Acquire_open l b) = None"
| "completed_by (Acquire_commit l n b) = None"
| "completed_by (Heartbeat l n) = None"
| "completed_by (Complete_restore l) = Some l"
| "completed_by (Release l) = None"
| "completed_by (Process_exit p) = None"
| "completed_by (Replace_guard i n d) = None"

definition leaves_fence :: "string \<Rightarrow> 'os machine \<Rightarrow> lease_event \<Rightarrow> bool" where
  "leaves_fence owner w e \<longleftrightarrow>
     \<not> replaces e \<and> (case completed_by e of None \<Rightarrow> True | Some l \<Rightarrow> ownerId (leases w l) \<noteq> owner)"

lemma fenced_transaction: "list_ex (fence_row owner) (instance_guard d) \<Longrightarrow> guard_transaction x now d = None"
proof -
  assume fence: "list_ex (fence_row owner) (instance_guard d)"
  then have "list_ex (\<lambda>r. restore_required r = 1) (instance_guard d)" "instance_guard d \<noteq> []"
    by (auto simp: list_ex_iff fence_row_def)
  moreover have "instance_guard d1 = instance_guard d" if "validateSchema d = Some (b, d1)" for b d1
    using that by (auto simp: validateSchema_def initialized_database_def split: if_splits)
  ultimately show ?thesis
    by (auto simp: guard_transaction_def previous_ok_def split: option.split)
qed

text \<open>What a step changes of the database, the path, the owners and who holds.\<close>

lemma acquire_failed_keeps:
  "guard_path (acquire_failed L l w) = guard_path w" "databases (acquire_failed L l w) = databases w"
  "ownerId (leases (acquire_failed L l w) k) = ownerId (leases w k)"
  "metadata (leases (acquire_failed L l w) k) = metadata (leases w k)"
  by (simp_all add: acquire_failed_def Let_def)

lemma process_exit_keeps:
  "guard_path (process_exit L p w) = guard_path w" "databases (process_exit L p w) = databases w"
  "ownerId (leases (process_exit L p w) k) = ownerId (leases w k)"
  "metadata (leases (process_exit L p w) k) = (if lease_process (leases w k) = p then None else metadata (leases w k))"
  by (auto simp: process_exit_def fresh_lease_def split: if_splits)

lemma release_keeps:
  "guard_path (release L l w) = guard_path w" "databases (release L l w) = databases w"
  "ownerId (leases (release L l w) k) = ownerId (leases w k)"
  "metadata (leases (release L l w) k) = (if k = l then None else metadata (leases w k))"
  by (auto simp: release_def fresh_lease_def Let_def split: if_splits)

lemmas step_keeps = acquire_failed_keeps process_exit_keeps release_keeps

lemma clear_keeps_fence:
  "list_ex (fence_row owner) (instance_guard d) \<Longrightarrow> other \<noteq> owner \<Longrightarrow>
   list_ex (fence_row owner) (instance_guard (snd (clear_restore other d)))"
  by (auto simp: clear_restore_def list_ex_iff fence_row_def)

lemma lease_step_fenced:
  assumes ok: "machine_ok L w" and fence: "fenced owner w" and e: "leaves_fence owner w e"
  shows "fenced owner (lease_step L e w) \<and> ownerId (leases (lease_step L e w) k) = ownerId (leases w k) \<and>
    (holding (leases (lease_step L e w) k) \<longrightarrow> holding (leases w k))"
proof -
  obtain i where i: "guard_path w = Some i" "list_ex (fence_row owner) (instance_guard (databases w i))"
    using fence by (auto simp: fenced_def)
  have unchanged: "fenced owner w'" if "guard_path w' = guard_path w" "databases w' = databases w" for w'
    using fence that by (simp add: fenced_def)
  show ?thesis
  proof (cases e)
    case (Acquire_start l fresh)
    then show ?thesis
      using i(1) fence by (simp add: acquire_start_def Let_def step_keeps unchanged split: option.split)
  next
    case (Acquire_open l fails)
    then show ?thesis using fence by (simp add: acquire_open_def step_keeps unchanged split: option.split)
  next
    case (Acquire_commit l now fails)
    have "guard_transaction (leases w l) now (databases w j) = None" if "acquiring (leases w l) = Opened j" for j
      using machine_okD(1) [OF ok, of l] that i fenced_transaction
      by (auto simp: lease_wf_def split: option.splits)
    then show ?thesis
      using Acquire_commit i
      by (auto simp: acquire_commit_def Let_def step_keeps fenced_def split: acquiring.split option.split)
  next
    case (Heartbeat l now)
    then show ?thesis using i by (auto simp: heartbeat_def failStop_def step_keeps fenced_def)
  next
    case (Complete_restore l)
    then have "ownerId (leases w l) \<noteq> owner" using e by (simp add: leaves_fence_def)
    with clear_keeps_fence [OF i(2) this] Complete_restore i show ?thesis
      by (auto simp: completeRestore_def failStop_def Let_def step_keeps fenced_def split: option.split)
  next
    case (Release l)
    then show ?thesis using i by (auto simp: step_keeps fenced_def)
  next
    case (Process_exit p)
    then show ?thesis using i by (auto simp: step_keeps fenced_def)
  next
    case (Replace_guard j n d)
    then show ?thesis using e by (simp add: leaves_fence_def)
  qed
qed

text \<open>
  C28: Once a restore owns the guard, nobody acquires it until that owner completes the restore: not
  after its release or its crash, not another restore, not the same process.
\<close>

theorem unfinished_restore_fences_everyone:
  assumes "posix_locks L" "machine_ok L w" "fenced owner w" "list_all (leaves_fence owner w) es"
  shows "fenced owner (lease_steps L es w) \<and>
    (lease_state (leases (lease_steps L es w) k) = Lease_held \<longrightarrow> lease_state (leases w k) = Lease_held)"
proof -
  have state: "lease_state (leases v k) = Lease_held \<longleftrightarrow> holding (leases v k)" if "machine_ok L v" for v
    using machine_okD(1) [OF that, of k] by (auto simp: lease_wf_def split: option.splits)
  have "machine_ok L (lease_steps L es w) \<and> fenced owner (lease_steps L es w) \<and>
      (holding (leases (lease_steps L es w) k) \<longrightarrow> holding (leases w k))"
    using assms(2-4)
  proof (induction es arbitrary: w)
    case Nil
    then show ?case by (simp add: lease_steps_def)
  next
    case (Cons e es)
    let ?w = "lease_step L e w"
    have e: "leaves_fence owner w e" using Cons.prems(3) by simp
    note step = lease_step_fenced [OF Cons.prems(1,2) e]
    have "machine_ok L ?w" using lease_step_ok [OF assms(1) Cons.prems(1)] e by (simp add: leaves_fence_def)
    moreover have "leaves_fence owner ?w = leaves_fence owner w"
      using step by (simp add: leaves_fence_def fun_eq_iff split: option.split)
    moreover have "list_all (leaves_fence owner w) es" using Cons.prems(3) by simp
    ultimately have "machine_ok L (lease_steps L es ?w) \<and> fenced owner (lease_steps L es ?w) \<and>
      (holding (leases (lease_steps L es ?w) k) \<longrightarrow> holding (leases ?w k))"
      using Cons.IH [of ?w] step by metis
    moreover have "lease_steps L (e # es) w = lease_steps L es ?w" by (simp add: lease_steps_def)
    ultimately show ?case using step [of k] by metis
  qed
  then show ?thesis using state [OF assms(2)] state [of "lease_steps L es w"] by simp
qed

definition fenced_directory :: "(inode \<Rightarrow> process option) machine" where
  "fenced_directory =
     lease_steps table_locks [Acquire_start 0 5, Acquire_open 0 False, Acquire_commit 0 1000 False, Process_exit 10]
       empty_directory"

definition after_crash :: "lease_event list" where
  "after_crash = [Acquire_start 2 6, Acquire_open 2 False, Acquire_commit 2 1001 False]"

lemma unfinished_restore_fences_everyone_witness:
  "fenced ''first'' (lease_steps table_locks after_crash fenced_directory) \<and>
   lease_state (leases (lease_steps table_locks after_crash fenced_directory) 2) \<noteq> Lease_held"
proof -
  have ok: "machine_ok table_locks fenced_directory"
    unfolding fenced_directory_def by (intro lease_steps_ok table_locks_posix empty_directory_ok) simp
  have "guard_path fenced_directory = Some 5"
    "list_ex (fence_row ''first'') (instance_guard (databases fenced_directory 5))"
    "lease_state (leases fenced_directory 2) = Lease_idle" by code_simp+
  then show ?thesis
    using unfinished_restore_fences_everyone [OF table_locks_posix ok, of "''first''" after_crash 2]
    by (simp add: fenced_def after_crash_def leaves_fence_def)
qed

text \<open>After the owner has completed its restore, the next process does acquire the guard.\<close>

definition completed_directory :: "(inode \<Rightarrow> process option) machine" where
  "completed_directory =
     lease_steps table_locks
       [Acquire_start 0 5, Acquire_open 0 False, Acquire_commit 0 1000 False, Complete_restore 0, Release 0]
       empty_directory"

lemma completed_restore_lets_in:
  "lease_state (leases (lease_steps table_locks after_crash completed_directory) 2) = Lease_held"
  by code_simp

end
