(* ===== verification/RequestGate.thy ===== *)
theory RequestGate
  imports Prelude
begin

text \<open>
  How market prices are requested: \<open>schedule\<close>, \<open>pump\<close> and the cooldown of \<open>MarketPriceReader\<close>
  (\<open>inventory/price-reader.ts\<close>). At most two requests run and at most forty wait; after a response
  429 nothing is requested until the cooldown is over.

  A request is a ticket. \<open>running\<close> are the operations in flight, whose number the code keeps in
  \<open>active\<close>.
\<close>

section \<open>Errors\<close>

datatype ReadPriceError = NO_ORDERS | STEAM_UNAVAILABLE | RATE_LIMITED | UNSUPPORTED_PRICE

record price_error =
  price_code :: ReadPriceError
  retryAt :: "millis option"

abbreviation price_failure :: "ReadPriceError \<Rightarrow> price_error" where
  "price_failure c \<equiv> \<lparr>price_code = c, retryAt = None\<rparr>"

definition limited_until :: "millis \<Rightarrow> price_error" where
  "limited_until t = \<lparr>price_code = RATE_LIMITED, retryAt = Some t\<rparr>"

section \<open>The gate\<close>

type_synonym ticket = nat

record gate =
  gate_clock :: millis
  active :: nat
  waiting :: "ticket list"
  cooldownUntil :: millis
  cooldownStep :: nat
  running :: "ticket list"
  rejected :: "(ticket \<times> price_error) list"
  finished :: "ticket list"
  next_ticket :: ticket

definition cooldown :: "gate \<Rightarrow> price_error option" where
  "cooldown g = (if gate_clock g < cooldownUntil g then Some (limited_until (cooldownUntil g)) else None)"

definition rateLimited :: "gate \<Rightarrow> gate" where
  "rateLimited g =
     (let step = min (cooldownStep g + 1) 4
      in g\<lparr>cooldownStep := step,
           cooldownUntil := max (cooldownUntil g) (gate_clock g + min (60000 * 2 ^ (step - 1)) 300000)\<rparr>)"

definition reject_ticket :: "ticket \<Rightarrow> price_error \<Rightarrow> gate \<Rightarrow> gate" where
  "reject_ticket t e g = g\<lparr>rejected := rejected g @ [(t, e)]\<rparr>"

definition begin_operation :: "ticket \<Rightarrow> gate \<Rightarrow> gate" where
  "begin_operation t g = g\<lparr>active := active g + 1, running := running g @ [t]\<rparr>"

text \<open>
  \<open>pump\<close> starts what waits; a start during the cooldown rejects the ticket and calls \<open>pump\<close> itself.
\<close>

function pump :: "gate \<Rightarrow> gate" where
  "pump g =
     (if active g < 2 then
        (case waiting g of
           [] \<Rightarrow> g
         | t # ts \<Rightarrow>
             (case cooldown (g\<lparr>waiting := ts\<rparr>) of
                Some e \<Rightarrow> pump (pump (reject_ticket t e (g\<lparr>waiting := ts\<rparr>)))
              | None \<Rightarrow> pump (begin_operation t (g\<lparr>waiting := ts\<rparr>))))
      else g)"
  by pat_completeness auto

lemma pump_waiting_dom: "pump_dom g \<Longrightarrow> length (waiting (pump g)) \<le> length (waiting g)"
proof (induction g rule: pump.pinduct)
  case (1 g)
  show ?case
    using 1 by (auto simp: pump.psimps reject_ticket_def begin_operation_def split: list.split option.split)
      (meson le_SucI le_trans)+
qed

termination pump
proof (relation "measure (\<lambda>g. length (waiting g))")
  fix g t ts e
  assume "waiting g = t # ts" "pump_dom (reject_ticket t e (g\<lparr>waiting := ts\<rparr>))"
  then show "(pump (reject_ticket t e (g\<lparr>waiting := ts\<rparr>)), g) \<in> measure (\<lambda>g. length (waiting g))"
    using pump_waiting_dom [of "reject_ticket t e (g\<lparr>waiting := ts\<rparr>)"] by (simp add: reject_ticket_def)
qed (simp_all add: reject_ticket_def begin_operation_def)

declare pump.simps [simp del]

definition start :: "ticket \<Rightarrow> gate \<Rightarrow> gate" where
  "start t g =
     (case cooldown g of
        Some e \<Rightarrow> pump (reject_ticket t e g)
      | None \<Rightarrow> begin_operation t g)"

definition schedule :: "ticket \<Rightarrow> gate \<Rightarrow> gate" where
  "schedule t g =
     (case cooldown g of
        Some e \<Rightarrow> reject_ticket t e g
      | None \<Rightarrow>
          if active g \<ge> 2 \<and> length (waiting g) \<ge> 40 then reject_ticket t (limited_until (gate_clock g + 1000)) g
          else if active g < 2 then start t g
          else g\<lparr>waiting := waiting g @ [t]\<rparr>)"

text \<open>A new request takes the next ticket.\<close>

definition schedule_next :: "gate \<Rightarrow> gate" where
  "schedule_next g = schedule (next_ticket g) (g\<lparr>next_ticket := next_ticket g + 1\<rparr>)"

text \<open>The timer of a waiting ticket, after 20 seconds.\<close>

definition waited_too_long :: "ticket \<Rightarrow> gate \<Rightarrow> gate" where
  "waited_too_long t g =
     (if t \<in> set (waiting g)
      then reject_ticket t (limited_until (gate_clock g + 1000)) (g\<lparr>waiting := remove1 t (waiting g)\<rparr>)
      else g)"

definition settle :: "ticket \<Rightarrow> gate \<Rightarrow> gate" where
  "settle t g =
     (if t \<in> set (running g)
      then pump (g\<lparr>active := active g - 1, running := remove1 t (running g), finished := finished g @ [t]\<rparr>)
      else g)"

text \<open>A successful observation ends a cooldown that is over.\<close>

definition reset_cooldown :: "gate \<Rightarrow> gate" where
  "reset_cooldown g =
     (if gate_clock g \<ge> cooldownUntil g then g\<lparr>cooldownStep := 0, cooldownUntil := 0\<rparr> else g)"

datatype gate_event =
  Request | Too_many | Waited ticket | Settled_operation ticket | Observed | Gate_time millis

fun gate_step :: "gate_event \<Rightarrow> gate \<Rightarrow> gate" where
  "gate_step Request g = schedule_next g"
| "gate_step Too_many g = rateLimited g"
| "gate_step (Waited t) g = waited_too_long t g"
| "gate_step (Settled_operation t) g = settle t g"
| "gate_step Observed g = reset_cooldown g"
| "gate_step (Gate_time d) g = g\<lparr>gate_clock := gate_clock g + max 0 d\<rparr>"

definition gate_steps :: "gate_event list \<Rightarrow> gate \<Rightarrow> gate" where
  "gate_steps = fold gate_step"

definition new_gate :: "millis \<Rightarrow> gate" where
  "new_gate now =
     \<lparr>gate_clock = now, active = 0, waiting = [], cooldownUntil = 0, cooldownStep = 0, running = [],
      rejected = [], finished = [], next_ticket = 0\<rparr>"

section \<open>What the gate keeps\<close>

text \<open>Where a ticket is: waiting, running, finished or rejected.\<close>

definition tickets :: "gate \<Rightarrow> ticket list" where
  "tickets g = waiting g @ running g @ finished g @ map fst (rejected g)"

definition gate_bounds :: "gate \<Rightarrow> bool" where
  "gate_bounds g \<longleftrightarrow> active g = length (running g) \<and> active g \<le> 2 \<and> length (waiting g) \<le> 40 \<and>
     cooldownStep g \<le> 4 \<and> cooldownUntil g \<le> max 0 (gate_clock g + 300000)"

definition no_lost_wakeup :: "gate \<Rightarrow> bool" where
  "no_lost_wakeup g \<longleftrightarrow> waiting g \<noteq> [] \<longrightarrow> active g = 2"

definition gate_ok :: "gate \<Rightarrow> bool" where
  "gate_ok g \<longleftrightarrow> gate_bounds g \<and> no_lost_wakeup g \<and> mset (tickets g) = mset [0..<next_ticket g]"

text \<open>The part of the gate that \<open>pump\<close> leaves alone.\<close>

definition same_time :: "gate \<Rightarrow> gate \<Rightarrow> bool" where
  "same_time g g' \<longleftrightarrow> gate_clock g' = gate_clock g \<and> cooldownUntil g' = cooldownUntil g \<and>
     cooldownStep g' = cooldownStep g \<and> next_ticket g' = next_ticket g \<and> finished g' = finished g"

lemma pump_keeps:
  assumes "gate_bounds g"
  shows "gate_bounds (pump g) \<and> no_lost_wakeup (pump g) \<and> mset (tickets (pump g)) = mset (tickets g) \<and>
    same_time g (pump g) \<and> (cooldown g \<noteq> None \<longrightarrow> running (pump g) = running g)"
  using assms
proof (induction g rule: pump.induct)
  case (1 g)
  show ?case
  proof (cases "active g < 2 \<and> waiting g \<noteq> []")
    case False
    then show ?thesis
      using 1(4) by (subst (1 2 3 4 5) pump.simps)
        (auto simp: no_lost_wakeup_def gate_bounds_def same_time_def split: list.split)
  next
    case True
    then obtain t ts where g: "active g < 2" "waiting g = t # ts" by (cases "waiting g") auto
    let ?g = "g\<lparr>waiting := ts\<rparr>"
    show ?thesis
    proof (cases "cooldown ?g")
      case None
      have "pump g = pump (begin_operation t ?g)" using g None by (subst pump.simps) simp
      moreover have "gate_bounds (begin_operation t ?g)"
        using 1(4) g by (simp add: gate_bounds_def begin_operation_def)
      moreover have "mset (tickets (begin_operation t ?g)) = mset (tickets g)"
        "same_time g (begin_operation t ?g)" "cooldown g = None"
        using g None by (simp_all add: tickets_def begin_operation_def same_time_def cooldown_def split: if_splits)
      ultimately show ?thesis using 1(1) [OF g None] by (auto simp: same_time_def)
    next
      case (Some e)
      let ?r = "reject_ticket t e ?g"
      have p: "pump g = pump (pump ?r)" using g Some by (subst pump.simps) simp
      have r: "gate_bounds ?r" "mset (tickets ?r) = mset (tickets g)" "same_time g ?r" "cooldown ?r \<noteq> None"
        "running ?r = running g"
        using 1(4) g Some by (simp_all add: gate_bounds_def reject_ticket_def tickets_def same_time_def cooldown_def
            split: if_splits)
      note first = 1(2) [OF g Some r(1)]
      then have "cooldown (pump ?r) \<noteq> None" using r(4) by (simp add: same_time_def cooldown_def split: if_splits)
      then show ?thesis
        using first 1(3) [OF g Some] r p by (auto simp: same_time_def)
    qed
  qed
qed

lemma gate_okI:
  "gate_bounds g \<Longrightarrow> no_lost_wakeup g \<Longrightarrow> mset (tickets g) = mset [0..<next_ticket g] \<Longrightarrow> gate_ok g"
  by (simp add: gate_ok_def)

lemma schedule_next_ok:
  assumes "gate_ok g"
  shows "gate_ok (schedule_next g)"
proof (rule gate_okI)
  show "gate_bounds (schedule_next g)" "no_lost_wakeup (schedule_next g)"
    using assms
    by (auto simp: gate_ok_def schedule_next_def schedule_def start_def cooldown_def gate_bounds_def no_lost_wakeup_def
        reject_ticket_def begin_operation_def)
  show "mset (tickets (schedule_next g)) = mset [0..<next_ticket (schedule_next g)]"
    using assms
    by (auto simp: gate_ok_def schedule_next_def schedule_def start_def cooldown_def tickets_def
        reject_ticket_def begin_operation_def simp del: mset_upt)
qed

lemma rateLimited_ok:
  assumes "gate_ok g"
  shows "gate_ok (rateLimited g)"
proof -
  have "min (60000 * 2 ^ k) 300000 \<le> (300000 :: int)" for k :: nat by simp
  then show ?thesis
    using assms
    by (auto simp: gate_ok_def rateLimited_def Let_def gate_bounds_def no_lost_wakeup_def tickets_def)
qed

lemma waited_too_long_ok:
  assumes "gate_ok g"
  shows "gate_ok (waited_too_long t g)"
proof (cases "t \<in> set (waiting g)")
  case True
  have "waiting g \<noteq> []" using True by auto
  then have bounds: "gate_bounds (waited_too_long t g)" "no_lost_wakeup (waited_too_long t g)"
    using assms True
    by (auto simp: gate_ok_def waited_too_long_def reject_ticket_def gate_bounds_def no_lost_wakeup_def length_remove1)
  have "mset (tickets (waited_too_long t g)) = mset (tickets g)"
    using True by (simp add: waited_too_long_def reject_ticket_def tickets_def)
  then show ?thesis
    using bounds assms True by (intro gate_okI) (simp_all add: gate_ok_def waited_too_long_def reject_ticket_def)
qed (use assms in \<open>simp add: waited_too_long_def\<close>)

lemma settle_ok:
  assumes "gate_ok g"
  shows "gate_ok (settle t g)"
proof (cases "t \<in> set (running g)")
  case True
  let ?g = "g\<lparr>active := active g - 1, running := remove1 t (running g), finished := finished g @ [t]\<rparr>"
  have "gate_bounds ?g" using assms True by (auto simp: gate_ok_def gate_bounds_def length_remove1)
  moreover have "mset (tickets ?g) = mset (tickets g)" using True by (simp add: tickets_def)
  ultimately show ?thesis
    using pump_keeps [of ?g] assms True by (intro gate_okI) (simp_all add: gate_ok_def settle_def same_time_def)
qed (use assms in \<open>simp add: settle_def\<close>)

lemma gate_step_ok:
  assumes "gate_ok g"
  shows "gate_ok (gate_step e g)"
proof (cases e)
  case Observed
  then show ?thesis
    using assms by (auto simp: reset_cooldown_def gate_ok_def gate_bounds_def no_lost_wakeup_def tickets_def)
next
  case (Gate_time d)
  then show ?thesis
    using assms by (auto simp: gate_ok_def gate_bounds_def no_lost_wakeup_def tickets_def)
qed (use assms schedule_next_ok rateLimited_ok waited_too_long_ok settle_ok in simp_all)

lemma gate_steps_ok: "gate_ok g \<Longrightarrow> gate_ok (gate_steps es g)"
  by (induction es arbitrary: g) (simp_all add: gate_steps_def gate_step_ok)

lemma new_gate_ok: "gate_ok (new_gate now)"
  by (simp add: new_gate_def gate_ok_def gate_bounds_def no_lost_wakeup_def tickets_def)

text \<open>A step that starts a request does so outside a cooldown.\<close>

lemma running_after_step:
  assumes "gate_ok g" "t \<in> set (running (gate_step e g))" "t \<notin> set (running g)"
  shows "cooldown (gate_step e g) = None"
proof (cases e)
  case Request
  then show ?thesis
    using assms
    by (auto simp: schedule_next_def schedule_def start_def cooldown_def reject_ticket_def begin_operation_def
        split: if_splits)
next
  case (Settled_operation r)
  let ?g = "g\<lparr>active := active g - 1, running := remove1 r (running g), finished := finished g @ [r]\<rparr>"
  have "gate_bounds ?g" if "r \<in> set (running g)"
    using assms(1) that by (auto simp: gate_ok_def gate_bounds_def length_remove1)
  then show ?thesis
    using pump_keeps [of ?g] assms Settled_operation notin_set_remove1 [of t "running g" r]
    by (auto simp: settle_def same_time_def cooldown_def split: if_splits)
qed (use assms in \<open>auto simp: rateLimited_def Let_def waited_too_long_def reject_ticket_def reset_cooldown_def split: if_splits\<close>)

text \<open>
  C29: However the requests, answers, timeouts and rate limits come, after every one of them at most
  two requests run and at most forty wait, none waits while a slot is free, every request is in
  exactly one of the four places (none is lost or answered twice), a cooldown lasts at most five
  minutes from now, and whatever comes next starts no request during one.
\<close>

theorem requests_are_bounded:
  fixes es :: "gate_event list" and now :: millis
  defines "g \<equiv> gate_steps es (new_gate now)"
  shows "length (running g) \<le> 2 \<and> active g = length (running g) \<and> length (waiting g) \<le> 40 \<and>
    (waiting g = [] \<or> length (running g) = 2) \<and> mset (tickets g) = mset [0..<next_ticket g] \<and>
    cooldownUntil g \<le> max 0 (gate_clock g + 300000) \<and>
    (t \<in> set (running (gate_step e g)) \<and> t \<notin> set (running g) \<longrightarrow>
       cooldownUntil (gate_step e g) \<le> gate_clock (gate_step e g))"
proof -
  have ok: "gate_ok g" unfolding g_def by (rule gate_steps_ok [OF new_gate_ok])
  then have "t \<in> set (running (gate_step e g)) \<and> t \<notin> set (running g) \<Longrightarrow> cooldown (gate_step e g) = None"
    using running_after_step by blast
  then show ?thesis
    using ok by (auto simp: gate_ok_def gate_bounds_def no_lost_wakeup_def cooldown_def split: if_splits)
qed

text \<open>Three requests, one of which waits; the first is rate limited, then the waiting one is refused.\<close>

definition busy_events :: "gate_event list" where
  "busy_events = [Request, Request, Request]"

lemma requests_are_bounded_witness:
  "running (gate_step (Settled_operation 0) (gate_steps busy_events (new_gate 1000))) = [1, 2] \<and>
   active (gate_steps busy_events (new_gate 1000)) = 2 \<and>
   cooldownUntil (gate_steps busy_events (new_gate 1000)) \<le> 301000 \<and>
   cooldownUntil (gate_step (Settled_operation 0) (gate_steps busy_events (new_gate 1000)))
     \<le> gate_clock (gate_step (Settled_operation 0) (gate_steps busy_events (new_gate 1000)))"
proof -
  have "running (gate_step (Settled_operation 0) (gate_steps busy_events (new_gate 1000))) = [1, 2]"
    "running (gate_steps busy_events (new_gate 1000)) = [0, 1]"
    "active (gate_steps busy_events (new_gate 1000)) = 2"
    "gate_clock (gate_steps busy_events (new_gate 1000)) = 1000"
    by code_simp+
  then show ?thesis
    using requests_are_bounded [of busy_events 1000 2 "Settled_operation 0"] by simp
qed

end
