(* ===== verification/MarketPages.thy ===== *)
theory MarketPages
  imports RequestGate Money Accounts
begin

text \<open>
  What is read from the pages and answers of the Steam market: the wallet in a script
  (\<open>walletJson\<close>), the order book of a listing page (\<open>inventory/order-book.ts\<close>) or the number of its
  item, and the two prices of an order book (\<open>inventory/price-reader.ts\<close>). \<open>JSON.parse\<close> is an
  argument: the properties of the object in a text, if it is one.
\<close>

section \<open>Searching texts\<close>

text \<open>\<open>indexOf\<close>, \<open>lastIndexOf\<close> up to a position, and \<open>replaceAll\<close>.\<close>

fun index_of :: "string \<Rightarrow> string \<Rightarrow> nat option" where
  "index_of pat [] = (if pat = [] then Some 0 else None)"
| "index_of pat (c # cs) = (if prefix pat (c # cs) then Some 0 else map_option Suc (index_of pat cs))"

fun last_index_of :: "string \<Rightarrow> string \<Rightarrow> nat \<Rightarrow> nat option" where
  "last_index_of pat s 0 = (if prefix pat s then Some 0 else None)"
| "last_index_of pat s (Suc k) = (if prefix pat (drop (Suc k) s) \<and> Suc k \<le> length s then Some (Suc k) else last_index_of pat s k)"

function replace_all :: "string \<Rightarrow> string \<Rightarrow> string \<Rightarrow> string" where
  "replace_all pat rep s =
     (if pat = [] \<or> s = [] then s
      else if prefix pat s then rep @ replace_all pat rep (drop (length pat) s)
      else hd s # replace_all pat rep (tl s))"
  by pat_completeness auto
termination
  by (relation "measure (\<lambda>(pat, rep, s). length s)") (auto simp: prefix_def)

declare replace_all.simps [simp del]

section \<open>The wallet\<close>

text \<open>The characters of the value after the assignment: braces are counted outside quoted texts.\<close>

fun object_end :: "int \<Rightarrow> bool \<Rightarrow> bool \<Rightarrow> string \<Rightarrow> nat option" where
  "object_end depth quoted escaped [] = None"
| "object_end depth quoted escaped (c # cs) =
     (if quoted then
        map_option Suc
          (if escaped then object_end depth True False cs
           else if c = CHR 0x5C then object_end depth True True cs
           else object_end depth (c \<noteq> CHR 0x22) False cs)
      else if c = CHR 0x22 then map_option Suc (object_end depth True escaped cs)
      else if c = CHR ''{'' then map_option Suc (object_end (depth + 1) False escaped cs)
      else if c = CHR ''}'' then
        (if depth - 1 = 0 then Some 1 else map_option Suc (object_end (depth - 1) False escaped cs))
      else if depth = 0 \<and> \<not> is_blank c then None
      else map_option Suc (object_end depth False escaped cs))"

definition wallet_variable :: string where
  "wallet_variable = ''g_rgWalletInfo''"

text \<open>The text after \<open>g_rgWalletInfo =\<close>.\<close>

definition wallet_assignment :: "string \<Rightarrow> string option" where
  "wallet_assignment html =
     (case index_of wallet_variable html of
        None \<Rightarrow> None
      | Some i \<Rightarrow>
          (case dropWhile is_blank (drop (i + length wallet_variable) html) of
             c # cs \<Rightarrow> if c = CHR ''='' then Some (dropWhile is_blank cs) else None
           | [] \<Rightarrow> None))"

definition walletJson :: "(string \<Rightarrow> (string \<Rightarrow> unknown) option) \<Rightarrow> string \<Rightarrow> price_error + (string \<Rightarrow> unknown)" where
  "walletJson json html =
     (case wallet_assignment html of
        None \<Rightarrow> Inl (price_failure STEAM_UNAVAILABLE)
      | Some text \<Rightarrow>
          (case object_end 0 False False text of
             None \<Rightarrow> Inl (price_failure STEAM_UNAVAILABLE)
           | Some n \<Rightarrow>
               (case json (take n text) of
                  None \<Rightarrow> Inl (price_failure STEAM_UNAVAILABLE)
                | Some data \<Rightarrow> Inr data)))"

section \<open>Order books\<close>

record order_book =
  book_currencyId :: int
  book_lowestSellOrder :: "int option"
  book_highestBuyOrder :: "int option"

abbreviation quote_char :: string where "quote_char \<equiv> [CHR 0x22]"

text \<open>The constants, with their quotes.\<close>

definition orderBookKey :: string where
  "orderBookKey =
     quote_char @ ''queryKey'' @ quote_char @ '':['' @ quote_char @ ''market'' @ quote_char @ '','' @ quote_char @
     ''orderbook'' @ quote_char @ '',''"

definition stateStart :: string where
  "stateStart = ''{'' @ quote_char @ ''state'' @ quote_char @ '':{'' @ quote_char @ ''data'' @ quote_char @ '':''"

text \<open>
  The first match of \<open>"name":(null|\d{1,15})[,}]\<close>: nothing, \<open>null\<close> or a number. What follows the
  digits is no digit, so only all of them can match.
\<close>

definition field_value :: "string \<Rightarrow> int option option" where
  "field_value s =
     (if prefix ''null'' s then
        (case drop 4 s of c # _ \<Rightarrow> if c \<in> {CHR '','', CHR ''}''} then Some None else None | [] \<Rightarrow> None)
      else let ds = takeWhile is_digit s in
        if ds = [] \<or> length ds > 15 then None
        else (case drop (length ds) s of
                c # _ \<Rightarrow> if c \<in> {CHR '','', CHR ''}''} then Some (Some (digits_value ds)) else None
              | [] \<Rightarrow> None))"

fun book_field :: "string \<Rightarrow> string \<Rightarrow> int option option" where
  "book_field key [] = None"
| "book_field key (c # cs) =
     (case (if prefix key (c # cs) then field_value (drop (length key) (c # cs)) else None) of
        Some v \<Rightarrow> Some v
      | None \<Rightarrow> book_field key cs)"

definition field_key :: "string \<Rightarrow> string" where
  "field_key name = quote_char @ name @ quote_char @ '':''"

text \<open>\<open>x || null\<close> for a number or \<open>null\<close>.\<close>

definition or_null :: "int option \<Rightarrow> int option" where
  "or_null v = (if v = Some 0 then None else v)"

definition book_of_state :: "string \<Rightarrow> order_book option" where
  "book_of_state state =
     (case (book_field (field_key ''eCurrency'') state, book_field (field_key ''amtMinSellOrder'') state,
            book_field (field_key ''amtMaxBuyOrder'') state) of
        (Some (Some cid), Some low, Some high) \<Rightarrow>
          Some \<lparr>book_currencyId = cid, book_lowestSellOrder = or_null low, book_highestBuyOrder = or_null high\<rparr>
      | _ \<Rightarrow> None)"

text \<open>The quotes are first looked for escaped, as inside a script, then as they are.\<close>

definition escaped_quote :: string where
  "escaped_quote = [CHR 0x5C, CHR 0x22]"

definition book_quoted :: "string \<Rightarrow> string \<Rightarrow> order_book option option" where
  "book_quoted quote html =
     (case index_of (replace_all quote_char quote orderBookKey) html of
        None \<Rightarrow> None
      | Some stop \<Rightarrow>
          (case last_index_of (replace_all quote_char quote stateStart) html stop of
             None \<Rightarrow> Some None
           | Some i \<Rightarrow>
               if int stop - int i > 20000 then Some None
               else Some (book_of_state (replace_all quote quote_char (drop i (take stop html))))))"

definition parseListingOrderBook :: "string \<Rightarrow> order_book option" where
  "parseListingOrderBook html =
     (case book_quoted escaped_quote html of
        Some r \<Rightarrow> r
      | None \<Rightarrow> (case book_quoted quote_char html of Some r \<Rightarrow> r | None \<Rightarrow> None))"

section \<open>The number of an item\<close>

text \<open>The first match of \<open>Market_LoadOrderSpread\(\s*([1-9]\d{0,24})\s*\)\<close>.\<close>

definition spread_call :: string where
  "spread_call = ''Market_LoadOrderSpread(''"

definition spread_argument :: "string \<Rightarrow> string option" where
  "spread_argument s =
     (let t = dropWhile is_blank s; ds = takeWhile is_digit t
      in if ds = [] \<or> hd ds = CHR ''0'' \<or> length ds > 25 then None
         else if prefix '')'' (dropWhile is_blank (drop (length ds) t)) then Some ds else None)"

fun spread_item :: "string \<Rightarrow> string option" where
  "spread_item [] = None"
| "spread_item (c # cs) =
     (case (if prefix spread_call (c # cs) then spread_argument (drop (length spread_call) (c # cs)) else None) of
        Some i \<Rightarrow> Some i
      | None \<Rightarrow> spread_item cs)"

section \<open>Prices\<close>

definition orderPrice :: "unknown \<Rightarrow> price_error + int option" where
  "orderPrice v =
     (if v \<in> {Null, Undefined, Num ''0'', Str ''0''} then Inr None
      else case integer v amount_limit of
        Inl _ \<Rightarrow> Inl (price_failure UNSUPPORTED_PRICE)
      | Inr price \<Rightarrow> if price < 1 then Inl (price_failure UNSUPPORTED_PRICE) else Inr (Some price))"

lemma orderPrice_positive: "orderPrice v = Inr (Some p) \<Longrightarrow> 1 \<le> p"
  by (auto simp: orderPrice_def split: if_splits sum.splits)

definition example_page :: string where
  "example_page =
     ''x={'' @ escaped_quote @ ''state'' @ escaped_quote @ '':{'' @ escaped_quote @ ''data'' @ escaped_quote @ '':{'' @
     escaped_quote @ ''eCurrency'' @ escaped_quote @ '':3,'' @ escaped_quote @ ''amtMinSellOrder'' @ escaped_quote @
     '':125,'' @ escaped_quote @ ''amtMaxBuyOrder'' @ escaped_quote @ '':0}},'' @
     escaped_quote @ ''queryKey'' @ escaped_quote @ '':['' @ escaped_quote @ ''market'' @ escaped_quote @ '','' @
     escaped_quote @ ''orderbook'' @ escaped_quote @ '',753]''"

lemma example_page_book:
  "parseListingOrderBook example_page =
     Some \<lparr>book_currencyId = 3, book_lowestSellOrder = Some 125, book_highestBuyOrder = None\<rparr>"
  by code_simp

end
