(* ===== verification/PriceReader.thy ===== *)
theory PriceReader
  imports MarketPages
begin

text \<open>
  The cached reads of market prices: \<open>MarketPriceReader\<close> of \<open>inventory/price-reader.ts\<close>, on top of
  the gate of requests. Wallets belong to an account and are read at most once at a time; the token
  of a read says whether its account has been cleared meanwhile. Order books are shared.

  The asynchronous functions are cut at their requests. A promise that others wait for is a flight;
  the answers of Steam are events.
\<close>

section \<open>State\<close>

definition maxPublicEntries :: int where "maxPublicEntries = 2000"
definition maxWallets :: int where "maxWallets = 8"
definition maxBodyBytes :: int where "maxBodyBytes = 8 * 1024 * 1024"
definition walletTtl :: millis where "walletTtl = 30000"
definition itemIdTtl :: millis where "itemIdTtl = 6 * 60 * 60000"
definition priceTtl :: millis where "priceTtl = 60000"
definition displayTtl :: millis where "displayTtl = 5 * 60000"

record 'a cached =
  cached_value :: 'a
  cached_until :: millis

record observation =
  lowestSellOrder :: "int option"
  highestBuyOrder :: "int option"
  observedAt :: millis
  freshUntil :: millis
  displayUntil :: millis
  stale :: bool
  ob_error :: "ReadPriceError option"
  ob_retryAt :: "millis option"

text \<open>The name of the item, the currency and the country.\<close>

type_synonym book_key = "string \<times> int \<times> string"

record wallet_flight =
  wf_account :: account_id
  wf_generation :: nat
  wf_token :: bool
  wf_ticket :: ticket
  wf_done :: bool

datatype item_answer = Item_id string | Item_book order_book

record item_flight =
  if_account :: account_id
  if_name :: string
  if_ticket :: ticket
  if_result :: "(price_error + item_answer) option"

datatype book_stage = At_item nat | Item_known "price_error + item_answer" | At_book ticket | Shown

record book_flight =
  bf_key :: book_key
  bf_account :: account_id
  bf_wallet :: wallet
  bf_cached :: "observation option"
  bf_stage :: book_stage

datatype response = Response int "string list option" | Request_failed

record reader =
  gate :: gate
  wallets :: "(account_id, wallet cached) js_map"
  walletFlights :: "(account_id, nat) js_map"
  wallet_reads :: "wallet_flight list"
  itemIds :: "(string, string cached) js_map"
  itemIdFlights :: "(account_id \<times> string, nat) js_map"
  item_reads :: "item_flight list"
  observations :: "(book_key, observation) js_map"
  observationFlights :: "(book_key, nat) js_map"
  book_reads :: "book_flight list"
  reader_generation :: nat
  unsent :: "ticket list"
  results :: "(ticket \<times> (price_error + string)) list"
  shown :: "(millis \<times> observation) list"

abbreviation reader_now :: "reader \<Rightarrow> millis" where
  "reader_now s \<equiv> gate_clock (gate s)"

definition remember :: "'k \<Rightarrow> 'v \<Rightarrow> int \<Rightarrow> ('k, 'v) js_map \<Rightarrow> ('k, 'v) js_map" where
  "remember k v limit m =
     (let m1 = js_delete k m @ [(k, v)] in drop (nat (int (length m1) - limit)) m1)"

section \<open>Requests\<close>

text \<open>\<open>isCurrent\<close> of a wallet read.\<close>

definition isCurrent :: "reader \<Rightarrow> wallet_flight \<Rightarrow> bool" where
  "isCurrent s f \<longleftrightarrow> wf_token f \<and> wf_generation f = reader_generation s"

definition ticket_current :: "reader \<Rightarrow> ticket \<Rightarrow> bool" where
  "ticket_current s t \<longleftrightarrow> list_all (\<lambda>f. wf_ticket f = t \<longrightarrow> isCurrent s f) (wallet_reads s)"

text \<open>The gate moves; operations that start and are not current any more send no request.\<close>

definition move_gate :: "(gate \<Rightarrow> gate) \<Rightarrow> reader \<Rightarrow> reader" where
  "move_gate f s =
     s\<lparr>gate := f (gate s),
       unsent := unsent s @ filter (\<lambda>t. t \<notin> set (running (gate s)) \<and> \<not> ticket_current s t) (running (f (gate s)))\<rparr>"

definition new_ticket :: "reader \<Rightarrow> ticket" where
  "new_ticket s = next_ticket (gate s)"

text \<open>What the operation of \<open>read\<close> makes of a response.\<close>

fun body_bytes :: "string list \<Rightarrow> int \<Rightarrow> price_error + string" where
  "body_bytes [] n = Inr []"
| "body_bytes (chunk # rest) n =
     (if n + int (length chunk) > maxBodyBytes then Inl (price_failure UNSUPPORTED_PRICE)
      else and_then (body_bytes rest (n + int (length chunk))) (\<lambda>text. Inr (chunk @ text)))"

fun read_response :: "response \<Rightarrow> gate \<Rightarrow> (price_error + string) \<times> gate" where
  "read_response Request_failed g = (Inl (price_failure STEAM_UNAVAILABLE), g)"
| "read_response (Response status body) g =
     (if status = 429 then (Inl (limited_until (cooldownUntil (rateLimited g))), rateLimited g)
      else if \<not> (200 \<le> status \<and> status < 300) then (Inl (price_failure STEAM_UNAVAILABLE), g)
      else case body of
        None \<Rightarrow> (Inl (price_failure STEAM_UNAVAILABLE), g)
      | Some chunks \<Rightarrow> (body_bytes chunks 0, g))"

definition answer :: "ticket \<Rightarrow> response \<Rightarrow> reader \<Rightarrow> reader" where
  "answer t r s =
     (if t \<notin> set (running (gate s)) \<or> map_of (results s) t \<noteq> None then s
      else if t \<in> set (unsent s) then s\<lparr>results := (t, Inl (price_failure STEAM_UNAVAILABLE)) # results s\<rparr>
      else s\<lparr>results := (t, fst (read_response r (gate s))) # results s, gate := snd (read_response r (gate s))\<rparr>)"

text \<open>The outcome of a request, from its response or from the gate.\<close>

definition ticket_result :: "reader \<Rightarrow> ticket \<Rightarrow> (price_error + string) option" where
  "ticket_result s t =
     (case map_of (results s) t of
        Some r \<Rightarrow> Some r
      | None \<Rightarrow> map_option Inl (map_of (rejected (gate s)) t))"

definition request :: "reader \<Rightarrow> reader" where
  "request s = move_gate schedule_next s"

section \<open>Wallets\<close>

definition start_wallet_read :: "account_id \<Rightarrow> reader \<Rightarrow> reader" where
  "start_wallet_read acc s =
     (let f = \<lparr>wf_account = acc, wf_generation = reader_generation s, wf_token = True, wf_ticket = new_ticket s, wf_done = False\<rparr>;
          s1 = request (s\<lparr>wallet_reads := wallet_reads s @ [f]\<rparr>)
      in s1\<lparr>walletFlights := js_set acc (length (wallet_reads s)) (walletFlights s1)\<rparr>)"

text \<open>A cached wallet is returned; otherwise the caller waits for the read of its account.\<close>

definition call_wallet :: "account_id \<Rightarrow> reader \<Rightarrow> wallet option \<times> reader" where
  "call_wallet acc s =
     (case js_get (wallets s) acc of
        Some c \<Rightarrow>
          if reader_now s < cached_until c
          then (Some (cached_value c), s\<lparr>wallets := remember acc c maxWallets (wallets s)\<rparr>)
          else (None, let s1 = s\<lparr>wallets := js_delete acc (wallets s)\<rparr> in
            if js_get (walletFlights s1) acc = None then start_wallet_read acc s1 else s1)
      | None \<Rightarrow> (None, if js_get (walletFlights s) acc = None then start_wallet_read acc s else s))"

text \<open>The \<open>finally\<close> of a read: its entry goes, unless another read has taken its place.\<close>

definition end_wallet_read :: "nat \<Rightarrow> reader \<Rightarrow> reader" where
  "end_wallet_read i s =
     s\<lparr>wallet_reads := (wallet_reads s)[i := (wallet_reads s ! i)\<lparr>wf_done := True\<rparr>],
       walletFlights :=
         (if js_get (walletFlights s) (wf_account (wallet_reads s ! i)) = Some i
          then js_delete (wf_account (wallet_reads s ! i)) (walletFlights s) else walletFlights s)\<rparr>"

record page_functions =
  json_object :: "string \<Rightarrow> (string \<Rightarrow> unknown) option"
  fraction_digits :: "string \<Rightarrow> int option"

definition wallet_of_page :: "page_functions \<Rightarrow> string \<Rightarrow> price_error + wallet" where
  "wallet_of_page P html =
     and_then (walletJson (json_object P) html) (\<lambda>data.
     case parseWallet (fraction_digits P) data of
       Inl _ \<Rightarrow> Inl (price_failure UNSUPPORTED_PRICE)
     | Inr w \<Rightarrow> Inr w)"

definition wallet_answered :: "page_functions \<Rightarrow> nat \<Rightarrow> string \<Rightarrow> reader \<Rightarrow> (price_error + wallet) \<times> reader" where
  "wallet_answered P i html s =
     (if \<not> isCurrent s (wallet_reads s ! i) then (Inl (price_failure STEAM_UNAVAILABLE), s)
      else case wallet_of_page P html of
        Inl e \<Rightarrow> (Inl e, s)
      | Inr w \<Rightarrow>
          (Inr w, s\<lparr>wallets := remember (wf_account (wallet_reads s ! i))
             \<lparr>cached_value = w, cached_until = reader_now s + walletTtl\<rparr> maxWallets (wallets s)\<rparr>))"

definition continue_wallet :: "page_functions \<Rightarrow> nat \<Rightarrow> reader \<Rightarrow> reader" where
  "continue_wallet P i s =
     (if i \<ge> length (wallet_reads s) \<or> wf_done (wallet_reads s ! i) then s
      else case ticket_result s (wf_ticket (wallet_reads s ! i)) of
        None \<Rightarrow> s
      | Some (Inl e) \<Rightarrow> end_wallet_read i s
      | Some (Inr html) \<Rightarrow> end_wallet_read i (snd (wallet_answered P i html s)))"

definition clearAccount :: "account_id \<Rightarrow> reader \<Rightarrow> reader" where
  "clearAccount acc s =
     s\<lparr>wallets := js_delete acc (wallets s),
       wallet_reads :=
         (case js_get (walletFlights s) acc of
            None \<Rightarrow> wallet_reads s
          | Some i \<Rightarrow> (wallet_reads s)[i := (wallet_reads s ! i)\<lparr>wf_token := False\<rparr>]),
       walletFlights := js_delete acc (walletFlights s)\<rparr>"

definition shutdown :: "reader \<Rightarrow> reader" where
  "shutdown s =
     s\<lparr>reader_generation := reader_generation s + 1, wallets := [],
       wallet_reads := fold (\<lambda>(acc, i) fs. fs[i := (fs ! i)\<lparr>wf_token := False\<rparr>]) (walletFlights s) (wallet_reads s),
       walletFlights := []\<rparr>"

section \<open>Items\<close>

definition start_item_read :: "account_id \<Rightarrow> string \<Rightarrow> reader \<Rightarrow> reader" where
  "start_item_read acc name s =
     (let f = \<lparr>if_account = acc, if_name = name, if_ticket = new_ticket s, if_result = None\<rparr>;
          s1 = request (s\<lparr>item_reads := item_reads s @ [f]\<rparr>)
      in s1\<lparr>itemIdFlights := js_set (acc, name) (length (item_reads s)) (itemIdFlights s1)\<rparr>)"

definition join_item_read :: "account_id \<Rightarrow> string \<Rightarrow> reader \<Rightarrow> book_stage \<times> reader" where
  "join_item_read acc name s =
     (case js_get (itemIdFlights s) (acc, name) of
        Some i \<Rightarrow> (At_item i, s)
      | None \<Rightarrow> (At_item (length (item_reads s)), start_item_read acc name s))"

definition call_itemId :: "account_id \<Rightarrow> string \<Rightarrow> reader \<Rightarrow> book_stage \<times> reader" where
  "call_itemId acc name s =
     (case js_get (itemIds s) name of
        Some c \<Rightarrow>
          if reader_now s < cached_until c
          then (Item_known (Inr (Item_id (cached_value c))), s\<lparr>itemIds := remember name c maxPublicEntries (itemIds s)\<rparr>)
          else join_item_read acc name (s\<lparr>itemIds := js_delete name (itemIds s)\<rparr>)
      | None \<Rightarrow> join_item_read acc name s)"

definition item_answered :: "string \<Rightarrow> string \<Rightarrow> reader \<Rightarrow> (price_error + item_answer) \<times> reader" where
  "item_answered name html s =
     (case parseListingOrderBook html of
        Some b \<Rightarrow> (Inr (Item_book b), s)
      | None \<Rightarrow>
          (case spread_item html of
             None \<Rightarrow> (Inl (price_failure UNSUPPORTED_PRICE), s)
           | Some i \<Rightarrow>
               (Inr (Item_id i),
                s\<lparr>itemIds := remember name \<lparr>cached_value = i, cached_until = reader_now s + itemIdTtl\<rparr>
                  maxPublicEntries (itemIds s)\<rparr>)))"

definition end_item_read :: "nat \<Rightarrow> price_error + item_answer \<Rightarrow> reader \<Rightarrow> reader" where
  "end_item_read i r s =
     s\<lparr>item_reads := (item_reads s)[i := (item_reads s ! i)\<lparr>if_result := Some r\<rparr>],
       itemIdFlights := js_delete (if_account (item_reads s ! i), if_name (item_reads s ! i)) (itemIdFlights s)\<rparr>"

definition continue_item :: "nat \<Rightarrow> reader \<Rightarrow> reader" where
  "continue_item i s =
     (if i \<ge> length (item_reads s) \<or> if_result (item_reads s ! i) \<noteq> None then s
      else case ticket_result s (if_ticket (item_reads s ! i)) of
        None \<Rightarrow> s
      | Some (Inl e) \<Rightarrow> end_item_read i (Inl e) s
      | Some (Inr html) \<Rightarrow>
          (case item_answered (if_name (item_reads s ! i)) html s of (r, s1) \<Rightarrow> end_item_read i r s1))"

section \<open>Observations\<close>

definition bad_name :: "string \<Rightarrow> bool" where
  "bad_name name \<longleftrightarrow> name = [] \<or> int (length name) > 500 \<or> list_ex (\<lambda>c. (of_char c :: nat) \<le> 31 \<or> of_char c = (127 :: nat)) name"

definition show_observation :: "observation \<Rightarrow> reader \<Rightarrow> reader" where
  "show_observation o' s = s\<lparr>shown := (reader_now s, o') # shown s\<rparr>"

text \<open>A new flight, its first part run up to its first request.\<close>

definition start_book_read :: "book_key \<Rightarrow> account_id \<Rightarrow> wallet \<Rightarrow> observation option \<Rightarrow> reader \<Rightarrow> reader" where
  "start_book_read k acc w old s =
     (case call_itemId acc (fst k) s of (stage, s1) \<Rightarrow>
        s1\<lparr>book_reads := book_reads s1 @ [\<lparr>bf_key = k, bf_account = acc, bf_wallet = w, bf_cached = old, bf_stage = stage\<rparr>],
           observationFlights := js_set k (length (book_reads s1)) (observationFlights s1)\<rparr>)"

definition join_book_read :: "book_key \<Rightarrow> account_id \<Rightarrow> wallet \<Rightarrow> observation option \<Rightarrow> reader \<Rightarrow> reader" where
  "join_book_read k acc w old s =
     (if js_get (observationFlights s) k \<noteq> None then s else start_book_read k acc w old s)"

definition call_observation :: "account_id \<Rightarrow> string \<Rightarrow> wallet \<Rightarrow> reader \<Rightarrow> price_error option \<times> reader" where
  "call_observation acc name w s =
     (if bad_name name then (Some (price_failure UNSUPPORTED_PRICE), s)
      else let k = (name, currency_id (currency w), country w) in
        (None,
         case js_get (observations s) k of
           Some o' \<Rightarrow>
             if reader_now s \<ge> displayUntil o' then join_book_read k acc w None (s\<lparr>observations := js_delete k (observations s)\<rparr>)
             else if reader_now s < freshUntil o'
             then show_observation o' (s\<lparr>observations := remember k o' maxPublicEntries (observations s)\<rparr>)
             else join_book_read k acc w (Some o') s
         | None \<Rightarrow> join_book_read k acc w None s))"

definition end_book_read :: "nat \<Rightarrow> reader \<Rightarrow> reader" where
  "end_book_read i s =
     s\<lparr>book_reads := (book_reads s)[i := (book_reads s ! i)\<lparr>bf_stage := Shown\<rparr>],
       observationFlights := js_delete (bf_key (book_reads s ! i)) (observationFlights s)\<rparr>"

definition stale_observation :: "price_error \<Rightarrow> observation \<Rightarrow> observation" where
  "stale_observation e o' = o'\<lparr>stale := True, ob_error := Some (price_code e), ob_retryAt := retryAt e\<rparr>"

text \<open>The catch block: the cached observation while it may be displayed, marked stale.\<close>

definition book_failed :: "nat \<Rightarrow> price_error \<Rightarrow> reader \<Rightarrow> reader" where
  "book_failed i e s =
     end_book_read i
       (case bf_cached (book_reads s ! i) of
          Some o' \<Rightarrow> if reader_now s < displayUntil o' then show_observation (stale_observation e o') s else s
        | None \<Rightarrow> s)"

definition new_observation :: "millis \<Rightarrow> int option \<Rightarrow> int option \<Rightarrow> observation" where
  "new_observation now low high =
     \<lparr>lowestSellOrder = low, highestBuyOrder = high, observedAt = now, freshUntil = now + priceTtl,
      displayUntil = now + displayTtl, stale = False, ob_error = None, ob_retryAt = None\<rparr>"

definition book_observed :: "nat \<Rightarrow> price_error + int option \<Rightarrow> price_error + int option \<Rightarrow> reader \<Rightarrow> reader" where
  "book_observed i low high s =
     (case and_then low (\<lambda>l. and_then high (\<lambda>h. Inr (new_observation (reader_now s) l h))) of
        Inl e \<Rightarrow> book_failed i e s
      | Inr o' \<Rightarrow>
          (let s1 = move_gate reset_cooldown s
           in end_book_read i (show_observation o'
                (s1\<lparr>observations := remember (bf_key (book_reads s ! i)) o' maxPublicEntries (observations s1)\<rparr>))))"

text \<open>The prices of an embedded book are numbers.\<close>

definition book_price :: "int option \<Rightarrow> price_error + int option" where
  "book_price v =
     (case v of
        None \<Rightarrow> Inr None
      | Some p \<Rightarrow> if p = 0 then Inr None else if p < 1 \<or> p > amount_limit then Inl (price_failure UNSUPPORTED_PRICE) else Inr (Some p))"

definition item_arrived :: "nat \<Rightarrow> price_error + item_answer \<Rightarrow> reader \<Rightarrow> reader" where
  "item_arrived i r s =
     (case r of
        Inl e \<Rightarrow> book_failed i e s
      | Inr (Item_book b) \<Rightarrow>
          if book_currencyId b \<noteq> currency_id (currency (bf_wallet (book_reads s ! i)))
          then book_failed i (price_failure UNSUPPORTED_PRICE) s
          else book_observed i (book_price (book_lowestSellOrder b)) (book_price (book_highestBuyOrder b)) s
      | Inr (Item_id q) \<Rightarrow>
          request (s\<lparr>book_reads := (book_reads s)[i := (book_reads s ! i)\<lparr>bf_stage := At_book (new_ticket s)\<rparr>]\<rparr>))"

definition book_answered :: "page_functions \<Rightarrow> nat \<Rightarrow> string \<Rightarrow> reader \<Rightarrow> reader" where
  "book_answered P i body s =
     (case json_object P body of
        None \<Rightarrow> book_failed i (price_failure UNSUPPORTED_PRICE) s
      | Some data \<Rightarrow>
          if data ''success'' \<notin> {Bool True, Num ''1'', Str ''1''} then book_failed i (price_failure STEAM_UNAVAILABLE) s
          else book_observed i (orderPrice (data ''lowest_sell_order'')) (orderPrice (data ''highest_buy_order'')) s)"

definition continue_book :: "page_functions \<Rightarrow> nat \<Rightarrow> reader \<Rightarrow> reader" where
  "continue_book P i s =
     (if i \<ge> length (book_reads s) then s
      else case bf_stage (book_reads s ! i) of
        At_item f \<Rightarrow>
          (if f < length (item_reads s) then
             (case if_result (item_reads s ! f) of None \<Rightarrow> s | Some r \<Rightarrow> item_arrived i r s)
           else s)
      | Item_known r \<Rightarrow> item_arrived i r s
      | At_book t \<Rightarrow>
          (case ticket_result s t of
             None \<Rightarrow> s
           | Some (Inl e) \<Rightarrow> book_failed i e s
           | Some (Inr body) \<Rightarrow> book_answered P i body s)
      | Shown \<Rightarrow> s)"

section \<open>Steps\<close>

datatype reader_event =
  Call_wallet account_id
| Call_observation account_id string wallet
| Answer ticket response
| Operation_settled ticket
| Wait_over ticket
| Continue_wallet nat
| Continue_item nat
| Continue_book nat
| Clear_account account_id
| Shut_down
| Clock millis

text \<open>An operation is settled once its response has been read.\<close>

fun reader_step :: "page_functions \<Rightarrow> reader_event \<Rightarrow> reader \<Rightarrow> reader" where
  "reader_step P (Call_wallet acc) s = snd (call_wallet acc s)"
| "reader_step P (Call_observation acc name w) s = snd (call_observation acc name w s)"
| "reader_step P (Answer t r) s = answer t r s"
| "reader_step P (Operation_settled t) s = (if map_of (results s) t = None then s else move_gate (settle t) s)"
| "reader_step P (Wait_over t) s = move_gate (waited_too_long t) s"
| "reader_step P (Continue_wallet i) s = continue_wallet P i s"
| "reader_step P (Continue_item i) s = continue_item i s"
| "reader_step P (Continue_book i) s = continue_book P i s"
| "reader_step P (Clear_account acc) s = clearAccount acc s"
| "reader_step P Shut_down s = shutdown s"
| "reader_step P (Clock d) s = move_gate (\<lambda>g. g\<lparr>gate_clock := gate_clock g + max 0 d\<rparr>) s"

definition reader_steps :: "page_functions \<Rightarrow> reader_event list \<Rightarrow> reader \<Rightarrow> reader" where
  "reader_steps P = fold (reader_step P)"

definition new_reader :: "millis \<Rightarrow> reader" where
  "new_reader now =
     \<lparr>gate = new_gate now, wallets = [], walletFlights = [], wallet_reads = [], itemIds = [], itemIdFlights = [],
      item_reads = [], observations = [], observationFlights = [], book_reads = [], reader_generation = 0,
      unsent = [], results = [], shown = []\<rparr>"

section \<open>Caches\<close>

lemma set_remember: "set (remember k v limit m) \<subseteq> insert (k, v) (set m)"
  by (auto simp: remember_def Let_def AList.delete_eq dest!: in_set_dropD)

lemma length_remember: "int (length (remember k v limit m)) \<le> max 0 limit"
  by (simp add: remember_def Let_def)

lemma remember_other: "js_get m k' = None \<Longrightarrow> k' \<noteq> k \<Longrightarrow> js_get (remember k v limit m) k' = None"
  using set_remember [of k v limit m] by (fastforce simp: map_of_eq_None_iff)

text \<open>A cached entry, or one of a flight, that may be shown.\<close>

definition book_entry :: "millis \<Rightarrow> observation \<Rightarrow> bool" where
  "book_entry now o' \<longleftrightarrow>
     observedAt o' \<le> now \<and> freshUntil o' = observedAt o' + priceTtl \<and> displayUntil o' = observedAt o' + displayTtl \<and>
     \<not> stale o' \<and> ob_error o' = None \<and>
     (\<forall>p. lowestSellOrder o' = Some p \<or> highestBuyOrder o' = Some p \<longrightarrow> 1 \<le> p)"

definition shown_ok :: "millis \<times> observation \<Rightarrow> bool" where
  "shown_ok x \<longleftrightarrow>
     (case x of (at, o') \<Rightarrow>
        observedAt o' \<le> at \<and> at < observedAt o' + displayTtl \<and>
        (\<not> stale o' \<longrightarrow> at < observedAt o' + priceTtl \<and> ob_error o' = None) \<and>
        (\<forall>p. lowestSellOrder o' = Some p \<or> highestBuyOrder o' = Some p \<longrightarrow> 1 \<le> p))"

definition books_ok :: "reader \<Rightarrow> bool" where
  "books_ok s \<longleftrightarrow>
     list_all (\<lambda>(k, o'). book_entry (reader_now s) o') (observations s) \<and>
     list_all (\<lambda>f. pred_option (book_entry (reader_now s)) (bf_cached f)) (book_reads s) \<and>
     list_all shown_ok (shown s)"

text \<open>The part of a reader the books depend on.\<close>

definition same_books :: "reader \<Rightarrow> reader \<Rightarrow> bool" where
  "same_books s s' \<longleftrightarrow> reader_now s' = reader_now s \<and> observations s' = observations s \<and> book_reads s' = book_reads s \<and>
     shown s' = shown s"

lemma same_books_ok: "same_books s s' \<Longrightarrow> books_ok s' = books_ok s"
  by (simp add: same_books_def books_ok_def)

lemma same_books_trans: "same_books s1 s2 \<Longrightarrow> same_books s2 s3 \<Longrightarrow> same_books s1 s3"
  by (simp add: same_books_def)

lemma gate_clock_pump [simp]: "gate_clock (pump g) = gate_clock g"
proof (induction g rule: pump.induct)
  case (1 g)
  then show ?case
    by (subst pump.simps) (auto simp: reject_ticket_def begin_operation_def split: list.split option.split)
qed

lemma gate_clock_moves [simp]:
  "gate_clock (schedule_next g) = gate_clock g" "gate_clock (settle t g) = gate_clock g"
  "gate_clock (waited_too_long t g) = gate_clock g" "gate_clock (reset_cooldown g) = gate_clock g"
  "gate_clock (rateLimited g) = gate_clock g"
  by (auto simp: schedule_next_def schedule_def start_def settle_def waited_too_long_def reset_cooldown_def
      rateLimited_def Let_def reject_ticket_def begin_operation_def split: option.split)

lemma move_gate_simps [simp]:
  "gate (move_gate f s) = f (gate s)" "wallets (move_gate f s) = wallets s"
  "walletFlights (move_gate f s) = walletFlights s" "wallet_reads (move_gate f s) = wallet_reads s"
  "itemIds (move_gate f s) = itemIds s" "itemIdFlights (move_gate f s) = itemIdFlights s"
  "item_reads (move_gate f s) = item_reads s" "observations (move_gate f s) = observations s"
  "observationFlights (move_gate f s) = observationFlights s" "book_reads (move_gate f s) = book_reads s"
  "reader_generation (move_gate f s) = reader_generation s" "shown (move_gate f s) = shown s"
  "results (move_gate f s) = results s"
  by (simp_all add: move_gate_def)

lemma request_simps [simp]:
  "gate (request s) = schedule_next (gate s)" "wallets (request s) = wallets s"
  "walletFlights (request s) = walletFlights s" "wallet_reads (request s) = wallet_reads s"
  "observations (request s) = observations s" "book_reads (request s) = book_reads s"
  "reader_generation (request s) = reader_generation s" "shown (request s) = shown s"
  by (simp_all add: request_def)

lemma same_books_parts:
  "same_books s (start_wallet_read acc s)" "same_books s (snd (call_wallet acc s))"
  "same_books s (end_wallet_read i s)" "same_books s (clearAccount acc s)" "same_books s (shutdown s)"
  "same_books s (start_item_read acc name s)" "same_books s (snd (call_itemId acc name s))"
  "same_books s (end_item_read i r s)" "same_books s (snd (item_answered name html s))"
  "same_books s (snd (wallet_answered P i html s))"
  by (auto simp: same_books_def start_wallet_read_def call_wallet_def end_wallet_read_def clearAccount_def shutdown_def
      start_item_read_def call_itemId_def join_item_read_def end_item_read_def item_answered_def wallet_answered_def
      Let_def split: option.split sum.split)

lemma read_response_clock: "gate_clock (snd (read_response r g)) = gate_clock g"
  by (cases "(r, g)" rule: read_response.cases) (auto split: option.split)

lemma same_books_steps:
  "same_books s (answer t r s)" "same_books s (continue_wallet P i s)" "same_books s (continue_item i s)"
proof -
  show "same_books s (answer t r s)" by (simp add: same_books_def answer_def read_response_clock)
  show "same_books s (continue_wallet P i s)"
    using same_books_parts(3,10) same_books_trans
    by (auto simp: continue_wallet_def same_books_def [of s s] split: option.split sum.split) (metis same_books_trans)+
  show "same_books s (continue_item i s)"
    using same_books_parts(8,9)
    by (auto simp: continue_item_def same_books_def [of s s] split: option.split sum.split prod.split)
      (metis same_books_trans snd_conv)+
qed

lemmas same_books_oks = same_books_parts [THEN same_books_ok] same_books_steps [THEN same_books_ok]

section \<open>What is shown\<close>

lemma list_all_remember:
  "list_all Q m \<Longrightarrow> Q (k, v) \<Longrightarrow> list_all Q (remember k v limit m)"
  using set_remember [of k v limit m] by (auto simp: list_all_iff)

lemma list_all_js_delete: "list_all Q m \<Longrightarrow> list_all Q (js_delete k m)"
  by (auto simp: list_all_iff AList.delete_eq)

lemma list_all_js_get: "list_all Q m \<Longrightarrow> js_get m k = Some v \<Longrightarrow> Q (k, v)"
  by (auto simp: list_all_iff dest: map_of_SomeD)

lemma book_entry_later: "book_entry now o' \<Longrightarrow> now \<le> now' \<Longrightarrow> book_entry now' o'"
  by (auto simp: book_entry_def)

lemma end_book_read_ok:
  assumes "books_ok s" "i < length (book_reads s)"
  shows "books_ok (end_book_read i s)"
  using assms by (auto simp: books_ok_def end_book_read_def list_all_length nth_list_update)

lemma book_failed_ok:
  assumes "books_ok s" "i < length (book_reads s)"
  shows "books_ok (book_failed i e s)"
proof -
  have old: "book_entry (reader_now s) o'" if "bf_cached (book_reads s ! i) = Some o'" for o'
    using assms that by (auto simp: books_ok_def list_all_length)
  have "books_ok (show_observation (stale_observation e o') s)"
    if "bf_cached (book_reads s ! i) = Some o'" "reader_now s < displayUntil o'" for o'
    using assms(1) old [OF that(1)] that(2)
    by (simp add: books_ok_def show_observation_def stale_observation_def shown_ok_def book_entry_def
       )
  then show ?thesis
    unfolding book_failed_def using assms
    by (intro end_book_read_ok) (auto split: option.split simp: show_observation_def)
qed

lemma book_observed_ok:
  assumes "books_ok s" "i < length (book_reads s)"
    and low: "\<And>p. low = Inr (Some p) \<Longrightarrow> 1 \<le> p" and high: "\<And>p. high = Inr (Some p) \<Longrightarrow> 1 \<le> p"
  shows "books_ok (book_observed i low high s)"
proof (cases "and_then low (\<lambda>l. and_then high (\<lambda>h. Inr (new_observation (reader_now s) l h)))")
  case (Inl e)
  then show ?thesis using book_failed_ok [OF assms(1,2)] by (simp add: book_observed_def)
next
  case (Inr o')
  then obtain l h where "low = Inr l" "high = Inr h" and o': "o' = new_observation (reader_now s) l h"
    by (auto simp: and_then_eq_Inr)
  then have entry: "book_entry (reader_now s) o'" "shown_ok (reader_now s, o')"
    using low high
    by (auto simp: book_entry_def shown_ok_def new_observation_def priceTtl_def displayTtl_def)
  let ?s = "show_observation o' (move_gate reset_cooldown s\<lparr>observations :=
    remember (bf_key (book_reads s ! i)) o' maxPublicEntries (observations s)\<rparr>)"
  have "books_ok ?s"
    using assms(1) entry
    by (simp add: books_ok_def show_observation_def list_all_remember)
  then have "books_ok (end_book_read i ?s)"
    using assms(2) by (intro end_book_read_ok) (simp_all add: show_observation_def)
  then show ?thesis using Inr by (simp add: book_observed_def Let_def)
qed

lemma book_price_positive: "book_price v = Inr (Some p) \<Longrightarrow> 1 \<le> p"
  by (auto simp: book_price_def split: option.splits if_splits)

lemma item_arrived_ok:
  assumes "books_ok s" "i < length (book_reads s)"
  shows "books_ok (item_arrived i r s)"
proof -
  have "books_ok (request (s\<lparr>book_reads := (book_reads s)[i := (book_reads s ! i)\<lparr>bf_stage := st\<rparr>]\<rparr>))" for st
    using assms by (auto simp: books_ok_def list_all_length nth_list_update)
  then show ?thesis
    using assms book_price_positive
    by (auto simp: item_arrived_def book_failed_ok intro!: book_observed_ok split: sum.split item_answer.split)
qed

lemma continue_book_ok:
  assumes "books_ok s"
  shows "books_ok (continue_book P i s)"
  using assms orderPrice_positive
  by (auto simp: continue_book_def item_arrived_ok book_failed_ok book_answered_def intro!: book_observed_ok
      split: book_stage.split option.split sum.split)

lemma start_book_read_ok:
  assumes "books_ok s" "\<And>o'. old = Some o' \<Longrightarrow> book_entry (reader_now s) o'"
  shows "books_ok (start_book_read k acc w old s)"
proof -
  obtain st s1 where c: "call_itemId acc (fst k) s = (st, s1)" by (cases "call_itemId acc (fst k) s")
  then have same: "same_books s s1" using same_books_parts(7) [of s acc "fst k"] by simp
  then have "books_ok s1" using assms(1) same_books_ok by blast
  then show ?thesis
    using c same assms(2)
    by (cases old) (auto simp: start_book_read_def books_ok_def same_books_def)
qed

lemma call_observation_ok:
  assumes "books_ok s"
  shows "books_ok (snd (call_observation acc name w s))"
proof -
  let ?k = "(name, currency_id (currency w), country w)"
  have join: "books_ok (join_book_read ?k acc w old s')"
    if "books_ok s'" "\<And>o'. old = Some o' \<Longrightarrow> book_entry (reader_now s') o'" for old s'
    using that start_book_read_ok by (auto simp: join_book_read_def)
  have delete: "books_ok (s\<lparr>observations := js_delete ?k (observations s)\<rparr>)"
    using assms by (simp add: books_ok_def list_all_js_delete)
  have "books_ok (show_observation o' (s\<lparr>observations := remember ?k o' maxPublicEntries (observations s)\<rparr>))"
    if "book_entry (reader_now s) o'" "reader_now s < freshUntil o'" for o'
    using assms that
    by (auto simp: books_ok_def show_observation_def shown_ok_def book_entry_def priceTtl_def displayTtl_def
        intro!: list_all_remember)
  moreover have "book_entry (reader_now s) o'" if "js_get (observations s) ?k = Some o'" for o'
    using assms that by (auto simp: books_ok_def dest: list_all_js_get)
  ultimately show ?thesis
    using assms join delete by (auto simp: call_observation_def Let_def split: option.split)
qed

lemma reader_step_books:
  assumes "books_ok s"
  shows "books_ok (reader_step P e s)"
proof (cases e)
  case (Clock d)
  have "reader_now s \<le> reader_now s + max 0 d" by simp
  then have "book_entry (reader_now s + max 0 d) o'" if "book_entry (reader_now s) o'" for o'
    using that book_entry_later by blast
  then show ?thesis
    using assms Clock by (auto simp: books_ok_def list_all_iff pred_option_def)
next
  case (Operation_settled t)
  have "same_books s (move_gate (settle t) s)" by (simp add: same_books_def)
  then show ?thesis using Operation_settled assms same_books_ok by auto
next
  case (Wait_over t)
  have "same_books s (move_gate (waited_too_long t) s)" by (simp add: same_books_def)
  then show ?thesis using Wait_over assms same_books_ok by auto
qed (use assms in \<open>simp_all add: same_books_oks call_observation_ok continue_book_ok\<close>)

text \<open>
  C30: Whatever fails, is rate limited or waits, a price that is shown was observed less than five
  minutes ago; if it is not marked stale, less than a minute ago, and without an error; and it is
  positive.
\<close>

theorem shown_prices_are_recent:
  assumes "(at, o') \<in> set (shown (reader_steps P es (new_reader start_time)))"
  shows "observedAt o' \<le> at \<and> at < observedAt o' + 300000 \<and>
    (stale o' \<or> at < observedAt o' + 60000 \<and> ob_error o' = None) \<and>
    lowestSellOrder o' \<notin> Some ` {..0} \<and> highestBuyOrder o' \<notin> Some ` {..0}"
proof -
  have "books_ok (new_reader start_time)" by (simp add: books_ok_def new_reader_def)
  then have "books_ok (reader_steps P es (new_reader start_time))"
    by (induction es rule: rev_induct) (simp_all add: reader_steps_def reader_step_books)
  then have "shown_ok (at, o')" using assms by (auto simp: books_ok_def list_all_iff)
  then show ?thesis by (fastforce simp: shown_ok_def displayTtl_def priceTtl_def)
qed

text \<open>A price is read, then shown again from the cache, then stale after the market is rate limited.\<close>

definition example_pages :: page_functions where
  "example_pages =
     \<lparr>json_object = \<lambda>_. None, fraction_digits = \<lambda>_. Some 2\<rparr>"

definition euro_wallet :: wallet where
  "euro_wallet =
     \<lparr>currency = \<lparr>currency_id = 3, code = ''EUR'', minorUnit = 2, priceStep = Some 1\<rparr>, country = ''DE'', minimum = 1,
      increment = 1, steamRate = \<lparr>numerator = 5, denominator = 100\<rparr>,
      publisherRate = \<lparr>numerator = 10, denominator = 100\<rparr>, steamBase = 0\<rparr>"

definition price_events :: "reader_event list" where
  "price_events =
     [Call_observation ''a'' ''Card'' euro_wallet, Answer 0 (Response 200 (Some [example_page])), Operation_settled 0,
      Continue_item 0, Continue_book 0, Clock 70000, Call_observation ''a'' ''Card'' euro_wallet,
      Answer 1 (Response 429 None), Operation_settled 1, Continue_item 1, Continue_book 1]"

lemma shown_prices_are_recent_witness:
  "map (\<lambda>(at, o'). (at, observedAt o', stale o')) (shown (reader_steps example_pages price_events (new_reader 1000))) =
     [(71000, 1000, True), (1000, 1000, False)] \<and> (71000 :: int) < 1000 + 300000"
proof -
  let ?old = "\<lparr>lowestSellOrder = Some 125, highestBuyOrder = None, observedAt = 1000, freshUntil = 61000,
    displayUntil = 301000, stale = True, ob_error = Some RATE_LIMITED, ob_retryAt = Some 131000\<rparr>"
  have "shown (reader_steps example_pages price_events (new_reader 1000)) =
      [(71000, ?old), (1000, ?old\<lparr>stale := False, ob_error := None, ob_retryAt := None\<rparr>)]" by code_simp
  then show ?thesis
    using shown_prices_are_recent [of 71000 ?old example_pages price_events 1000] by simp
qed

section \<open>A cleared account\<close>

text \<open>
  Every read of a wallet that may still be cached is the one its account waits for, so that clearing
  the account reaches it.
\<close>

definition live_read :: "reader \<Rightarrow> nat \<Rightarrow> bool" where
  "live_read s i \<longleftrightarrow> i < length (wallet_reads s) \<and> \<not> wf_done (wallet_reads s ! i) \<and> isCurrent s (wallet_reads s ! i)"

definition reads_ok :: "reader \<Rightarrow> bool" where
  "reads_ok s \<longleftrightarrow>
     (\<forall>i. live_read s i \<longrightarrow> js_get (walletFlights s) (wf_account (wallet_reads s ! i)) = Some i) \<and>
     (\<forall>acc i. js_get (walletFlights s) acc = Some i \<longrightarrow> i < length (wallet_reads s) \<and> wf_account (wallet_reads s ! i) = acc) \<and>
     (\<forall>f\<in>set (wallet_reads s). wf_generation f \<le> reader_generation s)"

lemma reads_okI:
  assumes "\<And>i. live_read s i \<Longrightarrow> js_get (walletFlights s) (wf_account (wallet_reads s ! i)) = Some i"
    and "\<And>acc i. js_get (walletFlights s) acc = Some i \<Longrightarrow> i < length (wallet_reads s) \<and> wf_account (wallet_reads s ! i) = acc"
    and "\<And>f. f \<in> set (wallet_reads s) \<Longrightarrow> wf_generation f \<le> reader_generation s"
  shows "reads_ok s"
  using assms unfolding reads_ok_def by blast

definition forgotten :: "account_id \<Rightarrow> reader \<Rightarrow> bool" where
  "forgotten acc s \<longleftrightarrow> js_get (wallets s) acc = None \<and> (\<forall>i. live_read s i \<longrightarrow> wf_account (wallet_reads s ! i) \<noteq> acc)"

definition same_wallets :: "reader \<Rightarrow> reader \<Rightarrow> bool" where
  "same_wallets s s' \<longleftrightarrow> wallets s' = wallets s \<and> walletFlights s' = walletFlights s \<and> wallet_reads s' = wallet_reads s \<and>
     reader_generation s' = reader_generation s"

lemma same_wallets_ok:
  assumes "same_wallets s s'"
  shows "live_read s' = live_read s" "reads_ok s' = reads_ok s" "forgotten acc s' = forgotten acc s"
proof -
  show live: "live_read s' = live_read s"
    using assms by (simp add: fun_eq_iff live_read_def isCurrent_def same_wallets_def)
  then show "reads_ok s' = reads_ok s" "forgotten acc s' = forgotten acc s"
    using assms by (simp_all add: reads_ok_def forgotten_def same_wallets_def)
qed

lemma same_wallets_trans: "same_wallets s1 s2 \<Longrightarrow> same_wallets s2 s3 \<Longrightarrow> same_wallets s1 s3"
  by (simp add: same_wallets_def)

lemma same_wallets_parts:
  "same_wallets s (move_gate f s)" "same_wallets s (request s)" "same_wallets s (answer t r s)"
  "same_wallets s (start_item_read acc name s)" "same_wallets s (snd (call_itemId acc name s))"
  "same_wallets s (end_item_read i r' s)" "same_wallets s (snd (item_answered name html s))"
  "same_wallets s (end_book_read i s)" "same_wallets s (book_failed i e s)"
  "same_wallets s (book_observed i low high s)"
  by (auto simp: same_wallets_def answer_def start_item_read_def call_itemId_def join_item_read_def end_item_read_def
      item_answered_def end_book_read_def book_failed_def book_observed_def show_observation_def Let_def
      split: option.split sum.split)

lemma same_wallets_continue:
  "same_wallets s (continue_item i s)" "same_wallets s (item_arrived i r s)" "same_wallets s (continue_book P i s)"
  "same_wallets s (snd (call_observation acc name w s))"
proof -
  have refl: "same_wallets s s" by (simp add: same_wallets_def)
  have "same_wallets s (end_item_read i r' s1)" if "item_answered name html s = (r', s1)" for i r' s1 name html
    using same_wallets_parts(7) [of s name html] same_wallets_parts(6) [of s1 i r'] that same_wallets_trans by force
  then show "same_wallets s (continue_item i s)"
    using refl same_wallets_parts(6) by (auto simp: continue_item_def split: option.split sum.split prod.split)
  have "same_wallets s (request (s\<lparr>book_reads := bs\<rparr>))" for bs
    by (simp add: same_wallets_def)
  then show item: "same_wallets s (item_arrived i r s)" for r
    using same_wallets_parts(9,10) by (auto simp: item_arrived_def split: sum.split item_answer.split)
  show "same_wallets s (continue_book P i s)"
    using refl item same_wallets_parts(9,10)
    by (auto simp: continue_book_def book_answered_def split: book_stage.split option.split sum.split)
  have start: "same_wallets s (start_book_read k acc w old s)" for k old s
    using same_wallets_parts(5) [of s acc "fst k"]
    by (auto simp: start_book_read_def same_wallets_def split: prod.split)
  then have "same_wallets s (join_book_read k acc w old s)" for k old s
    by (simp add: join_book_read_def same_wallets_def)
  then show "same_wallets s (snd (call_observation acc name w s))"
    using same_wallets_trans [of s "s\<lparr>observations := ob\<rparr>" for ob]
    by (auto simp: call_observation_def Let_def show_observation_def same_wallets_def split: option.split)
qed

lemma live_read_ok: "reads_ok s \<Longrightarrow> live_read s i \<Longrightarrow> js_get (walletFlights s) (wf_account (wallet_reads s ! i)) = Some i"
  unfolding reads_ok_def by blast

lemma flight_ok:
  "reads_ok s \<Longrightarrow> js_get (walletFlights s) acc = Some i \<Longrightarrow> i < length (wallet_reads s) \<and> wf_account (wallet_reads s ! i) = acc"
  unfolding reads_ok_def by blast

lemma generation_ok: "reads_ok s \<Longrightarrow> f \<in> set (wallet_reads s) \<Longrightarrow> wf_generation f \<le> reader_generation s"
  unfolding reads_ok_def by blast

text \<open>Marking a read does not change its account or generation.\<close>

lemma generation_update:
  assumes "\<forall>f\<in>set fs. wf_generation f \<le> n" "i < length fs"
  shows "\<forall>f\<in>set (fs[i := (fs ! i)\<lparr>wf_done := b\<rparr>]). wf_generation f \<le> n"
    "\<forall>f\<in>set (fs[i := (fs ! i)\<lparr>wf_token := b\<rparr>]). wf_generation f \<le> n"
  using assms set_update_subset_insert [of fs i] nth_mem [OF assms(2)] by fastforce+

lemma start_wallet_read_ok:
  assumes "reads_ok s" "js_get (walletFlights s) acc = None"
  shows "reads_ok (start_wallet_read acc s)" "acc' \<noteq> acc \<Longrightarrow> forgotten acc' s \<Longrightarrow> forgotten acc' (start_wallet_read acc s)"
proof -
  let ?s = "start_wallet_read acc s"
  have parts: "length (wallet_reads ?s) = length (wallet_reads s) + 1" "wallets ?s = wallets s"
    "\<And>i. i < length (wallet_reads s) \<Longrightarrow> wallet_reads ?s ! i = wallet_reads s ! i"
    "wf_account (wallet_reads ?s ! length (wallet_reads s)) = acc"
    "walletFlights ?s = js_set acc (length (wallet_reads s)) (walletFlights s)"
    "reader_generation ?s = reader_generation s"
    by (auto simp: start_wallet_read_def Let_def nth_append)
  have live: "live_read ?s i \<longleftrightarrow> live_read s i" if "i \<noteq> length (wallet_reads s)" for i
    using that parts by (auto simp: live_read_def isCurrent_def)
  have other: "wf_account (wallet_reads s ! i) \<noteq> acc" if "live_read s i" for i
    using live_read_ok [OF assms(1) that] assms(2) by auto
  have "js_get (walletFlights ?s) (wf_account (wallet_reads ?s ! i)) = Some i" if "live_read ?s i" for i
  proof (cases "i = length (wallet_reads s)")
    case False
    then have "live_read s i" "wallet_reads ?s ! i = wallet_reads s ! i"
      using that live parts(3) by (auto simp: live_read_def)
    then show ?thesis using live_read_ok [OF assms(1)] other parts(5) by auto
  qed (simp add: parts)
  moreover have "i < length (wallet_reads ?s) \<and> wf_account (wallet_reads ?s ! i) = a"
    if "js_get (walletFlights ?s) a = Some i" for a i
    using that flight_ok [OF assms(1), of a i] parts by (auto split: if_splits)
  moreover have "wf_generation f \<le> reader_generation ?s" if "f \<in> set (wallet_reads ?s)" for f
    using that generation_ok [OF assms(1)] by (auto simp: start_wallet_read_def Let_def)
  ultimately show "reads_ok ?s" by (intro reads_okI)
  show "forgotten acc' ?s" if "acc' \<noteq> acc" "forgotten acc' s"
    using that live parts by (auto simp: forgotten_def live_read_def less_Suc_eq)
      (metis live_read_def parts(3))+
qed

lemma end_wallet_read_ok:
  assumes "reads_ok s" "i < length (wallet_reads s)"
  shows "reads_ok (end_wallet_read i s)" "forgotten acc s \<Longrightarrow> forgotten acc (end_wallet_read i s)"
proof -
  let ?s = "end_wallet_read i s"
  have parts: "length (wallet_reads ?s) = length (wallet_reads s)" "wallets ?s = wallets s"
    "\<And>j. j \<noteq> i \<Longrightarrow> wallet_reads ?s ! j = wallet_reads s ! j" "wf_done (wallet_reads ?s ! i)"
    "\<And>j. wf_account (wallet_reads ?s ! j) = wf_account (wallet_reads s ! j)"
    "reader_generation ?s = reader_generation s"
    using assms(2) by (auto simp: end_wallet_read_def nth_list_update)
  have live: "live_read ?s j \<longleftrightarrow> live_read s j \<and> j \<noteq> i" for j
    using parts by (cases "j = i") (auto simp: live_read_def isCurrent_def)
  have get: "js_get (walletFlights ?s) a = (if js_get (walletFlights s) a = Some i then None else js_get (walletFlights s) a)" for a
  proof (cases "js_get (walletFlights s) a = Some i")
    case True
    with flight_ok [OF assms(1) True] show ?thesis by (simp add: end_wallet_read_def)
  next
    case False
    then have "wf_account (wallet_reads s ! i) = a \<Longrightarrow> js_get (walletFlights s) (wf_account (wallet_reads s ! i)) \<noteq> Some i"
      by simp
    with False show ?thesis by (auto simp: end_wallet_read_def)
  qed
  show "reads_ok ?s"
  proof (rule reads_okI)
    fix j
    assume "live_read ?s j"
    then show "js_get (walletFlights ?s) (wf_account (wallet_reads ?s ! j)) = Some j"
      using live get live_read_ok [OF assms(1)] parts(5) by simp
  next
    fix a j
    assume "js_get (walletFlights ?s) a = Some j"
    then show "j < length (wallet_reads ?s) \<and> wf_account (wallet_reads ?s ! j) = a"
      using get flight_ok [OF assms(1)] parts(1,5) by (simp split: if_splits)
  next
    show "wf_generation f \<le> reader_generation ?s" if "f \<in> set (wallet_reads ?s)" for f
      using that generation_update(1) [of "wallet_reads s" "reader_generation s" i True] generation_ok [OF assms(1)] assms(2)
      by (auto simp: end_wallet_read_def)
  qed
  show "forgotten acc ?s" if "forgotten acc s"
    using that live parts by (auto simp: forgotten_def)
qed

lemma forgotten_remember:
  "forgotten acc s \<Longrightarrow> acc' \<noteq> acc \<Longrightarrow> forgotten acc (s\<lparr>wallets := remember acc' c n (wallets s)\<rparr>)"
  by (simp add: forgotten_def live_read_def isCurrent_def remember_other)

lemma reads_ok_wallets [simp]: "reads_ok (s\<lparr>wallets := ws\<rparr>) = reads_ok s"
  by (simp add: reads_ok_def live_read_def isCurrent_def)

lemma forgotten_delete: "forgotten acc s \<Longrightarrow> forgotten acc (s\<lparr>wallets := js_delete k (wallets s)\<rparr>)"
  by (simp add: forgotten_def live_read_def isCurrent_def)

lemma continue_wallet_ok:
  assumes "reads_ok s"
  shows "reads_ok (continue_wallet P i s)" "forgotten acc s \<Longrightarrow> forgotten acc (continue_wallet P i s)"
proof -
  have len: "length (wallet_reads (snd (wallet_answered P i html s))) = length (wallet_reads s)"
    and ok: "reads_ok (snd (wallet_answered P i html s))" for html
    using assms by (auto simp: wallet_answered_def split: sum.split)
  have keep: "forgotten acc (snd (wallet_answered P i html s))"
    if "forgotten acc s" "i < length (wallet_reads s)" "\<not> wf_done (wallet_reads s ! i)" for html
  proof (cases "isCurrent s (wallet_reads s ! i)")
    case True
    then have "wf_account (wallet_reads s ! i) \<noteq> acc" using that by (auto simp: forgotten_def live_read_def)
    then show ?thesis using that(1) forgotten_remember by (auto simp: wallet_answered_def split: sum.split)
  qed (use that in \<open>simp add: wallet_answered_def\<close>)
  show "reads_ok (continue_wallet P i s)"
    using assms end_wallet_read_ok(1) ok len by (auto simp: continue_wallet_def split: option.split sum.split)
  show "forgotten acc (continue_wallet P i s)" if "forgotten acc s"
    using assms that end_wallet_read_ok(2) keep ok len by (auto simp: continue_wallet_def split: option.split sum.split)
qed

lemma call_wallet_ok:
  assumes "reads_ok s"
  shows "reads_ok (snd (call_wallet acc s))" "acc' \<noteq> acc \<Longrightarrow> forgotten acc' s \<Longrightarrow> forgotten acc' (snd (call_wallet acc s))"
proof -
  have del: "reads_ok (s\<lparr>wallets := js_delete acc (wallets s)\<rparr>)" using assms by simp
  show "reads_ok (snd (call_wallet acc s))"
    using assms del start_wallet_read_ok(1) by (auto simp: call_wallet_def Let_def split: option.split)
  show "forgotten acc' (snd (call_wallet acc s))" if "acc' \<noteq> acc" "forgotten acc' s"
    using assms that start_wallet_read_ok(2) [OF del _ that(1)] start_wallet_read_ok(2) [OF assms _ that(1)]
      forgotten_remember [OF that(2)] forgotten_delete [OF that(2)]
    by (auto simp: call_wallet_def Let_def split: option.split)
qed

lemma clearAccount_ok:
  assumes "reads_ok s"
  shows "reads_ok (clearAccount acc s)" "forgotten acc (clearAccount acc s)"
    "forgotten acc' s \<Longrightarrow> forgotten acc' (clearAccount acc s)"
proof -
  let ?s = "clearAccount acc s"
  have parts: "length (wallet_reads ?s) = length (wallet_reads s)"
    "\<And>j. wf_account (wallet_reads ?s ! j) = wf_account (wallet_reads s ! j)"
    "js_get (walletFlights ?s) a = (if a = acc then None else js_get (walletFlights s) a)" for a
    using flight_ok [OF assms, of acc]
    by (auto simp: clearAccount_def nth_list_update split: option.split)
  have live: "live_read ?s j \<longleftrightarrow> live_read s j \<and> wf_account (wallet_reads s ! j) \<noteq> acc" for j
  proof (cases "js_get (walletFlights s) acc")
    case None
    then have "wf_account (wallet_reads s ! j) \<noteq> acc" if "live_read s j"
      using live_read_ok [OF assms that] by auto
    then show ?thesis using None by (auto simp: live_read_def isCurrent_def clearAccount_def)
  next
    case (Some i)
    have "j = i" if "live_read s j" "wf_account (wallet_reads s ! j) = acc"
      using live_read_ok [OF assms that(1)] that(2) Some by simp
    then show ?thesis
      using Some flight_ok [OF assms Some]
      by (cases "j = i") (auto simp: live_read_def isCurrent_def clearAccount_def)
  qed
  show "reads_ok ?s"
  proof (rule reads_okI)
    fix j
    assume "live_read ?s j"
    then show "js_get (walletFlights ?s) (wf_account (wallet_reads ?s ! j)) = Some j"
      using live live_read_ok [OF assms] parts(2,3) by simp
  next
    fix a j
    assume "js_get (walletFlights ?s) a = Some j"
    then show "j < length (wallet_reads ?s) \<and> wf_account (wallet_reads ?s ! j) = a"
      using flight_ok [OF assms] parts by (simp split: if_splits)
  next
    show "wf_generation f \<le> reader_generation ?s" if "f \<in> set (wallet_reads ?s)" for f
      using that generation_update(2) [of "wallet_reads s" "reader_generation s" _ False] generation_ok [OF assms]
        flight_ok [OF assms, of acc]
      by (auto simp: clearAccount_def split: option.splits)
  qed
  show "forgotten acc ?s" using live parts(2) by (simp add: forgotten_def) (simp add: clearAccount_def)
  show "forgotten acc' ?s" if "forgotten acc' s"
    using that live parts(2) by (simp add: forgotten_def) (simp add: clearAccount_def)
qed

lemma revoked_tokens:
  "length (fold (\<lambda>(acc, i) fs. fs[i := (fs ! i)\<lparr>wf_token := False\<rparr>]) xs fs) = length fs \<and>
   ((\<forall>f\<in>set fs. wf_generation f \<le> n) \<longrightarrow>
    (\<forall>f\<in>set (fold (\<lambda>(acc, i) fs. fs[i := (fs ! i)\<lparr>wf_token := False\<rparr>]) xs fs). wf_generation f \<le> n))"
proof (induction xs arbitrary: fs)
  case (Cons x xs)
  obtain acc i where x: "x = (acc, i)" by (cases x)
  have "(\<forall>f\<in>set fs. wf_generation f \<le> n) \<longrightarrow> (\<forall>f\<in>set (fs[i := (fs ! i)\<lparr>wf_token := False\<rparr>]). wf_generation f \<le> n)"
    using generation_update(2) [of fs n i False] by (cases "i < length fs") (simp_all add: list_update_beyond)
  then show ?case using Cons.IH [of "fs[i := (fs ! i)\<lparr>wf_token := False\<rparr>]"] x by simp
qed simp

lemma shutdown_ok:
  assumes "reads_ok s"
  shows "reads_ok (shutdown s)" "forgotten acc (shutdown s)"
proof -
  have old: "wf_generation f \<le> reader_generation s" if "f \<in> set (wallet_reads (shutdown s))" for f
    using that revoked_tokens [of "walletFlights s" "wallet_reads s" "reader_generation s"] generation_ok [OF assms]
    by (auto simp: shutdown_def)
  then have "\<not> live_read (shutdown s) i" for i
    using nth_mem [of i "wallet_reads (shutdown s)"] by (fastforce simp: live_read_def isCurrent_def shutdown_def)
  then show "reads_ok (shutdown s)" "forgotten acc (shutdown s)"
    using old by (auto simp: reads_ok_def forgotten_def) (auto simp: shutdown_def le_Suc_eq)
qed

lemma reader_step_reads:
  assumes "reads_ok s"
  shows "reads_ok (reader_step P e s)" "e \<noteq> Call_wallet acc \<Longrightarrow> forgotten acc s \<Longrightarrow> forgotten acc (reader_step P e s)"
  using assms
  by (cases e; simp add: same_wallets_parts [THEN same_wallets_ok(2)] same_wallets_parts [THEN same_wallets_ok(3)]
      same_wallets_continue [THEN same_wallets_ok(2)] same_wallets_continue [THEN same_wallets_ok(3)]
      continue_wallet_ok call_wallet_ok clearAccount_ok shutdown_ok)+

text \<open>
  After an account is cleared no wallet of it is cached until somebody asks for it again,
  although reads begun before go on and are answered.
\<close>

theorem cleared_wallet_does_not_return:
  assumes "Call_wallet acc \<notin> set later"
  shows "js_get (wallets (reader_steps P later (clearAccount acc (reader_steps P es (new_reader start_time))))) acc = None"
proof -
  have reads: "reads_ok (reader_steps P es (new_reader start_time))"
  proof (induction es rule: rev_induct)
    case Nil
    then show ?case by (simp add: reader_steps_def new_reader_def reads_ok_def live_read_def)
  next
    case (snoc e es)
    then show ?case by (simp add: reader_steps_def reader_step_reads)
  qed
  have "reads_ok (reader_steps P later s) \<and> forgotten acc (reader_steps P later s)"
    if "reads_ok s" "forgotten acc s" for s
    using assms
  proof (induction later rule: rev_induct)
    case Nil
    then show ?case using that by (simp add: reader_steps_def)
  next
    case (snoc e es)
    then have "reads_ok (reader_steps P es s)" "forgotten acc (reader_steps P es s)" "e \<noteq> Call_wallet acc" by auto
    then show ?case using reader_step_reads by (simp add: reader_steps_def)
  qed
  from this [OF clearAccount_ok(1) [OF reads] clearAccount_ok(2) [OF reads]] show ?thesis by (simp add: forgotten_def)
qed

definition wallet_pages :: page_functions where
  "wallet_pages = \<lparr>json_object = \<lambda>_. Some example_wallet_page, fraction_digits = \<lambda>_. Some 2\<rparr>"

definition late_answer :: "reader_event list" where
  "late_answer = [Answer 0 (Response 200 (Some [''g_rgWalletInfo = {}''])), Operation_settled 0, Continue_wallet 0]"

lemma cleared_wallet_does_not_return_witness:
  "js_get (wallets (reader_steps wallet_pages late_answer
     (clearAccount ''a'' (reader_steps wallet_pages [Call_wallet ''a''] (new_reader 1000))))) ''a'' = None \<and>
   js_get (wallets (reader_steps wallet_pages late_answer (reader_steps wallet_pages [Call_wallet ''a''] (new_reader 1000)))) ''a''
     \<noteq> None"
proof -
  have "js_get (wallets (reader_steps wallet_pages late_answer
      (reader_steps wallet_pages [Call_wallet ''a''] (new_reader 1000)))) ''a'' \<noteq> None" by code_simp
  then show ?thesis
    using cleared_wallet_does_not_return [of "''a''" late_answer wallet_pages "[Call_wallet ''a'']" 1000]
    by (simp add: late_answer_def)
qed

section \<open>The gate of a reader\<close>

text \<open>Every step of the reader moves its gate by the operations of the gate only.\<close>

lemma reset_cooldown_ok: "gate_ok g \<Longrightarrow> gate_ok (reset_cooldown g)"
  using gate_step_ok [of g Observed] by simp

lemma read_response_gate_ok: "gate_ok g \<Longrightarrow> gate_ok (snd (read_response r g))"
  by (cases "(r, g)" rule: read_response.cases) (auto simp: rateLimited_ok split: option.split)

lemma wallet_parts_gate:
  "gate_ok (gate s) \<Longrightarrow> gate_ok (gate (snd (call_wallet acc s)))"
  "gate (end_wallet_read i s) = gate s" "gate (snd (wallet_answered P i html s)) = gate s"
  "gate (clearAccount acc s) = gate s" "gate (shutdown s) = gate s"
  by (auto simp: call_wallet_def start_wallet_read_def end_wallet_read_def wallet_answered_def clearAccount_def
      shutdown_def Let_def schedule_next_ok split: option.split sum.split)

lemma item_parts_gate:
  "gate_ok (gate s) \<Longrightarrow> gate_ok (gate (snd (call_itemId acc name s)))"
  "gate (end_item_read i r s) = gate s" "gate (snd (item_answered name html s)) = gate s"
  by (auto simp: call_itemId_def join_item_read_def start_item_read_def end_item_read_def item_answered_def
      Let_def schedule_next_ok split: option.split)

lemma book_parts_gate:
  "gate (end_book_read i s) = gate s" "gate (book_failed i e s) = gate s"
  "gate_ok (gate s) \<Longrightarrow> gate_ok (gate (book_observed i low high s))"
  by (auto simp: end_book_read_def book_failed_def book_observed_def show_observation_def Let_def reset_cooldown_ok
      split: option.split sum.split)

lemma item_arrived_gate: "gate_ok (gate s) \<Longrightarrow> gate_ok (gate (item_arrived i r s))"
  by (auto simp: item_arrived_def book_parts_gate schedule_next_ok split: sum.split item_answer.split)

lemma start_book_gate: "gate_ok (gate s) \<Longrightarrow> gate_ok (gate (start_book_read k acc w old s))"
  using item_parts_gate(1) [of s acc "fst k"] by (auto simp: start_book_read_def split: prod.split)

lemma continue_item_gate: "gate (continue_item i s) = gate s"
  using item_parts_gate(3) [of _ _ s]
  by (auto simp: continue_item_def item_parts_gate(2) split: option.split sum.split prod.split) (metis snd_conv)

lemma reader_step_gate:
  assumes "gate_ok (gate s)"
  shows "gate_ok (gate (reader_step P e s))"
proof (cases e)
  case (Call_observation acc name w)
  then show ?thesis
    using assms
    by (auto simp: call_observation_def join_book_read_def show_observation_def Let_def intro!: start_book_gate
        split: option.split)
next
  case (Clock d)
  then show ?thesis using gate_step_ok [OF assms, of "Gate_time d"] by simp
qed (use assms in \<open>auto simp: answer_def read_response_gate_ok wallet_parts_gate continue_wallet_def continue_item_gate
    continue_book_def book_answered_def item_arrived_gate book_parts_gate settle_ok waited_too_long_ok
    split: option.split sum.split book_stage.split\<close>)

lemma reader_requests_are_bounded:
  "active (gate (reader_steps P es (new_reader start_time))) \<le> 2 \<and>
   length (waiting (gate (reader_steps P es (new_reader start_time)))) \<le> 40"
proof -
  have "gate_ok (gate (reader_steps P es (new_reader start_time)))"
    by (induction es rule: rev_induct)
      (simp_all add: reader_steps_def reader_step_gate new_gate_ok, simp add: new_reader_def new_gate_ok)
  then show ?thesis by (simp add: gate_ok_def gate_bounds_def)
qed

end
