(* ===== verification/InventoryPages.thy ===== *)
theory InventoryPages
  imports PriceReader
begin

text \<open>
  What the sales are decided on: the inventory and the own listings, read page by page
  (\<open>loadInventory\<close> and \<open>loadListings\<close> of \<open>inventory/service.ts\<close>). Steam's answer to the request of
  a page is an argument: the page's fields as values of type unknown, or the error of the request.
  Names, icons and other data that is only displayed are left out.
\<close>

section \<open>Errors and fields\<close>

datatype market_error =
  Steam_unavailable int
| Private_inventory
| Inventory_changed
| Incomplete_response
| Unexpected_inventory
| Too_large
| Not_advancing
| Pagination_limit
| Missing_description
| Invalid_quantity
| Invalid_identifier
| Listing_currency
| Money_error money_error
| Not_available
| Already_submitted
| Keep_one_copy
| Already_listed
| Not_marketable
| No_price
| Preview_invalid
| Preview_expired
| Wallet_or_settings_changed
| Settings_changed
| Prices_changed
| Stopped_before_submission
| Uncertain_submission
| Rejected_listing
| Listing_gone
| Not_cancelled int
| Not_confirmed_removed
| Too_many_previews
| Batch_active

text \<open>Errors of the helpers for amounts become market errors.\<close>

definition money :: "money_error + 'a \<Rightarrow> market_error + 'a" where
  "money r = (case r of Inl e \<Rightarrow> Inl (Money_error e) | Inr x \<Rightarrow> Inr x)"

definition check :: "bool \<Rightarrow> market_error \<Rightarrow> market_error + unit" where
  "check ok e = (if ok then Inr () else Inl e)"

definition required :: "'a option \<Rightarrow> market_error \<Rightarrow> market_error + 'a" where
  "required v e = (case v of None \<Rightarrow> Inl e | Some x \<Rightarrow> Inr x)"

lemma checks_simps [simp]:
  "money r = Inr x \<longleftrightarrow> r = Inr x"
  "check ok e = Inr u \<longleftrightarrow> ok"
  "required v e = Inr y \<longleftrightarrow> v = Some y"
  by (auto simp: money_def check_def required_def split: sum.split option.split)

definition numeric_id :: "string \<Rightarrow> bool" where
  "numeric_id s \<longleftrightarrow> is_digits s \<and> hd s \<noteq> CHR ''0'' \<and> length s \<le> 25"

definition item_id :: "unknown \<Rightarrow> market_error + string" where
  "item_id v = (case v of Str s \<Rightarrow> (if numeric_id s then Inr s else Inl Invalid_identifier) | _ \<Rightarrow> Inl Invalid_identifier)"

definition instanceId :: "unknown \<Rightarrow> market_error + string" where
  "instanceId v =
     (let s = js_string (nullish v (Str ''0''))
      in if s = ''0'' \<or> numeric_id s then Inr s else Inl Invalid_identifier)"

definition success :: "unknown \<Rightarrow> bool" where
  "success v \<longleftrightarrow> v \<in> {Bool True, Num ''1'', Str ''1''}"

section \<open>The inventory\<close>

record raw_asset =
  as_appid :: unknown
  as_contextid :: unknown
  as_assetid :: unknown
  as_classid :: unknown
  as_instanceid :: unknown
  as_amount :: unknown

record raw_description =
  de_classid :: unknown
  de_instanceid :: unknown
  de_market_hash_name :: unknown
  de_marketable :: unknown
  de_tradable :: unknown
  de_market_fee :: unknown

text \<open>\<open>None\<close> is a field that is no array, or an entry that is no object.\<close>

record inventory_page =
  pg_success :: unknown
  pg_total :: unknown
  pg_assets :: "raw_asset option list option"
  pg_descriptions :: "raw_description option list option"
  pg_more_items :: unknown
  pg_last_assetid :: unknown

record item =
  assetId :: string
  variantId :: string
  marketHashName :: "string option"
  quantity :: int
  duplicateQuantity :: int
  marketable :: bool
  tradable :: bool
  item_group :: string
  publisher_fee :: unknown

definition maxInventoryPages :: nat where "maxInventoryPages = 20"
definition maxInventoryItems :: int where "maxInventoryItems = 40000"

record inventory_load =
  ld_assets :: "(string, raw_asset) js_map"
  ld_descriptions :: "(string, raw_description) js_map"
  ld_seen :: "string list"
  ld_cursor :: string
  ld_total :: "int option"

definition group_of :: "unknown \<Rightarrow> unknown \<Rightarrow> market_error + string" where
  "group_of classid instanceid =
     and_then (item_id classid) (\<lambda>c. and_then (instanceId instanceid) (\<lambda>i. Inr (c @ ''_'' @ i)))"

primrec add_descriptions ::
    "raw_description option list \<Rightarrow> (string, raw_description) js_map \<Rightarrow> market_error + (string, raw_description) js_map" where
  "add_descriptions [] m = Inr m"
| "add_descriptions (d # ds) m =
     and_then (required d Incomplete_response) (\<lambda>d.
     and_then (group_of (de_classid d) (de_instanceid d)) (\<lambda>g.
     add_descriptions ds (js_set g d m)))"

primrec add_assets :: "raw_asset option list \<Rightarrow> (string, raw_asset) js_map \<Rightarrow> market_error + (string, raw_asset) js_map" where
  "add_assets [] m = Inr m"
| "add_assets (a # as) m =
     and_then (required a Incomplete_response) (\<lambda>a.
     and_then (money (integer (as_appid a) amount_limit)) (\<lambda>appid.
     and_then (check (appid = 753 \<and> js_string (as_contextid a) = ''6'') Unexpected_inventory) (\<lambda>_.
     and_then (item_id (as_assetid a)) (\<lambda>i.
     and_then (check (int (length (js_set i a m)) \<le> maxInventoryItems) Too_large) (\<lambda>_.
     add_assets as (js_set i a m))))))"

definition or_empty :: "'a list option \<Rightarrow> 'a list" where
  "or_empty xs = (case xs of None \<Rightarrow> [] | Some xs \<Rightarrow> xs)"

text \<open>One page: what was read so far, and whether it was the last.\<close>

definition read_inventory_page :: "inventory_page \<Rightarrow> inventory_load \<Rightarrow> market_error + (bool \<times> inventory_load)" where
  "read_inventory_page p st =
     and_then (check (success (pg_success p)) Private_inventory) (\<lambda>_.
     and_then (money (integer (pg_total p) maxInventoryItems)) (\<lambda>total.
     and_then (check (ld_total st = None \<or> ld_total st = Some total) Inventory_changed) (\<lambda>_.
     and_then (check (pg_assets p \<noteq> None \<or> total = 0) Incomplete_response) (\<lambda>_.
     and_then (add_descriptions (or_empty (pg_descriptions p)) (ld_descriptions st)) (\<lambda>ds.
     and_then (add_assets (or_empty (pg_assets p)) (ld_assets st)) (\<lambda>as.
     let st1 = st\<lparr>ld_assets := as, ld_descriptions := ds, ld_total := Some total\<rparr> in
     if \<not> success (pg_more_items p) then Inr (True, st1)
     else and_then (item_id (pg_last_assetid p)) (\<lambda>cursor.
       and_then (check (cursor \<notin> set (ld_seen st)) Not_advancing) (\<lambda>_.
       Inr (False, st1\<lparr>ld_cursor := cursor, ld_seen := cursor # ld_seen st\<rparr>)))))))))"

text \<open>Steam's answer to the request of the n-th page from a cursor.\<close>

type_synonym inventory_source = "nat \<Rightarrow> string \<Rightarrow> market_error + inventory_page"

fun inventory_pages :: "inventory_source \<Rightarrow> nat \<Rightarrow> nat \<Rightarrow> inventory_load \<Rightarrow> market_error + inventory_load" where
  "inventory_pages src n 0 st = Inl Pagination_limit"
| "inventory_pages src n (Suc k) st =
     and_then (src n (ld_cursor st)) (\<lambda>p.
     and_then (read_inventory_page p st) (\<lambda>(finished, st1).
     if finished then Inr st1 else inventory_pages src (Suc n) k st1))"

definition text_or_none :: "unknown \<Rightarrow> string option" where
  "text_or_none v = (case v of Str s \<Rightarrow> Some (take 500 s) | _ \<Rightarrow> None)"

definition new_item :: "string \<Rightarrow> string \<Rightarrow> string \<Rightarrow> raw_description \<Rightarrow> int \<Rightarrow> bool \<Rightarrow> item" where
  "new_item asset c i d n first =
     \<lparr>assetId = asset, variantId = ''753:6:'' @ c @ '':'' @ i, marketHashName = text_or_none (de_market_hash_name d),
      quantity = n, duplicateQuantity = n - (if first then 1 else 0),
      marketable = success (de_marketable d), tradable = success (de_tradable d),
      item_group = c @ ''_'' @ i, publisher_fee = nullish (de_market_fee d) Null\<rparr>"

text \<open>The items, in the order of the assets; the first asset of a group gives up one copy.\<close>

primrec make_items ::
    "(string, raw_description) js_map \<Rightarrow> (string \<times> raw_asset) list \<Rightarrow> string list \<Rightarrow> market_error + item list" where
  "make_items ds [] kept = Inr []"
| "make_items ds (x # rest) kept =
     and_then (item_id (as_classid (snd x))) (\<lambda>c.
     and_then (instanceId (as_instanceid (snd x))) (\<lambda>i.
     and_then (required (js_get ds (c @ ''_'' @ i)) Missing_description) (\<lambda>d.
     and_then (money (integer (as_amount (snd x)) 1000000)) (\<lambda>n.
     and_then (check (n \<ge> 1) Invalid_quantity) (\<lambda>_.
     and_then (make_items ds rest ((c @ ''_'' @ i) # kept)) (\<lambda>items.
     Inr (new_item (fst x) c i d n (c @ ''_'' @ i \<notin> set kept) # items)))))))"

definition empty_load :: inventory_load where
  "empty_load = \<lparr>ld_assets = [], ld_descriptions = [], ld_seen = [], ld_cursor = [], ld_total = None\<rparr>"

definition loadInventory :: "inventory_source \<Rightarrow> market_error + item list" where
  "loadInventory src =
     and_then (inventory_pages src 0 maxInventoryPages empty_load) (\<lambda>st.
     and_then (check (Some (int (length (ld_assets st))) = ld_total st) Incomplete_response) (\<lambda>_.
     make_items (ld_descriptions st) (ld_assets st) []))"

section \<open>One copy of each is kept\<close>

definition copies :: "(item \<Rightarrow> int) \<Rightarrow> string \<Rightarrow> item list \<Rightarrow> int" where
  "copies f g items = sum_list (map f (filter (\<lambda>x. item_group x = g) items))"

lemma copies_Nil [simp]: "copies f g [] = 0"
  by (simp add: copies_def)

lemma copies_Cons [simp]: "copies f g (x # xs) = (if item_group x = g then f x else 0) + copies f g xs"
  by (simp add: copies_def)

lemma make_items_groups:
  "make_items ds as kept = Inr items \<Longrightarrow>
   map assetId items = map fst as \<and>
   (\<forall>x\<in>set items. 1 \<le> quantity x \<and> 0 \<le> duplicateQuantity x \<and> duplicateQuantity x \<le> quantity x) \<and>
   copies duplicateQuantity g items =
     copies quantity g items - (if g \<in> item_group ` set items \<and> g \<notin> set kept then 1 else 0)"
proof (induction as arbitrary: kept items)
  case (Cons a as)
  from Cons.prems obtain c i d n rest where
    parts: "n \<ge> 1" "make_items ds as ((c @ ''_'' @ i) # kept) = Inr rest"
    and items: "items = new_item (fst a) c i d n (c @ ''_'' @ i \<notin> set kept) # rest"
    by (auto simp: and_then_eq_Inr)
  from Cons.IH [OF parts(2)] parts(1) show ?case by (auto simp: items new_item_def)
qed simp

lemma add_assets_ok: "js_map_ok m \<Longrightarrow> add_assets as m = Inr m' \<Longrightarrow> js_map_ok m'"
  by (induction as arbitrary: m) (auto simp: and_then_eq_Inr)

lemma integer_le: "integer v lim = Inr n \<Longrightarrow> n \<le> lim"
  by (auto simp: integer_def Let_def split: if_splits)

lemma inventory_pages_ok:
  "js_map_ok (ld_assets st) \<Longrightarrow> inventory_pages src n k st = Inr st' \<Longrightarrow>
   js_map_ok (ld_assets st') \<and> (\<exists>total \<le> maxInventoryItems. ld_total st' = Some total)"
proof (induction k arbitrary: n st)
  case (Suc k)
  from Suc.prems(2) obtain p finished st1 where
    page: "read_inventory_page p st = Inr (finished, st1)"
    and rest: "(if finished then Inr st1 else inventory_pages src (Suc n) k st1) = Inr st'"
    by (auto simp: and_then_eq_Inr)
  have "js_map_ok (ld_assets st1) \<and> (\<exists>total \<le> maxInventoryItems. ld_total st1 = Some total)"
    using page Suc.prems(1) add_assets_ok integer_le
    by (auto simp: read_inventory_page_def Let_def and_then_eq_Inr split: if_splits)
  then show ?case using Suc.IH [of st1 "Suc n"] rest by (cases finished) auto
qed simp

text \<open>
  An inventory that is accepted is complete: its assets are distinct, as many as every page
  reported, at most 40000, each with at least one copy; and the copies reported as duplicates of a
  group are all of its copies but one.
\<close>

theorem inventory_keeps_one_of_each:
  assumes "loadInventory src = Inr items"
  shows "distinct (map assetId items) \<and> int (length items) \<le> 40000 \<and>
    list_all (\<lambda>x. 1 \<le> quantity x \<and> 0 \<le> duplicateQuantity x \<and> duplicateQuantity x \<le> quantity x) items \<and>
    (g \<in> item_group ` set items \<longrightarrow> copies duplicateQuantity g items = copies quantity g items - 1)"
proof -
  from assms obtain st where
    pages: "inventory_pages src 0 maxInventoryPages empty_load = Inr st"
    and size: "Some (int (length (ld_assets st))) = ld_total st"
    and items: "make_items (ld_descriptions st) (ld_assets st) [] = Inr items"
    by (auto simp: loadInventory_def and_then_eq_Inr)
  have "js_map_ok (ld_assets empty_load)" by (simp add: empty_load_def)
  from inventory_pages_ok [OF this pages] size
  have ok: "js_map_ok (ld_assets st)" "int (length (ld_assets st)) \<le> 40000" by (auto simp: maxInventoryItems_def)
  note made = make_items_groups [OF items]
  then have "length items = length (ld_assets st)" by (metis length_map)
  with made ok show ?thesis by (auto simp: js_map_ok_def list_all_iff)
qed

definition card_asset :: "string \<Rightarrow> string \<Rightarrow> raw_asset option" where
  "card_asset i n =
     Some \<lparr>as_appid = Num ''753'', as_contextid = Str ''6'', as_assetid = Str i, as_classid = Str ''7'',
       as_instanceid = Undefined, as_amount = Str n\<rparr>"

definition card_description :: "raw_description option" where
  "card_description =
     Some \<lparr>de_classid = Str ''7'', de_instanceid = Str ''0'', de_market_hash_name = Str ''Card'',
       de_marketable = Num ''1'', de_tradable = Num ''1'', de_market_fee = Undefined\<rparr>"

definition card_pages :: inventory_source where
  "card_pages n cursor =
     Inr \<lparr>pg_success = Num ''1'', pg_total = Num ''2'',
       pg_assets = Some [if n = 0 then card_asset ''11'' ''2'' else card_asset ''12'' ''1''],
       pg_descriptions = Some (if n = 0 then [card_description] else []),
       pg_more_items = (if n = 0 then Num ''1'' else Undefined), pg_last_assetid = Str ''11''\<rparr>"

lemma inventory_keeps_one_of_each_witness:
  "\<exists>items. loadInventory card_pages = Inr items \<and> map quantity items = [2, 1] \<and>
     copies duplicateQuantity ''7_0'' items = 3 - 1"
proof -
  have "loadInventory card_pages = Inr
      [new_item ''11'' ''7'' ''0'' (the card_description) 2 True, new_item ''12'' ''7'' ''0'' (the card_description) 1 False]"
    by code_simp
  from inventory_keeps_one_of_each [OF this, of "''7_0''"] this
  show ?thesis by (auto simp: new_item_def)
qed

section \<open>The own listings\<close>

record raw_listing_asset =
  la_appid :: unknown
  la_contextid :: unknown
  la_id :: unknown
  la_assetid :: unknown
  la_amount :: unknown

record raw_listing =
  rl_listingid :: unknown
  rl_asset :: "raw_listing_asset option"
  rl_currencyid :: unknown
  rl_converted_currencyid :: unknown
  rl_price :: unknown
  rl_fee :: unknown
  rl_converted_price :: unknown
  rl_converted_fee :: unknown

text \<open>The field of the listings may be missing, which is an error.\<close>

record listings_page =
  lp_success :: unknown
  lp_num_active :: unknown
  lp_total_count :: unknown
  lp_active :: "raw_listing option list option"
  lp_on_hold :: "raw_listing option list"
  lp_to_confirm :: "raw_listing option list"

record listing =
  li_listingId :: string
  li_assetId :: string
  li_quantity :: int
  li_sellerReceives :: int
  li_buyerPays :: int
  li_pendingConfirmation :: bool

definition maxListingPages :: nat where "maxListingPages = 20"

record listings_load =
  ll_listings :: "(string, listing) js_map"
  ll_active :: "string list"
  ll_start :: int

definition id_of_text :: "unknown \<Rightarrow> market_error + string" where
  "id_of_text v = item_id (Str (js_string v))"

primrec note_active :: "raw_listing option list \<Rightarrow> string list \<Rightarrow> market_error + string list" where
  "note_active [] ids = Inr ids"
| "note_active (r # rs) ids =
     and_then (required r Incomplete_response) (\<lambda>r.
     and_then (id_of_text (rl_listingid r)) (\<lambda>i.
     and_then (check (i \<notin> set ids) Not_advancing) (\<lambda>_.
     note_active rs (ids @ [i]))))"

definition make_listing :: "wallet \<Rightarrow> raw_listing \<Rightarrow> raw_listing_asset \<Rightarrow> bool \<Rightarrow> market_error + listing" where
  "make_listing w r a on_hold =
     and_then (id_of_text (rl_listingid r)) (\<lambda>i.
     and_then (id_of_text (nullish (la_id a) (la_assetid a))) (\<lambda>asset.
     and_then (money (integer (rl_currencyid r) 3000)) (\<lambda>c.
     let converted = c mod 1000 \<noteq> currency_id (currency w) in
     and_then (if converted then money (integer (rl_converted_currencyid r) 3000) else Inr c) (\<lambda>c2.
     and_then (check (c2 mod 1000 = currency_id (currency w)) Listing_currency) (\<lambda>_.
     and_then (money (integer (if converted then rl_converted_price r else rl_price r) amount_limit)) (\<lambda>base_price.
     and_then (money (integer (if converted then rl_converted_fee r else rl_fee r) amount_limit)) (\<lambda>fees.
     and_then (money (integer (nullish (la_amount a) (Num ''1'')) 1000000)) (\<lambda>n.
     and_then (money (toMinorUnits base_price (currency w))) (\<lambda>seller.
     and_then (money (toMinorUnits (base_price + fees) (currency w))) (\<lambda>buyer.
     Inr \<lparr>li_listingId = i, li_assetId = asset, li_quantity = n, li_sellerReceives = seller, li_buyerPays = buyer,
          li_pendingConfirmation = on_hold\<rparr>))))))))))"

primrec add_listings ::
    "wallet \<Rightarrow> (raw_listing option \<times> bool) list \<Rightarrow> (string, listing) js_map \<Rightarrow> market_error + (string, listing) js_map" where
  "add_listings w [] m = Inr m"
| "add_listings w (x # rest) m =
     and_then (required (fst x) Incomplete_response) (\<lambda>r.
     and_then (required (rl_asset r) Incomplete_response) (\<lambda>a.
     and_then (money (integer (la_appid a) amount_limit)) (\<lambda>appid.
     if appid \<noteq> 753 \<or> js_string (la_contextid a) \<noteq> ''6'' then add_listings w rest m
     else and_then (make_listing w r a (snd x)) (\<lambda>l. add_listings w rest (js_set (li_listingId l) l m)))))"

definition read_listings_page :: "wallet \<Rightarrow> listings_page \<Rightarrow> listings_load \<Rightarrow> market_error + (bool \<times> listings_load)" where
  "read_listings_page w p st =
     and_then (check (success (lp_success p)) (Steam_unavailable 409)) (\<lambda>_.
     and_then (money (integer (nullish (lp_num_active p) (lp_total_count p)) 100000)) (\<lambda>total.
     and_then (required (lp_active p) Incomplete_response) (\<lambda>rows.
     and_then (note_active rows (ll_active st)) (\<lambda>ids.
     and_then (add_listings w (map (\<lambda>r. (r, False)) rows @ map (\<lambda>r. (r, True)) (lp_on_hold p @ lp_to_confirm p))
        (ll_listings st)) (\<lambda>ls.
     let st1 = \<lparr>ll_listings = ls, ll_active = ids, ll_start = ll_start st + int (length rows)\<rparr> in
     if ll_start st1 \<ge> total then and_then (check (int (length ids) = total) Incomplete_response) (\<lambda>_. Inr (True, st1))
     else and_then (check (rows \<noteq> []) Not_advancing) (\<lambda>_. Inr (False, st1)))))))"

type_synonym listings_source = "nat \<Rightarrow> int \<Rightarrow> market_error + listings_page"

fun listings_pages :: "wallet \<Rightarrow> listings_source \<Rightarrow> nat \<Rightarrow> nat \<Rightarrow> listings_load \<Rightarrow> market_error + listings_load" where
  "listings_pages w src n 0 st = Inl Pagination_limit"
| "listings_pages w src n (Suc k) st =
     and_then (src n (ll_start st)) (\<lambda>p.
     and_then (read_listings_page w p st) (\<lambda>(finished, st1).
     if finished then Inr st1 else listings_pages w src (Suc n) k st1))"

definition loadListings :: "listings_source \<Rightarrow> wallet \<Rightarrow> market_error + listing list" where
  "loadListings src w =
     and_then (listings_pages w src 0 maxListingPages \<lparr>ll_listings = [], ll_active = [], ll_start = 0\<rparr>) (\<lambda>st.
     Inr (map snd (ll_listings st)))"

end
