(* ===== verification/SaleService.thy ===== *)
theory SaleService
  imports InventoryPages
begin

text \<open>
  Selling single items and removing listings: \<open>InventoryMarketService\<close> of \<open>inventory/service.ts\<close>,
  with previews, confirmations, the queue of each account and the assets already submitted.

  An operation is cut at its awaits; while it waits other accounts go on, and so do requests that
  take no turn in the queue, such as viewing the inventory. \<open>history\<close> is what passes between the
  service and the outside, newest first: every answer an operation waited for, as it arrived, every
  form posted to sell an item, and every reply to a user. Nothing reads it.
\<close>

section \<open>State\<close>

record sale_intent =
  in_account :: account_id
  in_actor :: string
  in_expiresAt :: millis
  in_assetId :: string
  in_quantity :: int
  in_apiPrice :: int
  in_buyerCap :: int
  in_buyerPaysPerItem :: int
  in_wallet :: wallet
  in_settings :: price_settings

record cancel_intent =
  ca_account :: account_id
  ca_actor :: string
  ca_expiresAt :: millis
  ca_listingId :: string

datatype intent = Sale_intent sale_intent | Cancel_intent cancel_intent

record submission =
  sub_quantity :: int
  sub_before :: int

text \<open>
  What stops an operation: a change of the epochs captured at its start, or the end of its batch job,
  which never runs again once it has stopped.
\<close>

datatype sale_guard = Epochs nat nat | Job_guard string

datatype work =
  Preview_sale string string int string
| Confirm_sale string string
| Run_sale sale_intent
| Preview_cancel string string string
| Confirm_cancel string string
| Run_cancel cancel_intent

text \<open>What an operation waits for.\<close>

datatype stage =
  At_start
| At_inventory
| At_wallet item
| At_settings item wallet
| At_listings item wallet price_settings
| At_preview_listings item wallet
| At_preview_settings item wallet
| At_quote item wallet price_settings
| At_mutate item
| At_recheck item
| At_sell
| At_own_listings
| At_cancel_mutate
| At_remove
| At_verify

record task =
  t_work :: work
  t_guard :: sale_guard
  t_stage :: stage

datatype outcome = Previewed string intent | Listed_item bool | Cancelled_listing

text \<open>
  Steam's answer to the form of a sale: never sent, no readable answer, or its data. To a removal: its
  status, and whether its body could be read.
\<close>

datatype sell_answer = Not_sent | Lost | Answered "string \<Rightarrow> unknown"

datatype remove_answer = Remove_not_sent | Remove_lost | Remove_status int bool

text \<open>The answers an operation may get; \<open>Turn\<close> is its turn in the queue.\<close>

datatype steam_answer =
  Turn
| Inventory_answer inventory_source
| Wallet_answer "market_error + string"
| Settings_answer "market_error + price_settings"
| Listings_answer listings_source
| Quote_answer "market_error + string" "market_error + (string \<Rightarrow> unknown)"
| Mutate_turn "market_error option"
| Sell_answer sell_answer
| Own_listings_answer "market_error + string" listings_source
| Remove_answer remove_answer

text \<open>The form of \<open>/market/sellitem/\<close>, its numbers before they are written in decimal.\<close>

record sell_form =
  fo_appid :: string
  fo_contextid :: string
  fo_assetid :: string
  fo_amount :: int
  fo_price :: int

datatype entry =
  Got account_id steam_answer
| Viewed account_id inventory_source
| Posted account_id sell_form
| Ordered sale_intent string
| Replied account_id "market_error + outcome"

record service =
  intents :: "(string, intent) js_map"
  queues :: "account_id \<Rightarrow> task list"
  submitted :: "(account_id \<times> string, submission) js_map"
  accountEpoch :: "account_id \<Rightarrow> nat"
  shutdownEpoch :: nat
  stopped_jobs :: "string list"
  service_clock :: millis
  history :: "entry list"

definition logged :: "entry \<Rightarrow> service \<Rightarrow> service" where
  "logged e s = s\<lparr>history := e # history s\<rparr>"

definition previewTtl :: millis where "previewTtl = 60000"

definition captureGuard :: "account_id \<Rightarrow> service \<Rightarrow> sale_guard" where
  "captureGuard acc s = Epochs (accountEpoch s acc) (shutdownEpoch s)"

fun continues :: "service \<Rightarrow> account_id \<Rightarrow> sale_guard \<Rightarrow> bool" where
  "continues s acc (Epochs e d) \<longleftrightarrow> accountEpoch s acc = e \<and> shutdownEpoch s = d"
| "continues s acc (Job_guard j) \<longleftrightarrow> j \<notin> set (stopped_jobs s)"

definition going_on :: "service \<Rightarrow> account_id \<Rightarrow> task \<Rightarrow> market_error + unit" where
  "going_on s acc t = check (continues s acc (t_guard t)) Stopped_before_submission"

section \<open>What may be sold\<close>

definition find_item :: "string \<Rightarrow> item list \<Rightarrow> item option" where
  "find_item a items = List.find (\<lambda>x. assetId x = a) items"

text \<open>The copies of an asset that are not submitted.\<close>

definition free_copies :: "(string \<Rightarrow> submission option) \<Rightarrow> item \<Rightarrow> int" where
  "free_copies subs x =
     quantity x - min (quantity x) (case subs (assetId x) of None \<Rightarrow> 0 | Some e \<Rightarrow> sub_quantity e)"

definition assertSellable :: "(string \<Rightarrow> submission option) \<Rightarrow> item list \<Rightarrow> string \<Rightarrow> int \<Rightarrow> market_error + item" where
  "assertSellable subs items a n =
     (case find_item a items of
        None \<Rightarrow> Inl Not_available
      | Some x \<Rightarrow>
          if n < 1 \<or> n > 100 \<or> n > quantity x then Inl Not_available
          else if subs a \<noteq> None then Inl Already_submitted
          else if copies (free_copies subs) (item_group x) items - n < 1 then Inl Keep_one_copy
          else Inr x)"

definition submitted_of :: "service \<Rightarrow> account_id \<Rightarrow> string \<Rightarrow> submission option" where
  "submitted_of s acc a = js_get (submitted s) (acc, a)"

text \<open>The inventory shows that the submitted copies are gone.\<close>

definition settled :: "item list \<Rightarrow> string \<Rightarrow> submission \<Rightarrow> bool" where
  "settled items a e \<longleftrightarrow>
     (case find_item a items of None \<Rightarrow> True | Some x \<Rightarrow> quantity x \<le> sub_before e - sub_quantity e)"

definition releaseSettledSubmissions :: "account_id \<Rightarrow> item list \<Rightarrow> service \<Rightarrow> service" where
  "releaseSettledSubmissions acc items s =
     s\<lparr>submitted := filter (\<lambda>((acc', a), e). \<not> (acc' = acc \<and> settled items a e)) (submitted s)\<rparr>"

section \<open>Quotes\<close>

definition assignedJson :: "page_functions \<Rightarrow> string \<Rightarrow> market_error + (string \<Rightarrow> unknown)" where
  "assignedJson P html =
     (case index_of wallet_variable html of
        None \<Rightarrow> Inl (Steam_unavailable 409)
      | Some _ \<Rightarrow>
          (case wallet_assignment html of
             None \<Rightarrow> Inl (Steam_unavailable 502)
           | Some text \<Rightarrow>
               (case object_end 0 False False text of
                  None \<Rightarrow> Inl (Steam_unavailable 409)
                | Some n \<Rightarrow> required (json_object P (take n text)) (Steam_unavailable 502))))"

definition sale_wallet :: "page_functions \<Rightarrow> string \<Rightarrow> market_error + wallet" where
  "sale_wallet P html = and_then (assignedJson P html) (\<lambda>data. money (parseWallet (fraction_digits P) data))"

text \<open>The first match of \<open>Market_LoadOrderSpread\(\s*(\d+)\s*\)\<close>.\<close>

definition any_spread_argument :: "string \<Rightarrow> bool" where
  "any_spread_argument s =
     (let t = dropWhile is_blank s; ds = takeWhile is_digit t
      in ds \<noteq> [] \<and> prefix '')'' (dropWhile is_blank (drop (length ds) t)))"

fun names_item :: "string \<Rightarrow> bool" where
  "names_item [] = False"
| "names_item (c # cs) =
     ((prefix spread_call (c # cs) \<and> any_spread_argument (drop (length spread_call) (c # cs))) \<or> names_item cs)"

definition number_or_null :: "int option \<Rightarrow> market_error + int" where
  "number_or_null v = (case v of None \<Rightarrow> Inl No_price | Some n \<Rightarrow> if n > amount_limit then Inl (Money_error Invalid_integer) else Inr n)"

text \<open>The reference price in the order book: embedded in the listing page, or asked for.\<close>

definition reference_price ::
    "string \<Rightarrow> market_error + (string \<Rightarrow> unknown) \<Rightarrow> wallet \<Rightarrow> price_settings \<Rightarrow> market_error + int" where
  "reference_price html histogram w st =
     (let highest = (priceMode st = ''highestBuyOrder'') in
      case parseListingOrderBook html of
        Some b \<Rightarrow>
          and_then (check (book_currencyId b = currency_id (currency w)) Listing_currency) (\<lambda>_.
          number_or_null (if highest then book_highestBuyOrder b else book_lowestSellOrder b))
      | None \<Rightarrow>
          and_then (check (names_item html) No_price) (\<lambda>_.
          and_then histogram (\<lambda>data.
          let v = (if highest then data ''highest_buy_order'' else data ''lowest_sell_order'') in
          and_then (check (success (data ''success'') \<and> v \<noteq> Null \<and> v \<noteq> Undefined) No_price) (\<lambda>_.
          money (integer v amount_limit)))))"

definition quote_item ::
    "market_error + string \<Rightarrow> market_error + (string \<Rightarrow> unknown) \<Rightarrow> item \<Rightarrow> wallet \<Rightarrow> price_settings
      \<Rightarrow> market_error + (quote \<times> int)" where
  "quote_item page histogram x w st =
     and_then (check (marketable x \<and> marketHashName x \<noteq> None \<and> marketHashName x \<noteq> Some []) Not_marketable) (\<lambda>_.
     and_then page (\<lambda>html.
     and_then (reference_price html histogram w st) (\<lambda>p.
     and_then (check (p \<ge> 1) No_price) (\<lambda>_.
     money (quoteWithRules (Whole p) w (publisher_fee x) st)))))"

section \<open>Operations\<close>

text \<open>How a part of an operation ends: in an error, waiting for something, or with a result.\<close>

datatype progress = Wait stage | Done outcome

type_synonym part = "(market_error + progress) \<times> service"

definition failing :: "service \<Rightarrow> market_error + progress \<Rightarrow> part" where
  "failing s r = (r, s)"

definition expired_intent :: "millis \<Rightarrow> intent \<Rightarrow> bool" where
  "expired_intent now i = (case i of Sale_intent x \<Rightarrow> in_expiresAt x \<le> now | Cancel_intent x \<Rightarrow> ca_expiresAt x \<le> now)"

definition pruneIntents :: "service \<Rightarrow> (market_error + unit) \<times> service" where
  "pruneIntents s =
     (let left = filter (\<lambda>(k, i). \<not> expired_intent (service_clock s) i) (intents s)
      in (check (int (length left) < 1000) Too_many_previews, s\<lparr>intents := left\<rparr>))"

definition listed :: "string \<Rightarrow> listing list \<Rightarrow> bool" where
  "listed a ls \<longleftrightarrow> list_ex (\<lambda>l. li_assetId l = a) ls"

subsection \<open>Previews of sales\<close>

definition preview_inventory :: "account_id \<Rightarrow> string \<Rightarrow> int \<Rightarrow> inventory_source \<Rightarrow> service \<Rightarrow> part" where
  "preview_inventory acc a n src s =
     (case loadInventory src of
        Inl e \<Rightarrow> (Inl e, s)
      | Inr items \<Rightarrow>
          (let s1 = releaseSettledSubmissions acc items s
           in (and_then (assertSellable (submitted_of s1 acc) items a n) (\<lambda>x. Inr (Wait (At_wallet x))), s1)))"

definition preview_listings :: "string \<Rightarrow> item \<Rightarrow> wallet \<Rightarrow> listings_source \<Rightarrow> market_error + progress" where
  "preview_listings a x w src =
     and_then (loadListings src w) (\<lambda>ls.
     and_then (check (\<not> listed a ls) Already_listed) (\<lambda>_. Inr (Wait (At_preview_settings x w))))"

definition sale_preview ::
    "account_id \<Rightarrow> string \<Rightarrow> string \<Rightarrow> int \<Rightarrow> wallet \<Rightarrow> price_settings \<Rightarrow> quote \<Rightarrow> int \<Rightarrow> millis \<Rightarrow> market_error + sale_intent" where
  "sale_preview acc actor a n w st q cap now =
     (let convert = (\<lambda>v. money (toMinorUnits v (currency w))) in
      and_then (convert (buyerPays q)) (\<lambda>pays.
      and_then (convert (base q)) (\<lambda>_.
      and_then (convert (steamFee q)) (\<lambda>_.
      and_then (convert (publisherFee q)) (\<lambda>_.
      and_then (convert (buyerPays q * n)) (\<lambda>_.
      and_then (convert (base q * n)) (\<lambda>_.
      Inr \<lparr>in_account = acc, in_actor = actor, in_expiresAt = now + previewTtl, in_assetId = a, in_quantity = n,
           in_apiPrice = base q, in_buyerCap = cap, in_buyerPaysPerItem = pays, in_wallet = w, in_settings = st\<rparr>)))))))"

definition preview_quote ::
    "account_id \<Rightarrow> task \<Rightarrow> string \<Rightarrow> string \<Rightarrow> int \<Rightarrow> string \<Rightarrow> item \<Rightarrow> wallet \<Rightarrow> price_settings
      \<Rightarrow> market_error + (quote \<times> int) \<Rightarrow> service \<Rightarrow> part" where
  "preview_quote acc t actor a n new_token x w st quoted s =
     (case and_then quoted (\<lambda>(q, cap).
            and_then (going_on s acc t) (\<lambda>_. sale_preview acc actor a n w st q cap (service_clock s))) of
        Inl e \<Rightarrow> (Inl e, s)
      | Inr i \<Rightarrow> (Inr (Done (Previewed new_token (Sale_intent i))), s\<lparr>intents := js_set new_token (Sale_intent i) (intents s)\<rparr>))"

subsection \<open>Sales\<close>

definition sale_inventory :: "account_id \<Rightarrow> task \<Rightarrow> sale_intent \<Rightarrow> inventory_source \<Rightarrow> service \<Rightarrow> part" where
  "sale_inventory acc t i src s =
     (case loadInventory src of
        Inl e \<Rightarrow> (Inl e, s)
      | Inr items \<Rightarrow>
          (let s1 = releaseSettledSubmissions acc items s
           in (and_then (assertSellable (submitted_of s1 acc) items (in_assetId i) (in_quantity i)) (\<lambda>x.
               and_then (going_on s1 acc t) (\<lambda>_. Inr (Wait (At_wallet x)))), s1)))"

definition sale_settings ::
    "service \<Rightarrow> account_id \<Rightarrow> task \<Rightarrow> sale_intent \<Rightarrow> item \<Rightarrow> wallet \<Rightarrow> market_error + price_settings \<Rightarrow> market_error + progress" where
  "sale_settings s acc t i x w got =
     and_then got (\<lambda>st.
     and_then (going_on s acc t) (\<lambda>_.
     and_then (check (w = in_wallet i \<and> st = in_settings i) Wallet_or_settings_changed) (\<lambda>_.
     Inr (Wait (At_listings x w st)))))"

definition sale_listings ::
    "service \<Rightarrow> account_id \<Rightarrow> task \<Rightarrow> sale_intent \<Rightarrow> item \<Rightarrow> wallet \<Rightarrow> price_settings \<Rightarrow> listings_source \<Rightarrow> market_error + progress" where
  "sale_listings s acc t i x w st src =
     and_then (loadListings src w) (\<lambda>ls.
     and_then (going_on s acc t) (\<lambda>_.
     and_then (check (\<not> listed (in_assetId i) ls) Already_listed) (\<lambda>_. Inr (Wait (At_quote x w st)))))"

definition sale_quote ::
    "service \<Rightarrow> account_id \<Rightarrow> task \<Rightarrow> sale_intent \<Rightarrow> item \<Rightarrow> wallet \<Rightarrow> market_error + (quote \<times> int) \<Rightarrow> market_error + progress" where
  "sale_quote s acc t i x w quoted =
     and_then quoted (\<lambda>(q, cap).
     and_then (going_on s acc t) (\<lambda>_.
     and_then (check (cap = in_buyerCap i \<and> base q = in_apiPrice i) Prices_changed) (\<lambda>_.
     and_then (money (toMinorUnits (buyerPays q) (currency w))) (\<lambda>pays.
     and_then (check (pays = in_buyerPaysPerItem i) Prices_changed) (\<lambda>_.
     Inr (Wait (At_mutate x)))))))"

text \<open>The asset is reserved, and then the form is posted.\<close>

definition sell_request :: "sale_intent \<Rightarrow> sell_form" where
  "sell_request i =
     \<lparr>fo_appid = ''753'', fo_contextid = ''6'', fo_assetid = in_assetId i, fo_amount = in_quantity i,
      fo_price = in_apiPrice i\<rparr>"

definition reserve :: "account_id \<Rightarrow> sale_intent \<Rightarrow> item \<Rightarrow> service \<Rightarrow> service" where
  "reserve acc i x s =
     s\<lparr>submitted := js_set (acc, in_assetId i) \<lparr>sub_quantity = in_quantity i, sub_before = quantity x\<rparr> (submitted s)\<rparr>"

definition sale_recheck ::
    "account_id \<Rightarrow> task \<Rightarrow> sale_intent \<Rightarrow> item \<Rightarrow> market_error + price_settings \<Rightarrow> service \<Rightarrow> part" where
  "sale_recheck acc t i x got s =
     (case and_then got (\<lambda>st. and_then (check (st = in_settings i) Settings_changed) (\<lambda>_. going_on s acc t)) of
        Inl e \<Rightarrow> (Inl e, s)
      | Inr _ \<Rightarrow> (Inr (Wait At_sell), logged (Posted acc (sell_request i)) (reserve acc i x s)))"

definition release_asset :: "account_id \<Rightarrow> string \<Rightarrow> service \<Rightarrow> service" where
  "release_asset acc a s = s\<lparr>submitted := js_delete (acc, a) (submitted s)\<rparr>"

fun sale_answered :: "account_id \<Rightarrow> sale_intent \<Rightarrow> sell_answer \<Rightarrow> service \<Rightarrow> part" where
  "sale_answered acc i Not_sent s = (Inl Stopped_before_submission, release_asset acc (in_assetId i) s)"
| "sale_answered acc i Lost s = (Inl Uncertain_submission, s)"
| "sale_answered acc i (Answered d) s =
     (if \<not> success (d ''success'') then (Inl Rejected_listing, release_asset acc (in_assetId i) s)
      else (Inr (Done (Listed_item (success (d ''needs_mobile_confirmation'') \<or> success (d ''needs_email_confirmation'')))), s))"

subsection \<open>Cancellations\<close>

text \<open>\<open>listings\<close>: the wallet, and the listings in its currency.\<close>

definition own_listings :: "market_error + wallet \<Rightarrow> listings_source \<Rightarrow> market_error + listing list" where
  "own_listings w src = and_then w (\<lambda>w. loadListings src w)"

definition find_listing :: "string \<Rightarrow> listing list \<Rightarrow> listing option" where
  "find_listing i ls = List.find (\<lambda>l. li_listingId l = i) ls"

definition cancel_preview ::
    "account_id \<Rightarrow> task \<Rightarrow> string \<Rightarrow> string \<Rightarrow> string \<Rightarrow> market_error + listing list \<Rightarrow> service \<Rightarrow> part" where
  "cancel_preview acc t actor l new_token got s =
     (case and_then got (\<lambda>ls. and_then (going_on s acc t) (\<lambda>_. required (find_listing l ls) Listing_gone)) of
        Inl e \<Rightarrow> (Inl e, s)
      | Inr _ \<Rightarrow>
          (let i = Cancel_intent \<lparr>ca_account = acc, ca_actor = actor, ca_expiresAt = service_clock s + previewTtl,
                 ca_listingId = l\<rparr>
           in (Inr (Done (Previewed new_token i)), s\<lparr>intents := js_set new_token i (intents s)\<rparr>)))"

definition cancel_listings :: "service \<Rightarrow> account_id \<Rightarrow> task \<Rightarrow> string \<Rightarrow> market_error + listing list \<Rightarrow> market_error + progress" where
  "cancel_listings s acc t l got =
     and_then got (\<lambda>ls.
     and_then (going_on s acc t) (\<lambda>_.
     and_then (required (find_listing l ls) Listing_gone) (\<lambda>_. Inr (Wait At_cancel_mutate))))"

fun remove_answered :: "remove_answer \<Rightarrow> market_error + progress" where
  "remove_answered Remove_not_sent = Inl Stopped_before_submission"
| "remove_answered Remove_lost = Inl Uncertain_submission"
| "remove_answered (Remove_status status readable) =
     (if status \<ge> 500 then Inl Uncertain_submission
      else if \<not> (200 \<le> status \<and> status < 300) then Inl (Not_cancelled (if status = 429 then 429 else 409))
      else if \<not> readable then Inl Uncertain_submission
      else Inr (Wait At_verify))"

definition cancel_verified :: "string \<Rightarrow> market_error + listing list \<Rightarrow> market_error + progress" where
  "cancel_verified l got =
     (case got of
        Inl _ \<Rightarrow> Inl Uncertain_submission
      | Inr ls \<Rightarrow> if find_listing l ls \<noteq> None then Inl Not_confirmed_removed else Inr (Done Cancelled_listing))"

subsection \<open>The start of an operation\<close>

datatype intent_kind = Of_sale | Of_cancel

fun intent_matches :: "intent_kind \<Rightarrow> account_id \<Rightarrow> string \<Rightarrow> intent \<Rightarrow> bool" where
  "intent_matches Of_sale acc actor (Sale_intent i) \<longleftrightarrow> in_account i = acc \<and> in_actor i = actor"
| "intent_matches Of_cancel acc actor (Cancel_intent i) \<longleftrightarrow> ca_account i = acc \<and> ca_actor i = actor"
| "intent_matches k acc actor i \<longleftrightarrow> False"

definition takeIntent :: "account_id \<Rightarrow> string \<Rightarrow> string \<Rightarrow> intent_kind \<Rightarrow> service \<Rightarrow> (market_error + intent) \<times> service" where
  "takeIntent acc actor tok k s =
     (case js_get (intents s) tok of
        None \<Rightarrow> (Inl Preview_invalid, s)
      | Some i \<Rightarrow>
          if \<not> intent_matches k acc actor i then (Inl Preview_invalid, s)
          else let s1 = s\<lparr>intents := js_delete tok (intents s)\<rparr> in
            if expired_intent (service_clock s) i then (Inl Preview_expired, s1) else (Inr i, s1))"

text \<open>The work an operation goes on with, and what it waits for first.\<close>

definition start_work :: "account_id \<Rightarrow> task \<Rightarrow> service \<Rightarrow> (market_error + (work \<times> stage)) \<times> service" where
  "start_work acc t s =
     (if \<not> continues s acc (t_guard t) then (Inl Stopped_before_submission, s)
      else case t_work t of
        Preview_sale actor a n tok \<Rightarrow>
          (case pruneIntents s of (r, s1) \<Rightarrow> (and_then r (\<lambda>_. Inr (t_work t, At_inventory)), s1))
      | Confirm_sale actor tok \<Rightarrow>
          (case takeIntent acc actor tok Of_sale s of
             (Inr (Sale_intent i), s1) \<Rightarrow> (Inr (Run_sale i, At_inventory), s1)
           | (Inr (Cancel_intent i), s1) \<Rightarrow> (Inl Preview_invalid, s1)
           | (Inl e, s1) \<Rightarrow> (Inl e, s1))
      | Run_sale i \<Rightarrow> (Inr (Run_sale i, At_inventory), s)
      | Preview_cancel actor l tok \<Rightarrow>
          (case pruneIntents s of (r, s1) \<Rightarrow> (and_then r (\<lambda>_. Inr (t_work t, At_own_listings)), s1))
      | Confirm_cancel actor tok \<Rightarrow>
          (case takeIntent acc actor tok Of_cancel s of
             (Inr (Cancel_intent i), s1) \<Rightarrow> (Inr (Run_cancel i, At_own_listings), s1)
           | (Inr (Sale_intent i), s1) \<Rightarrow> (Inl Preview_invalid, s1)
           | (Inl e, s1) \<Rightarrow> (Inl e, s1))
      | Run_cancel i \<Rightarrow> (Inr (Run_cancel i, At_own_listings), s))"

section \<open>Steps\<close>

text \<open>One part of an operation; an answer it does not wait for changes nothing.\<close>

definition sale_part :: "page_functions \<Rightarrow> account_id \<Rightarrow> task \<Rightarrow> sale_intent \<Rightarrow> stage \<Rightarrow> steam_answer \<Rightarrow> service \<Rightarrow> part option" where
  "sale_part P acc t i stage got s =
     (case stage of
        At_inventory \<Rightarrow>
          (case got of
             Inventory_answer src \<Rightarrow>
               Some (sale_inventory acc t i src s)
           | _ \<Rightarrow> None)
      | At_wallet x \<Rightarrow>
          (case got of
             Wallet_answer html \<Rightarrow>
               Some (failing s (and_then html (\<lambda>html. and_then (sale_wallet P html) (\<lambda>w.
       and_then (going_on s acc t) (\<lambda>_. Inr (Wait (At_settings x w)))))))
           | _ \<Rightarrow> None)
      | At_settings x w \<Rightarrow>
          (case got of
             Settings_answer st \<Rightarrow>
               Some (failing s (sale_settings s acc t i x w st))
           | _ \<Rightarrow> None)
      | At_listings x w st \<Rightarrow>
          (case got of
             Listings_answer src \<Rightarrow>
               Some (failing s (sale_listings s acc t i x w st src))
           | _ \<Rightarrow> None)
      | At_quote x w st \<Rightarrow>
          (case got of
             Quote_answer html hist \<Rightarrow>
               Some (failing s (sale_quote s acc t i x w (quote_item html hist x w st)))
           | _ \<Rightarrow> None)
      | At_mutate x \<Rightarrow>
          (case got of
             Mutate_turn e \<Rightarrow>
               Some (failing s (case e of
        Some e \<Rightarrow> Inl e
      | None \<Rightarrow> and_then (going_on s acc t) (\<lambda>_. Inr (Wait (At_recheck x)))))
           | _ \<Rightarrow> None)
      | At_recheck x \<Rightarrow>
          (case got of
             Settings_answer st \<Rightarrow>
               Some (sale_recheck acc t i x st s)
           | _ \<Rightarrow> None)
      | At_sell \<Rightarrow>
          (case got of
             Sell_answer r \<Rightarrow>
               Some (sale_answered acc i r s)
           | _ \<Rightarrow> None)
      | _ \<Rightarrow> None)"

definition preview_part ::
    "page_functions \<Rightarrow> account_id \<Rightarrow> task \<Rightarrow> string \<Rightarrow> string \<Rightarrow> int \<Rightarrow> string \<Rightarrow> stage \<Rightarrow> steam_answer \<Rightarrow> service \<Rightarrow> part option" where
  "preview_part P acc t actor a n tok stage got s =
     (case stage of
        At_inventory \<Rightarrow>
          (case got of
             Inventory_answer src \<Rightarrow>
               Some (preview_inventory acc a n src s)
           | _ \<Rightarrow> None)
      | At_wallet x \<Rightarrow>
          (case got of
             Wallet_answer html \<Rightarrow>
               Some (failing s (and_then html (\<lambda>html. and_then (sale_wallet P html) (\<lambda>w. Inr (Wait (At_preview_listings x w))))))
           | _ \<Rightarrow> None)
      | At_preview_listings x w \<Rightarrow>
          (case got of
             Listings_answer src \<Rightarrow>
               Some (failing s (preview_listings a x w src))
           | _ \<Rightarrow> None)
      | At_preview_settings x w \<Rightarrow>
          (case got of
             Settings_answer st \<Rightarrow>
               Some (failing s (and_then st (\<lambda>st. Inr (Wait (At_quote x w st)))))
           | _ \<Rightarrow> None)
      | At_quote x w st \<Rightarrow>
          (case got of
             Quote_answer html hist \<Rightarrow>
               Some (preview_quote acc t actor a n tok x w st (quote_item html hist x w st) s)
           | _ \<Rightarrow> None)
      | _ \<Rightarrow> None)"

definition cancel_part :: "page_functions \<Rightarrow> account_id \<Rightarrow> task \<Rightarrow> string \<Rightarrow> stage \<Rightarrow> steam_answer \<Rightarrow> service \<Rightarrow> part option" where
  "cancel_part P acc t l stage got s =
     (case stage of
        At_own_listings \<Rightarrow>
          (case got of
             Own_listings_answer html src \<Rightarrow>
               Some (failing s (cancel_listings s acc t l (own_listings (and_then html (sale_wallet P)) src)))
           | _ \<Rightarrow> None)
      | At_cancel_mutate \<Rightarrow>
          (case got of
             Mutate_turn e \<Rightarrow>
               Some (failing s (case e of Some e \<Rightarrow> Inl e | None \<Rightarrow> and_then (going_on s acc t) (\<lambda>_. Inr (Wait At_remove))))
           | _ \<Rightarrow> None)
      | At_remove \<Rightarrow>
          (case got of
             Remove_answer r \<Rightarrow>
               Some (failing s (remove_answered r))
           | _ \<Rightarrow> None)
      | At_verify \<Rightarrow>
          (case got of
             Own_listings_answer html src \<Rightarrow>
               Some (failing s (cancel_verified l (own_listings (and_then html (sale_wallet P)) src)))
           | _ \<Rightarrow> None)
      | _ \<Rightarrow> None)"

definition task_part :: "page_functions \<Rightarrow> account_id \<Rightarrow> task \<Rightarrow> steam_answer \<Rightarrow> service \<Rightarrow> part option" where
  "task_part P acc t ans s =
     (case t_work t of
        Run_sale i \<Rightarrow> sale_part P acc t i (t_stage t) ans s
      | Preview_sale actor a n tok \<Rightarrow> preview_part P acc t actor a n tok (t_stage t) ans s
      | Run_cancel i \<Rightarrow> cancel_part P acc t (ca_listingId i) (t_stage t) ans s
      | Preview_cancel actor l tok \<Rightarrow>
          (case ans of
             Own_listings_answer html src \<Rightarrow>
               Some (cancel_preview acc t actor l tok (own_listings (and_then html (sale_wallet P)) src) s)
           | _ \<Rightarrow> None)
      | _ \<Rightarrow> None)"

definition set_head :: "account_id \<Rightarrow> task \<Rightarrow> service \<Rightarrow> service" where
  "set_head acc t s = s\<lparr>queues := (queues s)(acc := t # tl (queues s acc))\<rparr>"

definition end_head :: "account_id \<Rightarrow> market_error + outcome \<Rightarrow> service \<Rightarrow> service" where
  "end_head acc r s =
     logged (Replied acc r) (s\<lparr>queues := (queues s)(acc := tl (queues s acc))\<rparr>)"

definition apply_part :: "account_id \<Rightarrow> task \<Rightarrow> part \<Rightarrow> service" where
  "apply_part acc t r =
     (case r of
        (Inl e, s) \<Rightarrow> end_head acc (Inl e) s
      | (Inr (Done o'), s) \<Rightarrow> end_head acc (Inr o') s
      | (Inr (Wait st), s) \<Rightarrow> set_head acc (t\<lparr>t_stage := st\<rparr>) s)"

definition start_head :: "account_id \<Rightarrow> task \<Rightarrow> service \<Rightarrow> service" where
  "start_head acc t s =
     (case start_work acc t s of
        (Inl e, s1) \<Rightarrow> end_head acc (Inl e) s1
      | (Inr (w, st), s1) \<Rightarrow> set_head acc (t\<lparr>t_work := w, t_stage := st\<rparr>) s1)"

text \<open>The first task of an account is the one that runs.\<close>

definition step_head :: "page_functions \<Rightarrow> account_id \<Rightarrow> steam_answer \<Rightarrow> service \<Rightarrow> service" where
  "step_head P acc ans s =
     (case queues s acc of
        [] \<Rightarrow> s
      | t # _ \<Rightarrow>
          if t_stage t = At_start then (case ans of Turn \<Rightarrow> start_head acc t s | _ \<Rightarrow> s)
          else case task_part P acc t ans (logged (Got acc ans) s) of None \<Rightarrow> s | Some r \<Rightarrow> apply_part acc t r)"

definition enqueue :: "account_id \<Rightarrow> work \<Rightarrow> sale_guard \<Rightarrow> service \<Rightarrow> service" where
  "enqueue acc w g s =
     s\<lparr>queues := (queues s)(acc := queues s acc @ [\<lparr>t_work = w, t_guard = g, t_stage = At_start\<rparr>])\<rparr>"

definition stopAccountBatches :: "account_id \<Rightarrow> service \<Rightarrow> service" where
  "stopAccountBatches acc s =
     s\<lparr>accountEpoch := (accountEpoch s)(acc := accountEpoch s acc + 1),
       intents := filter (\<lambda>(k, i). case i of Sale_intent x \<Rightarrow> in_account x \<noteq> acc | Cancel_intent x \<Rightarrow> ca_account x \<noteq> acc) (intents s)\<rparr>"

definition shutdownBatches :: "service \<Rightarrow> service" where
  "shutdownBatches s = s\<lparr>shutdownEpoch := shutdownEpoch s + 1, intents := []\<rparr>"

text \<open>\<open>inventory\<close>: viewing takes no turn in the queue.\<close>

definition view_inventory :: "account_id \<Rightarrow> inventory_source \<Rightarrow> service \<Rightarrow> service" where
  "view_inventory acc src s =
     (let s1 = logged (Viewed acc src) s
      in case loadInventory src of Inl e \<Rightarrow> s1 | Inr items \<Rightarrow> releaseSettledSubmissions acc items s1)"

text \<open>The requests of users: the account must have no running batch.\<close>

fun user_work :: "work \<Rightarrow> bool" where
  "user_work (Run_sale i) = False"
| "user_work (Run_cancel i) = False"
| "user_work w = True"

datatype service_event =
  Ask account_id work bool
| Batch_sale sale_intent string
| Batch_cancel cancel_intent string
| Step account_id steam_answer
| View account_id inventory_source
| Stop_account account_id
| Shut_down_service
| Job_stops string
| Time millis

fun service_step :: "page_functions \<Rightarrow> service_event \<Rightarrow> service \<Rightarrow> service" where
  "service_step P (Ask acc w idle) s =
     (if \<not> user_work w then s
      else if \<not> idle then logged (Replied acc (Inl Batch_active)) s
      else enqueue acc w (captureGuard acc s) s)"
| "service_step P (Batch_sale i j) s = enqueue (in_account i) (Run_sale i) (Job_guard j) (logged (Ordered i j) s)"
| "service_step P (Batch_cancel i j) s = enqueue (ca_account i) (Run_cancel i) (Job_guard j) s"
| "service_step P (Step acc ans) s = step_head P acc ans s"
| "service_step P (View acc src) s = view_inventory acc src s"
| "service_step P (Stop_account acc) s = stopAccountBatches acc s"
| "service_step P Shut_down_service s = shutdownBatches s"
| "service_step P (Job_stops j) s = s\<lparr>stopped_jobs := j # stopped_jobs s\<rparr>"
| "service_step P (Time d) s = s\<lparr>service_clock := service_clock s + max 0 d\<rparr>"

definition service_steps :: "page_functions \<Rightarrow> service_event list \<Rightarrow> service \<Rightarrow> service" where
  "service_steps P = fold (service_step P)"

definition new_service :: "millis \<Rightarrow> service" where
  "new_service now =
     \<lparr>intents = [], queues = \<lambda>_. [], submitted = [], accountEpoch = \<lambda>_. 0, shutdownEpoch = 0, stopped_jobs = [],
      service_clock = now, history = []\<rparr>"

end
