(* ===== verification/SaleSafety.thy ===== *)
theory SaleSafety
  imports SaleService
begin

text \<open>
  What the selling of single items keeps, for any answers of Steam and any interleaving of requests,
  stated over what passes between the service and the outside (\<open>history\<close>): an asset is not posted
  again while an earlier form of it is unresolved, a sale keeps a copy, and what is posted is what was
  previewed, at a quote of the market that was read, within the limits that are saved.
\<close>

section \<open>What the answers say\<close>

definition read_inventory :: "inventory_source \<Rightarrow> item list option" where
  "read_inventory src = (case loadInventory src of Inl _ \<Rightarrow> None | Inr items \<Rightarrow> Some items)"

definition inventory_of :: "steam_answer \<Rightarrow> item list option" where
  "inventory_of ans = (case ans of Inventory_answer src \<Rightarrow> read_inventory src | _ \<Rightarrow> None)"

definition wallet_of :: "page_functions \<Rightarrow> steam_answer \<Rightarrow> wallet option" where
  "wallet_of P ans =
     (case ans of
        Wallet_answer (Inr html) \<Rightarrow> (case sale_wallet P html of Inl _ \<Rightarrow> None | Inr w \<Rightarrow> Some w)
      | _ \<Rightarrow> None)"

definition quote_of :: "steam_answer \<Rightarrow> (string \<times> (market_error + (string \<Rightarrow> unknown))) option" where
  "quote_of ans = (case ans of Quote_answer (Inr html) hist \<Rightarrow> Some (html, hist) | _ \<Rightarrow> None)"

text \<open>The inventory of an account that an entry shows, as an answer or as a view.\<close>

definition inventory_in :: "account_id \<Rightarrow> entry \<Rightarrow> item list option" where
  "inventory_in acc e =
     (case e of
        Got acc' ans \<Rightarrow> if acc' = acc then inventory_of ans else None
      | Viewed acc' src \<Rightarrow> if acc' = acc then read_inventory src else None
      | _ \<Rightarrow> None)"

text \<open>The last answer to an operation of the account from which \<open>g\<close> reads something, and its last form.\<close>

fun last_answer :: "(steam_answer \<Rightarrow> 'b option) \<Rightarrow> entry list \<Rightarrow> account_id \<Rightarrow> 'b option" where
  "last_answer g [] acc = None"
| "last_answer g (e # h) acc =
     (case e of
        Got acc' ans \<Rightarrow> if acc' = acc \<and> g ans \<noteq> None then g ans else last_answer g h acc
      | _ \<Rightarrow> last_answer g h acc)"

fun last_posted :: "entry list \<Rightarrow> account_id \<Rightarrow> sell_form option" where
  "last_posted [] acc = None"
| "last_posted (e # h) acc =
     (case e of Posted acc' f \<Rightarrow> if acc' = acc then Some f else last_posted h acc | _ \<Rightarrow> last_posted h acc)"

text \<open>
  Steam certainly made no listing: the form was never sent, or its answer says there was no success. A
  lost answer says nothing.
\<close>

definition refused :: "sell_answer \<Rightarrow> bool" where
  "refused r \<longleftrightarrow>
     (case r of
        Not_sent \<Rightarrow> True
      | Lost \<Rightarrow> False
      | Answered d \<Rightarrow> d ''success'' \<noteq> Bool True \<and> d ''success'' \<noteq> Num ''1'' \<and> d ''success'' \<noteq> Str ''1'')"

text \<open>The copies that were sold have left the inventory.\<close>

definition gone :: "item list \<Rightarrow> string \<Rightarrow> submission \<Rightarrow> bool" where
  "gone items a e \<longleftrightarrow> (\<forall>x\<in>set items. assetId x = a \<longrightarrow> quantity x \<le> sub_before e - sub_quantity e)"

text \<open>
  The sale of an asset that is unresolved: posted, with the copies there were when the account's inventory
  was last read for an operation, until Steam refuses it or an inventory shows the copies gone.
\<close>

definition stack_before :: "entry list \<Rightarrow> account_id \<Rightarrow> string \<Rightarrow> int" where
  "stack_before h acc a =
     (case last_answer inventory_of h acc of
        None \<Rightarrow> 0
      | Some items \<Rightarrow> (case find_item a items of None \<Rightarrow> 0 | Some x \<Rightarrow> quantity x))"

fun open_sale :: "entry list \<Rightarrow> account_id \<Rightarrow> string \<Rightarrow> submission option" where
  "open_sale [] acc a = None"
| "open_sale (e # h) acc a =
     (if \<exists>f. e = Posted acc f \<and> fo_assetid f = a
      then map_option (\<lambda>f. \<lparr>sub_quantity = fo_amount f, sub_before = stack_before h acc a\<rparr>) (last_posted (e # h) acc)
      else if \<exists>r f. e = Got acc (Sell_answer r) \<and> refused r \<and> last_posted h acc = Some f \<and> fo_assetid f = a then None
      else case (inventory_in acc e, open_sale h acc a) of
        (Some items, Some s) \<Rightarrow> if gone items a s then None else Some s
      | (_, s) \<Rightarrow> s)"

text \<open>
  Since the account's last form an inventory was shown in which the sale leaves a copy, not counting copies
  whose sale is unresolved.
\<close>

fun kept_one :: "entry list \<Rightarrow> account_id \<Rightarrow> sell_form \<Rightarrow> item \<Rightarrow> bool" where
  "kept_one [] acc f x = False"
| "kept_one (e # h) acc f x =
     ((\<exists>items. inventory_in acc e = Some items \<and>
         assertSellable (open_sale (e # h) acc) items (fo_assetid f) (fo_amount f) = Inr x) \<or>
      (\<forall>g. e \<noteq> Posted acc g) \<and> kept_one h acc f x)"

text \<open>
  The price a listing page, or the histogram it names, gives in the mode of the settings: the highest buy
  order or the lowest offer, in the currency of the wallet.
\<close>

definition market_price ::
    "string \<Rightarrow> market_error + (string \<Rightarrow> unknown) \<Rightarrow> wallet \<Rightarrow> string \<Rightarrow> int \<Rightarrow> bool" where
  "market_price html hist w mode p \<longleftrightarrow>
     (case parseListingOrderBook html of
        Some b \<Rightarrow> book_currencyId b = currency_id (currency w) \<and>
          (if mode = ''highestBuyOrder'' then book_highestBuyOrder b else book_lowestSellOrder b) = Some p
      | None \<Rightarrow> (\<exists>data. hist = Inr data \<and>
          integer (data (if mode = ''highestBuyOrder'' then ''highest_buy_order'' else ''lowest_sell_order'')) amount_limit = Inr p))"

text \<open>A user was shown the preview, or a batch of previews was confirmed.\<close>

definition was_previewed :: "entry list \<Rightarrow> sale_intent \<Rightarrow> bool" where
  "was_previewed h i \<longleftrightarrow> (\<exists>tok. Replied (in_account i) (Inr (Previewed tok (Sale_intent i))) \<in> set h)"

definition approved :: "entry list \<Rightarrow> account_id \<Rightarrow> sale_intent \<Rightarrow> bool" where
  "approved h acc i \<longleftrightarrow> in_account i = acc \<and> (was_previewed h i \<or> (\<exists>j. Ordered i j \<in> set h))"

definition seen_item :: "entry list \<Rightarrow> account_id \<Rightarrow> string \<Rightarrow> item \<Rightarrow> bool" where
  "seen_item h acc a x \<longleftrightarrow> (\<exists>items. last_answer inventory_of h acc = Some items \<and> find_item a items = Some x)"

text \<open>The quote at the reference price has the amounts of the preview.\<close>

definition priced :: "sale_intent \<Rightarrow> item \<Rightarrow> int \<Rightarrow> bool" where
  "priced i x p \<longleftrightarrow>
     (\<exists>q. quoteWithRules (Whole p) (in_wallet i) (publisher_fee x) (in_settings i) = Inr (q, in_buyerCap i) \<and>
        base q = in_apiPrice i \<and> toMinorUnits (buyerPays q) (currency (in_wallet i)) = Inr (in_buyerPaysPerItem i))"

definition market_quoted :: "entry list \<Rightarrow> account_id \<Rightarrow> sale_intent \<Rightarrow> item \<Rightarrow> bool" where
  "market_quoted h acc i x \<longleftrightarrow>
     (\<exists>html hist p. last_answer quote_of h acc = Some (html, hist) \<and>
        market_price html hist (in_wallet i) (priceMode (in_settings i)) p \<and> priced i x p)"

definition posted_ok :: "page_functions \<Rightarrow> entry list \<Rightarrow> account_id \<Rightarrow> sell_form \<Rightarrow> bool" where
  "posted_ok P h acc f \<longleftrightarrow>
     open_sale h acc (fo_assetid f) = None \<and>
     (\<exists>i x rest. f = sell_request i \<and> approved h acc i \<and> kept_one h acc f x \<and> seen_item h acc (fo_assetid f) x \<and>
        h = Got acc (Settings_answer (Inr (in_settings i))) # rest \<and>
        last_answer (wallet_of P) h acc = Some (in_wallet i) \<and> market_quoted h acc i x)"

fun history_ok :: "page_functions \<Rightarrow> entry list \<Rightarrow> bool" where
  "history_ok P [] = True"
| "history_ok P (e # h) = ((\<forall>acc f. e = Posted acc f \<longrightarrow> posted_ok P h acc f) \<and> history_ok P h)"

section \<open>Entries that change little\<close>

text \<open>An entry that is no answer to an operation of the account, and no form of it.\<close>

definition quiet :: "account_id \<Rightarrow> entry \<Rightarrow> bool" where
  "quiet acc e \<longleftrightarrow> (\<forall>ans. e \<noteq> Got acc ans) \<and> (\<forall>f. e \<noteq> Posted acc f)"

text \<open>An answer that shows no inventory and settles no form.\<close>

definition plain :: "steam_answer \<Rightarrow> bool" where
  "plain ans \<longleftrightarrow> (\<forall>src. ans \<noteq> Inventory_answer src) \<and> (\<forall>r. ans \<noteq> Sell_answer r)"

lemma quiet_simps [simp]:
  "quiet acc (Replied acc' r)" "quiet acc (Ordered i j)" "quiet acc (Viewed acc' src)"
  "quiet acc (Got acc' ans) \<longleftrightarrow> acc' \<noteq> acc" "quiet acc (Posted acc' f) \<longleftrightarrow> acc' \<noteq> acc"
  by (auto simp: quiet_def)

lemma quiet_last:
  assumes "quiet acc e"
  shows "last_answer g (e # h) acc = last_answer g h acc" "last_posted (e # h) acc = last_posted h acc"
  using assms by (auto split: entry.split)

lemma quiet_open: "quiet acc e \<Longrightarrow> open_sale h acc a = None \<Longrightarrow> open_sale (e # h) acc a = None"
  by (auto split: option.split)

lemma quiet_kept: "(\<And>g. e \<noteq> Posted acc g) \<Longrightarrow> kept_one h acc f x \<Longrightarrow> kept_one (e # h) acc f x"
  by simp

lemma plain_open:
  "plain ans \<Longrightarrow> open_sale (Got acc ans # h) = open_sale h"
  by (auto simp: fun_eq_iff plain_def inventory_in_def inventory_of_def split: steam_answer.split)

lemma silent_open: "open_sale (Replied acc r # h) = open_sale h" "open_sale (Ordered i j # h) = open_sale h"
  by (simp_all add: fun_eq_iff inventory_in_def)

lemma previewed_later: "was_previewed h i \<Longrightarrow> was_previewed (new @ h) i"
  by (auto simp: was_previewed_def)

lemma approved_later: "approved h acc i \<Longrightarrow> approved (new @ h) acc i"
  by (auto simp: approved_def was_previewed_def)

section \<open>The invariant\<close>

text \<open>The map of submitted assets is what is unresolved.\<close>

definition store_inv :: "page_functions \<Rightarrow> service \<Rightarrow> bool" where
  "store_inv P s \<longleftrightarrow> js_map_ok (submitted s) \<and> (\<forall>acc a. submitted_of s acc a = open_sale (history s) acc a) \<and>
     history_ok P (history s)"

definition sellable_now :: "entry list \<Rightarrow> account_id \<Rightarrow> sale_intent \<Rightarrow> item \<Rightarrow> bool" where
  "sellable_now h acc i x \<longleftrightarrow> open_sale h acc (in_assetId i) = None \<and> kept_one h acc (sell_request i) x \<and>
     seen_item h acc (in_assetId i) x"

definition sale_stage_ok :: "page_functions \<Rightarrow> entry list \<Rightarrow> account_id \<Rightarrow> sale_intent \<Rightarrow> stage \<Rightarrow> bool" where
  "sale_stage_ok P h acc i st \<longleftrightarrow>
     (case st of
        At_wallet x \<Rightarrow> sellable_now h acc i x
      | At_settings x w \<Rightarrow> sellable_now h acc i x \<and> last_answer (wallet_of P) h acc = Some w
      | At_listings x w se \<Rightarrow> sellable_now h acc i x \<and> last_answer (wallet_of P) h acc = Some w \<and> w = in_wallet i \<and> se = in_settings i
      | At_quote x w se \<Rightarrow> sellable_now h acc i x \<and> last_answer (wallet_of P) h acc = Some w \<and> w = in_wallet i \<and> se = in_settings i
      | At_mutate x \<Rightarrow> sellable_now h acc i x \<and> last_answer (wallet_of P) h acc = Some (in_wallet i) \<and> market_quoted h acc i x
      | At_recheck x \<Rightarrow> sellable_now h acc i x \<and> last_answer (wallet_of P) h acc = Some (in_wallet i) \<and> market_quoted h acc i x
      | At_sell \<Rightarrow> last_posted h acc = Some (sell_request i)
      | _ \<Rightarrow> True)"

definition task_ok :: "page_functions \<Rightarrow> entry list \<Rightarrow> account_id \<Rightarrow> task \<Rightarrow> bool" where
  "task_ok P h acc t \<longleftrightarrow>
     (case t_work t of Run_sale i \<Rightarrow> approved h acc i \<and> sale_stage_ok P h acc i (t_stage t) | _ \<Rightarrow> True)"

fun tasks_ok :: "page_functions \<Rightarrow> entry list \<Rightarrow> account_id \<Rightarrow> task list \<Rightarrow> bool" where
  "tasks_ok P h acc [] = True"
| "tasks_ok P h acc (t # ts) = (list_all (task_ok P h acc) (t # ts) \<and> list_all (\<lambda>u. t_stage u = At_start) ts)"

definition intents_ok :: "service \<Rightarrow> bool" where
  "intents_ok s \<longleftrightarrow> (\<forall>tok i. js_get (intents s) tok = Some (Sale_intent i) \<longrightarrow> was_previewed (history s) i)"

definition service_inv :: "page_functions \<Rightarrow> service \<Rightarrow> bool" where
  "service_inv P s \<longleftrightarrow> store_inv P s \<and> js_map_ok (intents s) \<and> intents_ok s \<and> (\<forall>acc. tasks_ok P (history s) acc (queues s acc))"

lemma quiet_stage:
  assumes "quiet acc e" "sale_stage_ok P h acc i st"
  shows "sale_stage_ok P (e # h) acc i st"
proof -
  have posted: "\<And>g. e \<noteq> Posted acc g" using assms(1) by (auto simp: quiet_def)
  have "sellable_now (e # h) acc i x" if "sellable_now h acc i x" for x
    using that quiet_open [OF assms(1)] quiet_kept [OF posted] quiet_last(1) [OF assms(1)]
    unfolding sellable_now_def seen_item_def by (metis (no_types))
  then show ?thesis
    using assms(2)
    by (auto simp: quiet_last [OF assms(1)] sale_stage_ok_def market_quoted_def simp del: last_answer.simps last_posted.simps split: stage.splits)
qed

lemma quiet_stages: "list_all (quiet acc) new \<Longrightarrow> sale_stage_ok P h acc i st \<Longrightarrow> sale_stage_ok P (new @ h) acc i st"
  by (induction new) (simp_all add: quiet_stage)

lemma task_later: "list_all (quiet acc) new \<Longrightarrow> task_ok P h acc t \<Longrightarrow> task_ok P (new @ h) acc t"
  by (auto simp: task_ok_def approved_later quiet_stages split: work.splits)

lemma tasks_later:
  assumes "list_all (quiet acc) new" "tasks_ok P h acc q"
  shows "tasks_ok P (new @ h) acc q"
  using assms(2) task_later [OF assms(1), of P h] by (cases q) (auto simp: list_all_iff)

lemma waiting_task: "t_stage t = At_start \<Longrightarrow> task_ok P h acc t \<Longrightarrow> task_ok P (new @ h) acc t"
  by (auto simp: task_ok_def approved_later sale_stage_ok_def split: work.splits)

lemma waiting_tasks:
  "list_all (\<lambda>u. t_stage u = At_start) q \<Longrightarrow> list_all (task_ok P h acc) q \<Longrightarrow> tasks_ok P (new @ h) acc q"
  using waiting_task [of _ P h acc new] by (cases q) (auto simp: list_all_iff)


section \<open>Changes of the submitted assets\<close>

lemma inventory_distinct: "loadInventory src = Inr items \<Longrightarrow> distinct (map assetId items)"
  using inventory_keeps_one_of_each by blast

lemma found_unique:
  assumes "distinct (map assetId items)" "x \<in> set items"
  shows "find_item (assetId x) items = Some x"
  using assms by (induction items) (auto simp: find_item_def)

lemma found_member: "find_item a items = Some x \<Longrightarrow> x \<in> set items \<and> assetId x = a"
  by (auto simp: find_item_def find_Some_iff)

lemma settled_gone:
  assumes "distinct (map assetId items)"
  shows "settled items a e = gone items a e"
proof (cases "find_item a items")
  case None
  then have "\<forall>x\<in>set items. assetId x \<noteq> a" by (simp add: find_item_def find_None_iff)
  then show ?thesis by (simp add: settled_def gone_def None)
next
  case (Some x)
  have "y = x" if "y \<in> set items" "assetId y = a" for y
    using found_unique [OF assms that(1)] that(2) Some by simp
  then have "gone items a e \<longleftrightarrow> quantity x \<le> sub_before e - sub_quantity e"
    using found_member [OF Some] unfolding gone_def by blast
  then show ?thesis by (simp add: settled_def Some)
qed

lemma released_parts:
  assumes "js_map_ok (submitted s)"
  shows "submitted_of (releaseSettledSubmissions acc items s) acc' a =
      (case submitted_of s acc' a of None \<Rightarrow> None | Some e \<Rightarrow> if acc = acc' \<and> settled items a e then None else Some e)"
    "js_map_ok (submitted (releaseSettledSubmissions acc items s))"
  using assms by (simp_all add: releaseSettledSubmissions_def submitted_of_def js_get_filter split: option.split)

lemma kept_fields [simp]:
  "history (releaseSettledSubmissions acc items s) = history s" "queues (releaseSettledSubmissions acc items s) = queues s"
  "intents (releaseSettledSubmissions acc items s) = intents s" "service_clock (releaseSettledSubmissions acc items s) = service_clock s"
  "continues (releaseSettledSubmissions acc items s) acc' g = continues s acc' g"
  "history (release_asset acc a s) = history s" "queues (release_asset acc a s) = queues s" "intents (release_asset acc a s) = intents s"
  "history (reserve acc i x s) = history s" "queues (reserve acc i x s) = queues s" "intents (reserve acc i x s) = intents s"
  "history (logged e s) = e # history s" "queues (logged e s) = queues s" "intents (logged e s) = intents s"
  "submitted (logged e s) = submitted s" "submitted_of (logged e s) = submitted_of s"
  "continues (logged e s) acc' g = continues s acc' g" "service_clock (logged e s) = service_clock s"
  by (cases g; simp add: releaseSettledSubmissions_def release_asset_def reserve_def logged_def submitted_of_def fun_eq_iff)+

lemma store_inv_quiet:
  assumes "store_inv P s" "submitted s' = submitted s" "history s' = e # history s"
    and "open_sale (e # history s) = open_sale (history s)" "\<And>acc f. e \<noteq> Posted acc f"
  shows "store_inv P s'"
  using assms by (simp add: store_inv_def submitted_of_def del: open_sale.simps)

lemma inventory_elsewhere:
  assumes "inventory_in acc e = None" "\<And>f. e \<noteq> Posted acc f" "\<And>r. e \<noteq> Got acc (Sell_answer r)"
  shows "open_sale (e # h) acc a = open_sale h acc a"
  using assms by auto

text \<open>An inventory of the account is shown.\<close>

lemma store_inv_shown:
  assumes "store_inv P s" "e = Got acc (Inventory_answer src) \<or> e = Viewed acc src"
    and "s' = (case loadInventory src of Inl _ \<Rightarrow> logged e s | Inr items \<Rightarrow> releaseSettledSubmissions acc items (logged e s))"
  shows "store_inv P s'"
proof -
  have e: "inventory_in acc e = read_inventory src" "\<And>f acc'. e \<noteq> Posted acc' f" "\<And>r acc'. e \<noteq> Got acc' (Sell_answer r)"
    "acc' \<noteq> acc \<Longrightarrow> inventory_in acc' e = None" for acc'
    using assms(2) by (auto simp: inventory_in_def inventory_of_def)
  have ok: "js_map_ok (submitted s)" "submitted_of s acc' a = open_sale (history s) acc' a" "history_ok P (history s)" for acc' a
    using assms(1) by (simp_all add: store_inv_def)
  have hist: "history s' = e # history s" unfolding assms(3) by (simp split: sum.split)
  have "submitted_of s' acc' a = open_sale (e # history s) acc' a" for acc' a
  proof (cases "acc' = acc")
    case False
    then have "submitted_of s' acc' a = submitted_of s acc' a"
      unfolding assms(3) using released_parts(1) [of "logged e s" acc _ acc' a] ok(1)
      by (simp split: sum.split option.split)
    then show ?thesis using inventory_elsewhere [OF e(4) [OF False] e(2,3)] ok(2) by simp
  next
    case True
    show ?thesis
    proof (cases "loadInventory src")
      case (Inl err)
      then show ?thesis
        using True ok(2) e inventory_elsewhere [OF _ e(2,3)] unfolding assms(3) by (simp add: read_inventory_def del: open_sale.simps)
    next
      case (Inr items)
      then show ?thesis
        using True ok e settled_gone [OF inventory_distinct [OF Inr]] released_parts(1) [of "logged e s" acc items acc a]
        unfolding assms(3) by (auto simp: read_inventory_def split: option.split)
    qed
  qed
  moreover have "js_map_ok (submitted s')"
    unfolding assms(3) using ok(1) released_parts(2) [of "logged e s" acc] by (simp split: sum.split)
  ultimately show ?thesis using ok(3) e(2) by (simp add: store_inv_def hist)
qed

text \<open>A form is answered.\<close>

lemma success_refused: "success (d ''success'') = (\<not> refused (Answered d))"
  by (auto simp: success_def refused_def)

lemma sell_answer_open:
  "open_sale (Got acc (Sell_answer r) # h) acc' a =
     (if acc' = acc \<and> refused r \<and> (\<exists>f. last_posted h acc = Some f \<and> fo_assetid f = a) then None else open_sale h acc' a)"
  by (auto simp: inventory_in_def inventory_of_def)

lemma store_inv_answered:
  assumes "store_inv P s" "last_posted (history s) acc = Some (sell_request i)"
  shows "store_inv P (snd (sale_answered acc i r (logged (Got acc (Sell_answer r)) s)))"
proof -
  let ?s = "logged (Got acc (Sell_answer r)) s"
  have ok: "js_map_ok (submitted s)" "submitted_of s acc' a = open_sale (history s) acc' a" "history_ok P (history s)" for acc' a
    using assms(1) by (simp_all add: store_inv_def)
  have "snd (sale_answered acc i r ?s) = (if refused r then release_asset acc (in_assetId i) ?s else ?s)"
    by (cases r) (simp_all add: success_refused, simp_all add: refused_def)
  moreover have "submitted_of (if refused r then release_asset acc (in_assetId i) ?s else ?s) acc' a =
      open_sale (Got acc (Sell_answer r) # history s) acc' a" for acc' a
    unfolding sell_answer_open using ok(2) assms(2)
    by (auto simp: release_asset_def submitted_of_def sell_request_def logged_def)
  ultimately show ?thesis
    using ok(1,3) by (simp add: store_inv_def release_asset_def logged_def)
qed

text \<open>A form is posted.\<close>

lemma store_inv_posted:
  assumes "store_inv P s" "posted_ok P (history s) acc (sell_request i)" "seen_item (history s) acc (in_assetId i) x"
  shows "store_inv P (logged (Posted acc (sell_request i)) (reserve acc i x s))"
proof -
  let ?e = "Posted acc (sell_request i)"
  have ok: "js_map_ok (submitted s)" "submitted_of s acc' a = open_sale (history s) acc' a" "history_ok P (history s)" for acc' a
    using assms(1) by (simp_all add: store_inv_def)
  have "stack_before (history s) acc (in_assetId i) = quantity x"
    using assms(3) by (auto simp: seen_item_def stack_before_def)
  then have "submitted_of (reserve acc i x s) acc' a = open_sale (?e # history s) acc' a" for acc' a
    using ok(2) by (auto simp: reserve_def submitted_of_def sell_request_def inventory_in_def)
  then show ?thesis using ok assms(2) by (simp add: store_inv_def reserve_def logged_def submitted_of_def)
qed

section \<open>The parts of an operation\<close>

definition own_entry :: "account_id \<Rightarrow> entry \<Rightarrow> bool" where
  "own_entry acc e \<longleftrightarrow> (\<forall>acc'. acc' \<noteq> acc \<longrightarrow> quiet acc' e)"

lemma own_simps [simp]: "own_entry acc (Got acc ans)" "own_entry acc (Posted acc f)"
  by (simp_all add: own_entry_def)

definition ledger_ok :: "page_functions \<Rightarrow> service \<Rightarrow> bool" where
  "ledger_ok P s \<longleftrightarrow> store_inv P s \<and> js_map_ok (intents s) \<and> intents_ok s"

text \<open>What the part of an operation of \<open>acc\<close> leaves, before its reply is made.\<close>

definition part_good :: "page_functions \<Rightarrow> account_id \<Rightarrow> task \<Rightarrow> service \<Rightarrow> part \<Rightarrow> bool" where
  "part_good P acc t s r \<longleftrightarrow>
     queues (snd r) = queues s \<and> store_inv P (snd r) \<and> js_map_ok (intents (snd r)) \<and>
     (\<exists>new. history (snd r) = new @ history s \<and> list_all (own_entry acc) new) \<and>
     (\<forall>tok i. js_get (intents (snd r)) tok = Some (Sale_intent i) \<longrightarrow>
        was_previewed (history s) i \<or> fst r = Inr (Done (Previewed tok (Sale_intent i))) \<and> in_account i = acc) \<and>
     (\<forall>st. fst r = Inr (Wait st) \<longrightarrow> task_ok P (history (snd r)) acc (t\<lparr>t_stage := st\<rparr>))"

lemma quiet_own: "list_all (own_entry acc) new \<Longrightarrow> acc' \<noteq> acc \<Longrightarrow> list_all (quiet acc') new"
  by (auto simp: list_all_iff own_entry_def)

lemma apply_part_ok:
  assumes "service_inv P s" "queues s acc = t # ts" "part_good P acc t s r"
  shows "service_inv P (apply_part acc t r)"
proof -
  obtain m s' where r: "r = (m, s')" by (cases r)
  note good = assms(3) [unfolded part_good_def r, simplified]
  obtain new where new: "history s' = new @ history s" "list_all (own_entry acc) new" using good by blast
  have tail: "list_all (\<lambda>u. t_stage u = At_start) ts" "list_all (task_ok P (history s) acc) ts"
    using assms(1,2) by (auto simp: service_inv_def dest!: spec [of _ acc])
  have other: "tasks_ok P (history s') acc' (queues s acc')" if "acc' \<noteq> acc" for acc'
    using assms(1) tasks_later [OF quiet_own [OF new(2) that]] new(1) by (simp add: service_inv_def)
  have shown_s: "was_previewed (history s) i \<Longrightarrow> was_previewed (history s') i" for i using previewed_later new(1) by simp
  show ?thesis
  proof (cases "\<exists>st. m = Inr (Wait st)")
    case True
    then obtain st where m: "m = Inr (Wait st)" by blast
    then have head: "task_ok P (history s') acc (t\<lparr>t_stage := st\<rparr>)" using good by simp
    have "list_all (task_ok P (history s') acc) ts"
      using waiting_task [of _ P "history s" acc new] tail new(1) by (auto simp: list_all_iff)
    then have "tasks_ok P (history s') acc ((t\<lparr>t_stage := st\<rparr>) # ts)" using head tail(1) by simp
    moreover have "intents_ok (set_head acc (t\<lparr>t_stage := st\<rparr>) s')"
      using good m shown_s by (auto simp: intents_ok_def set_head_def)
    ultimately show ?thesis
      using good other assms(2) unfolding r m
      by (auto simp: apply_part_def service_inv_def set_head_def store_inv_def submitted_of_def)
  next
    case False
    then obtain o' where o': "apply_part acc t r = end_head acc o' s'" "\<And>x. m = Inr (Done x) \<Longrightarrow> o' = Inr x"
      unfolding r apply_part_def by (cases m; cases "projr m") (auto simp: apply_part_def)
    let ?h = "Replied acc o' # history s'"
    have "tasks_ok P ?h acc' (queues s acc')" if "acc' \<noteq> acc" for acc'
      using tasks_later [of acc' "[Replied acc o']", OF _ other [OF that]] by simp
    moreover have "tasks_ok P ?h acc ts"
      using waiting_tasks [OF tail, of "Replied acc o' # new"] new(1) by simp
    moreover have "was_previewed ?h i" if "js_get (intents s') tok = Some (Sale_intent i)" for tok i
    proof -
      have "was_previewed (history s) i \<or> m = Inr (Done (Previewed tok (Sale_intent i))) \<and> in_account i = acc"
        using good that by blast
      then show ?thesis using shown_s o'(2) by (auto simp: was_previewed_def)
    qed
    moreover have "store_inv P (end_head acc o' s')"
      by (rule store_inv_quiet [of P s' _ "Replied acc o'"])
        (use good in \<open>simp_all add: end_head_def logged_def silent_open del: open_sale.simps\<close>)
    ultimately show ?thesis
      using good assms(2) unfolding o'(1)
      by (auto simp: service_inv_def end_head_def logged_def intents_ok_def)
  qed
qed

lemma going_on_Inr [simp]: "going_on s acc t = Inr u \<longleftrightarrow> continues s acc (t_guard t)"
  by (simp add: going_on_def)

lemma plain_store: "store_inv P s \<Longrightarrow> plain ans \<Longrightarrow> store_inv P (logged (Got acc ans) s)"
  by (rule store_inv_quiet [where e = "Got acc ans"]) (simp_all add: plain_open del: open_sale.simps)

lemma unchanged_good:
  assumes "ledger_ok P s" "history s' = e # history s" "own_entry acc e" "store_inv P s'" "queues s' = queues s" "intents s' = intents s"
    and "\<And>st. m = Inr (Wait st) \<Longrightarrow> task_ok P (history s') acc (t\<lparr>t_stage := st\<rparr>)"
  shows "part_good P acc t s (m, s')"
  using assms by (auto simp: part_good_def ledger_ok_def intents_ok_def intro!: exI [of _ "[e]"])

lemma plain_good:
  assumes "ledger_ok P s" "plain ans"
    and "\<And>st. m = Inr (Wait st) \<Longrightarrow> task_ok P (Got acc ans # history s) acc (t\<lparr>t_stage := st\<rparr>)"
  shows "part_good P acc t s (failing (logged (Got acc ans) s) m)"
  using assms plain_store unfolding failing_def
  by (intro unchanged_good [where e = "Got acc ans"]) (simp_all add: ledger_ok_def)

text \<open>An own answer that reads no inventory, and no \<open>g\<close>, keeps what a sale relies on.\<close>

lemma plain_sellable: "plain ans \<Longrightarrow> sellable_now h acc i x \<Longrightarrow> sellable_now (Got acc ans # h) acc i x"
  by (auto simp: sellable_now_def seen_item_def plain_open plain_def inventory_of_def simp del: open_sale.simps
      split: steam_answer.splits)

lemma last_answer_skip: "g ans = None \<Longrightarrow> last_answer g (Got acc ans # h) = last_answer g h"
  by (auto simp: fun_eq_iff)

lemma plain_quoted: "quote_of ans = None \<Longrightarrow> market_quoted h acc i x \<Longrightarrow> market_quoted (Got acc ans # h) acc i x"
  by (simp add: market_quoted_def last_answer_skip del: last_answer.simps)

lemma inventory_good:
  assumes "ledger_ok P s" "s1 = logged (Got acc (Inventory_answer src)) s"
    and "\<And>items st. loadInventory src = Inr items \<Longrightarrow> m items (releaseSettledSubmissions acc items s1) = Inr (Wait st) \<Longrightarrow>
      task_ok P (history s1) acc (t\<lparr>t_stage := st\<rparr>)"
  shows "part_good P acc t s
    (case loadInventory src of Inl e \<Rightarrow> (Inl e, s1)
     | Inr items \<Rightarrow> (m items (releaseSettledSubmissions acc items s1), releaseSettledSubmissions acc items s1))"
proof -
  let ?e = "Got acc (Inventory_answer src)"
  have "store_inv P s" using assms(1) by (simp add: ledger_ok_def)
  note shown = store_inv_shown [OF this, of ?e acc src]
  show ?thesis
  proof (cases "loadInventory src")
    case (Inl err)
    then have "store_inv P s1" using shown assms(2) by simp
    then show ?thesis using assms(1,2) Inl by (simp, intro unchanged_good [of P s _ ?e]) simp_all
  next
    case (Inr items)
    then have "store_inv P (releaseSettledSubmissions acc items s1)" using shown assms(2) by simp
    then show ?thesis using assms(1,2) assms(3) [OF Inr] Inr by (simp, intro unchanged_good [of P s _ ?e]) simp_all
  qed
qed

lemma sellable_after_check:
  assumes "loadInventory src = Inr items" "store_inv P s1" "history s1 = Got acc (Inventory_answer src) # h"
    and "assertSellable (submitted_of s1 acc) items (in_assetId i) (in_quantity i) = Inr x"
  shows "sellable_now (history s1) acc i x"
proof -
  have subs: "submitted_of s1 acc = open_sale (history s1) acc" using assms(2) by (simp add: store_inv_def fun_eq_iff)
  have "inventory_of (Inventory_answer src) = Some items" by (simp add: inventory_of_def read_inventory_def assms(1))
  then show ?thesis
    using assms(4) unfolding subs
    by (auto simp: sellable_now_def assms(3) seen_item_def inventory_in_def sell_request_def assertSellable_def
        simp del: open_sale.simps split: option.splits if_splits)
qed

section \<open>The parts of a sale\<close>

lemma money_Inr [simp]: "money m = Inr v \<longleftrightarrow> m = Inr v"
  by (simp add: money_def split: sum.split)

lemma market_price_read:
  assumes "reference_price html hist w st = Inr p"
  shows "market_price html hist w (priceMode st) p"
proof (cases "parseListingOrderBook html")
  case None
  then show ?thesis
    using assms by (auto simp: reference_price_def market_price_def and_then_eq_Inr Let_def)
next
  case (Some b)
  then show ?thesis
    using assms
    by (auto simp: reference_price_def market_price_def and_then_eq_Inr number_or_null_def Let_def split: option.splits if_splits)
qed

lemma quote_item_read:
  assumes "quote_item page hist x w st = Inr (q, cap)"
  shows "\<exists>html p. page = Inr html \<and> market_price html hist w (priceMode st) p \<and>
    quoteWithRules (Whole p) w (publisher_fee x) st = Inr (q, cap)"
  using assms by (auto simp: quote_item_def and_then_eq_Inr intro: market_price_read)

lemma sale_quote_good:
  assumes "sale_quote s acc t i x (in_wallet i) (quote_item page hist x (in_wallet i) (in_settings i)) = Inr (Wait st)"
  shows "st = At_mutate x \<and> market_quoted (Got acc (Quote_answer page hist) # h) acc i x"
proof -
  obtain q where q: "quote_item page hist x (in_wallet i) (in_settings i) = Inr (q, in_buyerCap i)" "base q = in_apiPrice i"
    "toMinorUnits (buyerPays q) (currency (in_wallet i)) = Inr (in_buyerPaysPerItem i)" "st = At_mutate x"
    using assms by (auto simp: sale_quote_def and_then_eq_Inr)
  obtain html p where m: "page = Inr html" "market_price html hist (in_wallet i) (priceMode (in_settings i)) p"
    "quoteWithRules (Whole p) (in_wallet i) (publisher_fee x) (in_settings i) = Inr (q, in_buyerCap i)"
    using quote_item_read [OF q(1)] by blast
  have "priced i x p" unfolding priced_def using m(3) q(2,3) by blast
  then show ?thesis using m q(4) by (auto simp: market_quoted_def quote_of_def)
qed

lemma plain_answers [simp]:
  "plain (Wallet_answer w)" "plain (Settings_answer st)" "plain (Listings_answer l)" "plain (Quote_answer p hi)"
  "plain (Mutate_turn e)" "plain (Own_listings_answer ht l)" "plain (Remove_answer r)" "plain Turn"
  "quote_of (Mutate_turn e) = None" "quote_of (Settings_answer st) = None"
  "wallet_of P (Settings_answer st) = None" "wallet_of P (Listings_answer l) = None"
  "wallet_of P (Quote_answer p hi) = None" "wallet_of P (Mutate_turn e) = None"
  by (simp_all add: plain_def quote_of_def wallet_of_def)

lemma sale_part_good:
  assumes books: "ledger_ok P s" and app: "approved (history s) acc i" and stage: "sale_stage_ok P (history s) acc i st"
    and work: "t_work t = Run_sale i" and part: "sale_part P acc t i st ans (logged (Got acc ans) s) = Some r"
  shows "part_good P acc t s r"
proof -
  let ?s = "logged (Got acc ans) s"
  have app': "approved (Got acc ans # history s) acc i" using approved_later [OF app, of "[Got acc ans]"] by simp
  have task: "task_ok P (Got acc ans # history s) acc (t\<lparr>t_stage := st'\<rparr>) = sale_stage_ok P (Got acc ans # history s) acc i st'" for st'
    using work app' by (simp add: task_ok_def)
  have going: "part_good P acc t s (failing ?s m)"
    if "plain ans" "\<And>st'. m = Inr (Wait st') \<Longrightarrow> sale_stage_ok P (Got acc ans # history s) acc i st'" for m
    using plain_good [OF books that(1)] that(2) task by simp
  note keeps = plain_sellable last_answer_skip plain_quoted
  show ?thesis
  proof (cases st)
    case At_inventory
    then obtain src where ans: "ans = Inventory_answer src" and r: "r = sale_inventory acc t i src ?s"
      using part by (auto simp: sale_part_def split: steam_answer.splits)
    have "task_ok P (history ?s) acc (t\<lparr>t_stage := st'\<rparr>)"
      if src: "loadInventory src = Inr items"
        and m: "and_then (assertSellable (submitted_of s1 acc) items (in_assetId i) (in_quantity i)) (\<lambda>x.
          and_then (going_on s1 acc t) (\<lambda>_. Inr (Wait (At_wallet x)))) = Inr (Wait st')"
        and s1: "s1 = releaseSettledSubmissions acc items ?s" for items s1 st'
    proof -
      have "store_inv P s1"
        using store_inv_shown [of P s "Got acc ans" acc src s1] books src s1 ans by (simp add: ledger_ok_def)
      then have "sellable_now (history s1) acc i x"
        if "assertSellable (submitted_of s1 acc) items (in_assetId i) (in_quantity i) = Inr x" for x
        using sellable_after_check [OF src _ _ that] s1 ans by simp
      then show ?thesis using m s1 task by (auto simp: and_then_eq_Inr sale_stage_ok_def)
    qed
    then show ?thesis
      unfolding r sale_inventory_def Let_def
      using inventory_good [OF books, of ?s acc src "\<lambda>items s1. and_then (assertSellable (submitted_of s1 acc) items (in_assetId i) (in_quantity i))
        (\<lambda>x. and_then (going_on s1 acc t) (\<lambda>_. Inr (Wait (At_wallet x))))" t] ans by auto
  next
    case (At_wallet x)
    then obtain html where ans: "ans = Wallet_answer html" and r: "r = failing ?s (and_then html (\<lambda>html. and_then (sale_wallet P html) (\<lambda>w.
       and_then (going_on ?s acc t) (\<lambda>_. Inr (Wait (At_settings x w))))))"
      using part by (auto simp: sale_part_def split: steam_answer.splits)
    show ?thesis unfolding r
      using stage At_wallet keeps(1) [of ans] ans
      by (intro going) (auto simp: sale_stage_ok_def and_then_eq_Inr wallet_of_def)
  next
    case (At_settings x w)
    then obtain se where ans: "ans = Settings_answer se" and r: "r = failing ?s (sale_settings ?s acc t i x w se)"
      using part by (auto simp: sale_part_def split: steam_answer.splits)
    show ?thesis unfolding r
      using stage At_settings keeps(1) [of ans] keeps(2) [of "wallet_of P" ans] ans
      by (intro going) (auto simp: sale_stage_ok_def sale_settings_def and_then_eq_Inr simp del: last_answer.simps)
  next
    case (At_listings x w se)
    then obtain src where ans: "ans = Listings_answer src" and r: "r = failing ?s (sale_listings ?s acc t i x w se src)"
      using part by (auto simp: sale_part_def split: steam_answer.splits)
    show ?thesis unfolding r
      using stage At_listings keeps(1) [of ans] keeps(2) [of "wallet_of P" ans] ans
      by (intro going) (auto simp: sale_stage_ok_def sale_listings_def and_then_eq_Inr simp del: last_answer.simps)
  next
    case (At_quote x w se)
    then obtain html hist where ans: "ans = Quote_answer html hist"
      and r: "r = failing ?s (sale_quote ?s acc t i x w (quote_item html hist x w se))"
      using part by (auto simp: sale_part_def split: steam_answer.splits)
    have own: "w = in_wallet i" "se = in_settings i" using stage At_quote by (simp_all add: sale_stage_ok_def)
    show ?thesis unfolding r own
      using stage At_quote keeps(1) [of ans] keeps(2) [of "wallet_of P" ans] sale_quote_good ans
      by (intro going) (auto simp: sale_stage_ok_def simp del: last_answer.simps dest!: sale_quote_good [where h = "history s"])
  next
    case (At_mutate x)
    then obtain e where ans: "ans = Mutate_turn e" and r: "r = failing ?s (case e of Some e \<Rightarrow> Inl e
        | None \<Rightarrow> and_then (going_on ?s acc t) (\<lambda>_. Inr (Wait (At_recheck x))))"
      using part by (auto simp: sale_part_def split: steam_answer.splits)
    show ?thesis unfolding r
      using stage At_mutate keeps(1,3) [of ans] keeps(2) [of "wallet_of P" ans] ans
      by (intro going) (auto simp: sale_stage_ok_def and_then_eq_Inr simp del: last_answer.simps split: option.splits)
  next
    case (At_recheck x)
    then obtain got where ans: "ans = Settings_answer got" and r: "r = sale_recheck acc t i x got ?s"
      using part by (auto simp: sale_part_def split: steam_answer.splits)
    let ?posted = "logged (Posted acc (sell_request i)) (reserve acc i x ?s)"
    have now: "sellable_now (history ?s) acc i x" "market_quoted (history ?s) acc i x"
      "last_answer (wallet_of P) (history ?s) acc = Some (in_wallet i)"
      using stage At_recheck keeps(1,3) [of ans] keeps(2) [of "wallet_of P" ans] ans
      by (auto simp: sale_stage_ok_def simp del: last_answer.simps)
    have store: "store_inv P ?s" using plain_store books ans by (simp add: ledger_ok_def)
    have "store_inv P ?posted" if "got = Inr (in_settings i)"
      by (rule store_inv_posted [OF store])
        (use now app' that ans in \<open>auto simp: posted_ok_def sellable_now_def sell_request_def simp del: last_answer.simps open_sale.simps\<close>)
    moreover have "part_good P acc t s (Inr (Wait At_sell), ?posted)" if "store_inv P ?posted"
    proof -
      have "task_ok P (history ?posted) acc (t\<lparr>t_stage := At_sell\<rparr>)"
        using work approved_later [OF app, of "[Posted acc (sell_request i), Got acc ans]"]
        by (simp add: task_ok_def sale_stage_ok_def)
      then show ?thesis
        using books that by (auto simp: part_good_def ledger_ok_def intents_ok_def
            intro!: exI [of _ "[Posted acc (sell_request i), Got acc ans]"])
    qed
    moreover have "part_good P acc t s (Inl e, ?s)" for e
      using going [of "Inl e"] ans by (simp add: failing_def)
    ultimately show ?thesis
      unfolding r sale_recheck_def by (auto simp: and_then_eq_Inr split: sum.split)
  next
    case At_sell
    then obtain a where ans: "ans = Sell_answer a" and r: "r = sale_answered acc i a ?s"
      using part by (auto simp: sale_part_def split: steam_answer.splits)
    have "store_inv P (snd r)"
      unfolding r ans using store_inv_answered books stage At_sell by (simp add: ledger_ok_def sale_stage_ok_def)
    moreover have "queues (snd r) = queues s" "intents (snd r) = intents s" "history (snd r) = Got acc ans # history s"
      "\<And>st. fst r \<noteq> Inr (Wait st)"
      unfolding r by (cases a; simp)+
    ultimately show ?thesis
      using unchanged_good [of P s "snd r" "Got acc ans" acc "fst r" t] books by simp
  qed (use part in \<open>simp_all add: sale_part_def split: steam_answer.splits\<close>)
qed

section \<open>Previews and cancellations\<close>

lemma other_task_ok: "(\<And>i. t_work t \<noteq> Run_sale i) \<Longrightarrow> task_ok P h acc t"
  by (simp add: task_ok_def split: work.split)

text \<open>A preview is kept under its token and is the reply.\<close>

lemma previewed_good:
  assumes "ledger_ok P s" "plain ans" "\<And>j. i = Sale_intent j \<Longrightarrow> in_account j = acc"
    and "s' = (logged (Got acc ans) s)\<lparr>intents := js_set tok i (intents s)\<rparr>"
  shows "part_good P acc t s (Inr (Done (Previewed tok i)), s')"
proof -
  have store: "store_inv P (logged (Got acc ans) s)" using assms(1,2) plain_store by (simp add: ledger_ok_def)
  have "store_inv P s'" using store unfolding assms(4) by (simp add: store_inv_def submitted_of_def)
  then show ?thesis
    using assms(1,3) unfolding assms(4)
    by (auto simp: part_good_def ledger_ok_def intents_ok_def intro!: exI [of _ "[Got acc ans]"])
qed

lemma preview_part_good:
  assumes books: "ledger_ok P s" and other: "\<And>i. t_work t \<noteq> Run_sale i"
    and part: "preview_part P acc t actor a n tok st ans (logged (Got acc ans) s) = Some r"
  shows "part_good P acc t s r"
proof -
  have task: "task_ok P h acc (t\<lparr>t_stage := st'\<rparr>)" for h st' using other by (simp add: other_task_ok)
  have plain: "part_good P acc t s (failing (logged (Got acc ans) s) m)" if "plain ans" for m
    using plain_good [OF books that] task by simp
  show ?thesis
  proof (cases st)
    case At_inventory
    then obtain src where ans: "ans = Inventory_answer src"
      and r: "r = preview_inventory acc a n src (logged (Got acc ans) s)"
      using part by (auto simp: preview_part_def split: steam_answer.splits)
    show ?thesis
      unfolding r preview_inventory_def Let_def
      using inventory_good [OF books, of "logged (Got acc ans) s" acc src
          "\<lambda>items s1. and_then (assertSellable (submitted_of s1 acc) items a n) (\<lambda>x. Inr (Wait (At_wallet x)))" t] ans task by simp
  next
    case (At_quote x w se)
    then obtain html hist where ans: "ans = Quote_answer html hist"
      and r: "r = preview_quote acc t actor a n tok x w se (quote_item html hist x w se) (logged (Got acc ans) s)"
      using part by (auto simp: preview_part_def split: steam_answer.splits)
    let ?s = "logged (Got acc ans) s"
    have "part_good P acc t s (Inr (Done (Previewed tok (Sale_intent i))), ?s\<lparr>intents := js_set tok (Sale_intent i) (intents ?s)\<rparr>)"
      if "sale_preview acc actor a n w se q cap now = Inr i" for q cap now i
    proof -
      have "in_account i = acc" using that by (auto simp: sale_preview_def and_then_eq_Inr Let_def)
      then show ?thesis using previewed_good [OF books, of ans "Sale_intent i"] ans by simp
    qed
    moreover have "part_good P acc t s (Inl e, ?s)" for e using plain [of "Inl e"] ans by (simp add: failing_def)
    ultimately show ?thesis
      unfolding r preview_quote_def by (auto simp: and_then_eq_Inr split: sum.split)
  qed (use part plain in \<open>auto simp: preview_part_def split: steam_answer.splits\<close>)
qed

lemma task_part_good:
  assumes books: "ledger_ok P s" and ok: "task_ok P (history s) acc t"
    and part: "task_part P acc t ans (logged (Got acc ans) s) = Some r"
  shows "part_good P acc t s r"
proof (cases "t_work t")
  case (Run_sale i)
  then show ?thesis
    using ok part by (intro sale_part_good [OF books _ _ Run_sale]) (simp_all add: task_part_def task_ok_def)
next
  case (Preview_sale actor a n tok)
  then show ?thesis using assms preview_part_good by (simp add: task_part_def)
next
  case (Run_cancel i)
  then have "task_ok P h acc (t\<lparr>t_stage := st'\<rparr>)" for h st' by (simp add: other_task_ok)
  then have "part_good P acc t s (failing (logged (Got acc ans) s) m)" if "plain ans" for m
    using plain_good [OF books that] by simp
  then show ?thesis
    using Run_cancel part by (auto simp: task_part_def cancel_part_def split: stage.splits steam_answer.splits)
next
  case (Preview_cancel actor l tok)
  then have task: "task_ok P h acc (t\<lparr>t_stage := st'\<rparr>)" for h st' by (simp add: other_task_ok)
  obtain html src where ans: "ans = Own_listings_answer html src"
    and r: "r = cancel_preview acc t actor l tok (own_listings (and_then html (sale_wallet P)) src) (logged (Got acc ans) s)"
    using part Preview_cancel by (auto simp: task_part_def split: steam_answer.splits)
  have "part_good P acc t s (Inl e, logged (Got acc ans) s)" for e
    using plain_good [OF books, of ans "Inl e"] task ans by (simp add: failing_def)
  moreover have "part_good P acc t s (Inr (Done (Previewed tok (Cancel_intent c))),
      (logged (Got acc ans) s)\<lparr>intents := js_set tok (Cancel_intent c) (intents (logged (Got acc ans) s))\<rparr>)" for c
    using previewed_good [OF books, of ans "Cancel_intent c"] ans by simp
  ultimately show ?thesis
    unfolding r cancel_preview_def Let_def by (auto split: sum.split)
qed (use part in \<open>simp_all add: task_part_def\<close>)

section \<open>Steps\<close>

lemma start_work_core:
  assumes "start_work acc t s = (r, s')"
  shows "submitted s' = submitted s \<and> history s' = history s \<and> queues s' = queues s \<and>
    (\<forall>k i. js_map_ok (intents s) \<longrightarrow> js_map_ok (intents s') \<and> (js_get (intents s') k = Some i \<longrightarrow> js_get (intents s) k = Some i)) \<and>
    (\<forall>w st. r = Inr (w, st) \<longrightarrow> st \<in> {At_inventory, At_own_listings} \<and>
      (\<forall>i. w = Run_sale i \<longrightarrow> t_work t = Run_sale i \<or>
        in_account i = acc \<and> (\<exists>k. js_get (intents s) k = Some (Sale_intent i))))"
  using assms
  by (auto simp: start_work_def pruneIntents_def takeIntent_def Let_def and_then_eq_Inr js_get_filter_Some
      split: if_splits work.splits option.splits intent.splits)

lemma service_inv_ledger: "service_inv P s \<Longrightarrow> ledger_ok P s"
  by (simp add: service_inv_def ledger_ok_def)

lemma start_head_ok:
  assumes inv: "service_inv P s" and q: "queues s acc = t # ts"
  shows "service_inv P (start_head acc t s)"
proof -
  obtain r s' where w: "start_work acc t s = (r, s')" by (cases "start_work acc t s")
  note core = start_work_core [OF w]
  have books: "store_inv P s" "js_map_ok (intents s)" "intents_ok s" using inv by (simp_all add: service_inv_def)
  have head: "task_ok P (history s) acc t" and tail: "list_all (\<lambda>u. t_stage u = At_start) ts" "list_all (task_ok P (history s) acc) ts"
    using inv q by (auto simp: service_inv_def dest!: spec [of _ acc])
  have s': "store_inv P s'" "js_map_ok (intents s')"
    using books core by (auto simp: store_inv_def submitted_of_def)
  have intents': "intents_ok s'" using books(2,3) core unfolding intents_ok_def by metis
  have other: "tasks_ok P (history s') acc' (queues s' acc')" for acc' using inv core by (simp add: service_inv_def)
  have "tasks_ok P (Replied acc x # history s') acc' q" if "tasks_ok P (history s') acc' q" for x acc' q
    using tasks_later [of acc' "[Replied acc x]", OF _ that] by simp
  moreover have "was_previewed (Replied acc x # history s') i" if "was_previewed (history s') i" for x i
    using previewed_later [OF that, of "[Replied acc x]"] by simp
  moreover have "store_inv P (end_head acc x s')" for x
    by (rule store_inv_quiet [OF s'(1), of _ "Replied acc x"]) (simp_all add: end_head_def logged_def silent_open del: open_sale.simps)
  moreover have "tasks_ok P (Replied acc x # history s') acc ts" for x
    using waiting_tasks [OF tail, of "[Replied acc x]"] core by simp
  ultimately have ends: "service_inv P (end_head acc x s')" for x
    using s' intents' other core q by (auto simp: service_inv_def end_head_def logged_def intents_ok_def)
  show ?thesis
  proof (cases r)
    case (Inr y)
    obtain wk st where y: "y = (wk, st)" by (cases y)
    have "approved (history s) acc i" if "wk = Run_sale i" for i
      using core head books(3) that Inr y by (auto simp: task_ok_def approved_def intents_ok_def)
    moreover have "st \<in> {At_inventory, At_own_listings}" using core Inr y by blast
    ultimately have "task_ok P (history s') acc (t\<lparr>t_work := wk, t_stage := st\<rparr>)"
      using core by (auto simp: task_ok_def sale_stage_ok_def split: work.split)
    moreover have "service_inv P (set_head acc u s')" if "task_ok P (history s') acc u" for u
      using that s' intents' other core q tail
      by (auto simp: service_inv_def set_head_def store_inv_def submitted_of_def intents_ok_def)
    ultimately show ?thesis using w Inr y by (simp add: start_head_def)
  qed (use w ends in \<open>simp add: start_head_def\<close>)
qed

lemma step_head_ok:
  assumes "service_inv P s"
  shows "service_inv P (step_head P acc ans s)"
proof (cases "queues s acc")
  case (Cons t ts)
  have "task_ok P (history s) acc t" using assms Cons by (auto simp: service_inv_def dest!: spec [of _ acc])
  then show ?thesis
    using assms Cons start_head_ok [OF assms Cons] apply_part_ok [OF assms Cons] task_part_good [OF service_inv_ledger [OF assms]]
    by (auto simp: step_head_def split: steam_answer.split option.split)
qed (use assms in \<open>simp add: step_head_def\<close>)

text \<open>A step outside the queues, which logs at most an entry that is quiet for all.\<close>

lemma service_inv_later:
  assumes inv: "service_inv P s" and "store_inv P s'" "history s' = new @ history s" "\<And>acc. list_all (quiet acc) new"
    and "js_map_ok (intents s')" "\<And>k i. js_get (intents s') k = Some i \<Longrightarrow> js_get (intents s) k = Some i"
    and "\<And>acc. tasks_ok P (history s') acc (queues s acc) \<Longrightarrow> tasks_ok P (history s') acc (queues s' acc)"
  shows "service_inv P s'"
proof -
  have "tasks_ok P (history s') acc (queues s' acc)" for acc
    using assms(7) tasks_later [OF assms(4)] inv assms(3) by (simp add: service_inv_def)
  moreover have "intents_ok s'"
    using inv assms(6) previewed_later assms(3) unfolding service_inv_def intents_ok_def by metis
  ultimately show ?thesis using assms(2,5) by (simp add: service_inv_def)
qed

lemma enqueued: "tasks_ok P h acc q \<Longrightarrow> task_ok P h acc t \<Longrightarrow> t_stage t = At_start \<Longrightarrow> tasks_ok P h acc (q @ [t])"
  by (cases q) auto

lemma service_step_ok:
  assumes inv: "service_inv P s"
  shows "service_inv P (service_step P e s)"
proof -
  have parts: "store_inv P s" "js_map_ok (intents s)" using inv by (simp_all add: service_inv_def)
  have silent: "store_inv P s'" if "submitted s' = submitted s" "history s' = x # history s" "x = Replied acc r \<or> x = Ordered i j"
    for s' x acc r i j
    by (rule store_inv_quiet [OF parts(1) that(1,2)]) (use that(3) in \<open>auto simp: silent_open simp del: open_sale.simps\<close>)
  have same: "store_inv P s'" if "submitted s' = submitted s" "history s' = history s" for s'
    using parts(1) that by (simp add: store_inv_def submitted_of_def)
  show ?thesis
  proof (cases e)
    case (Ask acc w idle)
    have "service_inv P (logged (Replied acc r) s)" for r
      by (rule service_inv_later [OF inv, where new = "[Replied acc r]"])
        (use parts in \<open>auto simp: logged_def intro: silent\<close>)
    moreover have "service_inv P (enqueue acc w g s)" if "user_work w" for g
      by (rule service_inv_later [OF inv, where new = "[]"])
        (use parts that in \<open>auto simp: enqueue_def intro!: same enqueued other_task_ok\<close>)
    ultimately show ?thesis using Ask inv by simp
  next
    case (Batch_sale i j)
    show ?thesis
      unfolding Batch_sale service_step.simps
      by (rule service_inv_later [OF inv, where new = "[Ordered i j]"])
        (use parts in \<open>auto simp: enqueue_def logged_def task_ok_def approved_def sale_stage_ok_def intro!: enqueued intro: silent\<close>)
  next
    case (Batch_cancel i j)
    show ?thesis
      unfolding Batch_cancel service_step.simps
      by (rule service_inv_later [OF inv, where new = "[]"])
        (use parts in \<open>auto simp: enqueue_def intro!: same enqueued other_task_ok\<close>)
  next
    case (View acc src)
    show ?thesis
      unfolding View service_step.simps
      by (rule service_inv_later [OF inv, where new = "[Viewed acc src]"])
        (use parts store_inv_shown [OF parts(1), of "Viewed acc src"] in \<open>auto simp: view_inventory_def Let_def split: sum.splits\<close>)
  next
    case (Stop_account acc)
    show ?thesis
      unfolding Stop_account service_step.simps
      by (rule service_inv_later [OF inv, where new = "[]"])
        (use parts in \<open>auto simp: stopAccountBatches_def js_get_filter_Some intro: same\<close>)
  next
    case Shut_down_service
    show ?thesis
      unfolding Shut_down_service service_step.simps
      by (rule service_inv_later [OF inv, where new = "[]"])
        (use parts in \<open>auto simp: shutdownBatches_def intro: same\<close>)
  next
    case (Job_stops j)
    show ?thesis
      unfolding Job_stops service_step.simps
      by (rule service_inv_later [OF inv, where new = "[]"]) (use parts in \<open>auto intro: same\<close>)
  next
    case (Time d)
    show ?thesis
      unfolding Time service_step.simps
      by (rule service_inv_later [OF inv, where new = "[]"]) (use parts in \<open>auto intro: same\<close>)
  qed (use inv in \<open>simp add: step_head_ok\<close>)
qed

lemma service_steps_ok: "service_inv P (service_steps P es (new_service start_time))"
proof (induction es rule: rev_induct)
  case Nil
  then show ?case
    by (simp add: service_steps_def new_service_def service_inv_def store_inv_def intents_ok_def submitted_of_def)
next
  case (snoc e es)
  then show ?case by (simp add: service_steps_def service_step_ok)
qed

section \<open>The forms of a history\<close>

lemma history_ok_append: "history_ok P (later @ h) \<Longrightarrow> history_ok P h"
  by (induction later) auto

lemma posted_facts:
  assumes "history (service_steps P es (new_service start_time)) = later @ Posted acc f # earlier"
  shows "posted_ok P earlier acc f"
  using service_steps_ok [of P es start_time] assms history_ok_append [of P later "Posted acc f # earlier"]
  by (simp add: service_inv_def store_inv_def)

definition kept_at ::
    "entry list \<Rightarrow> account_id \<Rightarrow> sell_form \<Rightarrow> item \<Rightarrow> entry list \<Rightarrow> entry \<Rightarrow> item list \<Rightarrow> entry list \<Rightarrow> bool" where
  "kept_at h acc f x mid e items early \<longleftrightarrow>
     h = mid @ e # early \<and> inventory_in acc e = Some items \<and> (\<forall>g. Posted acc g \<notin> set mid) \<and>
     assertSellable (open_sale (e # early) acc) items (fo_assetid f) (fo_amount f) = Inr x"

lemma kept_one_at: "kept_one h acc f x \<Longrightarrow> \<exists>mid e items early. kept_at h acc f x mid e items early"
proof (induction h)
  case (Cons e h)
  show ?case
  proof (cases "(\<forall>g. e \<noteq> Posted acc g) \<and> kept_one h acc f x")
    case True
    then obtain mid e' items early where "kept_at h acc f x mid e' items early" using Cons.IH by blast
    then have "kept_at (e # h) acc f x (e # mid) e' items early" using True by (auto simp: kept_at_def)
    then show ?thesis by blast
  next
    case False
    then obtain items where "kept_at (e # h) acc f x [] e items h"
      using Cons.prems by (auto simp: kept_at_def simp del: open_sale.simps)
    then show ?thesis by blast
  qed
qed simp

lemma assertSellable_Inr:
  "assertSellable subs items a n = Inr x \<Longrightarrow>
   x \<in> set items \<and> assetId x = a \<and> 1 \<le> n \<and> n \<le> quantity x \<and> subs a = None \<and>
   n + 1 \<le> copies (free_copies subs) (item_group x) items"
  by (auto simp: assertSellable_def find_item_def find_Some_iff split: option.splits if_splits)

text \<open>
  C31: An asset is never posted to Steam while an earlier form of it is unresolved. Whether it is, is read
  off the answers alone (\<open>open_sale\<close>): since the earlier form Steam's answer said there was no success, or
  the form was never sent, or an inventory was shown in which its copies are gone; a lost answer resolves
  nothing. The map the service keeps is at any time exactly what the answers leave unresolved.
\<close>

theorem unresolved_asset_is_never_resubmitted:
  assumes "history (service_steps P es (new_service start_time)) = later @ Posted acc f # earlier"
  shows "open_sale earlier acc (fo_assetid f) = None \<and>
    submitted_of (service_steps P es (new_service start_time)) = open_sale (later @ Posted acc f # earlier)"
  using posted_facts [OF assms] service_steps_ok [of P es start_time] assms
  by (simp add: posted_ok_def service_inv_def store_inv_def fun_eq_iff del: open_sale.simps)

text \<open>
  C32: Every sale that was posted left a copy: since the account's previous form an inventory was shown in
  which the copies of the item's group whose sale was not unresolved exceeded the quantity posted.
\<close>

theorem every_sale_keeps_a_copy:
  assumes "history (service_steps P es (new_service start_time)) = later @ Posted acc f # earlier"
  shows "\<exists>mid e items early x. earlier = mid @ e # early \<and> inventory_in acc e = Some items \<and>
    (\<forall>g. Posted acc g \<notin> set mid) \<and> x \<in> set items \<and> assetId x = fo_assetid f \<and>
    1 \<le> fo_amount f \<and> fo_amount f \<le> quantity x \<and>
    fo_amount f + 1 \<le> copies (free_copies (open_sale (e # early) acc)) (item_group x) items"
proof -
  obtain x where "kept_one earlier acc f x" using posted_facts [OF assms] unfolding posted_ok_def by blast
  then obtain mid e items early where parts: "earlier = mid @ e # early" "inventory_in acc e = Some items"
    "\<forall>g. Posted acc g \<notin> set mid"
    and sellable: "assertSellable (open_sale (e # early) acc) items (fo_assetid f) (fo_amount f) = Inr x"
    using kept_one_at unfolding kept_at_def by blast
  from assertSellable_Inr [OF sellable] parts show ?thesis by blast
qed

text \<open>
  C33: The form that is posted is a preview that its user was shown, or one of a confirmed batch: its
  asset, its amount and its price for the seller. The last thing read before it are the saved settings,
  and the reference price of the listing page read last, in the price mode of these settings and the
  currency of the wallet read last, gives exactly this price, and for the buyer what the preview showed,
  which is within the limits of these settings.
\<close>

theorem sale_at_the_previewed_price:
  assumes "history (service_steps P es (new_service start_time)) = later @ Posted acc f # earlier"
  shows "\<exists>i st rest x html hist p q. approved earlier acc i \<and>
    fo_assetid f = in_assetId i \<and> fo_amount f = in_quantity i \<and> fo_price f = in_apiPrice i \<and>
    earlier = Got acc (Settings_answer (Inr st)) # rest \<and>
    last_answer (wallet_of P) rest acc = Some (in_wallet i) \<and> seen_item rest acc (fo_assetid f) x \<and>
    last_answer quote_of rest acc = Some (html, hist) \<and> market_price html hist (in_wallet i) (priceMode st) p \<and>
    quoteWithRules (Whole p) (in_wallet i) (publisher_fee x) st = Inr (q, in_buyerCap i) \<and>
    base q = fo_price f \<and> toMinorUnits (buyerPays q) (currency (in_wallet i)) = Inr (in_buyerPaysPerItem i) \<and>
    (case maxBuyerPrice st of None \<Rightarrow> True | Some hi \<Rightarrow> in_buyerPaysPerItem i \<le> int_of hi) \<and>
    (case minBuyerPrice st of None \<Rightarrow> True | Some lo \<Rightarrow> int_of lo \<le> in_buyerPaysPerItem i)"
proof -
  obtain i x rest where sale: "f = sell_request i" "approved earlier acc i" "seen_item earlier acc (fo_assetid f) x"
    and rest: "earlier = Got acc (Settings_answer (Inr (in_settings i))) # rest"
    and wallet: "last_answer (wallet_of P) earlier acc = Some (in_wallet i)" and "market_quoted earlier acc i x"
    using posted_facts [OF assms] unfolding posted_ok_def by blast
  then obtain html hist p q where page: "last_answer quote_of earlier acc = Some (html, hist)"
    "market_price html hist (in_wallet i) (priceMode (in_settings i)) p"
    and q: "quoteWithRules (Whole p) (in_wallet i) (publisher_fee x) (in_settings i) = Inr (q, in_buyerCap i)"
    "base q = in_apiPrice i" "toMinorUnits (buyerPays q) (currency (in_wallet i)) = Inr (in_buyerPaysPerItem i)"
    unfolding market_quoted_def priced_def by blast
  have before: "last_answer (wallet_of P) rest acc = Some (in_wallet i)" "last_answer quote_of rest acc = Some (html, hist)"
    "seen_item rest acc (fo_assetid f) x"
    using wallet page sale(3) by (simp_all add: rest wallet_of_def quote_of_def seen_item_def inventory_of_def)
  have "checkBounds (in_wallet i) (in_settings i) (buyerPays q) = Inr ()"
    using q(1) by (auto simp: quoteWithRules_def and_then_eq_Inr Let_def split: if_splits)
  then have "(case maxBuyerPrice (in_settings i) of None \<Rightarrow> True | Some hi \<Rightarrow> in_buyerPaysPerItem i \<le> int_of hi) \<and>
      (case minBuyerPrice (in_settings i) of None \<Rightarrow> True | Some lo \<Rightarrow> int_of lo \<le> in_buyerPaysPerItem i)"
    using q(3) by (auto simp: checkBounds_def and_then_eq_Inr split: if_splits option.splits)
  then show ?thesis
    using sale rest before page(2) q by (auto simp: sell_request_def)
qed

section \<open>A sale whose preview still holds is submitted\<close>

definition sell_answers ::
    "price_settings \<Rightarrow> inventory_source \<Rightarrow> string \<Rightarrow> listings_source \<Rightarrow> string \<Rightarrow> steam_answer list" where
  "sell_answers st src html own page =
     [Inventory_answer src, Wallet_answer (Inr html), Settings_answer (Inr st), Listings_answer own,
      Quote_answer (Inr page) (Inl No_price), Mutate_turn None, Settings_answer (Inr st)]"

definition sell_events ::
    "account_id \<Rightarrow> price_settings \<Rightarrow> inventory_source \<Rightarrow> string \<Rightarrow> listings_source \<Rightarrow> string \<Rightarrow> service_event list" where
  "sell_events acc st src html own page = map (Step acc) (sell_answers st src html own page)"

definition log_all :: "entry list \<Rightarrow> service \<Rightarrow> service" where
  "log_all es s = s\<lparr>history := es @ history s\<rparr>"

lemma set_head_parts [simp]:
  "queues (set_head acc t s) acc' = (if acc' = acc then t # tl (queues s acc) else queues s acc')"
  "submitted (set_head acc t s) = submitted s" "history (set_head acc t s) = history s"
  "intents (set_head acc t s) = intents s" "service_clock (set_head acc t s) = service_clock s"
  "continues (set_head acc t s) acc' g = continues s acc' g"
  "set_head acc t' (set_head acc t s) = set_head acc t' s"
  "logged e (set_head acc t s) = set_head acc t (logged e s)"
  by (cases g; simp add: set_head_def logged_def)+

lemma log_all_Nil [simp]: "log_all [] s = s"
  by (simp add: log_all_def)

lemma log_all_one: "log_all [e] s = logged e s"
  by (simp add: log_all_def logged_def)

lemma log_all_parts [simp]:
  "queues (log_all es s) = queues s" "submitted (log_all es s) = submitted s" "history (log_all es s) = es @ history s"
  "continues (log_all es s) acc g = continues s acc g" "logged e (log_all es s) = log_all (e # es) s"
  "submitted_of (log_all es s) = submitted_of s" "stopped_jobs (log_all es s) = stopped_jobs s"
  by (cases g; simp add: log_all_def logged_def submitted_of_def fun_eq_iff)+

lemma reserve_moved:
  "reserve acc i x (set_head acc' t s) = set_head acc' t (reserve acc i x s)"
  "reserve acc i x (log_all es s) = log_all es (reserve acc i x s)"
  by (simp_all add: reserve_def set_head_def log_all_def)

text \<open>What the sale has read when its form is posted, and the state after it.\<close>

definition seen_stock :: "account_id \<Rightarrow> inventory_source \<Rightarrow> item list \<Rightarrow> service \<Rightarrow> service" where
  "seen_stock acc src items s = releaseSettledSubmissions acc items (logged (Got acc (Inventory_answer src)) s)"

definition sale_posted ::
    "account_id \<Rightarrow> sale_intent \<Rightarrow> item \<Rightarrow> inventory_source \<Rightarrow> item list \<Rightarrow> string \<Rightarrow> listings_source \<Rightarrow> string \<Rightarrow> service \<Rightarrow> service" where
  "sale_posted acc i x src items html own page s =
     log_all (Posted acc (sell_request i) # rev (map (Got acc) (tl (sell_answers (in_settings i) src html own page))))
       (reserve acc i x (seen_stock acc src items s))"

lemma unchanged_sale_is_submitted:
  assumes "queues s acc = [\<lparr>t_work = Run_sale i, t_guard = g, t_stage = At_inventory\<rparr>]" "continues s acc g"
    and "loadInventory src = Inr items"
    and "assertSellable (submitted_of (seen_stock acc src items s) acc) items (in_assetId i) (in_quantity i) = Inr x"
    and "sale_wallet P html = Inr (in_wallet i)" "loadListings own (in_wallet i) = Inr ls" "\<not> listed (in_assetId i) ls"
    and "quote_item (Inr page) (Inl No_price) x (in_wallet i) (in_settings i) = Inr (q, in_buyerCap i)"
    and "base q = in_apiPrice i" "toMinorUnits (buyerPays q) (currency (in_wallet i)) = Inr (in_buyerPaysPerItem i)"
  shows "service_steps P (sell_events acc (in_settings i) src html own page) s =
    set_head acc \<lparr>t_work = Run_sale i, t_guard = g, t_stage = At_sell\<rparr> (sale_posted acc i x src items html own page s)"
proof -
  let ?at = "\<lambda>st. \<lparr>t_work = Run_sale i, t_guard = g, t_stage = st\<rparr>"
  let ?s = "seen_stock acc src items s"
  let ?w = "in_wallet i" and ?st = "in_settings i"
  let ?seen = "\<lambda>n. log_all (rev (map (Got acc) (take n (tl (sell_answers ?st src html own page))))) ?s"
  have go: "continues ?s acc g" using assms(2) by (simp add: seen_stock_def)
  have going: "going_on v acc (?at st) = Inr ()" if "continues v acc g" for v st
    using that by (simp add: going_on_def check_def)
  have "sale_inventory acc (?at At_inventory) i src (logged (Got acc (Inventory_answer src)) s) = (Inr (Wait (At_wallet x)), ?s)"
    using assms(3,4) going [OF go] by (simp add: sale_inventory_def seen_stock_def del: going_on_Inr)
  then have "step_head P acc (Inventory_answer src) s = set_head acc (?at (At_wallet x)) (?seen 0)"
    using assms(1) by (simp add: step_head_def task_part_def sale_part_def apply_part_def)
  moreover have "step_head P acc (Wallet_answer (Inr html)) (set_head acc (?at (At_wallet x)) (?seen 0)) =
      set_head acc (?at (At_settings x ?w)) (?seen 1)"
    using go assms(5)
    by (simp add: going step_head_def task_part_def sale_part_def failing_def apply_part_def sell_answers_def log_all_one)
  moreover have "step_head P acc (Settings_answer (Inr ?st)) (set_head acc (?at (At_settings x ?w)) (?seen 1)) =
      set_head acc (?at (At_listings x ?w ?st)) (?seen 2)"
    using go
    by (simp add: going step_head_def task_part_def sale_part_def sale_settings_def failing_def apply_part_def check_def
        sell_answers_def numeral_2_eq_2)
  moreover have "step_head P acc (Listings_answer own) (set_head acc (?at (At_listings x ?w ?st)) (?seen 2)) =
      set_head acc (?at (At_quote x ?w ?st)) (?seen 3)"
    using go assms(6,7)
    by (simp add: going step_head_def task_part_def sale_part_def sale_listings_def failing_def apply_part_def check_def
        sell_answers_def eval_nat_numeral)
  moreover have "step_head P acc (Quote_answer (Inr page) (Inl No_price)) (set_head acc (?at (At_quote x ?w ?st)) (?seen 3)) =
      set_head acc (?at (At_mutate x)) (?seen 4)"
    using go assms(8-10)
    by (simp add: going step_head_def task_part_def sale_part_def sale_quote_def failing_def apply_part_def check_def money_def
        sell_answers_def eval_nat_numeral)
  moreover have "step_head P acc (Mutate_turn None) (set_head acc (?at (At_mutate x)) (?seen 4)) =
      set_head acc (?at (At_recheck x)) (?seen 5)"
    using go
    by (simp add: going step_head_def task_part_def sale_part_def failing_def apply_part_def sell_answers_def eval_nat_numeral)
  moreover have "step_head P acc (Settings_answer (Inr ?st)) (set_head acc (?at (At_recheck x)) (?seen 5)) =
      set_head acc (?at At_sell) (sale_posted acc i x src items html own page s)"
    using go
    by (simp add: going step_head_def task_part_def sale_part_def sale_recheck_def apply_part_def check_def reserve_moved
        sale_posted_def sell_answers_def eval_nat_numeral)
  ultimately show ?thesis by (simp add: service_steps_def sell_events_def sell_answers_def)
qed

lemma service_steps_append: "service_steps P (es @ es') s = service_steps P es' (service_steps P es s)"
  by (simp add: service_steps_def)

section \<open>A run\<close>

text \<open>Two cards, one of them twice, at the page of \<open>example_page\<close>, where the lowest offer is 125.\<close>

definition no_listings :: listings_source where
  "no_listings n start_at =
     Inr \<lparr>lp_success = Bool True, lp_num_active = Num ''0'', lp_total_count = Undefined, lp_active = Some [], lp_on_hold = [],
       lp_to_confirm = []\<rparr>"

definition wallet_html :: string where "wallet_html = ''g_rgWalletInfo = {}''"

definition card_items :: "item list" where
  "card_items =
     [new_item ''11'' ''7'' ''0'' (the card_description) 2 True, new_item ''12'' ''7'' ''0'' (the card_description) 1 False]"

definition example_intent :: sale_intent where
  "example_intent =
     \<lparr>in_account = ''a'', in_actor = ''u'', in_expiresAt = 61000, in_assetId = ''11'', in_quantity = 1, in_apiPrice = 109,
      in_buyerCap = 124, in_buyerPaysPerItem = 124, in_wallet = euro_wallet, in_settings = example_settings\<rparr>"

definition example_quoted :: quote where
  "example_quoted = \<lparr>base = 109, steamFee = 5, publisherFee = 10, buyerPays = 124\<rparr>"

lemma answers:
  "loadInventory card_pages = Inr card_items"
  "sale_wallet wallet_pages wallet_html = Inr euro_wallet"
  "loadListings no_listings euro_wallet = Inr []"
  "quoteWithRules (Whole 125) euro_wallet Null example_settings = Inr (example_quoted, 124)"
  "reference_price example_page (Inl No_price) euro_wallet example_settings = Inr 125"
  "toMinorUnits 124 (currency euro_wallet) = Inr 124"
  by code_simp+

lemma card_items_sellable:
  "assertSellable (\<lambda>a. None) card_items ''11'' 1 = Inr (hd card_items)"
  "marketable (hd card_items)" "marketHashName (hd card_items) = Some ''Card''" "publisher_fee (hd card_items) = Null"
  "quantity (hd card_items) = 2"
  by code_simp+

lemma quoted: "quote_item (Inr example_page) (Inl No_price) (hd card_items) euro_wallet example_settings =
    Inr (example_quoted, 124)"
  by (simp add: quote_item_def answers card_items_sellable check_def money_def)

lemma example_fields:
  "in_account example_intent = ''a''" "in_actor example_intent = ''u''" "in_expiresAt example_intent = 61000"
  "in_assetId example_intent = ''11''" "in_quantity example_intent = 1" "in_apiPrice example_intent = 109"
  "in_buyerCap example_intent = 124" "in_buyerPaysPerItem example_intent = 124" "in_wallet example_intent = euro_wallet"
  "in_settings example_intent = example_settings" "base example_quoted = 109" "buyerPays example_quoted = 124"
  by (simp_all add: example_intent_def example_quoted_def)

text \<open>The sale of a confirmed batch.\<close>

definition sale_events :: "service_event list" where
  "sale_events =
     [Batch_sale example_intent ''job'', Step ''a'' Turn] @
     sell_events ''a'' example_settings card_pages wallet_html no_listings example_page"

definition read_entries :: "entry list" where
  "read_entries = rev (map (Got ''a'') (sell_answers example_settings card_pages wallet_html no_listings example_page))"

lemma sale_run:
  "history (service_steps wallet_pages sale_events (new_service 1000)) =
     [] @ Posted ''a'' (sell_request example_intent) # read_entries @ [Ordered example_intent ''job'']"
proof -
  let ?s = "set_head ''a'' \<lparr>t_work = Run_sale example_intent, t_guard = Job_guard ''job'', t_stage = At_inventory\<rparr>
    (logged (Ordered example_intent ''job'') (new_service 1000))"
  have "service_steps wallet_pages [Batch_sale example_intent ''job'', Step ''a'' Turn] (new_service 1000) = ?s"
    by (simp add: service_steps_def new_service_def enqueue_def step_head_def start_head_def start_work_def set_head_def
        logged_def example_fields)
  moreover have "submitted_of (seen_stock ''a'' card_pages card_items ?s) ''a'' = (\<lambda>a. None)"
    by (simp add: fun_eq_iff submitted_of_def seen_stock_def releaseSettledSubmissions_def new_service_def logged_def)
  moreover have "queues ?s ''a'' = [\<lparr>t_work = Run_sale example_intent, t_guard = Job_guard ''job'', t_stage = At_inventory\<rparr>]"
    "''job'' \<notin> set (stopped_jobs ?s)"
    by (simp_all add: new_service_def logged_def set_head_def)
  moreover have "history (sale_posted ''a'' example_intent x card_pages card_items wallet_html no_listings example_page ?s) =
      Posted ''a'' (sell_request example_intent) # read_entries @ [Ordered example_intent ''job'']" for x
    by (simp add: sale_posted_def seen_stock_def read_entries_def sell_answers_def example_fields new_service_def)
  ultimately show ?thesis
    using unchanged_sale_is_submitted [of ?s "''a''" example_intent "Job_guard ''job''" card_pages card_items "hd card_items"
        wallet_pages wallet_html no_listings "[]" example_page example_quoted] answers quoted card_items_sellable
    unfolding sale_events_def service_steps_append by (simp add: example_fields listed_def)
qed

section \<open>A snapshot that is older than one already viewed\<close>

text \<open>
  A viewed inventory takes no turn in the queue. When a running sale gets an answer that is older than
  one that was viewed meanwhile, the view has already released the submitted asset, and the sale counts
  copies that are gone: it offers the last copy.
\<close>

definition stack_pages :: "string \<Rightarrow> inventory_source" where
  "stack_pages n i cursor =
     Inr \<lparr>pg_success = Num ''1'', pg_total = Num ''1'', pg_assets = Some [card_asset ''11'' n],
       pg_descriptions = Some [card_description], pg_more_items = Undefined, pg_last_assetid = Undefined\<rparr>"

definition stack_of :: "int \<Rightarrow> item" where
  "stack_of n = new_item ''11'' ''7'' ''0'' (the card_description) n True"

definition one_sale :: "string \<Rightarrow> service_event list \<Rightarrow> service_event list" where
  "one_sale j meanwhile =
     [Batch_sale example_intent j, Step ''a'' Turn] @ meanwhile @
     sell_events ''a'' example_settings (stack_pages ''2'') wallet_html no_listings example_page @
     [Step ''a'' (Sell_answer (Answered (\<lambda>k. if k = ''success'' then Bool True else Undefined)))]"

lemma stacks:
  "loadInventory (stack_pages ''2'') = Inr [stack_of 2]" "loadInventory (stack_pages ''1'') = Inr [stack_of 1]"
  by code_simp+

lemma stack_fields:
  "assetId (stack_of n) = ''11''" "quantity (stack_of n) = n" "item_group (stack_of n) = ''7_0''" "marketable (stack_of n)"
  "marketHashName (stack_of n) = Some ''Card''" "publisher_fee (stack_of n) = Null"
  by (simp_all add: stack_of_def new_item_def card_description_def success_def text_or_none_def)

text \<open>The forms and the stacks that were shown, in their order.\<close>

datatype sighting = Stack "(string \<times> int) list" | Form string int

definition sightings :: "entry \<Rightarrow> sighting list" where
  "sightings e =
     (case e of
        Posted acc f \<Rightarrow> [Form (fo_assetid f) (fo_amount f)]
      | _ \<Rightarrow> (case inventory_in ''a'' e of None \<Rightarrow> [] | Some items \<Rightarrow> [Stack (map (\<lambda>x. (assetId x, quantity x)) items)]))"

definition sighted :: "service \<Rightarrow> sighting list" where
  "sighted s = concat (map sightings (rev (history s)))"

lemma sighted_logged [simp]: "sighted (logged e s) = sighted s @ sightings e" "sighted (set_head acc t s) = sighted s"
  "sighted (reserve acc i x s) = sighted s" "sighted (releaseSettledSubmissions acc items s) = sighted s"
  by (simp_all add: sighted_def)

lemma sightings_of [simp]:
  "sightings (Got ''a'' (Inventory_answer (stack_pages ''2''))) = [Stack [(''11'', 2)]]"
  "sightings (Viewed ''a'' (stack_pages ''1'')) = [Stack [(''11'', 1)]]"
  "sightings (Posted acc (sell_request example_intent)) = [Form ''11'' 1]"
  "sightings (Replied acc r) = []" "sightings (Ordered i j) = []"
  "plain ans \<Longrightarrow> sightings (Got ''a'' ans) = []" "sightings (Got ''a'' (Sell_answer sa)) = []"
  by (auto simp: sightings_def inventory_in_def inventory_of_def read_inventory_def stacks stack_fields sell_request_def
      example_fields plain_def split: steam_answer.split)

definition sold_state :: "service \<Rightarrow> bool" where
  "sold_state s \<longleftrightarrow> queues s ''a'' = [] \<and> stopped_jobs s = [] \<and> js_map_ok (submitted s) \<and>
     submitted_of s ''a'' ''11'' = Some \<lparr>sub_quantity = 1, sub_before = 2\<rparr>"

lemma one_sale_run:
  assumes s: "queues s ''a'' = []" "stopped_jobs s = []" "js_map_ok (submitted s)"
    and view: "meanwhile = [] \<and> submitted_of s ''a'' ''11'' = None \<and> seen = [] \<or>
      meanwhile = [View ''a'' (stack_pages ''1'')] \<and> submitted_of s ''a'' ''11'' = Some \<lparr>sub_quantity = 1, sub_before = 2\<rparr> \<and>
        seen = [Stack [(''11'', 1)]]"
  shows "sold_state (service_steps wallet_pages (one_sale j meanwhile) s) \<and>
    sighted (service_steps wallet_pages (one_sale j meanwhile) s) = sighted s @ seen @ [Stack [(''11'', 2)], Form ''11'' 1]"
proof -
  let ?at = "\<lambda>st. \<lparr>t_work = Run_sale example_intent, t_guard = Job_guard j, t_stage = st\<rparr>"
  let ?s = "set_head ''a'' (?at At_inventory) (logged (Ordered example_intent j) s)"
  define v where "v = service_steps wallet_pages meanwhile ?s"
  have start_at: "service_steps wallet_pages [Batch_sale example_intent j, Step ''a'' Turn] s = ?s"
    using s by (simp add: service_steps_def enqueue_def step_head_def start_head_def start_work_def set_head_def logged_def example_fields)
  have v: "queues v ''a'' = [?at At_inventory]" "stopped_jobs v = []" "js_map_ok (submitted v)" "sighted v = sighted s @ seen"
    "submitted_of v ''a'' ''11'' = None"
    using view s stacks by (auto simp: v_def service_steps_def view_inventory_def Let_def released_parts settled_def find_item_def
        stack_fields) (auto simp: releaseSettledSubmissions_def set_head_def logged_def submitted_of_def settled_def find_item_def stack_fields)
  let ?src = "stack_pages ''2''"
  let ?seen = "seen_stock ''a'' ?src [stack_of 2] v"
  have subs: "submitted_of ?seen ''a'' ''11'' = None" "js_map_ok (submitted ?seen)"
    using v by (simp_all add: seen_stock_def released_parts)
  have sellable: "assertSellable (submitted_of ?seen ''a'') [stack_of 2] ''11'' 1 = Inr (stack_of 2)"
    using subs by (simp add: assertSellable_def find_item_def stack_fields free_copies_def)
  have quote: "quote_item (Inr example_page) (Inl No_price) (stack_of 2) euro_wallet example_settings = Inr (example_quoted, 124)"
    by (simp add: quote_item_def answers stack_fields check_def money_def)
  let ?w = "sale_posted ''a'' example_intent (stack_of 2) ?src [stack_of 2] wallet_html no_listings example_page v"
  have sold: "service_steps wallet_pages (sell_events ''a'' example_settings ?src wallet_html no_listings example_page) v =
      set_head ''a'' (?at At_sell) ?w"
    using unchanged_sale_is_submitted [of v "''a''" example_intent "Job_guard j" ?src "[stack_of 2]" "stack_of 2"
        wallet_pages wallet_html no_listings "[]" example_page example_quoted] v sellable quote stacks answers
    by (simp add: example_fields listed_def)
  let ?ans = "Sell_answer (Answered (\<lambda>k. if k = ''success'' then Bool True else Undefined))"
  have "service_steps wallet_pages (one_sale j meanwhile) s =
      step_head wallet_pages ''a'' ?ans (set_head ''a'' (?at At_sell) ?w)"
    unfolding one_sale_def service_steps_append start_at v_def [symmetric] sold by (simp add: service_steps_def)
  moreover have "\<dots> = end_head ''a'' (Inr (Listed_item False)) (logged (Got ''a'' ?ans) (set_head ''a'' (?at At_sell) ?w))"
    by (simp add: step_head_def task_part_def sale_part_def success_def apply_part_def)
  moreover have "sighted ?w = sighted v @ [Stack [(''11'', 2)], Form ''11'' 1]"
    by (simp add: sale_posted_def seen_stock_def sell_answers_def sighted_def example_fields)
  ultimately show ?thesis
    using v subs
    by (simp add: sold_state_def end_head_def sale_posted_def reserve_def submitted_of_def set_head_def example_fields stack_fields
        sighted_def logged_def log_all_def seen_stock_def releaseSettledSubmissions_def)
qed

lemma older_snapshot_sells_the_last_copy:
  "sighted (service_steps wallet_pages (one_sale ''j'' [] @ one_sale ''k'' [View ''a'' (stack_pages ''1'')]) (new_service 1000)) =
     [Stack [(''11'', 2)], Form ''11'' 1, Stack [(''11'', 1)], Stack [(''11'', 2)], Form ''11'' 1]"
proof -
  let ?s = "service_steps wallet_pages (one_sale ''j'' []) (new_service 1000)"
  have "sold_state ?s \<and> sighted ?s = [Stack [(''11'', 2)], Form ''11'' 1]"
    using one_sale_run [of "new_service 1000" "[]" "[]" "''j''"] by (simp add: new_service_def submitted_of_def sighted_def)
  then show ?thesis
    using one_sale_run [of ?s "[View ''a'' (stack_pages ''1'')]" "[Stack [(''11'', 1)]]" "''k''"]
    by (simp add: service_steps_append sold_state_def)
qed

section \<open>Witnesses\<close>

lemma unresolved_asset_is_never_resubmitted_witness:
  "submitted_of (service_steps wallet_pages sale_events (new_service 1000)) ''a'' ''11'' = Some \<lparr>sub_quantity = 1, sub_before = 2\<rparr> \<and>
   submitted_of (service_steps wallet_pages sale_events (new_service 1000)) ''a'' ''12'' = None"
proof -
  have "open_sale ([] @ Posted ''a'' (sell_request example_intent) # read_entries @ [Ordered example_intent ''job'']) ''a'' a =
      (if a = ''11'' then Some \<lparr>sub_quantity = 1, sub_before = 2\<rparr> else None)" for a
    by (simp add: read_entries_def sell_answers_def inventory_in_def inventory_of_def read_inventory_def answers stack_before_def
        sell_request_def example_fields find_item_def card_items_def new_item_def)
  then show ?thesis using unresolved_asset_is_never_resubmitted [OF sale_run] by simp
qed

lemma every_sale_keeps_a_copy_witness:
  "\<exists>mid e items early. read_entries @ [Ordered example_intent ''job''] = mid @ e # early \<and> inventory_in ''a'' e = Some items \<and>
     2 \<le> copies (free_copies (open_sale (e # early) ''a'')) (item_group (hd card_items)) items"
proof -
  obtain mid e items early x where kept: "read_entries @ [Ordered example_intent ''job''] = mid @ e # early"
    "inventory_in ''a'' e = Some items" "x \<in> set items" "assetId x = ''11''"
    "2 \<le> copies (free_copies (open_sale (e # early) ''a'')) (item_group x) items"
    using every_sale_keeps_a_copy [OF sale_run] by (auto simp: sell_request_def example_fields)
  have "e \<in> set (read_entries @ [Ordered example_intent ''job''])" using kept(1) by simp
  then have "items = card_items"
    using kept(2) by (auto simp: read_entries_def sell_answers_def inventory_in_def inventory_of_def read_inventory_def answers)
  then have "item_group x = item_group (hd card_items)"
    using kept(3,4) by (auto simp: card_items_def new_item_def)
  then show ?thesis using kept by auto
qed

lemma sale_at_the_previewed_price_witness:
  "\<exists>i (x :: item) q. fo_price (sell_request example_intent) = in_apiPrice i \<and> approved (read_entries @ [Ordered example_intent ''job'']) ''a'' i \<and>
     quoteWithRules (Whole 125) (in_wallet i) (publisher_fee x) example_settings = Inr (q, in_buyerCap i) \<and> base q = 109"
proof -
  obtain i st rest html hist p q and x :: item where sale: "approved (read_entries @ [Ordered example_intent ''job'']) ''a'' i"
    "fo_price (sell_request example_intent) = in_apiPrice i"
    "read_entries @ [Ordered example_intent ''job''] = Got ''a'' (Settings_answer (Inr st)) # rest"
    "last_answer quote_of rest ''a'' = Some (html, hist)" "market_price html hist (in_wallet i) (priceMode st) p"
    "quoteWithRules (Whole p) (in_wallet i) (publisher_fee x) st = Inr (q, in_buyerCap i)"
    "base q = fo_price (sell_request example_intent)"
    using sale_at_the_previewed_price [OF sale_run] by (elim exE conjE) (rule that, assumption+)
  have st: "st = example_settings" "html = example_page"
    using sale(3,4) by (auto simp: read_entries_def sell_answers_def quote_of_def)
  have "market_price example_page hist (in_wallet i) (priceMode example_settings) p \<Longrightarrow> p = 125"
    by (simp add: market_price_def example_page_book split: if_splits)
  then show ?thesis using sale st by (auto simp: sell_request_def example_fields)
qed

end
