(* ===== verification/SaleBatch.thy ===== *)
theory SaleBatch
  imports SaleService MarketBatch
begin

text \<open>
  Planning a batch (\<open>previewBatch\<close> of \<open>inventory/service.ts\<close>) and the price settings of an account:
  the commands that go to the batch queue, and the saving of settings, which excludes a batch.

  The loop over the selected items is one recursion; what it reads anew in each round (whether it is
  still current, the submitted assets, the answers of Steam, the clock) are functions of the round.
\<close>

section \<open>Sales\<close>

record planned_row =
  pr_asset :: string
  pr_quantity :: int
  pr_result :: "market_error + (sale_intent \<times> quote)"

record plan =
  pl_planned :: "(string, int) js_map"
  pl_quotes :: "(string, market_error + (quote \<times> int)) js_map"
  pl_rows :: "planned_row list"

record plan_env =
  en_account :: account_id
  en_actor :: string
  en_inventory :: "item list"
  en_listings :: "listing list"
  en_wallet :: wallet
  en_settings :: price_settings
  en_current :: "nat \<Rightarrow> bool"
  en_submitted :: "nat \<Rightarrow> string \<Rightarrow> submission option"
  en_page :: "nat \<Rightarrow> market_error + string"
  en_histogram :: "nat \<Rightarrow> market_error + (string \<Rightarrow> unknown)"
  en_clock :: "nat \<Rightarrow> millis"

definition planned_of :: "plan \<Rightarrow> string \<Rightarrow> int" where
  "planned_of pl g = (case js_get (pl_planned pl) g of None \<Rightarrow> 0 | Some n \<Rightarrow> n)"

text \<open>The checks of one selected item, against what the batch has planned for its group.\<close>

definition plannable :: "plan_env \<Rightarrow> nat \<Rightarrow> plan \<Rightarrow> string \<Rightarrow> int \<Rightarrow> market_error + item" where
  "plannable E k pl a n =
     and_then (assertSellable (en_submitted E k) (en_inventory E) a n) (\<lambda>x.
     and_then (check (\<not> listed (assetId x) (en_listings E)) Already_listed) (\<lambda>_.
     and_then (check (\<not> copies (free_copies (en_submitted E k)) (item_group x) (en_inventory E)
        - planned_of pl (item_group x) - n < 1) Keep_one_copy) (\<lambda>_. Inr x)))"

definition quote_key :: "item \<Rightarrow> string" where
  "quote_key x = (case marketHashName x of None \<Rightarrow> ''null'' | Some n \<Rightarrow> n) @ '':'' @ js_string (publisher_fee x)"

text \<open>Items of the same name and fee share one quote.\<close>

definition shared_quote :: "plan_env \<Rightarrow> nat \<Rightarrow> item \<Rightarrow> plan \<Rightarrow> (market_error + (quote \<times> int)) \<times> plan" where
  "shared_quote E k x pl =
     (case js_get (pl_quotes pl) (quote_key x) of
        Some r \<Rightarrow> (r, pl)
      | None \<Rightarrow>
          let r = quote_item (en_page E k) (en_histogram E k) x (en_wallet E) (en_settings E)
          in (r, pl\<lparr>pl_quotes := js_set (quote_key x) r (pl_quotes pl)\<rparr>))"

definition plan_quantity :: "string \<Rightarrow> int \<Rightarrow> plan \<Rightarrow> plan" where
  "plan_quantity g n pl = pl\<lparr>pl_planned := js_set g (planned_of pl g + n) (pl_planned pl)\<rparr>"

definition add_row :: "string \<Rightarrow> int \<Rightarrow> market_error + (sale_intent \<times> quote) \<Rightarrow> plan \<Rightarrow> plan" where
  "add_row a n r pl = pl\<lparr>pl_rows := pl_rows pl @ [\<lparr>pr_asset = a, pr_quantity = n, pr_result = r\<rparr>]\<rparr>"

definition plan_item :: "plan_env \<Rightarrow> nat \<Rightarrow> string \<Rightarrow> int \<Rightarrow> plan \<Rightarrow> plan" where
  "plan_item E k a n pl =
     (case plannable E k pl a n of
        Inl e \<Rightarrow> add_row a n (Inl e) pl
      | Inr x \<Rightarrow>
          (case shared_quote E k x pl of
             (Inl e, pl1) \<Rightarrow> add_row a n (Inl e) pl1
           | (Inr (q, cap), pl1) \<Rightarrow>
               add_row a n
                 (and_then (sale_preview (en_account E) (en_actor E) a n (en_wallet E) (en_settings E) q cap (en_clock E k))
                   (\<lambda>i. Inr (i, q)))
                 (plan_quantity (item_group x) n pl1)))"

primrec plan_items :: "plan_env \<Rightarrow> nat \<Rightarrow> (string \<times> int) list \<Rightarrow> plan \<Rightarrow> market_error + plan" where
  "plan_items E k [] pl = Inr pl"
| "plan_items E k (x # xs) pl =
     and_then (check (en_current E k) Stopped_before_submission) (\<lambda>_.
     and_then (item_id (Str (fst x))) (\<lambda>a.
     plan_items E (Suc k) xs (plan_item E k a (snd x) pl)))"

definition empty_plan :: plan where
  "empty_plan = \<lparr>pl_planned = [], pl_quotes = [], pl_rows = []\<rparr>"

definition chosen_well :: "string list \<Rightarrow> bool" where
  "chosen_well ids \<longleftrightarrow> ids \<noteq> [] \<and> length ids \<le> 50 \<and> distinct ids"

text \<open>From the check of the selection on; the inventory is read between the two.\<close>

definition plan_sales :: "plan_env \<Rightarrow> (string \<times> int) list \<Rightarrow> bool \<Rightarrow> market_error + planned_row list" where
  "plan_sales E chosen still =
     and_then (check (chosen_well (map fst chosen)) Not_available) (\<lambda>_.
     and_then (check still Stopped_before_submission) (\<lambda>_.
     and_then (plan_items E 0 chosen empty_plan) (\<lambda>pl.
     and_then (check (en_current E (length chosen)) Stopped_before_submission) (\<lambda>_.
     Inr (pl_rows pl)))))"

section \<open>Cancellations\<close>

record planned_cancel =
  pc_listing :: string
  pc_found :: "listing option"
  pc_intent :: cancel_intent

primrec plan_cancel :: "account_id \<Rightarrow> string \<Rightarrow> millis \<Rightarrow> listing list \<Rightarrow> string list \<Rightarrow> market_error + planned_cancel list" where
  "plan_cancel acc actor now ls [] = Inr []"
| "plan_cancel acc actor now ls (l # rest) =
     and_then (item_id (Str l)) (\<lambda>l.
     and_then (plan_cancel acc actor now ls rest) (\<lambda>rows.
     Inr (\<lparr>pc_listing = l, pc_found = find_listing l ls,
           pc_intent = \<lparr>ca_account = acc, ca_actor = actor, ca_expiresAt = now + previewTtl, ca_listingId = l\<rparr>\<rparr> # rows)))"

definition plan_cancels :: "account_id \<Rightarrow> string \<Rightarrow> millis \<Rightarrow> listing list \<Rightarrow> string list \<Rightarrow> market_error + planned_cancel list" where
  "plan_cancels acc actor now ls ids =
     and_then (check (chosen_well ids) Not_available) (\<lambda>_. plan_cancel acc actor now ls ids)"

section \<open>Commands of the queue\<close>

text \<open>Names and messages are display data: \<open>named\<close> and \<open>message\<close> give them.\<close>

definition units :: "wallet \<Rightarrow> int \<Rightarrow> int option" where
  "units w v = (case toMinorUnits v (currency w) of Inl _ \<Rightarrow> None | Inr n \<Rightarrow> Some n)"

definition sale_command :: "(string \<Rightarrow> string) \<Rightarrow> (market_error \<Rightarrow> string) \<Rightarrow> plan_env \<Rightarrow> planned_row \<Rightarrow> batch_command" where
  "sale_command named message E r =
     (let a = pr_asset r; n = pr_quantity r; w = en_wallet E;
          variant = map_option variantId (find_item a (en_inventory E)) in
      case pr_result r of
        Inl e \<Rightarrow>
          \<lparr>row = \<lparr>row_assetId = Some a, row_variantId = variant, row_listingId = None, row_name = named a, row_quantity = n,
             row_buyerPays = None, row_sellerReceives = None, row_steamFee = None, row_publisherFee = None,
             row_status = Unavailable, row_message = Some (message e)\<rparr>, has_execute = False\<rparr>
      | Inr (i, q) \<Rightarrow>
          \<lparr>row = \<lparr>row_assetId = Some a, row_variantId = variant, row_listingId = None, row_name = named a, row_quantity = n,
             row_buyerPays = units w (buyerPays q * n), row_sellerReceives = units w (base q * n),
             row_steamFee = map_option (\<lambda>f. f * n) (units w (steamFee q)),
             row_publisherFee = map_option (\<lambda>f. f * n) (units w (publisherFee q)),
             row_status = Ready, row_message = None\<rparr>, has_execute = True\<rparr>)"

definition cancel_command :: "(string \<Rightarrow> string) \<Rightarrow> string \<Rightarrow> planned_cancel \<Rightarrow> batch_command" where
  "cancel_command named gone r =
     (case pc_found r of
        None \<Rightarrow>
          \<lparr>row = \<lparr>row_assetId = None, row_variantId = None, row_listingId = Some (pc_listing r), row_name = named (pc_listing r),
             row_quantity = 1, row_buyerPays = None, row_sellerReceives = None, row_steamFee = None, row_publisherFee = None,
             row_status = Unavailable, row_message = Some gone\<rparr>, has_execute = False\<rparr>
      | Some l \<Rightarrow>
          \<lparr>row = \<lparr>row_assetId = Some (li_assetId l), row_variantId = None, row_listingId = Some (pc_listing r),
             row_name = named (pc_listing r), row_quantity = li_quantity l,
             row_buyerPays = Some (li_buyerPays l * li_quantity l), row_sellerReceives = Some (li_sellerReceives l * li_quantity l),
             row_steamFee = None, row_publisherFee = None, row_status = Ready, row_message = None\<rparr>, has_execute = True\<rparr>)"

text \<open>The planned commands go to the queue, which hands out the token of the batch.\<close>

definition preview_sales ::
    "(string \<Rightarrow> string) \<Rightarrow> (market_error \<Rightarrow> string) \<Rightarrow> plan_env \<Rightarrow> (string \<times> int) list \<Rightarrow> bool \<Rightarrow> millis \<Rightarrow> string \<Rightarrow> batch_queue
      \<Rightarrow> batch_queue \<times> ((market_error + batch_error) + batch_preview)" where
  "preview_sales named message E chosen still now uuid q =
     (case plan_sales E chosen still of
        Inl e \<Rightarrow> (q, Inl (Inl e))
      | Inr rows \<Rightarrow>
          (case create now uuid (en_account E) (en_actor E) Sale (Some (currency (en_wallet E)))
                  (map (sale_command named message E) rows) (int_of (delaySeconds (en_settings E))) q of
             (q1, Inl e) \<Rightarrow> (q1, Inl (Inr e))
           | (q1, Inr p) \<Rightarrow> (q1, Inr p)))"

section \<open>A batch keeps a copy\<close>

text \<open>What the ready rows take from a group.\<close>

definition row_takes :: "item list \<Rightarrow> string \<Rightarrow> planned_row \<Rightarrow> int" where
  "row_takes items g r =
     (case pr_result r of
        Inl _ \<Rightarrow> 0
      | Inr _ \<Rightarrow> if map_option item_group (find_item (pr_asset r) items) = Some g then pr_quantity r else 0)"

definition taken :: "item list \<Rightarrow> string \<Rightarrow> planned_row list \<Rightarrow> int" where
  "taken items g rows = sum_list (map (row_takes items g) rows)"

definition ready :: "planned_row \<Rightarrow> bool" where
  "ready r \<longleftrightarrow> (case pr_result r of Inl _ \<Rightarrow> False | Inr _ \<Rightarrow> True)"

definition keeps_copy :: "plan_env \<Rightarrow> planned_row list \<Rightarrow> nat \<Rightarrow> bool" where
  "keeps_copy E rows k \<longleftrightarrow>
     (case find_item (pr_asset (rows ! k)) (en_inventory E) of
        None \<Rightarrow> False
      | Some x \<Rightarrow> taken (en_inventory E) (item_group x) (take (Suc k) rows) + 1
          \<le> copies (free_copies (en_submitted E k)) (item_group x) (en_inventory E))"

definition plan_inv :: "plan_env \<Rightarrow> plan \<Rightarrow> nat \<Rightarrow> bool" where
  "plan_inv E pl n \<longleftrightarrow> length (pl_rows pl) = n \<and> (\<forall>g. taken (en_inventory E) g (pl_rows pl) \<le> planned_of pl g) \<and>
     (\<forall>k<n. ready (pl_rows pl ! k) \<longrightarrow> keeps_copy E (pl_rows pl) k)"

lemma taken_snoc [simp]: "taken items g (rows @ [r]) = taken items g rows + row_takes items g r"
  by (simp add: taken_def)

lemma keeps_copy_snoc: "k < length rows \<Longrightarrow> keeps_copy E (rows @ [r]) k = keeps_copy E rows k"
  by (simp add: keeps_copy_def nth_append split: option.split)

lemma assertSellable_find:
  "assertSellable subs items a n = Inr x \<Longrightarrow> find_item a items = Some x \<and> 1 \<le> n"
  by (auto simp: assertSellable_def split: option.splits if_splits)

lemma plannable_Inr:
  "plannable E k pl a n = Inr x \<Longrightarrow>
   find_item a (en_inventory E) = Some x \<and> 1 \<le> n \<and>
   planned_of pl (item_group x) + n + 1 \<le> copies (free_copies (en_submitted E k)) (item_group x) (en_inventory E)"
  using assertSellable_find by (fastforce simp: plannable_def and_then_eq_Inr)

lemma shared_quote_keeps: "shared_quote E k x pl = (r, pl') \<Longrightarrow> pl_planned pl' = pl_planned pl \<and> pl_rows pl' = pl_rows pl"
  by (auto simp: shared_quote_def Let_def split: option.splits)

lemma planned_of_plan_quantity: "planned_of (plan_quantity g n pl) g' = planned_of pl g' + (if g' = g then n else 0)"
  by (simp add: plan_quantity_def planned_of_def)

lemma rows_of_plan_quantity [simp]: "pl_rows (plan_quantity g n pl) = pl_rows pl"
  by (simp add: plan_quantity_def)

lemma add_row_ok:
  assumes "plan_inv E pl n" "pl_rows pl' = pl_rows pl"
    and "\<And>g. planned_of pl g + row_takes (en_inventory E) g \<lparr>pr_asset = a, pr_quantity = m, pr_result = r\<rparr> \<le> planned_of pl' g"
    and "\<And>y. r = Inr y \<Longrightarrow> \<exists>x. find_item a (en_inventory E) = Some x \<and>
      planned_of pl (item_group x) + m + 1 \<le> copies (free_copies (en_submitted E n)) (item_group x) (en_inventory E)"
  shows "plan_inv E (add_row a m r pl') (Suc n)"
proof -
  let ?r = "\<lparr>pr_asset = a, pr_quantity = m, pr_result = r\<rparr>"
  have old: "length (pl_rows pl) = n" "\<And>g. taken (en_inventory E) g (pl_rows pl) \<le> planned_of pl g"
    "\<And>k. k < n \<Longrightarrow> ready (pl_rows pl ! k) \<Longrightarrow> keeps_copy E (pl_rows pl) k"
    using assms(1) by (auto simp: plan_inv_def)
  have "planned_of (add_row a m r pl') g = planned_of pl' g" for g by (simp add: add_row_def planned_of_def)
  moreover have "taken (en_inventory E) g (pl_rows pl) + row_takes (en_inventory E) g ?r \<le> planned_of pl' g" for g
    using old(2) [of g] assms(3) [of g] by linarith
  moreover have "keeps_copy E (pl_rows pl @ [?r]) n" if "ready ?r"
  proof -
    obtain y where r: "r = Inr y" using \<open>ready ?r\<close> by (auto simp: ready_def split: sum.splits)
    then obtain x where x: "find_item a (en_inventory E) = Some x"
      "planned_of pl (item_group x) + m + 1 \<le> copies (free_copies (en_submitted E n)) (item_group x) (en_inventory E)"
      using assms(4) by blast
    then show ?thesis using old(1) old(2) [of "item_group x"] r by (simp add: keeps_copy_def row_takes_def nth_append)
  qed
  ultimately show ?thesis
    using old(1,3) assms(2) keeps_copy_snoc [of _ "pl_rows pl" E ?r]
    by (auto simp: plan_inv_def add_row_def less_Suc_eq nth_append)
qed

lemma plan_item_ok:
  assumes "plan_inv E pl k"
  shows "plan_inv E (plan_item E k a n pl) (Suc k)"
proof (cases "plannable E k pl a n")
  case (Inl e)
  then show ?thesis using add_row_ok [OF assms, of pl a n "Inl e"] by (simp add: plan_item_def row_takes_def)
next
  case (Inr x)
  note x = plannable_Inr [OF Inr]
  obtain r pl1 where q: "shared_quote E k x pl = (r, pl1)" by (cases "shared_quote E k x pl")
  have same: "pl_rows pl1 = pl_rows pl" "planned_of pl1 = planned_of pl"
    using shared_quote_keeps [OF q] by (simp_all add: planned_of_def fun_eq_iff)
  show ?thesis
  proof (cases r)
    case (Inl e)
    then show ?thesis
      using add_row_ok [OF assms same(1), of a n "Inl e"] same(2) \<open>plannable E k pl a n = Inr x\<close> q
      by (simp add: plan_item_def row_takes_def)
  next
    case (Inr y)
    have "plan_inv E (add_row a n m (plan_quantity (item_group x) n pl1)) (Suc k)" for m
      by (rule add_row_ok [OF assms])
        (use x same in \<open>auto simp: planned_of_plan_quantity row_takes_def split: sum.split\<close>)
    then show ?thesis using Inr \<open>plannable E k pl a n = Inr x\<close> q by (auto simp: plan_item_def split: prod.split)
  qed
qed

lemma plan_items_ok: "plan_items E k xs pl = Inr pl' \<Longrightarrow> plan_inv E pl k \<Longrightarrow> plan_inv E pl' (k + length xs)"
proof (induction xs arbitrary: k pl)
  case (Cons x xs)
  from Cons.prems(1) obtain a where "plan_items E (Suc k) xs (plan_item E k a (snd x) pl) = Inr pl'"
    by (auto simp: and_then_eq_Inr)
  from Cons.IH [OF this plan_item_ok [OF Cons.prems(2)]] show ?case by simp
qed simp

lemma plan_item_assets: "map pr_asset (pl_rows (plan_item E k a n pl)) = map pr_asset (pl_rows pl) @ [a]"
proof -
  have "pl_rows (snd (shared_quote E k x pl)) = pl_rows pl" for x
    using shared_quote_keeps [of E k x pl] by (cases "shared_quote E k x pl") auto
  then show ?thesis
    by (auto simp: plan_item_def add_row_def plan_quantity_def split: sum.split prod.split) (metis snd_conv)+
qed

lemma plan_items_assets:
  "plan_items E k xs pl = Inr pl' \<Longrightarrow> map pr_asset (pl_rows pl') = map pr_asset (pl_rows pl) @ map fst xs"
proof (induction xs arbitrary: k pl)
  case (Cons x xs)
  then have "plan_items E (Suc k) xs (plan_item E k (fst x) (snd x) pl) = Inr pl'"
    by (auto simp: and_then_eq_Inr item_id_def split: if_splits)
  from Cons.IH [OF this] show ?case by (simp add: plan_item_assets)
qed simp

text \<open>
  C34: A planned batch has a row for each of at most fifty distinct assets, and sells the last copy of
  nothing: at every row that is ready, what the rows up to it take from the group of its item leaves a
  copy that is not submitted.
\<close>

theorem batch_keeps_a_copy:
  assumes "plan_sales E chosen still = Inr rows"
  shows "map pr_asset rows = map fst chosen \<and> distinct (map pr_asset rows) \<and> rows \<noteq> [] \<and> length rows \<le> 50 \<and>
    (\<forall>k<length rows. ready (rows ! k) \<longrightarrow> keeps_copy E rows k)"
proof -
  from assms obtain pl where ok: "chosen_well (map fst chosen)" and plan: "plan_items E 0 chosen empty_plan = Inr pl"
    and rows: "rows = pl_rows pl"
    by (auto simp: plan_sales_def and_then_eq_Inr)
  have "plan_inv E empty_plan 0" by (simp add: plan_inv_def empty_plan_def taken_def planned_of_def)
  from plan_items_ok [OF plan this] have "plan_inv E pl (length chosen)" by simp
  moreover have assets: "map pr_asset rows = map fst chosen"
    using plan_items_assets [OF plan] rows by (simp add: empty_plan_def)
  moreover from this have "length rows = length chosen" by (metis length_map)
  ultimately show ?thesis using ok rows by (auto simp: chosen_well_def plan_inv_def)
qed


definition example_env :: "item list \<Rightarrow> plan_env" where
  "example_env items =
     \<lparr>en_account = ''a'', en_actor = ''u'', en_inventory = items, en_listings = [], en_wallet = euro_wallet,
      en_settings = example_settings, en_current = \<lambda>k. True, en_submitted = \<lambda>k a. None,
      en_page = \<lambda>k. Inr example_page, en_histogram = \<lambda>k. Inl No_price, en_clock = \<lambda>k. 1000\<rparr>"

definition two_of :: "string \<Rightarrow> string \<Rightarrow> bool \<Rightarrow> item" where
  "two_of a g sellable =
     \<lparr>assetId = a, variantId = g, marketHashName = Some ''Card'', quantity = 2, duplicateQuantity = 1, marketable = sellable,
      tradable = True, item_group = g, publisher_fee = Null\<rparr>"

definition outcomes_of :: "market_error + planned_row list \<Rightarrow> (string \<times> market_error option) list" where
  "outcomes_of r =
     (case r of Inl _ \<Rightarrow> []
      | Inr rows \<Rightarrow> map (\<lambda>p. (pr_asset p, case pr_result p of Inl e \<Rightarrow> Some e | Inr _ \<Rightarrow> None)) rows)"

lemma example_plan:
  "outcomes_of (plan_sales (example_env [two_of ''11'' ''g'' True, two_of ''12'' ''g'' True]) [(''11'', 2), (''12'', 2)] True) =
     [(''11'', None), (''12'', Some Keep_one_copy)]"
  by code_simp

lemma batch_keeps_a_copy_witness:
  "\<exists>rows. plan_sales (example_env [two_of ''11'' ''g'' True, two_of ''12'' ''g'' True]) [(''11'', 2), (''12'', 2)] True = Inr rows \<and>
     ready (rows ! 0) \<and> keeps_copy (example_env [two_of ''11'' ''g'' True, two_of ''12'' ''g'' True]) rows 0 \<and>
     map pr_asset rows = [''11'', ''12'']"
proof -
  let ?E = "example_env [two_of ''11'' ''g'' True, two_of ''12'' ''g'' True]"
  obtain rows where rows: "plan_sales ?E [(''11'', 2), (''12'', 2)] True = Inr rows"
    using example_plan by (auto simp: outcomes_of_def split: sum.splits)
  note kept = batch_keeps_a_copy [OF this]
  obtain i q where "pr_result (rows ! 0) = Inr (i, q)"
    using example_plan rows by (cases rows) (auto simp: outcomes_of_def split: sum.splits)
  then show ?thesis using rows kept by (auto simp: ready_def)
qed

text \<open>
  The quote that is shared by name and fee carries the refusal of the first item over to the others: an
  item that can be sold alone is unavailable behind one of the same name that cannot.
\<close>

lemma refusal_is_shared:
  "outcomes_of (plan_sales (example_env [two_of ''11'' ''g'' False, two_of ''12'' ''h'' True]) [(''11'', 1), (''12'', 1)] True) =
     [(''11'', Some Not_marketable), (''12'', Some Not_marketable)] \<and>
   outcomes_of (plan_sales (example_env [two_of ''11'' ''g'' False, two_of ''12'' ''h'' True]) [(''12'', 1)] True) =
     [(''12'', None)]"
  by code_simp

end
