(* ===== verification/SaleSettings.thy ===== *)
theory SaleSettings
  imports SaleBatch
begin

text \<open>
  Saving the price settings of an account (\<open>saveSettings\<close>, \<open>validateSettings\<close> and \<open>confirmBatch\<close> of
  \<open>inventory/service.ts\<close>) beside the batch queue: a batch sells under the settings it was planned
  with, so settings are written only between batches.
\<close>

section \<open>State and operations\<close>

text \<open>A save waits for its turn in the account's queue, for the wallet, for the account, for the write.\<close>

datatype save_stage = Save_waits | Save_validates | Save_mutates | Save_writes

datatype save_error =
  Already_saving
| Being_saved
| Save_batch batch_error
| Save_market market_error
| Save_failed

record saving_state =
  batch_queue_of :: batch_queue
  settingsWrites :: "account_id \<Rightarrow> (price_settings \<times> save_stage) option"
  stored_settings :: "account_id \<Rightarrow> price_settings option"

definition end_save :: "account_id \<Rightarrow> saving_state \<Rightarrow> saving_state" where
  "end_save acc s = s\<lparr>settingsWrites := (settingsWrites s)(acc := None)\<rparr>"

definition save_at :: "account_id \<Rightarrow> price_settings \<Rightarrow> save_stage \<Rightarrow> saving_state \<Rightarrow> saving_state" where
  "save_at acc st stage s = s\<lparr>settingsWrites := (settingsWrites s)(acc := Some (st, stage))\<rparr>"

definition saveSettings :: "account_id \<Rightarrow> price_settings \<Rightarrow> saving_state \<Rightarrow> (save_error + unit) \<times> saving_state" where
  "saveSettings acc st s =
     (if settingsWrites s acc \<noteq> None then (Inl Already_saving, s) else (Inr (), save_at acc st Save_waits s))"

text \<open>The save goes on only while no batch of the account is active.\<close>

definition if_idle :: "account_id \<Rightarrow> price_settings \<Rightarrow> save_stage \<Rightarrow> saving_state \<Rightarrow> saving_state" where
  "if_idle acc st stage s =
     (case assertIdle acc (batch_queue_of s) of Inl _ \<Rightarrow> end_save acc s | Inr _ \<Rightarrow> save_at acc st stage s)"

definition wallet_read :: "account_id \<Rightarrow> market_error + wallet \<Rightarrow> saving_state \<Rightarrow> saving_state" where
  "wallet_read acc got s =
     (case settingsWrites s acc of
        Some (st, Save_validates) \<Rightarrow>
          (case and_then got (\<lambda>w. money (validatePriceSettings w st)) of
             Inl _ \<Rightarrow> end_save acc s
           | Inr _ \<Rightarrow> if_idle acc st Save_mutates s)
      | _ \<Rightarrow> s)"

definition save_turn :: "account_id \<Rightarrow> saving_state \<Rightarrow> saving_state" where
  "save_turn acc s = (case settingsWrites s acc of Some (st, Save_waits) \<Rightarrow> if_idle acc st Save_validates s | _ \<Rightarrow> s)"

text \<open>\<open>mutate\<close> runs the write as an operation of the account, or refuses.\<close>

definition mutate_turn :: "account_id \<Rightarrow> bool \<Rightarrow> saving_state \<Rightarrow> saving_state" where
  "mutate_turn acc refused s =
     (case settingsWrites s acc of
        Some (st, Save_mutates) \<Rightarrow> if refused then end_save acc s else if_idle acc st Save_writes s
      | _ \<Rightarrow> s)"

definition write_done :: "account_id \<Rightarrow> bool \<Rightarrow> saving_state \<Rightarrow> saving_state" where
  "write_done acc failed s =
     (case settingsWrites s acc of
        Some (st, Save_writes) \<Rightarrow>
          end_save acc (if failed then s else s\<lparr>stored_settings := (stored_settings s)(acc := Some st)\<rparr>)
      | _ \<Rightarrow> s)"

definition confirmBatch ::
    "millis \<Rightarrow> string \<Rightarrow> account_id \<Rightarrow> string \<Rightarrow> string \<Rightarrow> saving_state \<Rightarrow> (save_error + batch_job) \<times> saving_state" where
  "confirmBatch now uuid acc actor tok s =
     (if settingsWrites s acc \<noteq> None then (Inl Being_saved, s)
      else case confirm now uuid acc actor tok (batch_queue_of s) of
        (q, Inl e) \<Rightarrow> (Inl (Save_batch e), s\<lparr>batch_queue_of := q\<rparr>)
      | (q, Inr j) \<Rightarrow> (Inr j, s\<lparr>batch_queue_of := q\<rparr>))"

datatype saving_event =
  Save_settings account_id price_settings
| Save_turn account_id
| Wallet_read account_id "market_error + wallet"
| Mutate_allowed account_id bool
| Write_done account_id bool
| Confirm_batch millis string account_id string string
| Create_batch millis string account_id string batch_kind "market_currency option" "batch_command list" int
| Wait_over millis string bool
| Execute_over millis string "action_failure + action_result"
| Stop_batch millis account_id string string
| Stop_batches millis account_id
| Shut_down_batches millis

definition on_queue :: "(batch_queue \<Rightarrow> batch_queue) \<Rightarrow> saving_state \<Rightarrow> saving_state" where
  "on_queue f s = s\<lparr>batch_queue_of := f (batch_queue_of s)\<rparr>"

primrec saving_step :: "saving_event \<Rightarrow> saving_state \<Rightarrow> saving_state" where
  "saving_step (Save_settings acc st) s = snd (saveSettings acc st s)"
| "saving_step (Save_turn acc) s = save_turn acc s"
| "saving_step (Wallet_read acc w) s = wallet_read acc w s"
| "saving_step (Mutate_allowed acc r) s = mutate_turn acc r s"
| "saving_step (Write_done acc r) s = write_done acc r s"
| "saving_step (Confirm_batch now uuid acc actor tok) s = snd (confirmBatch now uuid acc actor tok s)"
| "saving_step (Create_batch now uuid acc actor k cur cs d) s = on_queue (\<lambda>q. fst (create now uuid acc actor k cur cs d q)) s"
| "saving_step (Wait_over now i r) s = on_queue (wait_settled now i r) s"
| "saving_step (Execute_over now i r) s = on_queue (execute_settled now i r) s"
| "saving_step (Stop_batch now acc actor i) s = on_queue (\<lambda>q. fst (stop now acc actor i q)) s"
| "saving_step (Stop_batches now acc) s = on_queue (stopAccount now acc) s"
| "saving_step (Shut_down_batches now) s = on_queue (shutdown now) s"

definition saving_steps :: "saving_event list \<Rightarrow> saving_state \<Rightarrow> saving_state" where
  "saving_steps = fold saving_step"

definition nothing_saved :: saving_state where
  "nothing_saved = \<lparr>batch_queue_of = empty_queue, settingsWrites = \<lambda>_. None, stored_settings = \<lambda>_. None\<rparr>"

section \<open>No operation but a confirmation starts a batch\<close>

definition idle_kept :: "account_id \<Rightarrow> batch_queue \<Rightarrow> batch_queue \<Rightarrow> bool" where
  "idle_kept a q q' \<longleftrightarrow> (js_get (active q) a = None \<longrightarrow> js_get (active q') a = None)"

lemma idle_kept_refl [simp]: "idle_kept a q q"
  by (simp add: idle_kept_def)

lemma idle_kept_trans: "idle_kept a q q' \<Longrightarrow> idle_kept a q' q'' \<Longrightarrow> idle_kept a q q''"
  by (simp add: idle_kept_def)

lemma idle_kept_same: "active q' = active q \<Longrightarrow> idle_kept a q q'"
  by (simp add: idle_kept_def)

lemma prune_active: "prune now q = (q', r) \<Longrightarrow> active q' = active q"
  by (auto simp: prune_def Let_def split: if_splits)

lemma settle_idle: "idle_kept a q (settle now i j q)"
  by (auto simp: settle_def finish_def idle_kept_def)

lemma create_idle: "idle_kept a q (fst (create now uuid a' actor k cur cs d q))"
  by (rule idle_kept_same)
    (use prune_active in \<open>fastforce simp: create_def Let_def split: sum.split prod.split\<close>)

lemma settled_idle: "idle_kept a q (wait_settled now i r q)" "idle_kept a q (execute_settled now i r' q)"
  by (auto simp: wait_settled_def execute_settled_def settle_idle split: option.split suspension.split)

lemma stop_active: "active (fst (stop now a actor i q)) = active q" "active (stopAccount now a q) = active q"
  by (auto simp: stop_def stopAccount_def Let_def split: sum.split option.split)

lemma shutdown_active: "active (shutdown now q) = active q"
proof -
  have "active (fold (stopAccount now) as q) = active q" for as
    by (induction as arbitrary: q) (simp_all add: stop_active)
  then show ?thesis by (simp add: shutdown_def)
qed

lemma confirm_idle:
  assumes "a \<noteq> acc"
  shows "idle_kept a q (fst (confirm now uuid acc actor tok q))"
proof (cases "js_get (previews q) tok")
  case (Some entry)
  let ?q1 = "q\<lparr>previews := js_delete tok (previews q)\<rparr>"
  obtain q2 r where p: "prune now ?q1 = (q2, r)" by (cases "prune now ?q1")
  have "idle_kept a q (settle now uuid j (q2\<lparr>active := js_set acc uuid (active q2)\<rparr>))" for j
    by (rule idle_kept_trans [OF _ settle_idle]) (use prune_active [OF p] assms in \<open>simp add: idle_kept_def\<close>)
  moreover have "idle_kept a q q2" "idle_kept a q ?q1" using prune_active [OF p] by (simp_all add: idle_kept_def)
  ultimately show ?thesis
    using Some p by (simp add: confirm_def Let_def split: sum.split)
qed (simp add: confirm_def)

section \<open>Settings change between batches only\<close>

definition saving_ok :: "saving_state \<Rightarrow> bool" where
  "saving_ok s \<longleftrightarrow>
     (\<forall>a st stage. settingsWrites s a = Some (st, stage) \<longrightarrow>
       (stage = Save_writes \<longrightarrow> js_get (active (batch_queue_of s)) a = None) \<and>
       (stage \<in> {Save_mutates, Save_writes} \<longrightarrow> (\<exists>w. validatePriceSettings w st = Inr ())))"

lemma saving_ok_queue:
  assumes "saving_ok s" "\<And>a. settingsWrites s a \<noteq> None \<Longrightarrow> idle_kept a (batch_queue_of s) q"
  shows "saving_ok (s\<lparr>batch_queue_of := q\<rparr>)"
  using assms by (fastforce simp: saving_ok_def idle_kept_def)

lemma on_queue_ok: "saving_ok s \<Longrightarrow> (\<And>a q. idle_kept a q (f q)) \<Longrightarrow> saving_ok (on_queue f s)"
  unfolding on_queue_def by (rule saving_ok_queue)

lemma save_at_ok:
  assumes "saving_ok s" "stage = Save_writes \<Longrightarrow> js_get (active (batch_queue_of s)) acc = None"
    and "stage \<in> {Save_mutates, Save_writes} \<Longrightarrow> \<exists>w. validatePriceSettings w st = Inr ()"
  shows "saving_ok (save_at acc st stage s)"
  using assms by (auto simp: saving_ok_def save_at_def)

lemma end_save_ok: "saving_ok s \<Longrightarrow> saving_ok (end_save acc s)"
  by (simp add: saving_ok_def end_save_def)

lemma if_idle_ok:
  assumes "saving_ok s" "stage \<in> {Save_mutates, Save_writes} \<Longrightarrow> \<exists>w. validatePriceSettings w st = Inr ()"
  shows "saving_ok (if_idle acc st stage s)"
  using assms end_save_ok save_at_ok [of s stage acc st] by (auto simp: if_idle_def assertIdle_def)

lemma saving_step_ok:
  assumes "saving_ok s"
  shows "saving_ok (saving_step e s)"
proof (cases e)
  case (Save_settings acc st)
  then show ?thesis using assms by (auto simp: saveSettings_def intro: save_at_ok)
next
  case (Save_turn acc)
  then show ?thesis
    using assms by (auto simp: save_turn_def intro: if_idle_ok split: option.split prod.split save_stage.split)
next
  case (Wallet_read acc w)
  have "\<exists>w. validatePriceSettings w st = Inr ()" if "and_then w (\<lambda>w. money (validatePriceSettings w st)) = Inr u" for st u
    using that by (auto simp: and_then_eq_Inr)
  then show ?thesis
    using Wallet_read assms
    by (auto simp: wallet_read_def intro: if_idle_ok end_save_ok split: option.split prod.split save_stage.split sum.split)
next
  case (Mutate_allowed acc r)
  have "saving_ok (if_idle acc st Save_writes s)" if "settingsWrites s acc = Some (st, Save_mutates)" for st
    using assms that by (intro if_idle_ok) (auto simp: saving_ok_def)
  then show ?thesis
    using Mutate_allowed assms
    by (auto simp: mutate_turn_def intro: end_save_ok split: option.split prod.split save_stage.split)
next
  case (Write_done acc r)
  have "saving_ok (s\<lparr>stored_settings := v\<rparr>)" for v using assms by (simp add: saving_ok_def)
  then show ?thesis
    using Write_done assms
    by (auto simp: write_done_def intro: end_save_ok split: option.split prod.split save_stage.split)
next
  case (Confirm_batch now uuid acc actor tok)
  have "saving_ok (s\<lparr>batch_queue_of := q\<rparr>)" if "settingsWrites s acc = None" "fst (confirm now uuid acc actor tok (batch_queue_of s)) = q" for q
  proof (rule saving_ok_queue [OF assms])
    fix a
    assume "settingsWrites s a \<noteq> None"
    with that(1) have "a \<noteq> acc" by auto
    from confirm_idle [OF this] that(2) show "idle_kept a (batch_queue_of s) q" by metis
  qed
  then show ?thesis
    using Confirm_batch assms
    by (cases "settingsWrites s acc"; cases "confirm now uuid acc actor tok (batch_queue_of s)")
      (simp_all add: confirmBatch_def split: sum.split)
next
  case (Create_batch now uuid acc actor k cur cs d)
  then show ?thesis using on_queue_ok [OF assms] create_idle by simp
next
  case (Wait_over now i r)
  then show ?thesis using on_queue_ok [OF assms] settled_idle(1) by simp
next
  case (Execute_over now i r)
  then show ?thesis using on_queue_ok [OF assms] settled_idle(2) by simp
qed (use on_queue_ok [OF assms] stop_active shutdown_active idle_kept_same in simp_all)

lemma saving_steps_ok: "saving_ok (saving_steps es nothing_saved)"
  by (induction es rule: rev_induct)
    (simp_all add: saving_steps_def saving_step_ok, simp add: saving_ok_def nothing_saved_def)

text \<open>
  C35: The settings of an account change only at the end of a save, to settings that were accepted for a
  wallet, while no batch of the account is active; and none can be confirmed from the beginning of the
  save to its end.
\<close>

theorem settings_change_between_batches:
  assumes "s = saving_steps es nothing_saved" "stored_settings (saving_step e s) acc \<noteq> stored_settings s acc"
  shows "js_get (active (batch_queue_of s)) acc = None \<and>
    (\<exists>st w. stored_settings (saving_step e s) acc = Some st \<and> validatePriceSettings w st = Inr ()) \<and>
    fst (confirmBatch now uuid acc actor tok s) = Inl Being_saved"
proof -
  have same: "stored_settings (save_at a st stage s) = stored_settings s" "stored_settings (end_save a s) = stored_settings s"
    "stored_settings (if_idle a st stage s) = stored_settings s" "stored_settings (on_queue f s) = stored_settings s" for a st stage f
    by (simp_all add: save_at_def end_save_def if_idle_def on_queue_def split: sum.split)
  obtain failed st where e: "e = Write_done acc failed" "settingsWrites s acc = Some (st, Save_writes)" "\<not> failed"
  proof (cases e)
    case (Write_done a failed)
    then show ?thesis
      using assms(2) that
      by (auto simp: write_done_def end_save_def split: option.splits prod.splits save_stage.splits if_splits)
  qed (use assms(2) in \<open>auto simp: same saveSettings_def save_turn_def wallet_read_def mutate_turn_def confirmBatch_def
      split: if_splits option.splits prod.splits save_stage.splits sum.splits\<close>)
  have "saving_ok s" using saving_steps_ok assms(1) by simp
  then have "js_get (active (batch_queue_of s)) acc = None" "\<exists>w. validatePriceSettings w st = Inr ()"
    using e by (auto simp: saving_ok_def)
  then show ?thesis using e by (simp add: write_done_def end_save_def confirmBatch_def)
qed

lemma settings_change_between_batches_witness:
  "fst (confirmBatch 5 ''job'' ''a'' ''u'' ''t'' (saving_steps
     [Save_settings ''a'' example_settings, Save_turn ''a'', Wallet_read ''a'' (Inr example_wallet), Mutate_allowed ''a'' False]
     nothing_saved)) = Inl Being_saved"
proof -
  let ?es = "[Save_settings ''a'' example_settings, Save_turn ''a'', Wallet_read ''a'' (Inr example_wallet),
    Mutate_allowed ''a'' False]"
  have "stored_settings (saving_step (Write_done ''a'' False) (saving_steps ?es nothing_saved)) ''a'' \<noteq>
      stored_settings (saving_steps ?es nothing_saved) ''a''" by code_simp
  from settings_change_between_batches [OF refl this, of 5 "''job''" "''u''" "''t''"] show ?thesis by blast
qed

end
