(* ===== verification/PriceOverview.thy ===== *)
theory PriceOverview
  imports InventoryPages
begin

text \<open>
  The price overview of an inventory: \<open>inventory/price-overview.ts\<close>. A viewed inventory leaves a context
  of its variants, from which later reads take the items; a read is cut at its awaits, and the answers of
  the price reader (\<open>PriceReader\<close>) are arguments. Fingerprints are left out.
\<close>

section \<open>Contexts\<close>

record variant =
  va_marketHashName :: "string option"
  va_publisherFee :: unknown
  va_marketable :: bool

record price_context =
  cx_fetchedAt :: millis
  cx_expiresAt :: millis
  cx_variants :: "(string, variant) js_map"
  cx_tooLarge :: bool

datatype overview_error =
  Unknown_variant
| Overview_not_marketable
| Overview_price ReadPriceError
| Overview_currency
| Overview_limits
| Overview_fees

record estimate =
  es_buyerPays :: int
  es_sellerReceives :: int

record overview_row =
  ro_variant :: string
  ro_reference :: "int option"
  ro_estimate :: "estimate option"
  ro_observedAt :: "millis option"
  ro_freshUntil :: "millis option"
  ro_displayUntil :: "millis option"
  ro_stale :: bool
  ro_error :: "overview_error option"
  ro_retryAt :: "millis option"

datatype read_error = Variants_invalid | Context_expired | Context_too_large | Overview_settings

text \<open>A read: what it captured, and how far it is.\<close>

datatype overview_stage =
  At_overview_wallet
| At_observations "price_error + wallet option"
| At_overview_settings "price_error + wallet option" "(string, price_error + observation) js_map"
| Overview_done

record overview_read =
  or_account :: account_id
  or_context :: price_context
  or_variants :: "string list"
  or_accountEpoch :: nat
  or_epoch :: nat
  or_stage :: overview_stage

record overview =
  contexts :: "(account_id, price_context) js_map"
  ov_epochs :: "account_id \<Rightarrow> nat"
  ov_epoch :: nat
  ov_now :: millis
  overview_reads :: "overview_read list"
  results :: "(nat \<times> (read_error + overview_row list)) list"

definition priceContextTtl :: millis where "priceContextTtl = 300000"
definition maxPriceContextAccounts :: int where "maxPriceContextAccounts = 8"
definition maxPriceContextVariants :: int where "maxPriceContextVariants = 50000"

definition variants_in :: "(account_id, price_context) js_map \<Rightarrow> int" where
  "variants_in m = sum_list (map (\<lambda>(a, c). int (length (cx_variants c))) m)"

definition prune_contexts :: "millis \<Rightarrow> (account_id, price_context) js_map \<Rightarrow> (account_id, price_context) js_map" where
  "prune_contexts now m = filter (\<lambda>(a, c). \<not> cx_expiresAt c \<le> now) m"

text \<open>The oldest contexts go until the new one fits.\<close>

fun make_room :: "int \<Rightarrow> (account_id, price_context) js_map \<Rightarrow> (account_id, price_context) js_map" where
  "make_room n [] = []"
| "make_room n (x # m) =
     (if int (length (x # m)) \<ge> maxPriceContextAccounts \<or> variants_in (x # m) + n > maxPriceContextVariants
      then make_room n m else x # m)"

definition variants_of :: "item list \<Rightarrow> (string, variant) js_map" where
  "variants_of items =
     fold (\<lambda>x. js_set (variantId x) \<lparr>va_marketHashName = marketHashName x, va_publisherFee = publisher_fee x,
       va_marketable = marketable x\<rparr>) items []"

definition seed :: "account_id \<Rightarrow> item list \<Rightarrow> millis \<Rightarrow> overview \<Rightarrow> overview" where
  "seed acc items fetched s =
     (let variants = variants_of items;
          large = int (length variants) > maxPriceContextVariants;
          c = \<lparr>cx_fetchedAt = fetched, cx_expiresAt = ov_now s + priceContextTtl,
               cx_variants = (if large then [] else variants), cx_tooLarge = large\<rparr>;
          left = js_delete acc (prune_contexts (ov_now s) (contexts s))
      in s\<lparr>contexts := make_room (int (length (cx_variants c))) left @ [(acc, c)]\<rparr>)"

section \<open>Rows\<close>

definition unavailable :: "string \<Rightarrow> overview_error \<Rightarrow> overview_row" where
  "unavailable v e =
     \<lparr>ro_variant = v, ro_reference = None, ro_estimate = None, ro_observedAt = None, ro_freshUntil = None,
      ro_displayUntil = None, ro_stale = False, ro_error = Some e, ro_retryAt = None\<rparr>"

text \<open>The reason of a quote's error that is shown.\<close>

definition displayError :: "money_error \<Rightarrow> overview_error" where
  "displayError e =
     (case e of Currency_mismatch \<Rightarrow> Overview_currency | Outside_price_limits \<Rightarrow> Overview_limits
      | Below_minimum_fees \<Rightarrow> Overview_fees | _ \<Rightarrow> Overview_price UNSUPPORTED_PRICE)"

definition eligible :: "price_context \<Rightarrow> string \<Rightarrow> bool" where
  "eligible c v \<longleftrightarrow>
     (case js_get (cx_variants c) v of
        None \<Rightarrow> False
      | Some x \<Rightarrow> va_marketable x \<and> va_marketHashName x \<noteq> None \<and> va_marketHashName x \<noteq> Some [])"

definition priced_row :: "string \<Rightarrow> variant \<Rightarrow> wallet \<Rightarrow> observation \<Rightarrow> price_settings \<Rightarrow> overview_row" where
  "priced_row v x w ob st =
     (let r = (unavailable v (Overview_price NO_ORDERS))\<lparr>ro_observedAt := Some (observedAt ob),
            ro_freshUntil := Some (freshUntil ob), ro_displayUntil := Some (displayUntil ob), ro_stale := stale ob,
            ro_error := map_option Overview_price (ob_error ob), ro_retryAt := ob_retryAt ob\<rparr> in
      case (if priceMode st = ''highestBuyOrder'' then highestBuyOrder ob else lowestSellOrder ob) of
        None \<Rightarrow> r\<lparr>ro_error := Some (Overview_price NO_ORDERS)\<rparr>
      | Some p \<Rightarrow>
          if p < 1 then r\<lparr>ro_error := Some (Overview_price NO_ORDERS)\<rparr>
          else case toMinorUnits p (currency w) of
            Inl _ \<Rightarrow> r\<lparr>ro_error := Some (Overview_price UNSUPPORTED_PRICE)\<rparr>
          | Inr units \<Rightarrow>
              (let r1 = r\<lparr>ro_reference := Some units\<rparr> in
               case and_then (quoteWithRules (Whole p) w (va_publisherFee x) st) (\<lambda>(q, cap).
                 and_then (toMinorUnits (buyerPays q) (currency w)) (\<lambda>buyer.
                 and_then (toMinorUnits (base q) (currency w)) (\<lambda>seller.
                 Inr \<lparr>es_buyerPays = buyer, es_sellerReceives = seller\<rparr>))) of
                 Inl e \<Rightarrow> r1\<lparr>ro_error := Some (displayError e)\<rparr>
               | Inr es \<Rightarrow> r1\<lparr>ro_estimate := Some es\<rparr>))"

definition overview_row_of ::
    "price_context \<Rightarrow> price_error + wallet option \<Rightarrow> (string, price_error + observation) js_map \<Rightarrow> price_settings
      \<Rightarrow> string \<Rightarrow> overview_row" where
  "overview_row_of c w obs st v =
     (case js_get (cx_variants c) v of
        None \<Rightarrow> unavailable v Unknown_variant
      | Some x \<Rightarrow>
          if \<not> eligible c v then unavailable v Overview_not_marketable
          else case w of
            Inl e \<Rightarrow> (unavailable v (Overview_price (price_code e)))\<lparr>ro_retryAt := retryAt e\<rparr>
          | Inr None \<Rightarrow> unavailable v (Overview_price STEAM_UNAVAILABLE)
          | Inr (Some w) \<Rightarrow>
              (case js_get obs v of
                 None \<Rightarrow> unavailable v (Overview_price UNSUPPORTED_PRICE)
               | Some (Inl e) \<Rightarrow> (unavailable v (Overview_price (price_code e)))\<lparr>ro_retryAt := retryAt e\<rparr>
               | Some (Inr ob) \<Rightarrow> priced_row v x w ob st))"

section \<open>Reads\<close>

definition variant_id :: "string \<Rightarrow> bool" where
  "variant_id v \<longleftrightarrow>
     prefix ''753:6:'' v \<and>
     (let rest = drop 6 v; c = takeWhile (\<lambda>x. x \<noteq> CHR '':'') rest; i = drop (length c + 1) rest in
      length c < length rest \<and> numeric_id c \<and> (i = ''0'' \<or> numeric_id i))"

definition valid_variants :: "string list \<Rightarrow> bool" where
  "valid_variants vs \<longleftrightarrow> vs \<noteq> [] \<and> length vs \<le> 10 \<and> distinct vs \<and> list_all variant_id vs"

text \<open>Without an eligible variant no wallet is read.\<close>

definition read_start :: "account_id \<Rightarrow> string list \<Rightarrow> overview \<Rightarrow> (read_error + overview_read) \<times> overview" where
  "read_start acc vs s =
     (if \<not> valid_variants vs then (Inl Variants_invalid, s)
      else let s1 = s\<lparr>contexts := prune_contexts (ov_now s) (contexts s)\<rparr> in
        case js_get (contexts s1) acc of
          None \<Rightarrow> (Inl Context_expired, s1)
        | Some c \<Rightarrow>
            if cx_tooLarge c then (Inl Context_too_large, s1)
            else (Inr \<lparr>or_account = acc, or_context = c, or_variants = vs, or_accountEpoch = ov_epochs s acc,
                      or_epoch = ov_epoch s,
                      or_stage = (if list_ex (eligible c) vs then At_overview_wallet else At_overview_settings (Inr None) [])\<rparr>,
                  s1\<lparr>contexts := js_delete acc (contexts s1) @ [(acc, c)]\<rparr>))"

definition is_current :: "overview \<Rightarrow> overview_read \<Rightarrow> bool" where
  "is_current s r \<longleftrightarrow> ov_epochs s (or_account r) = or_accountEpoch r \<and> ov_epoch s = or_epoch r"

datatype overview_answer =
  Wallet_read "price_error + wallet"
| Observations "string \<Rightarrow> price_error + observation"
| Settings_read "market_error + price_settings"

text \<open>The next stage, or the result, of a read that got an answer; other answers change nothing.\<close>

definition read_part :: "overview \<Rightarrow> overview_read \<Rightarrow> overview_answer \<Rightarrow> (overview_stage + (read_error + overview_row list)) option" where
  "read_part s r got =
     (case or_stage r of
        At_overview_wallet \<Rightarrow>
          (case got of
             Wallet_read w \<Rightarrow>
               Some (if \<not> is_current s r then Inr (Inl Context_expired)
                     else case w of
                       Inl e \<Rightarrow> Inl (At_overview_settings (Inl e) [])
                     | Inr w \<Rightarrow> Inl (At_observations (Inr (Some w))))
           | _ \<Rightarrow> None)
      | At_observations w \<Rightarrow>
          (case got of
             Observations f \<Rightarrow>
               Some (if \<not> is_current s r then Inr (Inl Context_expired)
                     else Inl (At_overview_settings w (map (\<lambda>v. (v, f v)) (filter (eligible (or_context r)) (or_variants r)))))
           | _ \<Rightarrow> None)
      | At_overview_settings w obs \<Rightarrow>
          (case got of
             Settings_read st \<Rightarrow>
               Some (case st of
                  Inl _ \<Rightarrow> Inr (Inl Overview_settings)
                | Inr st \<Rightarrow>
                    if \<not> is_current s r then Inr (Inl Context_expired)
                    else Inr (Inr (map (overview_row_of (or_context r) w obs st) (or_variants r))))
           | _ \<Rightarrow> None)
      | Overview_done \<Rightarrow> None)"

definition read_answered :: "nat \<Rightarrow> overview_answer \<Rightarrow> overview \<Rightarrow> overview" where
  "read_answered i got s =
     (if i \<ge> length (overview_reads s) then s
      else let r = overview_reads s ! i in
        case read_part s r got of
          None \<Rightarrow> s
        | Some (Inl st) \<Rightarrow> s\<lparr>overview_reads := (overview_reads s)[i := r\<lparr>or_stage := st\<rparr>]\<rparr>
        | Some (Inr res) \<Rightarrow>
            s\<lparr>overview_reads := (overview_reads s)[i := r\<lparr>or_stage := Overview_done\<rparr>], results := (i, res) # results s\<rparr>)"

definition begin_read :: "account_id \<Rightarrow> string list \<Rightarrow> overview \<Rightarrow> overview" where
  "begin_read acc vs s =
     (case read_start acc vs s of
        (Inl e, s1) \<Rightarrow> s1
      | (Inr r, s1) \<Rightarrow> s1\<lparr>overview_reads := overview_reads s1 @ [r]\<rparr>)"

definition clear_account :: "account_id \<Rightarrow> overview \<Rightarrow> overview" where
  "clear_account acc s =
     s\<lparr>ov_epochs := (ov_epochs s)(acc := ov_epochs s acc + 1), contexts := js_delete acc (contexts s)\<rparr>"

definition shutdown_overview :: "overview \<Rightarrow> overview" where
  "shutdown_overview s = s\<lparr>ov_epoch := ov_epoch s + 1, contexts := []\<rparr>"

datatype overview_event =
  Seed account_id "item list" millis
| Begin_read account_id "string list"
| Read_answered nat overview_answer
| Clear_account account_id
| Shutdown_overview
| Overview_clock millis

primrec overview_step :: "overview_event \<Rightarrow> overview \<Rightarrow> overview" where
  "overview_step (Seed acc items t) s = seed acc items t s"
| "overview_step (Begin_read acc vs) s = begin_read acc vs s"
| "overview_step (Read_answered i a) s = read_answered i a s"
| "overview_step (Clear_account acc) s = clear_account acc s"
| "overview_step Shutdown_overview s = shutdown_overview s"
| "overview_step (Overview_clock d) s = s\<lparr>ov_now := ov_now s + max 0 d\<rparr>"

definition overview_steps :: "overview_event list \<Rightarrow> overview \<Rightarrow> overview" where
  "overview_steps = fold overview_step"

definition new_overview :: "millis \<Rightarrow> overview" where
  "new_overview now =
     \<lparr>contexts = [], ov_epochs = \<lambda>_. 0, ov_epoch = 0, ov_now = now, overview_reads = [], results = []\<rparr>"

section \<open>The contexts are bounded\<close>

lemma variants_in_append [simp]: "variants_in (m @ m') = variants_in m + variants_in m'"
  by (simp add: variants_in_def)

lemma variants_in_Cons [simp]: "variants_in (x # m) = int (length (cx_variants (snd x))) + variants_in m"
  by (cases x) (simp add: variants_in_def)

lemma variants_in_nonneg: "0 \<le> variants_in m"
  by (induction m) (simp_all add: variants_in_def case_prod_beta)

lemma variants_in_filter: "variants_in (filter P m) \<le> variants_in m"
proof (induction m)
  case (Cons x m)
  then show ?case using variants_in_nonneg [of "[x]"] by simp
qed (simp add: variants_in_def)

lemma make_room_ok:
  "n \<le> maxPriceContextVariants \<Longrightarrow>
   int (length (make_room n m)) < maxPriceContextAccounts \<and> variants_in (make_room n m) + n \<le> maxPriceContextVariants"
  by (induction n m rule: make_room.induct) (simp_all add: maxPriceContextAccounts_def variants_in_def)

lemma make_room_suffix: "\<exists>old. m = old @ make_room n m"
proof (induction n m rule: make_room.induct)
  case (2 n x m)
  then show ?case by (metis append_Cons append_Nil make_room.simps(2))
qed simp

definition contexts_ok :: "overview \<Rightarrow> bool" where
  "contexts_ok s \<longleftrightarrow> int (length (contexts s)) \<le> maxPriceContextAccounts \<and> variants_in (contexts s) \<le> maxPriceContextVariants \<and>
     js_map_ok (contexts s)"


lemma contexts_ok_parts:
  assumes "contexts_ok s"
  shows "contexts_ok (s\<lparr>contexts := prune_contexts now (contexts s)\<rparr>)" "contexts_ok (s\<lparr>contexts := js_delete acc (contexts s)\<rparr>)"
  using assms variants_in_filter [of "\<lambda>(a, c). \<not> cx_expiresAt c \<le> now" "contexts s"]
    variants_in_filter [of "\<lambda>(a, c). acc \<noteq> a" "contexts s"]
  by (auto simp: contexts_ok_def prune_contexts_def AList.delete_eq intro: order_trans [OF of_nat_mono [OF length_filter_le]] order_trans
      js_map_ok_filter)

lemma delete_notin: "k \<notin> fst ` set m \<Longrightarrow> js_delete k m = m"
  by (induction m) auto

lemma deleted_context:
  "js_map_ok m \<Longrightarrow> js_get m acc = Some c \<Longrightarrow>
   length m = Suc (length (js_delete acc m)) \<and> variants_in m = variants_in (js_delete acc m) + int (length (cx_variants c))"
proof (induction m)
  case (Cons x m)
  show ?case
  proof (cases "fst x = acc")
    case True
    then have "acc \<notin> fst ` set m" using Cons.prems(1) by (auto simp: js_map_ok_def)
    then have "js_delete acc m = m" by (rule delete_notin)
    then show ?thesis using True Cons.prems(2) by (cases x) simp
  next
    case False
    then show ?thesis using Cons by (cases x) (auto simp: js_map_ok_def)
  qed
qed simp

lemma contexts_ok_moved:
  assumes "contexts_ok s" "js_get (contexts s) acc = Some c"
  shows "contexts_ok (s\<lparr>contexts := js_delete acc (contexts s) @ [(acc, c)]\<rparr>)"
proof -
  have ok: "js_map_ok (contexts s)" using assms(1) by (simp add: contexts_ok_def)
  have "acc \<notin> fst ` set (js_delete acc (contexts s))" by (auto simp: AList.delete_eq)
  then have "js_map_ok (js_delete acc (contexts s) @ [(acc, c)])"
    using js_map_ok_delete [OF ok, of acc] by (simp add: js_map_ok_def)
  then show ?thesis
    using assms(1) deleted_context [OF ok assms(2)] by (simp add: contexts_ok_def variants_in_def)
qed

lemma seed_ok:
  assumes "contexts_ok s"
  shows "contexts_ok (seed acc items t s)"
proof -
  define vs where "vs = (if int (length (variants_of items)) > maxPriceContextVariants then [] else variants_of items)"
  define left where "left = js_delete acc (prune_contexts (ov_now s) (contexts s))"
  define c where "c = \<lparr>cx_fetchedAt = t, cx_expiresAt = ov_now s + priceContextTtl, cx_variants = vs,
    cx_tooLarge = int (length (variants_of items)) > maxPriceContextVariants\<rparr>"
  have seeded: "contexts (seed acc items t s) = make_room (int (length vs)) left @ [(acc, c)]"
    by (simp add: seed_def Let_def vs_def left_def c_def)
  have "int (length vs) \<le> maxPriceContextVariants" by (simp add: vs_def maxPriceContextVariants_def)
  note room = make_room_ok [OF this, of left]
  have "js_map_ok left" using assms by (simp add: left_def prune_contexts_def contexts_ok_def)
  moreover have "acc \<notin> fst ` set left" by (auto simp: left_def AList.delete_eq)
  moreover obtain old where "left = old @ make_room (int (length vs)) left" using make_room_suffix by blast
  ultimately have "distinct (map fst (make_room (int (length vs)) left)) \<and> acc \<notin> fst ` set (make_room (int (length vs)) left)"
    by (metis (no_types, lifting) Un_iff distinct_append image_Un js_map_ok_def map_append set_append)
  then show ?thesis using room by (simp add: contexts_ok_def seeded js_map_ok_def c_def variants_in_def)
qed

lemma overview_step_ok:
  assumes "contexts_ok s"
  shows "contexts_ok (overview_step e s)"
proof (cases e)
  case (Begin_read acc vs)
  let ?s = "s\<lparr>contexts := prune_contexts (ov_now s) (contexts s)\<rparr>"
  have "contexts_ok ?s" by (rule contexts_ok_parts [OF assms])
  moreover have "contexts_ok (?s\<lparr>contexts := js_delete acc (contexts ?s) @ [(acc, c)]\<rparr>)"
    if "js_get (contexts ?s) acc = Some c" for c
    by (rule contexts_ok_moved) (use \<open>contexts_ok ?s\<close> that in simp_all)
  ultimately show ?thesis
    using Begin_read assms by (auto simp: begin_read_def read_start_def Let_def contexts_ok_def split: option.split)
next
  case (Read_answered i a)
  then show ?thesis
    using assms by (auto simp: read_answered_def Let_def contexts_ok_def split: option.split sum.split)
next
  case (Clear_account acc)
  then show ?thesis using contexts_ok_parts(2) [OF assms, of acc] by (simp add: clear_account_def contexts_ok_def)
qed (use assms seed_ok in \<open>auto simp: shutdown_overview_def contexts_ok_def variants_in_def maxPriceContextAccounts_def maxPriceContextVariants_def\<close>)

lemma overview_steps_ok: "contexts_ok (overview_steps es (new_overview t))"
proof (induction es rule: rev_induct)
  case Nil
  then show ?case
    by (simp add: overview_steps_def new_overview_def contexts_ok_def variants_in_def maxPriceContextAccounts_def
        maxPriceContextVariants_def)
qed (simp add: overview_steps_def overview_step_ok)

text \<open>
  At most eight price contexts with together at most 50000 variants are kept, and an inventory that
  was just viewed has its own: with all of its variants, whenever these are at most 50000.
\<close>

theorem price_contexts_are_bounded:
  assumes "s = overview_steps es (new_overview start_time)"
  shows "int (length (contexts s)) \<le> 8 \<and> variants_in (contexts s) \<le> 50000 \<and> distinct (js_keys (contexts s)) \<and>
    (let s' = seed acc items t s in
     case js_get (contexts s') acc of
       None \<Rightarrow> False
     | Some c \<Rightarrow> cx_tooLarge c = (int (length (variants_of items)) > 50000) \<and>
         (\<not> cx_tooLarge c \<longrightarrow> cx_variants c = variants_of items))"
proof -
  have "contexts_ok s" using overview_steps_ok assms by simp
  moreover from seed_ok [OF this] have "js_map_ok (contexts (seed acc items t s))" by (simp add: contexts_ok_def)
  then have "js_get (contexts (seed acc items t s)) acc =
      Some \<lparr>cx_fetchedAt = t, cx_expiresAt = ov_now s + priceContextTtl,
        cx_variants = (if int (length (variants_of items)) > maxPriceContextVariants then [] else variants_of items),
        cx_tooLarge = int (length (variants_of items)) > maxPriceContextVariants\<rparr>"
    by (intro map_of_is_SomeI) (simp_all add: seed_def Let_def js_map_ok_def)
  ultimately show ?thesis
    by (simp add: contexts_ok_def js_map_ok_def js_keys_def maxPriceContextAccounts_def maxPriceContextVariants_def Let_def)
qed

section \<open>Cleared accounts\<close>

definition epochs_ok :: "overview \<Rightarrow> bool" where
  "epochs_ok s \<longleftrightarrow> (\<forall>r\<in>set (overview_reads s). or_accountEpoch r \<le> ov_epochs s (or_account r))"

text \<open>The read is outdated, and its rows were there before.\<close>

definition outdated :: "nat \<Rightarrow> account_id \<Rightarrow> (nat \<times> (read_error + overview_row list)) list \<Rightarrow> overview \<Rightarrow> bool" where
  "outdated i acc before s \<longleftrightarrow>
     i < length (overview_reads s) \<and> or_account (overview_reads s ! i) = acc \<and>
     or_accountEpoch (overview_reads s ! i) < ov_epochs s acc \<and>
     (\<forall>rows. (i, Inr rows) \<in> set (results s) \<longrightarrow> (i, Inr rows) \<in> set before)"

lemma begin_read_parts:
  "ov_epochs (begin_read acc vs s) = ov_epochs s" "results (begin_read acc vs s) = results s"
  "overview_reads (begin_read acc vs s) = overview_reads s \<or>
   (\<exists>r. overview_reads (begin_read acc vs s) = overview_reads s @ [r] \<and> or_account r = acc \<and> or_accountEpoch r = ov_epochs s acc)"
  by (auto simp: begin_read_def read_start_def Let_def split: option.split)

lemma read_answered_parts:
  "ov_epochs (read_answered i got s) = ov_epochs s"
  "map or_account (overview_reads (read_answered i got s)) = map or_account (overview_reads s)"
  "map or_accountEpoch (overview_reads (read_answered i got s)) = map or_accountEpoch (overview_reads s)"
  by (auto simp: read_answered_def Let_def map_update list_update_same_conv split: option.split sum.split
      intro!: list_update_id [THEN trans, symmetric])

lemma read_part_rows: "read_part s r got = Some (Inr (Inr rows)) \<Longrightarrow> is_current s r"
  by (auto simp: read_part_def split: overview_stage.splits overview_answer.splits sum.splits if_splits)

lemma read_answered_rows:
  "(i, Inr rows) \<in> set (results (read_answered j got s)) \<Longrightarrow>
   (i, Inr rows) \<in> set (results s) \<or> (j = i \<and> is_current s (overview_reads s ! i))"
  using read_part_rows by (fastforce simp: read_answered_def Let_def split: if_splits option.splits sum.splits)

lemma epochs_ok_iff:
  "epochs_ok s \<longleftrightarrow> (\<forall>(a, e)\<in>set (zip (map or_account (overview_reads s)) (map or_accountEpoch (overview_reads s))). e \<le> ov_epochs s a)"
  by (simp add: epochs_ok_def zip_map_map zip_same_conv_map)

lemma overview_step_epochs: "epochs_ok s \<Longrightarrow> epochs_ok (overview_step e s)"
proof (cases e)
  case (Begin_read acc vs)
  then show "epochs_ok s \<Longrightarrow> ?thesis" using begin_read_parts [of acc vs s] by (auto simp: epochs_ok_def)
next
  case (Read_answered i a)
  then show "epochs_ok s \<Longrightarrow> ?thesis" by (simp add: epochs_ok_iff read_answered_parts)
next
  case (Clear_account acc)
  then show "epochs_ok s \<Longrightarrow> ?thesis" by (fastforce simp: epochs_ok_def clear_account_def)
qed (simp_all add: epochs_ok_def seed_def Let_def shutdown_overview_def)

lemma overview_step_outdated:
  assumes "outdated i acc before s"
  shows "outdated i acc before (overview_step e s)"
proof (cases e)
  case (Begin_read a vs)
  then show ?thesis using assms begin_read_parts [of a vs s] by (auto simp: outdated_def nth_append)
next
  case (Read_answered j got)
  let ?s = "read_answered j got s"
  have len: "length (overview_reads ?s) = length (overview_reads s)"
    using read_answered_parts(2) [of j got s] by (metis length_map)
  moreover have "or_account (overview_reads ?s ! i) = or_account (overview_reads s ! i)"
    "or_accountEpoch (overview_reads ?s ! i) = or_accountEpoch (overview_reads s ! i)"
    using read_answered_parts(2,3) [of j got s] assms len unfolding outdated_def by (metis nth_map)+
  moreover have "\<not> is_current s (overview_reads s ! i)" using assms by (auto simp: outdated_def is_current_def)
  ultimately show ?thesis
    using Read_answered assms read_answered_rows [of i _ j got s] by (auto simp: outdated_def read_answered_parts(1))
qed (use assms in \<open>auto simp: outdated_def seed_def Let_def clear_account_def shutdown_overview_def\<close>)

text \<open>
  No read of an account that was begun before the account was cleared returns rows afterwards,
  whatever the market answers and in whatever order.
\<close>

theorem cleared_read_returns_nothing:
  assumes "s = overview_steps es (new_overview start_time)"
    and "i < length (overview_reads s)" "or_account (overview_reads s ! i) = acc"
    and "(i, Inr rows) \<in> set (results (overview_steps later (clear_account acc s)))"
  shows "(i, Inr rows) \<in> set (results s)"
proof -
  have "epochs_ok (overview_steps es (new_overview start_time))"
    by (induction es rule: rev_induct) (simp_all add: overview_steps_def overview_step_epochs, simp add: epochs_ok_def new_overview_def)
  then have "or_accountEpoch (overview_reads s ! i) \<le> ov_epochs s acc"
    using assms(1-3) by (auto simp: epochs_ok_def)
  then have "outdated i acc (results s) (clear_account acc s)"
    using assms(2,3) by (simp add: outdated_def clear_account_def)
  then have "outdated i acc (results s) (overview_steps later (clear_account acc s))"
    by (induction later rule: rev_induct) (simp_all add: overview_steps_def overview_step_outdated)
  then show ?thesis using assms(4) by (simp add: outdated_def)
qed

section \<open>Rows\<close>

text \<open>The rows are those asked for, in their order, and an estimate is the quote at the observed price.\<close>

lemma overview_row_variant: "ro_variant (overview_row_of c w obs st v) = v"
  by (simp add: overview_row_of_def priced_row_def unavailable_def Let_def
      split: option.split sum.split)

lemma overview_estimate:
  assumes "ro_estimate (overview_row_of c w obs st v) = Some es"
  shows "\<exists>x wl ob p q cap. js_get (cx_variants c) v = Some x \<and> va_marketable x \<and> w = Inr (Some wl) \<and> js_get obs v = Some (Inr ob) \<and>
    (if priceMode st = ''highestBuyOrder'' then highestBuyOrder ob else lowestSellOrder ob) = Some p \<and> 1 \<le> p \<and>
    quoteWithRules (Whole p) wl (va_publisherFee x) st = Inr (q, cap) \<and>
    toMinorUnits (buyerPays q) (currency wl) = Inr (es_buyerPays es) \<and>
    toMinorUnits (base q) (currency wl) = Inr (es_sellerReceives es)"
proof -
  obtain x wl ob where x: "js_get (cx_variants c) v = Some x" "eligible c v" "w = Inr (Some wl)" "js_get obs v = Some (Inr ob)"
    and row: "ro_estimate (priced_row v x wl ob st) = Some es"
    using assms by (auto simp: overview_row_of_def unavailable_def split: option.splits sum.splits if_splits)
  then obtain p where "(if priceMode st = ''highestBuyOrder'' then highestBuyOrder ob else lowestSellOrder ob) = Some p"
    "1 \<le> p" "\<exists>q cap. quoteWithRules (Whole p) wl (va_publisherFee x) st = Inr (q, cap) \<and>
      toMinorUnits (buyerPays q) (currency wl) = Inr (es_buyerPays es) \<and>
      toMinorUnits (base q) (currency wl) = Inr (es_sellerReceives es)"
    unfolding priced_row_def unavailable_def Let_def
    by (auto simp: and_then_eq_Inr split: option.splits if_splits sum.splits)
  then show ?thesis using x by (auto simp: eligible_def)
qed

definition example_variants :: "item list" where
  "example_variants =
     [\<lparr>assetId = ''11'', variantId = ''753:6:7:0'', marketHashName = Some ''Card'', quantity = 2, duplicateQuantity = 1,
       marketable = True, tradable = True, item_group = ''7_0'', publisher_fee = Null\<rparr>]"

definition overview_run :: "overview_event list" where
  "overview_run = [Seed ''a'' example_variants 900, Begin_read ''a'' [''753:6:7:0'']]"

definition overview_answers :: "overview_event list" where
  "overview_answers =
     [Read_answered 0 (Wallet_read (Inl (price_failure STEAM_UNAVAILABLE))), Read_answered 0 (Settings_read (Inr example_settings))]"

lemma price_contexts_are_bounded_witness:
  "int (length (contexts (overview_steps overview_run (new_overview 1000)))) \<le> 8 \<and>
   js_keys (contexts (overview_steps overview_run (new_overview 1000))) = [''a'']"
  using price_contexts_are_bounded [OF refl, of overview_run 1000 "''b''" example_variants 0]
  by (simp add: overview_run_def) code_simp

text \<open>The rows come when the account is not cleared.\<close>

lemma cleared_read_returns_nothing_witness:
  "(0, Inr [unavailable ''753:6:7:0'' (Overview_price STEAM_UNAVAILABLE)]) \<in>
     set (results (overview_steps overview_answers (overview_steps overview_run (new_overview 1000)))) \<and>
   (0, Inr [unavailable ''753:6:7:0'' (Overview_price STEAM_UNAVAILABLE)]) \<notin>
     set (results (overview_steps overview_answers (clear_account ''a'' (overview_steps overview_run (new_overview 1000)))))"
proof -
  let ?s = "overview_steps overview_run (new_overview 1000)"
  let ?r = "(0, Inr [unavailable ''753:6:7:0'' (Overview_price STEAM_UNAVAILABLE)])"
  have "?r \<in> set (results (overview_steps overview_answers ?s))" by code_simp
  moreover have "0 < length (overview_reads ?s)" "or_account (overview_reads ?s ! 0) = ''a''" "results ?s = []" by code_simp+
  ultimately show ?thesis
    using cleared_read_returns_nothing [OF refl, of 0 overview_run 1000 "''a''"] by auto
qed

end
