(* ===== verification/SteamLogin.thy ===== *)
theory SteamLogin
  imports Prelude
begin

text \<open>
  Signing an account in by a QR code: \<open>apps/server/src/steam/login.ts\<close>. The events of the login
  session of the Steam library and the end of the start of the account are inputs; encryption of the
  token and the parsing of its expiry are left out (\<open>AdminAuth\<close> and \<open>SteamCredentials\<close> treat
  secrets as opaque values, as here).
\<close>

section \<open>State\<close>

record login_result =
  res_accountId :: account_id
  res_accountName :: string
  res_steamId :: "string option"
  res_connectedAt :: millis

datatype login_state = Login_pending | Login_authenticated login_result | Login_error string

datatype login_phase = Phase_pending | Phase_completing | Phase_terminal

record login_record =
  lr_state :: login_state
  lr_phase :: login_phase
  lr_createdAt :: millis
  lr_terminalAt :: "millis option"
  lr_cleanedUp :: bool

text \<open>The row of an account, as far as a login writes it.\<close>

record login_row =
  lw_id :: account_id
  lw_accountName :: string
  lw_steamId :: "string option"
  lw_token :: string
  lw_running :: bool

text \<open>
  What a login waits for after it was authenticated: that the row is written, then that the account starts.
\<close>

datatype login_wait = To_persist string string "string option" | To_start login_result

text \<open>
  \<open>issued\<close> and \<open>saved\<close> record what happened: the identifiers of all logins, and the logins whose token
  was written, newest first, with the times of their creation and authentication.
\<close>

record logins =
  qrLogins :: "(string, login_record) js_map"
  waits :: "string \<Rightarrow> (login_wait \<times> millis) option"
  login_rows :: "login_row list"
  issued :: "string list"
  saved :: "(string \<times> millis \<times> millis) list"

definition qrPendingTtlMs :: millis where "qrPendingTtlMs = 600000"
definition qrTerminalTtlMs :: millis where "qrTerminalTtlMs = 600000"

section \<open>Operations\<close>

definition cleanupQrLoginSession :: "login_record \<Rightarrow> login_record" where
  "cleanupQrLoginSession r = r\<lparr>lr_cleanedUp := True\<rparr>"

definition setQrLoginTerminal :: "login_state \<Rightarrow> millis \<Rightarrow> login_record \<Rightarrow> login_record" where
  "setQrLoginTerminal st now r =
     (if lr_phase r = Phase_terminal then r
      else cleanupQrLoginSession (r\<lparr>lr_phase := Phase_terminal, lr_state := st,
        lr_terminalAt := (case lr_terminalAt r of None \<Rightarrow> Some now | Some t \<Rightarrow> Some t)\<rparr>))"

definition is_waiting :: "login_record \<Rightarrow> bool" where
  "is_waiting r \<longleftrightarrow> lr_phase r = Phase_pending \<and> lr_state r = Login_pending"

definition expireQrLogin :: "millis \<Rightarrow> login_record \<Rightarrow> login_record" where
  "expireQrLogin now r =
     (if \<not> is_waiting r then r else setQrLoginTerminal (Login_error ''Login session expired.'') now r)"

definition cleanup_record :: "millis \<Rightarrow> login_record \<Rightarrow> login_record option" where
  "cleanup_record now r =
     (if is_waiting r \<and> now - lr_createdAt r \<ge> qrPendingTtlMs then Some (expireQrLogin now r)
      else case lr_terminalAt r of
        None \<Rightarrow> Some r
      | Some t \<Rightarrow> if now - t \<ge> qrTerminalTtlMs then None else Some r)"

definition cleanupQrLogins :: "millis \<Rightarrow> logins \<Rightarrow> logins" where
  "cleanupQrLogins now s =
     s\<lparr>qrLogins := List.map_filter (\<lambda>(i, r). map_option (Pair i) (cleanup_record now r)) (qrLogins s)\<rparr>"

definition getQrLogin :: "millis \<Rightarrow> string \<Rightarrow> logins \<Rightarrow> login_state option \<times> logins" where
  "getQrLogin now i s =
     (let s1 = cleanupQrLogins now s in (map_option lr_state (js_get (qrLogins s1) i), s1))"

text \<open>The upsert by the unique name of the account, and the row that is read back.\<close>

definition upsert_login :: "string \<Rightarrow> string \<Rightarrow> string \<Rightarrow> string option \<Rightarrow> login_row list \<Rightarrow> login_row list" where
  "upsert_login uuid name token steamId rows =
     (if list_ex (\<lambda>x. lw_accountName x = name) rows
      then map (\<lambda>x. if lw_accountName x = name
             then x\<lparr>lw_token := token, lw_running := True,
                    lw_steamId := (case steamId of None \<Rightarrow> lw_steamId x | Some i \<Rightarrow> Some i)\<rparr>
             else x) rows
      else rows @ [\<lparr>lw_id = uuid, lw_accountName = name, lw_steamId = steamId, lw_token = token, lw_running = True\<rparr>])"

definition persistAccountToken ::
    "millis \<Rightarrow> string \<Rightarrow> string \<Rightarrow> string \<Rightarrow> string option \<Rightarrow> login_row list \<Rightarrow> login_row list \<times> login_result" where
  "persistAccountToken now uuid name token steamId rows =
     (let rows1 = upsert_login uuid name token steamId rows;
          account = List.find (\<lambda>x. lw_accountName x = name) rows1
      in (rows1,
          \<lparr>res_accountId = (case account of None \<Rightarrow> uuid | Some x \<Rightarrow> lw_id x), res_accountName = name,
           res_steamId = (case account of None \<Rightarrow> steamId | Some x \<Rightarrow> (case lw_steamId x of None \<Rightarrow> steamId | Some i \<Rightarrow> Some i)),
           res_connectedAt = now\<rparr>))"

definition at_login :: "string \<Rightarrow> (login_record \<Rightarrow> login_record) \<Rightarrow> logins \<Rightarrow> logins" where
  "at_login i f s =
     (case js_get (qrLogins s) i of None \<Rightarrow> s | Some r \<Rightarrow> s\<lparr>qrLogins := js_set i (f r) (qrLogins s)\<rparr>)"

definition startQrLogin :: "string \<Rightarrow> millis \<Rightarrow> logins \<Rightarrow> logins" where
  "startQrLogin i now s =
     s\<lparr>qrLogins := js_set i \<lparr>lr_state = Login_pending, lr_phase = Phase_pending, lr_createdAt = now, lr_terminalAt = None,
         lr_cleanedUp = False\<rparr> (qrLogins s), issued := i # issued s\<rparr>"

text \<open>The library reports the sign-in, with the token and the names it then has.\<close>

definition qr_authenticated :: "string \<Rightarrow> millis \<Rightarrow> string option \<Rightarrow> string \<Rightarrow> string option \<Rightarrow> logins \<Rightarrow> logins" where
  "qr_authenticated i now token name steamId s =
     (case js_get (qrLogins s) i of
        None \<Rightarrow> s
      | Some r \<Rightarrow>
          if \<not> is_waiting r then s
          else if now - lr_createdAt r \<ge> qrPendingTtlMs then at_login i (expireQrLogin now) s
          else let s1 = at_login i (\<lambda>r. cleanupQrLoginSession (r\<lparr>lr_phase := Phase_completing\<rparr>)) s in
            case token of
              None \<Rightarrow> at_login i (setQrLoginTerminal (Login_error ''No refresh token received.'') now) s1
            | Some tok \<Rightarrow> s1\<lparr>waits := (waits s1)(i \<mapsto> (To_persist name tok steamId, now))\<rparr>)"

text \<open>The next await of a login is over; \<open>failed\<close> is the message of its error.\<close>

definition qr_settled :: "string \<Rightarrow> millis \<Rightarrow> string \<Rightarrow> string option \<Rightarrow> logins \<Rightarrow> logins" where
  "qr_settled i now uuid failed s =
     (case waits s i of
        None \<Rightarrow> s
      | Some (w, at) \<Rightarrow>
          (case failed of
             Some message \<Rightarrow> at_login i (setQrLoginTerminal (Login_error message) now) (s\<lparr>waits := (waits s)(i := None)\<rparr>)
           | None \<Rightarrow>
               (case w of
                  To_persist name tok steamId \<Rightarrow>
                    (let (rows, res) = persistAccountToken now uuid name tok steamId (login_rows s) in
                     s\<lparr>login_rows := rows, waits := (waits s)(i \<mapsto> (To_start res, at)),
                       saved := (i, (case js_get (qrLogins s) i of None \<Rightarrow> 0 | Some r \<Rightarrow> lr_createdAt r), at) # saved s\<rparr>)
                | To_start res \<Rightarrow>
                    at_login i (setQrLoginTerminal (Login_authenticated res) now) (s\<lparr>waits := (waits s)(i := None)\<rparr>))))"

definition qr_failed :: "string \<Rightarrow> millis \<Rightarrow> string \<Rightarrow> logins \<Rightarrow> logins" where
  "qr_failed i now message s =
     at_login i (\<lambda>r. if \<not> is_waiting r then r else setQrLoginTerminal (Login_error message) now r) s"

text \<open>\<open>randomUUID\<close> never returns an identifier that is in use.\<close>

datatype login_event =
  Qr_start string millis
| Qr_authenticated string millis "string option" string "string option"
| Qr_settled string millis string "string option"
| Qr_timeout string millis
| Qr_error string millis string
| Qr_get string millis
| Qr_cleanup millis

primrec login_step :: "login_event \<Rightarrow> logins \<Rightarrow> logins" where
  "login_step (Qr_start i now) s = (if i \<in> set (issued s) then s else startQrLogin i now s)"
| "login_step (Qr_authenticated i now token name steamId) s = qr_authenticated i now token name steamId s"
| "login_step (Qr_settled i now uuid failed) s = qr_settled i now uuid failed s"
| "login_step (Qr_timeout i now) s = qr_failed i now ''QR login timed out.'' s"
| "login_step (Qr_error i now message) s = qr_failed i now message s"
| "login_step (Qr_get i now) s = snd (getQrLogin now i s)"
| "login_step (Qr_cleanup now) s = cleanupQrLogins now s"

definition login_steps :: "login_event list \<Rightarrow> logins \<Rightarrow> logins" where
  "login_steps = fold login_step"

definition no_logins :: logins where
  "no_logins = \<lparr>qrLogins = [], waits = \<lambda>_. None, login_rows = [], issued = [], saved = []\<rparr>"

section \<open>The rows of the accounts\<close>

lemma upsert_login_names:
  "map lw_accountName (upsert_login uuid name token steamId rows) =
     (if name \<in> lw_accountName ` set rows then map lw_accountName rows else map lw_accountName rows @ [name])"
  by (auto simp: upsert_login_def list_ex_iff)

section \<open>What is kept of every login\<close>

definition record_ok :: "logins \<Rightarrow> string \<Rightarrow> login_record \<Rightarrow> bool" where
  "record_ok s i r \<longleftrightarrow>
     i \<in> set (issued s) \<and>
     (lr_phase r = Phase_pending \<longrightarrow> lr_state r = Login_pending \<and> waits s i = None \<and> i \<notin> fst ` set (saved s)) \<and>
     (lr_phase r = Phase_completing \<longrightarrow> lr_state r = Login_pending \<and> lr_cleanedUp r) \<and>
     (lr_phase r = Phase_terminal \<longleftrightarrow> lr_terminalAt r \<noteq> None) \<and>
     (lr_phase r = Phase_terminal \<longrightarrow> lr_cleanedUp r \<and> waits s i = None \<and> lr_state r \<noteq> Login_pending) \<and>
     (\<forall>res. lr_state r = Login_authenticated res \<longrightarrow> i \<in> fst ` set (saved s))"

definition wait_ok :: "logins \<Rightarrow> string \<Rightarrow> login_wait \<Rightarrow> millis \<Rightarrow> bool" where
  "wait_ok s i w at \<longleftrightarrow>
     (case js_get (qrLogins s) i of
        None \<Rightarrow> False
      | Some r \<Rightarrow> lr_phase r = Phase_completing \<and> at - lr_createdAt r < qrPendingTtlMs) \<and>
     (case w of To_persist name tok steamId \<Rightarrow> i \<notin> fst ` set (saved s) | To_start res \<Rightarrow> i \<in> fst ` set (saved s))"

definition logins_ok :: "logins \<Rightarrow> bool" where
  "logins_ok s \<longleftrightarrow>
     js_map_ok (qrLogins s) \<and> (\<forall>i r. js_get (qrLogins s) i = Some r \<longrightarrow> record_ok s i r) \<and>
     (\<forall>i w at. waits s i = Some (w, at) \<longrightarrow> wait_ok s i w at) \<and>
     fst ` set (saved s) \<subseteq> set (issued s) \<and> distinct (map fst (saved s)) \<and>
     (\<forall>i created at. (i, created, at) \<in> set (saved s) \<longrightarrow> at - created < qrPendingTtlMs) \<and>
     distinct (map lw_accountName (login_rows s))"

lemma logins_okD:
  assumes "logins_ok s"
  shows "js_get (qrLogins s) i = Some r \<Longrightarrow> record_ok s i r" "waits s i = Some (w, at) \<Longrightarrow> wait_ok s i w at"
    "js_map_ok (qrLogins s)"
  using assms by (auto simp: logins_ok_def)

text \<open>A change of one record of the map.\<close>

lemma at_login_ok:
  assumes "logins_ok s" "js_get (qrLogins s) i = Some r" "record_ok s i (f r)"
    and "lr_createdAt (f r) = lr_createdAt r" "waits s i \<noteq> None \<Longrightarrow> lr_phase (f r) = Phase_completing"
  shows "logins_ok (at_login i f s)"
proof -
  let ?s = "at_login i f s"
  have s: "?s = s\<lparr>qrLogins := js_set i (f r) (qrLogins s)\<rparr>" using assms(2) by (simp add: at_login_def)
  have "record_ok ?s k x" if "js_get (qrLogins ?s) k = Some x" for k x
    using that assms(3) logins_okD(1) [OF assms(1), of k x] by (auto simp: s record_ok_def split: if_splits)
  moreover have "wait_ok ?s k w at" if "waits ?s k = Some (w, at)" for k w at
    using that assms(2,4,5) logins_okD(2) [OF assms(1), of k w at] by (auto simp: s wait_ok_def split: login_wait.splits)
  ultimately show ?thesis using assms(1) by (simp add: logins_ok_def s)
qed


lemma logins_ok_done:
  assumes "logins_ok s"
  shows "logins_ok (s\<lparr>waits := (waits s)(i := None)\<rparr>)"
proof -
  let ?s = "s\<lparr>waits := (waits s)(i := None)\<rparr>"
  have "record_ok ?s k r" if "js_get (qrLogins s) k = Some r" for k r
    using logins_okD(1) [OF assms that] by (auto simp: record_ok_def)
  moreover have "wait_ok ?s k w at" if "waits ?s k = Some (w, at)" for k w at
    using that logins_okD(2) [OF assms, of k w at] by (auto simp: wait_ok_def split: if_splits login_wait.splits)
  ultimately show ?thesis using assms by (simp add: logins_ok_def)
qed

lemma terminal_record:
  "record_ok s i r \<Longrightarrow> waits s i = None \<Longrightarrow> st \<noteq> Login_pending \<Longrightarrow> (\<And>res. st = Login_authenticated res \<Longrightarrow> i \<in> fst ` set (saved s)) \<Longrightarrow>
   record_ok s i (setQrLoginTerminal st now r) \<and> lr_createdAt (setQrLoginTerminal st now r) = lr_createdAt r"
  by (auto simp: record_ok_def setQrLoginTerminal_def cleanupQrLoginSession_def split: option.split)

lemma waiting_record: "record_ok s i r \<Longrightarrow> is_waiting r \<Longrightarrow> waits s i = None"
  by (simp add: record_ok_def is_waiting_def)

lemma set_terminal_ok:
  assumes "logins_ok s" "waits s i = None" "st \<noteq> Login_pending" "\<And>res. st = Login_authenticated res \<Longrightarrow> i \<in> fst ` set (saved s)"
  shows "logins_ok (at_login i (setQrLoginTerminal st now) s)"
proof (cases "js_get (qrLogins s) i")
  case (Some r)
  from terminal_record [OF logins_okD(1) [OF assms(1) Some] assms(2,3,4)] show ?thesis
    by (intro at_login_ok [OF assms(1) Some]) (simp_all add: assms(2))
qed (simp add: at_login_def assms(1))

lemma guarded_terminal_ok:
  assumes "logins_ok s"
  shows "logins_ok (at_login i (\<lambda>r. if \<not> is_waiting r then r else setQrLoginTerminal (Login_error message) now r) s)"
proof (cases "js_get (qrLogins s) i")
  case (Some r)
  note ok = logins_okD(1) [OF assms Some]
  show ?thesis
  proof (cases "is_waiting r")
    case True
    from terminal_record [OF ok waiting_record [OF ok True]] waiting_record [OF ok True] True show ?thesis
      by (intro at_login_ok [OF assms Some]) auto
  next
    case False
    have "js_set i r (qrLogins s) = qrLogins s" using Some by (rule js_set_same)
    then show ?thesis using Some False assms by (simp add: at_login_def)
  qed
qed (simp add: at_login_def assms)

lemma startQrLogin_ok:
  assumes "logins_ok s" "i \<notin> set (issued s)"
  shows "logins_ok (startQrLogin i now s)"
proof -
  let ?s = "startQrLogin i now s"
  have fresh: "waits s i = None" "i \<notin> fst ` set (saved s)"
  proof -
    show "i \<notin> fst ` set (saved s)" using assms by (auto simp: logins_ok_def)
    have False if wait: "waits s i = Some (w, at)" for w at
    proof -
      obtain r where "js_get (qrLogins s) i = Some r"
        using logins_okD(2) [OF assms(1) wait] by (auto simp: wait_ok_def split: option.splits)
      from logins_okD(1) [OF assms(1) this] assms(2) show False by (simp add: record_ok_def)
    qed
    then show "waits s i = None" by (cases "waits s i") auto
  qed
  have "record_ok ?s k r" if "js_get (qrLogins ?s) k = Some r" for k r
    using that fresh logins_okD(1) [OF assms(1), of k r] by (auto simp: startQrLogin_def record_ok_def split: if_splits)
  moreover have "wait_ok ?s k w at" if "waits ?s k = Some (w, at)" for k w at
  proof -
    have "waits s k = Some (w, at)" "k \<noteq> i" using that fresh by (auto simp: startQrLogin_def)
    then show ?thesis using logins_okD(2) [OF assms(1), of k w at]
      by (auto simp: startQrLogin_def wait_ok_def split: login_wait.splits)
  qed
  ultimately show ?thesis using assms by (auto simp: logins_ok_def startQrLogin_def)
qed

lemma qr_authenticated_ok:
  assumes "logins_ok s"
  shows "logins_ok (qr_authenticated i now token name steamId s)"
proof (cases "js_get (qrLogins s) i")
  case (Some r)
  note ok = logins_okD(1) [OF assms Some]
  let ?f = "\<lambda>r. cleanupQrLoginSession (r\<lparr>lr_phase := Phase_completing\<rparr>)"
  let ?s = "at_login i ?f s"
  consider "\<not> is_waiting r" | "is_waiting r" "now - lr_createdAt r \<ge> qrPendingTtlMs"
    | (go) "is_waiting r" "now - lr_createdAt r < qrPendingTtlMs" by linarith
  then show ?thesis
  proof cases
    case go
    note none = waiting_record [OF ok go(1)]
    have s: "logins_ok ?s"
      using ok go(1) none by (intro at_login_ok [OF assms Some]) (auto simp: record_ok_def is_waiting_def cleanupQrLoginSession_def)
    have parts: "js_get (qrLogins ?s) i = Some (?f r)" "waits ?s = waits s" "saved ?s = saved s" "issued ?s = issued s"
      using Some by (simp_all add: at_login_def)
    show ?thesis
    proof (cases token)
      case None
      then show ?thesis
        using Some go set_terminal_ok [OF s, of i "Login_error ''No refresh token received.''" now] none parts
        by (simp add: qr_authenticated_def)
    next
      case (Some tok)
      let ?v = "?s\<lparr>waits := (waits ?s)(i \<mapsto> (To_persist name tok steamId, now))\<rparr>"
      have "record_ok ?v k x" if "js_get (qrLogins ?v) k = Some x" for k x
        using that logins_okD(1) [OF s, of k x] parts(1)
        by (cases "k = i") (auto simp: record_ok_def cleanupQrLoginSession_def)
      moreover have "wait_ok ?v k w at" if "waits ?v k = Some (w, at)" for k w at
        using that logins_okD(2) [OF s, of k w at] parts ok go
        by (cases "k = i") (auto simp: wait_ok_def record_ok_def is_waiting_def cleanupQrLoginSession_def split: login_wait.splits)
      ultimately have "logins_ok ?v" using s by (simp add: logins_ok_def)
      then show ?thesis using \<open>js_get (qrLogins s) i = Some r\<close> go Some by (simp add: qr_authenticated_def Let_def)
    qed
  qed (use Some assms guarded_terminal_ok [OF assms, of i "''Login session expired.''" now] in
      \<open>simp_all add: qr_authenticated_def expireQrLogin_def [abs_def]\<close>)
qed (simp add: qr_authenticated_def assms)

lemma qr_settled_ok:
  assumes "logins_ok s"
  shows "logins_ok (qr_settled i now uuid failed s)"
proof (cases "waits s i")
  case (Some x)
  obtain w at where x: "x = (w, at)" by (cases x)
  note wait = logins_okD(2) [OF assms, of i w at]
  let ?d = "s\<lparr>waits := (waits s)(i := None)\<rparr>"
  have d: "logins_ok ?d" by (rule logins_ok_done [OF assms])
  show ?thesis
  proof (cases failed)
    case (Some message)
    then show ?thesis
      using \<open>waits s i = Some x\<close> x set_terminal_ok [OF d, of i "Login_error message" now] by (simp add: qr_settled_def)
  next
    case None
    show ?thesis
    proof (cases w)
      case (To_start res)
      then show ?thesis
        using \<open>waits s i = Some x\<close> x None wait set_terminal_ok [OF d, of i "Login_authenticated res" now]
        by (simp add: qr_settled_def wait_ok_def)
    next
      case (To_persist name tok steamId)
      obtain rows res where p: "persistAccountToken now uuid name tok steamId (login_rows s) = (rows, res)"
        by (cases "persistAccountToken now uuid name tok steamId (login_rows s)")
      obtain r where r: "js_get (qrLogins s) i = Some r" "lr_phase r = Phase_completing" "at - lr_createdAt r < qrPendingTtlMs"
        "i \<notin> fst ` set (saved s)"
        using wait Some x To_persist by (auto simp: wait_ok_def split: option.splits)
      let ?v = "s\<lparr>login_rows := rows, waits := (waits s)(i \<mapsto> (To_start res, at)), saved := (i, lr_createdAt r, at) # saved s\<rparr>"
      have "record_ok ?v k y" if "js_get (qrLogins s) k = Some y" for k y
        using logins_okD(1) [OF assms that] that r by (auto simp: record_ok_def)
      moreover have "wait_ok ?v k w' at'" if "waits ?v k = Some (w', at')" for k w' at'
        using that logins_okD(2) [OF assms, of k w' at'] r
        by (cases "k = i") (auto simp: wait_ok_def split: login_wait.splits option.splits)
      moreover have "distinct (map lw_accountName rows)"
        using p assms by (auto simp: persistAccountToken_def Let_def logins_ok_def upsert_login_names)
      moreover have "i \<in> set (issued s)" using logins_okD(1) [OF assms r(1)] by (simp add: record_ok_def)
      ultimately have "logins_ok ?v" using assms r by (auto simp: logins_ok_def)
      then show ?thesis using Some x None To_persist p r(1) by (simp add: qr_settled_def)
    qed
  qed
qed (simp add: qr_settled_def assms)

lemma js_get_map_filter:
  "js_map_ok m \<Longrightarrow> js_get (List.map_filter (\<lambda>(i, r). map_option (Pair i) (f r)) m) k = Option.bind (js_get m k) f \<and>
   fst ` set (List.map_filter (\<lambda>(i, r). map_option (Pair i) (f r)) m) \<subseteq> fst ` set m \<and>
   js_map_ok (List.map_filter (\<lambda>(i, r). map_option (Pair i) (f r)) m)"
proof (induction m)
  case (Cons x m)
  then have IH: "js_get (List.map_filter (\<lambda>(i, r). map_option (Pair i) (f r)) m) k = Option.bind (js_get m k) f"
    "fst ` set (List.map_filter (\<lambda>(i, r). map_option (Pair i) (f r)) m) \<subseteq> fst ` set m"
    "js_map_ok (List.map_filter (\<lambda>(i, r). map_option (Pair i) (f r)) m)" "fst x \<notin> fst ` set m"
    by (auto simp: js_map_ok_def)
  then have "js_get (List.map_filter (\<lambda>(i, r). map_option (Pair i) (f r)) m) (fst x) = None"
    by (auto simp: map_of_eq_None_iff)
  then show ?case
    using IH by (cases x; cases "f (snd x)") (auto simp: List.map_filter_simps js_map_ok_def)
qed (simp add: List.map_filter_simps)

lemma cleanup_record_ok:
  "record_ok s i r \<Longrightarrow> cleanup_record now r = Some r' \<Longrightarrow>
   record_ok s i r' \<and> lr_createdAt r' = lr_createdAt r \<and> (lr_phase r = Phase_completing \<longrightarrow> r' = r)"
  using terminal_record [of s i r] waiting_record [of s i r]
  by (auto simp: cleanup_record_def expireQrLogin_def is_waiting_def split: if_splits option.splits)

lemma cleanupQrLogins_ok:
  assumes "logins_ok s"
  shows "logins_ok (cleanupQrLogins now s)"
proof -
  let ?s = "cleanupQrLogins now s"
  have get: "js_get (qrLogins ?s) k = Option.bind (js_get (qrLogins s) k) (cleanup_record now)" for k
    using js_get_map_filter [OF logins_okD(3) [OF assms], of "cleanup_record now" k] by (simp add: cleanupQrLogins_def)
  have same: "waits ?s = waits s" "saved ?s = saved s" "issued ?s = issued s" "login_rows ?s = login_rows s"
    by (simp_all add: cleanupQrLogins_def)
  have "record_ok ?s k r'" if got: "js_get (qrLogins ?s) k = Some r'" for k r'
  proof -
    obtain r where r: "js_get (qrLogins s) k = Some r" "cleanup_record now r = Some r'"
      using got by (auto simp: get bind_eq_Some_conv)
    from cleanup_record_ok [OF logins_okD(1) [OF assms r(1)] r(2)] show ?thesis by (simp add: record_ok_def same)
  qed
  moreover have "wait_ok ?s k w at" if "waits ?s k = Some (w, at)" for k w at
  proof -
    from that have wait: "wait_ok s k w at" using logins_okD(2) [OF assms] by (simp add: same)
    then obtain r where r: "js_get (qrLogins s) k = Some r" "lr_phase r = Phase_completing"
      by (auto simp: wait_ok_def split: option.splits)
    then have "cleanup_record now r = Some r"
      using logins_okD(1) [OF assms r(1)] by (auto simp: cleanup_record_def is_waiting_def record_ok_def split: option.split)
    then show ?thesis using wait r by (simp add: wait_ok_def get same split: login_wait.splits)
  qed
  moreover have "js_map_ok (qrLogins ?s)"
    using js_get_map_filter [OF logins_okD(3) [OF assms], of "cleanup_record now"] by (simp add: cleanupQrLogins_def)
  ultimately show ?thesis using assms by (simp add: logins_ok_def same)
qed

lemma login_step_ok: "logins_ok s \<Longrightarrow> logins_ok (login_step e s)"
  by (cases e)
    (simp_all add: startQrLogin_ok qr_authenticated_ok qr_settled_ok qr_failed_def guarded_terminal_ok getQrLogin_def Let_def
      cleanupQrLogins_ok)

lemma login_steps_ok: "logins_ok (login_steps es no_logins)"
  by (induction es rule: rev_induct)
    (simp_all add: login_steps_def login_step_ok, simp add: logins_ok_def no_logins_def)

text \<open>
  C36: Every QR login writes at most one token, and only when the account was signed in while the login
  was pending and less than ten minutes old; a login is reported as authenticated only after its token
  was written. Accounts never share a name, whatever logins run side by side.
\<close>

theorem qr_login_saves_once:
  assumes "s = login_steps es no_logins"
  shows "distinct (map fst (saved s)) \<and> list_all (\<lambda>(i, created, at). at - created < 600000) (saved s) \<and>
    (case js_get (qrLogins s) i of
       None \<Rightarrow> True
     | Some r \<Rightarrow> (\<forall>res. lr_state r = Login_authenticated res \<longrightarrow> i \<in> fst ` set (saved s)) \<and>
         (lr_phase r \<noteq> Phase_pending \<longrightarrow> lr_cleanedUp r)) \<and>
    distinct (map lw_accountName (login_rows s))"
proof -
  have ok: "logins_ok s" using login_steps_ok assms by simp
  then have "list_all (\<lambda>(i, created, at). at - created < 600000) (saved s)"
    by (auto simp: logins_ok_def list_all_iff qrPendingTtlMs_def)
  moreover have "(\<forall>res. lr_state r = Login_authenticated res \<longrightarrow> i \<in> fst ` set (saved s)) \<and>
      (lr_phase r \<noteq> Phase_pending \<longrightarrow> lr_cleanedUp r)" if "js_get (qrLogins s) i = Some r" for r
    using logins_okD(1) [OF ok that] by (cases "lr_phase r") (auto simp: record_ok_def)
  ultimately show ?thesis using ok by (auto simp: logins_ok_def split: option.split)
qed


definition login_run :: "login_event list" where
  "login_run =
     [Qr_start ''l'' 1000, Qr_authenticated ''l'' 5000 (Some ''token'') ''name'' (Some ''7''), Qr_settled ''l'' 5001 ''id'' None,
      Qr_settled ''l'' 6000 ''id'' None]"

lemma qr_login_saves_once_witness:
  "saved (login_steps login_run no_logins) = [(''l'', 1000, 5000)] \<and> (5000 :: int) - 1000 < 600000 \<and>
   map lw_token (login_rows (login_steps login_run no_logins)) = [''token'']"
proof -
  have run: "saved (login_steps login_run no_logins) = [(''l'', 1000, 5000)]"
    "map lw_token (login_rows (login_steps login_run no_logins)) = [''token'']" by code_simp+
  from qr_login_saves_once [OF refl, of login_run "''l''"] run show ?thesis by simp
qed

section \<open>The end of a login\<close>

lemma terminal_unchanged: "lr_phase r = Phase_terminal \<Longrightarrow> setQrLoginTerminal st now r = r \<and> expireQrLogin now r = r"
  by (simp add: setQrLoginTerminal_def expireQrLogin_def is_waiting_def)

lemma at_login_terminal:
  "js_get (qrLogins s) i = Some r \<Longrightarrow> lr_phase r = Phase_terminal \<Longrightarrow> (\<And>r. lr_phase r = Phase_terminal \<Longrightarrow> f r = r) \<Longrightarrow>
   js_get (qrLogins (at_login k f s)) i = Some r"
  by (auto simp: at_login_def split: option.split)

text \<open>A login that has ended keeps its state until its record is dropped, ten minutes later.\<close>

lemma ended_login_is_final:
  assumes "logins_ok s" "js_get (qrLogins s) i = Some r" "lr_phase r = Phase_terminal"
  shows "js_get (qrLogins (login_step e s)) i = Some r \<or>
    (js_get (qrLogins (login_step e s)) i = None \<and>
     (\<exists>now t. e \<in> {Qr_cleanup now} \<union> range (\<lambda>k. Qr_get k now) \<and> lr_terminalAt r = Some t \<and> now - t \<ge> 600000))"
proof -
  note ok = logins_okD(1) [OF assms(1,2)]
  have idle: "waits s i = None" "i \<in> set (issued s)" "\<not> is_waiting r" using ok assms(3) by (auto simp: record_ok_def is_waiting_def)
  have kept: "js_get (qrLogins (at_login k f v)) i = Some r"
    if "js_get (qrLogins v) i = Some r" "\<And>r. lr_phase r = Phase_terminal \<Longrightarrow> f r = r" for k f v
    using at_login_terminal [OF that(1) assms(3) that(2)] .
  have clean: "js_get (qrLogins (cleanupQrLogins now s)) i = cleanup_record now r" for now
    using js_get_map_filter [OF logins_okD(3) [OF assms(1)], of "cleanup_record now" i] assms(2) by (simp add: cleanupQrLogins_def)
  have dropped: "cleanup_record now r = Some r \<or> cleanup_record now r = None \<and> (\<exists>t. lr_terminalAt r = Some t \<and> now - t \<ge> 600000)" for now
    using idle by (auto simp: cleanup_record_def qrTerminalTtlMs_def split: option.split)
  show ?thesis
  proof (cases e)
    case (Qr_start k now)
    then show ?thesis using assms(2) idle by (auto simp: startQrLogin_def)
  next
    case (Qr_authenticated k now token name steamId)
    show ?thesis
    proof (cases "k = i")
      case True
      then show ?thesis using Qr_authenticated assms(2) idle by (simp add: qr_authenticated_def)
    next
      case False
      then have "js_get (qrLogins (at_login k f v)) i = js_get (qrLogins v) i" for f v
        by (auto simp: at_login_def split: option.split)
      then show ?thesis
        using Qr_authenticated assms(2) by (auto simp: qr_authenticated_def Let_def split: option.split)
    qed
  next
    case (Qr_settled k now uuid failed)
    then show ?thesis
      using assms(2) kept [of "s\<lparr>waits := (waits s)(k := None)\<rparr>"] terminal_unchanged
      by (auto simp: qr_settled_def Let_def split: option.split login_wait.split prod.split)
  next
    case (Qr_get k now)
    then show ?thesis using clean [of now] dropped [of now] by (auto simp: getQrLogin_def Let_def)
  next
    case (Qr_cleanup now)
    then show ?thesis using clean [of now] dropped [of now] by auto
  qed (use kept [of s] assms(2) in \<open>simp_all add: qr_failed_def is_waiting_def\<close>)
qed

section \<open>Signing in with a password\<close>

text \<open>
  \<open>CredentialLoginFlow\<close>: the token may arrive with the answer to the start or with an event of the
  library, in any order; the promise of the first \<open>persist\<close> serves both.
\<close>

datatype flow_stage = Flow_idle | Flow_waits login_wait | Flow_ended "string + login_result"

record flow =
  fl_stage :: flow_stage
  fl_rows :: "login_row list"
  fl_saves :: nat

definition persistOnce :: "string option \<Rightarrow> string \<Rightarrow> string option \<Rightarrow> flow \<Rightarrow> flow" where
  "persistOnce token name steamId f =
     (if fl_stage f \<noteq> Flow_idle then f
      else case token of
        None \<Rightarrow> f\<lparr>fl_stage := Flow_ended (Inl ''No refresh token received.'')\<rparr>
      | Some tok \<Rightarrow> f\<lparr>fl_stage := Flow_waits (To_persist name tok steamId)\<rparr>)"

definition flow_settled :: "millis \<Rightarrow> string \<Rightarrow> string option \<Rightarrow> flow \<Rightarrow> flow" where
  "flow_settled now uuid failed f =
     (case fl_stage f of
        Flow_waits w \<Rightarrow>
          (case failed of
             Some message \<Rightarrow> f\<lparr>fl_stage := Flow_ended (Inl message)\<rparr>
           | None \<Rightarrow>
               (case w of
                  To_persist name tok steamId \<Rightarrow>
                    (let (rows, res) = persistAccountToken now uuid name tok steamId (fl_rows f)
                     in f\<lparr>fl_stage := Flow_waits (To_start res), fl_rows := rows, fl_saves := fl_saves f + 1\<rparr>)
                | To_start res \<Rightarrow> f\<lparr>fl_stage := Flow_ended (Inr res)\<rparr>))
      | _ \<Rightarrow> f)"

datatype flow_event =
  Flow_started bool "string option" string "string option"
| Flow_authenticated "string option" string "string option"
| Flow_settled millis string "string option"

text \<open>The answer to the start: with a guard code missing nothing is saved.\<close>

primrec flow_step :: "flow_event \<Rightarrow> flow \<Rightarrow> flow" where
  "flow_step (Flow_started actionRequired token name steamId) f =
     (if actionRequired \<or> token = None then f else persistOnce token name steamId f)"
| "flow_step (Flow_authenticated token name steamId) f = persistOnce token name steamId f"
| "flow_step (Flow_settled now uuid failed) f = flow_settled now uuid failed f"

definition flow_ok :: "flow \<Rightarrow> bool" where
  "flow_ok f \<longleftrightarrow>
     (case fl_stage f of
        Flow_idle \<Rightarrow> fl_saves f = 0
      | Flow_waits w \<Rightarrow> (case w of To_persist name tok steamId \<Rightarrow> fl_saves f = 0 | To_start res \<Rightarrow> fl_saves f = 1)
      | Flow_ended r \<Rightarrow> (case r of Inl e \<Rightarrow> fl_saves f \<le> 1 | Inr res \<Rightarrow> fl_saves f = 1))"

lemma flow_step_ok: "flow_ok f \<Longrightarrow> flow_ok (flow_step e f)"
  by (cases e)
    (auto simp: flow_ok_def persistOnce_def flow_settled_def Let_def
      split: flow_stage.splits login_wait.splits option.splits sum.splits prod.splits)

lemma flow_saves_once: "fl_saves (fold flow_step es \<lparr>fl_stage = Flow_idle, fl_rows = rows, fl_saves = 0\<rparr>) \<le> 1"
proof -
  have "flow_ok (fold flow_step es \<lparr>fl_stage = Flow_idle, fl_rows = rows, fl_saves = 0\<rparr>)"
    by (induction es rule: rev_induct) (simp_all add: flow_step_ok, simp add: flow_ok_def)
  then show ?thesis by (auto simp: flow_ok_def split: flow_stage.splits login_wait.splits sum.splits)
qed

end
