(* ===== verification/CommunitySession.thy ===== *)
theory CommunitySession
  imports MarketPages
begin

text \<open>
  Requests to the Steam community: the web session of a connection (\<open>steam/community-session.ts\<close>) and the
  requests that carry its cookies (\<open>steam/community.ts\<close>). The answers of Steam and of \<open>fetch\<close> are
  inputs, the parser of URLs is the parameter \<open>resolve\<close>; the bytes of a body are given by the lengths
  of its chunks.
\<close>

section \<open>The session of a connection\<close>

record session =
  cs_steamId :: string
  cs_sessionId :: string
  cs_cookies :: "string list"

text \<open>A request that waits has a number; its promise is settled once.\<close>

record broker =
  br_steamId :: "string option"
  br_connected :: bool
  br_cached :: "(session \<times> millis) option"
  br_pending :: "nat option"
  br_next :: nat
  br_settled :: "(nat \<times> session option \<times> millis) list"

definition sessionTtl :: millis where "sessionTtl = 1800000"

datatype get_result = Rejected | Resolved session | Waits nat

definition settle_pending :: "session option \<Rightarrow> millis \<Rightarrow> broker \<Rightarrow> broker" where
  "settle_pending r now b =
     (case br_pending b of
        None \<Rightarrow> b
      | Some i \<Rightarrow> b\<lparr>br_pending := None, br_settled := (i, r, now) # br_settled b\<rparr>)"

definition invalidate :: "millis \<Rightarrow> broker \<Rightarrow> broker" where
  "invalidate now b = settle_pending None now (b\<lparr>br_cached := None\<rparr>)"

definition usable :: "millis \<Rightarrow> string \<Rightarrow> (session \<times> millis) option \<Rightarrow> session option" where
  "usable now steamId c =
     (case c of None \<Rightarrow> None
      | Some (s, at) \<Rightarrow> if cs_steamId s = steamId \<and> now - at < sessionTtl then Some s else None)"

text \<open>\<open>fails\<close>: asking the library for a web session throws.\<close>

definition get_session :: "millis \<Rightarrow> bool \<Rightarrow> broker \<Rightarrow> get_result \<times> broker" where
  "get_session now fails b =
     (case (br_connected b, br_steamId b) of
        (True, Some i) \<Rightarrow>
          (if i = [] then (Rejected, invalidate now b)
           else case usable now i (br_cached b) of
             Some s \<Rightarrow> (Resolved s, b)
           | None \<Rightarrow>
               (case br_pending b of
                  Some k \<Rightarrow> (Waits k, b)
                | None \<Rightarrow>
                    (let b1 = b\<lparr>br_pending := Some (br_next b), br_next := Suc (br_next b)\<rparr>
                     in (Waits (br_next b), if fails then invalidate now b1 else b1))))
      | _ \<Rightarrow> (Rejected, invalidate now b))"

definition line_break :: "char \<Rightarrow> bool" where
  "line_break c \<longleftrightarrow> c \<in> {CHR 0x0A, CHR 0x0D}"

definition cookie_pair :: "string \<Rightarrow> string" where
  "cookie_pair c = takeWhile (\<lambda>x. x \<noteq> CHR '';'') c"

definition good_cookies :: "string \<Rightarrow> string list \<Rightarrow> bool" where
  "good_cookies sid pairs \<longleftrightarrow>
     sid \<noteq> [] \<and> \<not> list_ex (\<lambda>c. line_break c \<or> c = CHR '';'') sid \<and> \<not> list_ex (list_ex line_break) pairs \<and>
     list_ex (prefix ''steamLoginSecure='') pairs \<and> ''sessionid='' @ sid \<in> set pairs"

definition accept :: "millis \<Rightarrow> string \<Rightarrow> string list \<Rightarrow> broker \<Rightarrow> broker" where
  "accept now sid cookies b =
     (case (br_connected b, br_steamId b) of
        (True, Some i) \<Rightarrow>
          (let pairs = map cookie_pair cookies; s = \<lparr>cs_steamId = i, cs_sessionId = sid, cs_cookies = pairs\<rparr>
           in if i = [] \<or> \<not> good_cookies sid pairs then b
              else settle_pending (Some s) now (b\<lparr>br_cached := Some (s, now)\<rparr>))
      | _ \<Rightarrow> b)"

definition discard :: "string \<Rightarrow> broker \<Rightarrow> broker" where
  "discard sid b =
     (case br_cached b of
        Some (s, at) \<Rightarrow> if cs_sessionId s = sid then b\<lparr>br_cached := None\<rparr> else b
      | None \<Rightarrow> b)"

text \<open>The timer belongs to the request that waits; it is cleared when that is settled.\<close>

datatype broker_event =
  Get_session millis bool
| Accept_session millis string "string list"
| Discard_session string
| Invalidate_session millis
| Timer_fires nat millis
| Connection bool "string option"

primrec broker_step :: "broker_event \<Rightarrow> broker \<Rightarrow> broker" where
  "broker_step (Get_session now fails) b = snd (get_session now fails b)"
| "broker_step (Accept_session now sid cookies) b = accept now sid cookies b"
| "broker_step (Discard_session sid) b = discard sid b"
| "broker_step (Invalidate_session now) b = invalidate now b"
| "broker_step (Timer_fires i now) b = (if br_pending b = Some i then invalidate now b else b)"
| "broker_step (Connection c i) b = b\<lparr>br_connected := c, br_steamId := i\<rparr>"

definition broker_steps :: "broker_event list \<Rightarrow> broker \<Rightarrow> broker" where
  "broker_steps = fold broker_step"

definition new_broker :: broker where
  "new_broker =
     \<lparr>br_steamId = None, br_connected = False, br_cached = None, br_pending = None, br_next = 0, br_settled = []\<rparr>"

definition session_ok :: "session \<Rightarrow> bool" where
  "session_ok s \<longleftrightarrow> cs_steamId s \<noteq> [] \<and> good_cookies (cs_sessionId s) (cs_cookies s)"

definition broker_ok :: "broker \<Rightarrow> bool" where
  "broker_ok b \<longleftrightarrow>
     (\<forall>s at. br_cached b = Some (s, at) \<longrightarrow> session_ok s) \<and>
     distinct (map fst (br_settled b)) \<and> (\<forall>x\<in>set (br_settled b). fst x < br_next b) \<and>
     (\<forall>i. br_pending b = Some i \<longrightarrow> i < br_next b \<and> i \<notin> fst ` set (br_settled b)) \<and>
     (\<forall>i s at. (i, Some s, at) \<in> set (br_settled b) \<longrightarrow> session_ok s)"

lemma settle_pending_ok:
  "broker_ok b \<Longrightarrow> (\<And>s. r = Some s \<Longrightarrow> session_ok s) \<Longrightarrow> broker_ok (settle_pending r now b)"
  by (cases "br_pending b"; cases r) (auto simp: settle_pending_def broker_ok_def)

lemma invalidate_ok: "broker_ok b \<Longrightarrow> broker_ok (invalidate now b)"
  unfolding invalidate_def by (rule settle_pending_ok) (auto simp: broker_ok_def)

lemma get_session_ok: "broker_ok b \<Longrightarrow> broker_ok (snd (get_session now fails b))"
proof -
  assume ok: "broker_ok b"
  have "broker_ok (b\<lparr>br_pending := Some (br_next b), br_next := Suc (br_next b)\<rparr>)"
    using ok by (force simp: broker_ok_def)
  then show ?thesis
    using ok invalidate_ok by (auto simp: get_session_def Let_def split: option.split bool.split)
qed

lemma accept_ok: "broker_ok b \<Longrightarrow> broker_ok (accept now sid cookies b)"
proof -
  assume ok: "broker_ok b"
  have "broker_ok (settle_pending (Some s) now (b\<lparr>br_cached := Some (s, now)\<rparr>))" if "session_ok s" for s
    by (rule settle_pending_ok) (use ok that in \<open>auto simp: broker_ok_def\<close>)
  then show ?thesis
    using ok by (auto simp: accept_def Let_def session_ok_def split: option.split bool.split)
qed

lemma broker_step_ok: "broker_ok b \<Longrightarrow> broker_ok (broker_step e b)"
proof (cases e)
  case (Discard_session sid)
  then show "broker_ok b \<Longrightarrow> ?thesis" by (auto simp: discard_def broker_ok_def split: option.split)
next
  case (Connection c i)
  then show "broker_ok b \<Longrightarrow> ?thesis" by (simp add: broker_ok_def)
qed (simp_all add: get_session_ok accept_ok invalidate_ok)

lemma broker_steps_ok: "broker_ok (broker_steps es new_broker)"
  by (induction es rule: rev_induct) (simp_all add: broker_steps_def broker_step_ok, simp add: broker_ok_def new_broker_def)

text \<open>
  A session that is handed out at once belongs to the account that is connected now, is younger than
  thirty minutes and has the cookies of a sign-in under its own session identifier; a request that has to
  wait is settled at most once, with such a session or an error.
\<close>

theorem session_belongs_to_connection:
  assumes "b = broker_steps es new_broker"
  shows "(case fst (get_session now fails b) of
       Resolved s \<Rightarrow> br_connected b \<and> br_steamId b = Some (cs_steamId s) \<and> session_ok s \<and>
         (\<exists>at. br_cached b = Some (s, at) \<and> now - at < 1800000)
     | Waits i \<Rightarrow> br_connected b \<and> i \<notin> fst ` set (br_settled b)
     | Rejected \<Rightarrow> \<not> br_connected b \<or> br_steamId b = None \<or> br_steamId b = Some []) \<and>
    distinct (map fst (br_settled b)) \<and> list_all (\<lambda>(i, r, at). pred_option session_ok r) (br_settled b)"
proof -
  have ok: "broker_ok b" using broker_steps_ok assms by simp
  have "pred_option session_ok r" if "(i, r, at) \<in> set (br_settled b)" for i r at
  proof (cases r)
    case (Some a)
    with ok that have "session_ok a" unfolding broker_ok_def by blast
    then show ?thesis using Some by simp
  qed simp
  then have "list_all (\<lambda>(i, r, at). pred_option session_ok r) (br_settled b)" by (auto simp: list_all_iff)
  moreover have "distinct (map fst (br_settled b))" using ok by (simp add: broker_ok_def)
  moreover have "br_next b \<notin> fst ` set (br_settled b)" using ok by (force simp: broker_ok_def)
  moreover have "case fst (get_session now fails b) of
       Resolved s \<Rightarrow> br_connected b \<and> br_steamId b = Some (cs_steamId s) \<and> session_ok s \<and>
         (\<exists>at. br_cached b = Some (s, at) \<and> now - at < 1800000)
     | Waits i \<Rightarrow> br_connected b \<and> i \<notin> fst ` set (br_settled b)
     | Rejected \<Rightarrow> \<not> br_connected b \<or> br_steamId b = None \<or> br_steamId b = Some []"
  proof (cases "br_steamId b")
    case (Some i)
    show ?thesis
    proof (cases "br_connected b \<and> i \<noteq> []")
      case True
      show ?thesis
      proof (cases "usable now i (br_cached b)")
        case None
        then show ?thesis
          using ok True Some \<open>br_next b \<notin> fst ` set (br_settled b)\<close>
          by (cases "br_pending b") (simp_all add: get_session_def Let_def broker_ok_def)
      next
        case (Some s)
        then obtain at where "br_cached b = Some (s, at)" "cs_steamId s = i" "now - at < 1800000"
          by (auto simp: usable_def sessionTtl_def split: option.splits if_splits)
        then show ?thesis using ok True Some \<open>br_steamId b = Some i\<close> by (simp add: get_session_def broker_ok_def)
      qed
    next
      case False
      then show ?thesis using Some by (cases "br_connected b") (simp_all add: get_session_def)
    qed
  qed (cases "br_connected b"; simp add: get_session_def)
  ultimately show ?thesis by blast
qed

definition session_run :: "broker_event list" where
  "session_run =
     [Connection True (Some ''7''), Get_session 1000 False,
      Accept_session 2000 ''s'' [''steamLoginSecure=x; Secure'', ''sessionid=s; path=/'']]"

lemma session_belongs_to_connection_witness:
  "fst (get_session 3000 False (broker_steps session_run new_broker)) =
     Resolved \<lparr>cs_steamId = ''7'', cs_sessionId = ''s'', cs_cookies = [''steamLoginSecure=x'', ''sessionid=s'']\<rparr> \<and>
   session_ok \<lparr>cs_steamId = ''7'', cs_sessionId = ''s'', cs_cookies = [''steamLoginSecure=x'', ''sessionid=s'']\<rparr>"
proof -
  have run: "fst (get_session 3000 False (broker_steps session_run new_broker)) =
      Resolved \<lparr>cs_steamId = ''7'', cs_sessionId = ''s'', cs_cookies = [''steamLoginSecure=x'', ''sessionid=s'']\<rparr>" by code_simp
  from session_belongs_to_connection [OF refl, where now = 3000 and fails = False and es = session_run] run show ?thesis by simp
qed


section \<open>Requests\<close>

text \<open>A parsed URL; \<open>resolve\<close> is \<open>new URL(text, base)\<close>, which may throw.\<close>

record url =
  u_origin :: string
  u_username :: string
  u_password :: string
  u_pathname :: string

type_synonym resolver = "string \<Rightarrow> url option \<Rightarrow> url option"

definition community_origin :: string where "community_origin = ''https://steamcommunity.com''"

datatype http_method = GET | POST

datatype comm_error =
  Invalid_path
| Invalid_destination
| No_session
| Not_submitted
| Renewed_sign_in
| Size_limit
| Request_failed

type_synonym market_cookies = "(string, string \<times> millis) js_map"

definition marketCookieNames :: "string list" where
  "marketCookieNames = [''webTradeEligibility'', ''steamCountry'']"

text \<open>What is sent: the target, the method and the cookies.\<close>

record fetch =
  fe_target :: url
  fe_method :: http_method
  fe_cookies :: "string list"

record fetched_response =
  rs_status :: int
  rs_location :: "string option"
  rs_setCookies :: "string list"
  rs_chunks :: "int list"

record community =
  marketCookies :: "account_id \<Rightarrow> (string \<times> market_cookies) option"
  fetches :: "fetch list"
  discarded :: "(account_id \<times> string) list"

definition maxRedirects :: nat where "maxRedirects = 3"

definition marketCookiesFor :: "millis \<Rightarrow> account_id \<Rightarrow> string \<Rightarrow> community \<Rightarrow> market_cookies" where
  "marketCookiesFor now acc sid c =
     (case marketCookies c acc of
        None \<Rightarrow> []
      | Some (s, m) \<Rightarrow> if s = sid then filter (\<lambda>(n, p). \<not> snd p \<le> now) m else [])"

definition profile_path :: "string \<Rightarrow> bool" where
  "profile_path p \<longleftrightarrow>
     list_ex (\<lambda>k. prefix k p \<and>
        (let r = drop (length k) p; n = takeWhile (\<lambda>x. x \<noteq> CHR ''/'') r in n \<noteq> [] \<and> length n < length r))
       [''/id/'', ''/profiles/'']"

definition eligibility_path :: string where "eligibility_path = ''/market/eligibilitycheck/''"

definition communityRedirect :: "resolver \<Rightarrow> string option \<Rightarrow> url \<Rightarrow> http_method \<Rightarrow> nat \<Rightarrow> url option" where
  "communityRedirect resolve location from verb hop =
     (if verb \<noteq> GET \<or> hop \<ge> maxRedirects then None
      else case location of
        None \<Rightarrow> None
      | Some l \<Rightarrow>
          if l = [] then None
          else case resolve l (Some from) of
            None \<Rightarrow> None
          | Some u \<Rightarrow>
              if u_origin u \<noteq> u_origin from \<or> u_username u \<noteq> [] \<or> u_password u \<noteq> [] then None
              else if profile_path (u_pathname u) \<or> u_pathname u = eligibility_path \<or>
                (u_pathname from = eligibility_path \<and> prefix ''/market/'' (u_pathname u) \<and> u_pathname u \<noteq> eligibility_path)
              then Some u else None)"

definition lower :: "char \<Rightarrow> char" where
  "lower c = (let n = of_char c :: nat in if 65 \<le> n \<and> n \<le> 90 then char_of (n + 32) else c)"

text \<open>The pattern \<open>/^\s*max-age=(\d+)\s*$/i\<close>.\<close>

definition max_age :: "string \<Rightarrow> int option" where
  "max_age s =
     (let t = dropWhile is_blank s; r = drop 8 t; ds = takeWhile is_digit r
      in if map lower (take 8 t) = ''max-age='' \<and> ds \<noteq> [] \<and> list_all is_blank (drop (length ds) r)
         then Some (digits_value ds) else None)"

fun split_at :: "char \<Rightarrow> string \<Rightarrow> string list" where
  "split_at c [] = [[]]"
| "split_at c (x # xs) =
     (case split_at c xs of
        [] \<Rightarrow> []
      | p # ps \<Rightarrow> if x = c then [] # p # ps else (x # p) # ps)"

text \<open>Without \<open>=\<close> the name is the pair without its last character, as \<open>slice(0, -1)\<close> gives it.\<close>

definition cookie_name :: "string \<Rightarrow> string" where
  "cookie_name p = js_trim (case index_of ''='' p of None \<Rightarrow> butlast p | Some n \<Rightarrow> take n p)"

definition rememberMarketCookie :: "millis \<Rightarrow> string \<Rightarrow> market_cookies \<Rightarrow> market_cookies" where
  "rememberMarketCookie now header m =
     (case split_at CHR '';'' header of
        [] \<Rightarrow> m
      | p # attributes \<Rightarrow>
          (let name = cookie_name p in
           if name \<notin> set marketCookieNames \<or> list_ex line_break p then m
           else let seconds = (case List.map_filter max_age attributes of [] \<Rightarrow> 3600 | n # _ \<Rightarrow> n) in
             if seconds \<le> 0 then js_delete name m else js_set name (js_trim p, now + seconds * 1000) m))"

definition rememberMarketCookies :: "millis \<Rightarrow> string list \<Rightarrow> market_cookies \<Rightarrow> market_cookies" where
  "rememberMarketCookies now = fold (rememberMarketCookie now)"

fun too_large :: "int \<Rightarrow> int list \<Rightarrow> bool" where
  "too_large n [] = False"
| "too_large n (x # xs) = (n + x > 10 * 1024 * 1024 \<or> too_large (n + x) xs)"

definition finish_response :: "fetched_response \<Rightarrow> comm_error + fetched_response" where
  "finish_response r = (if too_large 0 (rs_chunks r) then Inl Size_limit else Inr r)"

text \<open>The hops of one request; \<open>answers\<close> gives what the fetch of each hop returns, at which time.\<close>

function hops ::
    "resolver \<Rightarrow> (nat \<Rightarrow> fetched_response option) \<Rightarrow> (nat \<Rightarrow> millis) \<Rightarrow> session \<Rightarrow> http_method \<Rightarrow> nat \<Rightarrow> url \<Rightarrow> market_cookies
      \<Rightarrow> fetch list \<times> market_cookies \<times> (comm_error + fetched_response)" where
  "hops resolve answers clock s verb hop target m =
     (let f = \<lparr>fe_target = target, fe_method = verb, fe_cookies = cs_cookies s @ map (\<lambda>(n, p). fst p) m\<rparr> in
      case answers hop of
        None \<Rightarrow> ([f], m, Inl Request_failed)
      | Some r \<Rightarrow>
          if rs_status r < 300 \<or> rs_status r \<ge> 400 then ([f], m, finish_response r)
          else let m1 = rememberMarketCookies (clock hop) (rs_setCookies r) m in
            case communityRedirect resolve (rs_location r) target verb hop of
              None \<Rightarrow> ([f], m1, Inl Renewed_sign_in)
            | Some u \<Rightarrow>
                (case hops resolve answers clock s verb (Suc hop) u m1 of
                   (fs, m2, res) \<Rightarrow> (f # fs, m2, res)))"
  by pat_completeness auto
termination
  by (relation "measure (\<lambda>(resolve, answers, times, s, verb, hop, target, m). maxRedirects - hop)")
    (auto simp: communityRedirect_def split: if_splits)

definition bad_path :: "string \<Rightarrow> bool" where
  "bad_path p \<longleftrightarrow>
     \<not> prefix ''/'' p \<or> prefix ''//'' p \<or> list_ex (\<lambda>c. line_break c \<or> of_char c \<in> set [0, 92 :: nat]) p"

text \<open>\<open>session\<close> is the answer of the session's owner, \<open>may\<close> whether the caller goes on.\<close>

definition community_request ::
    "resolver \<Rightarrow> account_id \<Rightarrow> string \<Rightarrow> http_method \<Rightarrow> session option \<Rightarrow> bool \<Rightarrow> (nat \<Rightarrow> fetched_response option)
      \<Rightarrow> millis \<Rightarrow> (nat \<Rightarrow> millis) \<Rightarrow> community \<Rightarrow> (comm_error + fetched_response) \<times> community" where
  "community_request resolve acc path verb got may answers now clock c =
     (if bad_path path then (Inl Invalid_path, c)
      else case resolve path (resolve community_origin None) of
        None \<Rightarrow> (Inl Invalid_destination, c)
      | Some u \<Rightarrow>
          if u_origin u \<noteq> community_origin \<or> u_username u \<noteq> [] \<or> u_password u \<noteq> [] then (Inl Invalid_destination, c)
          else case got of
            None \<Rightarrow> (Inl No_session, c)
          | Some s \<Rightarrow>
              if \<not> may then (Inl Not_submitted, c)
              else case hops resolve answers clock s verb 0 u (marketCookiesFor now acc (cs_sessionId s) c) of
                (fs, m, res) \<Rightarrow>
                  (res, c\<lparr>marketCookies := (marketCookies c)(acc \<mapsto> (cs_sessionId s, m)), fetches := fetches c @ fs,
                     discarded := (if res = Inl Renewed_sign_in then [(acc, cs_sessionId s)] else []) @ discarded c\<rparr>))"

definition no_community :: community where
  "no_community = \<lparr>marketCookies = \<lambda>_. None, fetches = [], discarded = []\<rparr>"

inductive community_reachable :: "community \<Rightarrow> bool" where
  no_requests: "community_reachable no_community"
| one_more_request: "community_reachable c \<Longrightarrow>
     community_reachable (snd (community_request resolve acc path verb got may answers now clock c))"

section \<open>Cookies go to Steam only\<close>

definition market_cookies_ok :: "market_cookies \<Rightarrow> bool" where
  "market_cookies_ok m \<longleftrightarrow>
     js_map_ok m \<and> (\<forall>(n, p)\<in>set m. n \<in> set marketCookieNames \<and> \<not> list_ex line_break (fst p))"

definition on_host :: "url \<Rightarrow> bool" where
  "on_host u \<longleftrightarrow> u_origin u = community_origin \<and> u_username u = [] \<and> u_password u = []"

text \<open>What a request may send: the cookies of its session, and at most two of the market.\<close>

definition fetch_ok :: "session \<Rightarrow> http_method \<Rightarrow> fetch \<Rightarrow> bool" where
  "fetch_ok s verb f \<longleftrightarrow>
     on_host (fe_target f) \<and> fe_method f = verb \<and> prefix (cs_cookies s) (fe_cookies f) \<and>
     (let extra = drop (length (cs_cookies s)) (fe_cookies f) in length extra \<le> 2 \<and> list_all (\<lambda>p. \<not> list_ex line_break p) extra)"

lemma set_js_trim: "set (js_trim s) \<subseteq> set s"
proof -
  have "set (dropWhile P xs) \<subseteq> set xs" for P and xs :: string by (auto dest: set_dropWhileD)
  from this [of is_blank "rev (dropWhile is_blank s)"] this [of is_blank s] show ?thesis by (auto simp: js_trim_def)
qed

lemma set_js_set: "set (js_set k v m) \<subseteq> insert (k, v) (set m)"
  by (induction m) auto

lemma remember_ok: "market_cookies_ok m \<Longrightarrow> market_cookies_ok (rememberMarketCookie now header m)"
proof (cases "split_at CHR '';'' header")
  case (Cons p attributes)
  assume ok: "market_cookies_ok m"
  define name where "name = cookie_name p"
  define seconds where "seconds = (case List.map_filter max_age attributes of [] \<Rightarrow> 3600 | n # _ \<Rightarrow> n)"
  have r: "rememberMarketCookie now header m =
      (if name \<notin> set marketCookieNames \<or> list_ex line_break p then m
       else if seconds \<le> 0 then js_delete name m else js_set name (js_trim p, now + seconds * 1000) m)"
    using Cons by (simp add: rememberMarketCookie_def name_def seconds_def Let_def)
  have "market_cookies_ok (js_set name (js_trim p, e) m)" if "name \<in> set marketCookieNames" "\<not> list_ex line_break p" for e
    using ok that set_js_set [of name "(js_trim p, e)" m] set_js_trim [of p]
    by (fastforce simp: market_cookies_ok_def list_ex_iff)
  moreover have "market_cookies_ok (js_delete name m)"
    using ok by (auto simp: market_cookies_ok_def AList.delete_eq intro: js_map_ok_filter)
  ultimately show ?thesis using ok by (auto simp: r)
qed (simp add: rememberMarketCookie_def)

lemma remember_all_ok: "market_cookies_ok m \<Longrightarrow> market_cookies_ok (rememberMarketCookies now hs m)"
  unfolding rememberMarketCookies_def by (induction hs arbitrary: m) (simp_all add: remember_ok)

lemma market_cookies_few: "market_cookies_ok m \<Longrightarrow> length m \<le> 2"
proof -
  assume ok: "market_cookies_ok m"
  then have "fst ` set m \<subseteq> set marketCookieNames" "distinct (map fst m)" by (auto simp: market_cookies_ok_def js_map_ok_def)
  then have "length (map fst m) \<le> card (set marketCookieNames)"
    by (metis List.finite_set card_mono distinct_card image_set)
  also have "\<dots> \<le> 2" by (simp add: marketCookieNames_def)
  finally show ?thesis by simp
qed

lemma sent_ok: "market_cookies_ok m \<Longrightarrow> on_host target \<Longrightarrow>
   fetch_ok s verb \<lparr>fe_target = target, fe_method = verb, fe_cookies = cs_cookies s @ map (\<lambda>(n, p). fst p) m\<rparr>"
  using market_cookies_few [of m] by (auto simp: fetch_ok_def market_cookies_ok_def list_all_iff)

lemma redirect_on_host: "communityRedirect resolve l from verb hop = Some u \<Longrightarrow> on_host from \<Longrightarrow> on_host u \<and> verb = GET \<and> hop < maxRedirects"
  by (auto simp: communityRedirect_def on_host_def split: if_splits option.splits)

declare hops.simps [simp del]

lemma hops_ok:
  "hops resolve answers clock s verb hop target m = (fs, m', res) \<Longrightarrow> market_cookies_ok m \<Longrightarrow> on_host target \<Longrightarrow>
   market_cookies_ok m' \<and> list_all (fetch_ok s verb) fs \<and> length fs \<le> Suc (maxRedirects - hop) \<and>
   (verb = POST \<longrightarrow> length fs = 1)"
proof (induction resolve answers clock s verb hop target m arbitrary: fs m' res rule: hops.induct)
  case (1 resolve answers clock s verb hop target m)
  show ?case
  proof (cases "answers hop")
    case None
    then show ?thesis using 1(2-4) sent_ok by (auto simp: hops.simps [of _ _ _ _ _ hop] Let_def)
  next
    case (Some r)
    define m1 where "m1 = rememberMarketCookies (clock hop) (rs_setCookies r) m"
    have m1: "market_cookies_ok m1" using 1(3) remember_all_ok by (simp add: m1_def)
    show ?thesis
    proof (cases "(rs_status r < 300 \<or> rs_status r \<ge> 400) \<or> communityRedirect resolve (rs_location r) target verb hop = None")
      case True
      then show ?thesis
        using 1(2-4) Some sent_ok m1 by (auto simp: hops.simps [of _ _ _ _ _ hop] Let_def m1_def split: if_splits)
    next
      case False
      then obtain u where u: "communityRedirect resolve (rs_location r) target verb hop = Some u" by auto
      obtain fs2 m2 r2 where h: "hops resolve answers clock s verb (Suc hop) u m1 = (fs2, m2, r2)"
        by (cases "hops resolve answers clock s verb (Suc hop) u m1")
      have whole: "fs = \<lparr>fe_target = target, fe_method = verb, fe_cookies = cs_cookies s @ map (\<lambda>(n, p). fst p) m\<rparr> # fs2" "m' = m2"
        using 1(2) Some False u h by (simp_all add: hops.simps [of _ _ _ _ _ hop] Let_def m1_def)
      note host = redirect_on_host [OF u 1(4)]
      have "market_cookies_ok m2 \<and> list_all (fetch_ok s verb) fs2 \<and> length fs2 \<le> Suc (maxRedirects - Suc hop) \<and>
          (verb = POST \<longrightarrow> length fs2 = 1)"
        using 1(1) [OF refl Some _ refl u, of fs2 m2 r2] False h m1 host by (simp add: m1_def)
      then show ?thesis using whole sent_ok [OF 1(3,4)] host by auto
    qed
  qed
qed

definition community_ok :: "community \<Rightarrow> bool" where
  "community_ok c \<longleftrightarrow> (\<forall>acc sid m. marketCookies c acc = Some (sid, m) \<longrightarrow> market_cookies_ok m)"

lemma marketCookiesFor_ok: "community_ok c \<Longrightarrow> market_cookies_ok (marketCookiesFor now acc sid c)"
proof -
  assume ok: "community_ok c"
  have "market_cookies_ok (filter P m)" if "market_cookies_ok m" for P m
    using that by (auto simp: market_cookies_ok_def)
  moreover have "market_cookies_ok []" by (simp add: market_cookies_ok_def)
  ultimately show ?thesis using ok by (auto simp: marketCookiesFor_def community_ok_def split: option.split)
qed

lemma community_request_ok:
  assumes "community_ok c" "community_request resolve acc path verb got may answers now clock c = (res, c')"
  shows "community_ok c' \<and> (\<exists>fs. fetches c' = fetches c @ fs \<and> length fs \<le> 4 \<and> (verb = POST \<longrightarrow> length fs \<le> 1) \<and>
    (fs \<noteq> [] \<longrightarrow> may \<and> (\<exists>s. got = Some s \<and> list_all (fetch_ok s verb) fs)))"
proof (cases "fetches c' = fetches c \<and> community_ok c'")
  case False
  obtain u s where u: "u_origin u = community_origin" "u_username u = []" "u_password u = []" and s: "got = Some s" and may: may
    and run: "community_request resolve acc path verb got may answers now clock c =
      (case hops resolve answers clock s verb 0 u (marketCookiesFor now acc (cs_sessionId s) c) of
         (fs, m, res) \<Rightarrow>
           (res, c\<lparr>marketCookies := (marketCookies c)(acc \<mapsto> (cs_sessionId s, m)), fetches := fetches c @ fs,
              discarded := (if res = Inl Renewed_sign_in then [(acc, cs_sessionId s)] else []) @ discarded c\<rparr>))"
  proof -
    have None: False if "c' = c" using that assms(1) False by simp
    show ?thesis
      using assms(2) None that
      by (auto simp: community_request_def split: if_splits option.splits)
  qed
  obtain fs m r where h: "hops resolve answers clock s verb 0 u (marketCookiesFor now acc (cs_sessionId s) c) = (fs, m, r)"
    by (cases "hops resolve answers clock s verb 0 u (marketCookiesFor now acc (cs_sessionId s) c)")
  have "on_host u" using u by (simp add: on_host_def)
  note ok = hops_ok [OF h marketCookiesFor_ok [OF assms(1)] this]
  have "c' = c\<lparr>marketCookies := (marketCookies c)(acc \<mapsto> (cs_sessionId s, m)), fetches := fetches c @ fs,
     discarded := (if r = Inl Renewed_sign_in then [(acc, cs_sessionId s)] else []) @ discarded c\<rparr>"
    using assms(2) run h by (auto split: prod.splits)
  then show ?thesis using ok assms(1) s may by (auto simp: community_ok_def maxRedirects_def)
qed auto

lemma community_reachable_ok: "community_reachable c \<Longrightarrow> community_ok c"
proof (induction rule: community_reachable.induct)
  case (one_more_request c resolve acc path verb got may answers now clock)
  then show ?case
    using community_request_ok [of c resolve acc path verb got may answers now clock]
    by (metis prod.collapse)
qed (simp add: community_ok_def no_community_def)

text \<open>
  C37: Whatever Steam answers, a request sends its cookies to the host of the community only, in at most
  four fetches of its own verb, and a POST in at most one; beside the cookies of its session go at most
  two, without line breaks; nothing is sent without a session, or after the caller withdrew.
\<close>

theorem cookies_stay_on_host:
  assumes "community_reachable c"
    and "community_request resolve acc path verb got may answers now clock c = (res, c')"
  shows "\<exists>fs. fetches c' = fetches c @ fs \<and> length fs \<le> 4 \<and> (verb = POST \<longrightarrow> length fs \<le> 1) \<and>
    (fs \<noteq> [] \<longrightarrow> may \<and> (\<exists>s. got = Some s \<and> list_all (fetch_ok s verb) fs))"
  using community_request_ok [OF community_reachable_ok [OF assms(1)] assms(2)] by blast

definition example_resolve :: resolver where
  "example_resolve p from_url = Some \<lparr>u_origin = community_origin, u_username = [], u_password = [], u_pathname = p\<rparr>"

definition example_session :: session where
  "example_session = \<lparr>cs_steamId = ''7'', cs_sessionId = ''s'', cs_cookies = [''sessionid=s'']\<rparr>"

text \<open>The market first sends the browser through its eligibility check, which sets a cookie.\<close>

definition example_hops :: "nat \<Rightarrow> fetched_response option" where
  "example_hops n =
     Some (if n = 0 then \<lparr>rs_status = 302, rs_location = Some eligibility_path, rs_setCookies = [], rs_chunks = []\<rparr>
       else if n = 1 then \<lparr>rs_status = 302, rs_location = Some ''/market/'', rs_setCookies = [''steamCountry=DE; max-age=60''], rs_chunks = []\<rparr>
       else \<lparr>rs_status = 200, rs_location = None, rs_setCookies = [], rs_chunks = [7]\<rparr>)"

lemma cookies_stay_on_host_witness:
  "\<exists>fs. fetches (snd (community_request example_resolve ''a'' ''/market/'' GET (Some example_session) True example_hops 0 (\<lambda>_. 0)
     no_community)) = fs \<and> map fe_cookies fs = [[''sessionid=s''], [''sessionid=s''], [''sessionid=s'', ''steamCountry=DE'']] \<and>
     list_all (fetch_ok example_session GET) fs"
proof -
  let ?r = "community_request example_resolve ''a'' ''/market/'' GET (Some example_session) True example_hops 0 (\<lambda>_. 0) no_community"
  have "map fe_cookies (fetches (snd ?r)) = [[''sessionid=s''], [''sessionid=s''], [''sessionid=s'', ''steamCountry=DE'']]" by code_simp
  moreover from this have "fetches (snd ?r) \<noteq> []" by auto
  moreover have "fetches no_community = []" by (simp add: no_community_def)
  ultimately show ?thesis
    using cookies_stay_on_host [OF no_requests, of example_resolve "''a''" "''/market/''" GET "Some example_session" True example_hops 0
        "\<lambda>_. 0" "fst ?r" "snd ?r"] by auto
qed

end
