(* ===== verification/InventoryModel.thy ===== *)
theory InventoryModel
  imports SaleService
begin

text \<open>
  What the web application makes of an inventory before a sale: variants, the allocation of a sale to
  real assets, and the basket (\<open>apps/web/src/features/inventory/inventory-model.ts\<close> and
  \<open>sell-basket.ts\<close>). Names, filters and prices are left out; \<open>collate\<close> is the comparison of an
  \<open>Intl.Collator\<close>. The last section composes it with the server: what the basket offers is sellable
  there.
\<close>

section \<open>Variants\<close>

record sale_variant =
  sv_id :: string
  sv_quantity :: int
  sv_duplicates :: int
  sv_marketable :: bool
  sv_tradable :: bool
  sv_assets :: "item list"
  sv_sellable :: int
  sv_capacity :: int

definition sellableAssetQuantity :: "item \<Rightarrow> int" where
  "sellableAssetQuantity a =
     (if \<not> marketable a \<or> \<not> is_safe_int (quantity a) \<or> \<not> is_safe_int (duplicateQuantity a) \<or> quantity a \<le> 0 \<or>
         duplicateQuantity a \<le> 0 then 0
      else min (quantity a) (duplicateQuantity a))"

definition variant_key :: "item \<Rightarrow> string" where
  "variant_key x = (if variantId x = [] then ''asset:'' @ assetId x else variantId x)"

definition add_item :: "item \<Rightarrow> (string, sale_variant) js_map \<Rightarrow> (string, sale_variant) js_map" where
  "add_item x m =
     (let n = sellableAssetQuantity x; k = variant_key x in
      js_set k
        (case js_get m k of
           None \<Rightarrow> \<lparr>sv_id = k, sv_quantity = quantity x, sv_duplicates = duplicateQuantity x, sv_marketable = marketable x,
             sv_tradable = tradable x, sv_assets = [x], sv_sellable = n, sv_capacity = min n 100\<rparr>
         | Some v \<Rightarrow> v\<lparr>sv_assets := sv_assets v @ [x], sv_quantity := sv_quantity v + quantity x,
             sv_duplicates := sv_duplicates v + duplicateQuantity x, sv_sellable := sv_sellable v + n,
             sv_capacity := sv_capacity v + min n 100, sv_marketable := sv_marketable v \<or> marketable x,
             sv_tradable := sv_tradable v \<or> tradable x\<rparr>) m)"

definition buildInventoryVariants :: "item list \<Rightarrow> sale_variant list" where
  "buildInventoryVariants items = map snd (fold add_item items [])"

section \<open>Allocation to assets\<close>

datatype range_error = Not_a_positive_number | Exceeds_extra_copies

definition compareAssetIds :: "(string \<Rightarrow> string \<Rightarrow> int) \<Rightarrow> item \<Rightarrow> item \<Rightarrow> int" where
  "compareAssetIds collate x y =
     (let a = assetId x; b = assetId y in
      if is_digits a \<and> is_digits b \<and> digits_value a \<noteq> digits_value b
      then (if digits_value a < digits_value b then - 1 else 1)
      else or_else (collate a b) (order_compare a b))"

definition asset_capacity :: "item \<Rightarrow> int" where
  "asset_capacity a = min (sellableAssetQuantity a) 100"

fun allocate_rows :: "int \<Rightarrow> item list \<Rightarrow> (string \<times> int) list" where
  "allocate_rows remaining [] = []"
| "allocate_rows remaining (a # as) =
     (let amount = min remaining (asset_capacity a) in
      if amount > 0 then (assetId a, amount) # (if remaining - amount = 0 then [] else allocate_rows (remaining - amount) as)
      else if remaining = 0 then [] else allocate_rows remaining as)"

definition allocateVariantSale :: "(string \<Rightarrow> string \<Rightarrow> int) \<Rightarrow> sale_variant \<Rightarrow> int \<Rightarrow> range_error + (string \<times> int) list" where
  "allocateVariantSale collate v n =
     (if \<not> is_safe_int n \<or> n \<le> 0 then Inl Not_a_positive_number
      else let assets = js_sort (compareAssetIds collate) (sv_assets v) in
        if n > sum_list (map asset_capacity assets) then Inl Exceeds_extra_copies else Inr (allocate_rows n assets))"

section \<open>The basket\<close>

type_synonym basket = "(string, int) js_map"

definition MAX_SALE_ACTIONS :: int where "MAX_SALE_ACTIONS = 50"

definition by_id :: "sale_variant list \<Rightarrow> string \<Rightarrow> sale_variant option" where
  "by_id vs k = js_get (fold (\<lambda>v. js_set (sv_id v) v) vs []) k"

definition capacity_of :: "sale_variant list \<Rightarrow> string \<Rightarrow> int" where
  "capacity_of vs k = (case by_id vs k of None \<Rightarrow> 0 | Some v \<Rightarrow> sv_capacity v)"

definition pruneBasket :: "basket \<Rightarrow> sale_variant list \<Rightarrow> basket" where
  "pruneBasket b vs =
     (if list_ex (\<lambda>(k, n). min n (capacity_of vs k) \<noteq> n) b
      then filter (\<lambda>(k, n). n > 0) (map (\<lambda>(k, n). (k, min n (capacity_of vs k))) b) else b)"

definition basketEntries :: "basket \<Rightarrow> sale_variant list \<Rightarrow> (sale_variant \<times> int) list" where
  "basketEntries b vs =
     List.map_filter (\<lambda>(k, n).
       case by_id vs k of
         None \<Rightarrow> None
       | Some v \<Rightarrow> if min n (sv_capacity v) > 0 then Some (v, min n (sv_capacity v)) else None) b"

primrec basketAllocations :: "(string \<Rightarrow> string \<Rightarrow> int) \<Rightarrow> (sale_variant \<times> int) list \<Rightarrow> range_error + (string \<times> int) list" where
  "basketAllocations collate [] = Inr []"
| "basketAllocations collate (e # es) =
     and_then (allocateVariantSale collate (fst e) (snd e)) (\<lambda>rows.
     and_then (basketAllocations collate es) (\<lambda>rest. Inr (rows @ rest)))"

definition quantityWithin :: "(string \<Rightarrow> string \<Rightarrow> int) \<Rightarrow> sale_variant \<Rightarrow> int \<Rightarrow> range_error + int" where
  "quantityWithin collate v actions =
     (if sv_capacity v < 1 \<or> actions < 1 then Inr 0
      else and_then (allocateVariantSale collate v (sv_capacity v)) (\<lambda>rows. Inr (sum_list (map snd (take (nat actions) rows)))))"

text \<open>An entry of a basket counts unless it is zero.\<close>

definition in_basket :: "basket \<Rightarrow> string \<Rightarrow> bool" where
  "in_basket b k \<longleftrightarrow> (case js_get b k of None \<Rightarrow> False | Some n \<Rightarrow> n \<noteq> 0)"

primrec add_variants ::
    "(string \<Rightarrow> string \<Rightarrow> int) \<Rightarrow> sale_variant list \<Rightarrow> basket \<Rightarrow> int \<Rightarrow> nat \<Rightarrow> range_error + (basket \<times> nat)" where
  "add_variants collate [] b actions skipped = Inr (b, skipped)"
| "add_variants collate (v # vs) b actions skipped =
     (if sv_capacity v < 1 \<or> in_basket b (sv_id v) then add_variants collate vs b actions skipped
      else and_then (quantityWithin collate v (MAX_SALE_ACTIONS - actions)) (\<lambda>n.
        let skipped1 = (if n < sv_capacity v then skipped + 1 else skipped) in
        if n < 1 then add_variants collate vs b actions skipped1
        else and_then (allocateVariantSale collate v n) (\<lambda>rows.
          add_variants collate vs (js_set (sv_id v) n b) (actions + int (length rows)) skipped1)))"

definition addToBasket ::
    "(string \<Rightarrow> string \<Rightarrow> int) \<Rightarrow> basket \<Rightarrow> sale_variant list \<Rightarrow> sale_variant list \<Rightarrow> range_error + (basket \<times> nat)" where
  "addToBasket collate b vs all =
     and_then (basketAllocations collate (basketEntries b all)) (\<lambda>rows. add_variants collate vs b (int (length rows)) 0)"

section \<open>What an allocation is\<close>

lemma sum_positive: "xs \<noteq> [] \<Longrightarrow> \<forall>r\<in>set xs. 0 < snd r \<Longrightarrow> 0 < (sum_list (map snd xs) :: int)"
proof (induction xs)
  case (Cons x xs)
  then show ?case by (cases "xs = []") auto
qed simp

lemma member_le_sum: "\<forall>r\<in>set xs. 0 \<le> snd r \<Longrightarrow> x \<in> set xs \<Longrightarrow> snd x \<le> (sum_list (map snd xs) :: int)"
proof (induction xs)
  case (Cons y ys)
  have "0 \<le> sum_list (map snd ys)" by (rule sum_list_nonneg) (use Cons.prems(1) in auto)
  then show ?case using Cons by (cases "x = y") force+
qed simp

lemma sellable_nonneg [simp]: "0 \<le> sellableAssetQuantity a" "0 \<le> asset_capacity a"
  by (simp_all add: sellableAssetQuantity_def asset_capacity_def)

lemma allocate_rows_props:
  assumes "0 < n" "n \<le> sum_list (map asset_capacity as)"
  shows "sum_list (map snd (allocate_rows n as)) = n \<and> subseq (map fst (allocate_rows n as)) (map assetId as) \<and>
    (\<forall>(k, m)\<in>set (allocate_rows n as). 0 < m \<and> (\<exists>a\<in>set as. assetId a = k \<and> m \<le> asset_capacity a))"
  using assms
proof (induction n as rule: allocate_rows.induct)
  case (2 n a as)
  define m where "m = min n (asset_capacity a)"
  show ?case
  proof (cases "n - m = 0")
    case True
    then show ?thesis using 2(3) by (auto simp: m_def Let_def)
  next
    case False
    then have m: "m = asset_capacity a" "m < n" by (auto simp: m_def)
    have rest: "0 < n - m" "n - m \<le> sum_list (map asset_capacity as)" using m 2(4) by simp_all
    show ?thesis
    proof (cases "m > 0")
      case True
      have "allocate_rows n (a # as) = (assetId a, m) # allocate_rows (n - m) as"
        using True False by (auto simp: m_def Let_def)
      then show ?thesis using 2(1) [OF m_def] True False rest m by fastforce
    next
      case zero: False
      then have "m = 0" using m(1) sellable_nonneg(2) [of a] by linarith
      then have "allocate_rows n (a # as) = allocate_rows n as" using m 2(3) by (simp add: m_def Let_def)
      then show ?thesis using 2(2) [OF m_def] zero \<open>m = 0\<close> rest 2(3) by (fastforce intro: list_emb_Cons)
    qed
  qed
qed simp

text \<open>The first rows of an allocation are the allocation of their sum.\<close>

lemma allocate_rows_take:
  "0 < n \<Longrightarrow> n \<le> sum_list (map asset_capacity as) \<Longrightarrow> 0 < k \<Longrightarrow>
   allocate_rows (sum_list (map snd (take k (allocate_rows n as)))) as = take k (allocate_rows n as)"
proof (induction n as arbitrary: k rule: allocate_rows.induct)
  case (2 n a as)
  define m where "m = min n (asset_capacity a)"
  show ?case
  proof (cases "n - m = 0")
    case True
    then have "allocate_rows n (a # as) = [(assetId a, n)]" using 2(3) by (simp add: m_def Let_def)
    then show ?thesis using 2(5) by (cases k) simp_all
  next
    case False
    then have m: "m = asset_capacity a" "m < n" by (auto simp: m_def)
    have rest: "0 < n - m" "n - m \<le> sum_list (map asset_capacity as)" using m 2(4) by simp_all
    note total = allocate_rows_props [OF rest]
    obtain k' where k: "k = Suc k'" using 2(5) by (cases k) auto
    show ?thesis
    proof (cases "m > 0")
      case True
      have whole: "allocate_rows n (a # as) = (assetId a, m) # allocate_rows (n - m) as"
        using True False by (auto simp: m_def Let_def)
      show ?thesis
      proof (cases "k' = 0")
        case True
        then show ?thesis using whole k m \<open>m > 0\<close> by simp
      next
        case False
        define t where "t = take k' (allocate_rows (n - m) as)"
        have t: "allocate_rows (sum_list (map snd t)) as = t"
          using 2(1) [OF m_def True] \<open>n - m \<noteq> 0\<close> rest False by (simp add: t_def)
        have "sum_list (map snd t) > 0"
        proof -
          have "t \<noteq> []" using total rest False by (auto simp: t_def)
          moreover have "\<forall>r\<in>set t. 0 < snd r" using total set_take_subset [of k' "allocate_rows (n - m) as"] by (fastforce simp: t_def)
          ultimately show ?thesis by (rule sum_positive)
        qed
        then have "allocate_rows (m + sum_list (map snd t)) (a # as) = (assetId a, m) # allocate_rows (sum_list (map snd t)) as"
          using m \<open>m > 0\<close> by simp
        then show ?thesis using whole k t by (simp add: t_def)
      qed
    next
      case zero: False
      then have "m = 0" using m(1) sellable_nonneg(2) [of a] by linarith
      then have whole: "allocate_rows n (a # as) = allocate_rows n as" using m 2(3) by (simp add: m_def Let_def)
      have IH: "allocate_rows (sum_list (map snd (take k (allocate_rows n as)))) as = take k (allocate_rows n as)"
        using 2(2) [OF m_def zero] \<open>m = 0\<close> rest 2(3,5) by auto
      have "allocate_rows j (a # as) = allocate_rows j as" if "j > 0" for j
        using that m(1) \<open>m = 0\<close> by simp
      moreover have "sum_list (map snd (take k (allocate_rows n as))) > 0"
      proof -
        have p: "take k (allocate_rows n as) \<noteq> []"
          using allocate_rows_props [of n as] rest \<open>m = 0\<close> 2(3,5) by auto
        moreover have "\<forall>r\<in>set (take k (allocate_rows n as)). 0 < snd r"
          using allocate_rows_props [of n as] rest \<open>m = 0\<close> 2(3) set_take_subset [of k "allocate_rows n as"] by fastforce
        ultimately show ?thesis by (rule sum_positive)
      qed
      ultimately show ?thesis using whole IH by metis
    qed
  qed
qed simp


section \<open>Variants of an inventory\<close>

definition variant_of :: "item list \<Rightarrow> string \<Rightarrow> sale_variant \<Rightarrow> bool" where
  "variant_of items k v \<longleftrightarrow>
     sv_id v = k \<and> sv_assets v = filter (\<lambda>x. variant_key x = k) items \<and>
     sv_capacity v = sum_list (map asset_capacity (sv_assets v)) \<and>
     sv_duplicates v = sum_list (map duplicateQuantity (sv_assets v))"

definition variants_ok :: "item list \<Rightarrow> (string, sale_variant) js_map \<Rightarrow> bool" where
  "variants_ok items m \<longleftrightarrow>
     js_map_ok m \<and>
     (\<forall>k. case js_get m k of None \<Rightarrow> filter (\<lambda>x. variant_key x = k) items = [] | Some v \<Rightarrow> variant_of items k v)"

lemma add_item_ok: "variants_ok items m \<Longrightarrow> variants_ok (items @ [x]) (add_item x m)"
proof -
  assume ok: "variants_ok items m"
  have "case js_get (add_item x m) k of None \<Rightarrow> filter (\<lambda>y. variant_key y = k) (items @ [x]) = []
      | Some v \<Rightarrow> variant_of (items @ [x]) k v" for k
  proof -
    have "case js_get m k of None \<Rightarrow> filter (\<lambda>x. variant_key x = k) items = [] | Some v \<Rightarrow> variant_of items k v"
      using ok by (simp add: variants_ok_def)
    then show ?thesis
      by (cases "js_get m k") (auto simp: add_item_def Let_def variant_of_def asset_capacity_def split: option.split)
  qed
  then show ?thesis using ok by (simp add: variants_ok_def add_item_def Let_def)
qed

lemma built_variants: "variants_ok items (fold add_item items [])"
  by (induction items rule: rev_induct) (simp_all add: add_item_ok, simp add: variants_ok_def)

lemma built_variant:
  "v \<in> set (buildInventoryVariants items) \<Longrightarrow> variant_of items (sv_id v) v"
proof -
  assume "v \<in> set (buildInventoryVariants items)"
  then obtain k where "(k, v) \<in> set (fold add_item items [])" by (auto simp: buildInventoryVariants_def)
  then have "js_get (fold add_item items []) k = Some v"
    using built_variants [of items] by (simp add: variants_ok_def js_map_ok_def)
  then have "variant_of items k v" using built_variants [of items] by (auto simp: variants_ok_def dest!: spec [of _ k])
  then show ?thesis by (simp add: variant_of_def)
qed

lemma built_ids: "distinct (map sv_id (buildInventoryVariants items))"
proof -
  have ok: "variants_ok items (fold add_item items [])" by (rule built_variants)
  have "sv_id v = k" if "(k, v) \<in> set (fold add_item items [])" for k v
    using that ok by (auto simp: variants_ok_def js_map_ok_def variant_of_def dest!: spec [of _ k])
  then have "map sv_id (buildInventoryVariants items) = map fst (fold add_item items [])"
    unfolding buildInventoryVariants_def map_map by (auto intro!: map_cong)
  then show ?thesis using ok by (simp only: variants_ok_def js_map_ok_def)
qed

lemma sum_sorted [simp]: "sum_list (map f (js_sort cmp xs)) = (sum_list (map f xs) :: int)"
  by (metis mset_js_sort mset_map sum_mset_sum_list)

lemma allocateVariantSale_Inr:
  assumes "allocateVariantSale collate v n = Inr rows"
  shows "0 < n \<and> n \<le> sum_list (map asset_capacity (sv_assets v)) \<and> sum_list (map snd rows) = n \<and>
    (\<forall>(k, m)\<in>set rows. 0 < m \<and> (\<exists>a\<in>set (sv_assets v). assetId a = k \<and> m \<le> asset_capacity a)) \<and>
    (distinct (map assetId (sv_assets v)) \<longrightarrow> distinct (map fst rows))"
proof -
  let ?as = "js_sort (compareAssetIds collate) (sv_assets v)"
  have n: "0 < n" "n \<le> sum_list (map asset_capacity ?as)" and rows: "rows = allocate_rows n ?as"
    using assms by (auto simp: allocateVariantSale_def Let_def split: if_splits)
  have "distinct (map assetId ?as) \<longleftrightarrow> distinct (map assetId (sv_assets v))"
    by (metis mset_js_sort mset_map mset_eq_imp_distinct_iff)
  then show ?thesis
    using n allocate_rows_props [OF n] rows by (auto dest: subseq_distinctD)
qed

section \<open>What is offered is sellable\<close>

definition steam_variant :: "item \<Rightarrow> bool" where
  "steam_variant x \<longleftrightarrow>
     (\<exists>c i. CHR '':'' \<notin> set c \<and> CHR ''_'' \<notin> set c \<and> variantId x = ''753:6:'' @ c @ '':'' @ i \<and> item_group x = c @ ''_'' @ i)"

lemma append_separator:
  assumes "z \<notin> set c" "z \<notin> set c'" "c @ z # i = c' @ z # i'"
  shows "c = c' \<and> i = i'"
proof -
  have "takeWhile (\<lambda>x. x \<noteq> z) (c @ z # i) = c" "takeWhile (\<lambda>x. x \<noteq> z) (c' @ z # i') = c'"
    using assms(1,2) by (auto simp: takeWhile_append)
  then show ?thesis using assms(3) by auto
qed

lemma same_group:
  assumes "steam_variant x" "steam_variant y"
  shows "variantId x = variantId y \<longleftrightarrow> item_group x = item_group y"
proof -
  obtain c i where x: "CHR '':'' \<notin> set c" "CHR ''_'' \<notin> set c" "variantId x = ''753:6:'' @ c @ '':'' @ i"
    "item_group x = c @ ''_'' @ i" using assms(1) unfolding steam_variant_def by blast
  obtain c' i' where y: "CHR '':'' \<notin> set c'" "CHR ''_'' \<notin> set c'" "variantId y = ''753:6:'' @ c' @ '':'' @ i'"
    "item_group y = c' @ ''_'' @ i'" using assms(2) unfolding steam_variant_def by blast
  show ?thesis
  proof
    assume "variantId x = variantId y"
    then have "c = c' \<and> i = i'" using append_separator [OF x(1) y(1), of i i'] x(3) y(3) by simp
    then show "item_group x = item_group y" using x(4) y(4) by simp
  next
    assume "item_group x = item_group y"
    then have "c = c' \<and> i = i'" using append_separator [OF x(2) y(2), of i i'] x(4) y(4) by simp
    then show "variantId x = variantId y" using x(3) y(3) by simp
  qed
qed

lemma make_items_steam: "make_items ds as kept = Inr items \<Longrightarrow> \<forall>x\<in>set items. steam_variant x"
proof (induction as arbitrary: kept items)
  case (Cons a as)
  from Cons.prems obtain c i d n rest where
    c: "item_id (as_classid (snd a)) = Inr c" and parts: "make_items ds as ((c @ ''_'' @ i) # kept) = Inr rest"
    and items: "items = new_item (fst a) c i d n (c @ ''_'' @ i \<notin> set kept) # rest"
    by (auto simp: and_then_eq_Inr)
  have "numeric_id c" using c by (simp add: item_id_def split: unknown.splits if_splits)
  then have "list_all is_digit c" by (simp add: numeric_id_def is_digits_def)
  moreover have "\<not> is_digit (CHR '':'')" "\<not> is_digit (CHR ''_'')" by (simp_all add: is_digit_def)
  ultimately have "CHR '':'' \<notin> set c" "CHR ''_'' \<notin> set c" by (auto simp only: list_all_iff)
  moreover have "variantId (new_item (fst a) c i d n b) = ''753:6:'' @ c @ '':'' @ i"
    "item_group (new_item (fst a) c i d n b) = c @ ''_'' @ i" for b by (simp_all add: new_item_def)
  ultimately have "steam_variant (new_item (fst a) c i d n (c @ ''_'' @ i \<notin> set kept))" unfolding steam_variant_def by blast
  then show ?case using Cons.IH [OF parts] items by simp
qed simp

lemma loaded_items:
  assumes "loadInventory src = Inr items"
  shows "\<forall>x\<in>set items. steam_variant x" "distinct (map assetId items)"
    "\<And>x. x \<in> set items \<Longrightarrow> copies duplicateQuantity (item_group x) items = copies quantity (item_group x) items - 1 \<and>
       1 \<le> quantity x \<and> 0 \<le> duplicateQuantity x \<and> duplicateQuantity x \<le> quantity x"
proof -
  obtain st where pages: "inventory_pages src 0 maxInventoryPages empty_load = Inr st"
    and items: "make_items (ld_descriptions st) (ld_assets st) [] = Inr items"
    using assms by (auto simp: loadInventory_def and_then_eq_Inr)
  show "\<forall>x\<in>set items. steam_variant x" by (rule make_items_steam [OF items])
  have "js_map_ok (ld_assets st)" using inventory_pages_ok [OF _ pages] by (simp add: empty_load_def)
  then show "distinct (map assetId items)" using make_items_groups [OF items] by (simp add: js_map_ok_def)
  show "copies duplicateQuantity (item_group x) items = copies quantity (item_group x) items - 1 \<and>
       1 \<le> quantity x \<and> 0 \<le> duplicateQuantity x \<and> duplicateQuantity x \<le> quantity x" if "x \<in> set items" for x
    using make_items_groups [OF items, of "item_group x"] that by auto
qed

lemma sum_list_mono_on: "(\<And>x. x \<in> set xs \<Longrightarrow> f x \<le> (g x :: int)) \<Longrightarrow> sum_list (map f xs) \<le> sum_list (map g xs)"
  by (induction xs) (auto simp: add_mono)

lemma find_item_distinct: "distinct (map assetId items) \<Longrightarrow> x \<in> set items \<Longrightarrow> find_item (assetId x) items = Some x"
  by (induction items) (auto simp: find_item_def)

lemma allocated_row:
  assumes "loadInventory src = Inr items" "v \<in> set (buildInventoryVariants items)"
    and "allocateVariantSale collate v n = Inr rows" "(a, k) \<in> set rows"
  shows "\<exists>x\<in>set items. assetId x = a \<and> variantId x = sv_id v \<and> 0 < k \<and> k \<le> 100 \<and> k \<le> quantity x \<and>
    find_item a items = Some x \<and> n + 1 \<le> copies quantity (item_group x) items"
proof -
  note loaded = loaded_items [OF assms(1)]
  note alloc = allocateVariantSale_Inr [OF assms(3)]
  have variant: "variant_of items (sv_id v) v" by (rule built_variant [OF assms(2)])
  have key: "variant_key x = variantId x" if "x \<in> set items" for x
    using loaded(1) that by (auto simp: variant_key_def steam_variant_def)
  obtain x where x: "x \<in> set (sv_assets v)" "assetId x = a" "0 < k" "k \<le> asset_capacity x"
    using alloc assms(4) by blast
  then have in_items: "x \<in> set items" "variantId x = sv_id v" using variant key by (auto simp: variant_of_def)
  have "variant_key y = sv_id v \<longleftrightarrow> item_group y = item_group x" if "y \<in> set items" for y
    using same_group [of y x] loaded(1) that in_items key by auto
  then have assets: "sv_assets v = filter (\<lambda>y. item_group y = item_group x) items"
    using variant by (auto simp: variant_of_def intro: filter_cong)
  have "asset_capacity y \<le> duplicateQuantity y" if "y \<in> set items" for y
    using loaded(3) [OF that] by (auto simp: asset_capacity_def sellableAssetQuantity_def)
  then have "sum_list (map asset_capacity (sv_assets v)) \<le> copies duplicateQuantity (item_group x) items"
    unfolding copies_def assets by (intro sum_list_mono_on) auto
  then have "n + 1 \<le> copies quantity (item_group x) items" using alloc loaded(3) [OF in_items(1)] by linarith
  moreover have "k \<le> 100" "k \<le> quantity x"
    using x(3,4) by (auto simp: asset_capacity_def sellableAssetQuantity_def split: if_splits)
  ultimately show ?thesis
    using in_items x find_item_distinct [OF loaded(2) in_items(1)] by blast
qed

text \<open>
  C38: What the web application allocates for a variant of an accepted inventory, the server sells: every
  row passes its check while nothing is submitted, the rows name distinct assets and add up to the
  quantity that was chosen, and together they leave a copy of the item.
\<close>

theorem allocation_is_sellable:
  assumes "loadInventory src = Inr items" "v \<in> set (buildInventoryVariants items)"
    and "allocateVariantSale collate v n = Inr rows"
  shows "list_all (\<lambda>(a, k). case assertSellable (\<lambda>_. None) items a k of
        Inl e \<Rightarrow> False | Inr x \<Rightarrow> variantId x = sv_id v \<and> n + 1 \<le> copies quantity (item_group x) items) rows \<and>
    distinct (map fst rows) \<and> sum_list (map snd rows) = n"
proof -
  note loaded = loaded_items [OF assms(1)]
  note alloc = allocateVariantSale_Inr [OF assms(3)]
  have le: "k \<le> n" if "(a, k) \<in> set rows" for a k
  proof -
    have "\<forall>r\<in>set rows. 0 \<le> snd r" using alloc by fastforce
    from member_le_sum [OF this that] show ?thesis using alloc by simp
  qed
  have "free_copies (\<lambda>_. None) x = quantity x" if "x \<in> set items" for x
    using loaded(3) [OF that] by (simp add: free_copies_def)
  then have "map (free_copies (\<lambda>_. None)) (filter P items) = map quantity (filter P items)" for P by simp
  then have free: "copies (free_copies (\<lambda>_. None)) g items = copies quantity g items" for g by (simp only: copies_def)
  have "case assertSellable (\<lambda>_. None) items a k of
        Inl e \<Rightarrow> False | Inr x \<Rightarrow> variantId x = sv_id v \<and> n + 1 \<le> copies quantity (item_group x) items"
    if "(a, k) \<in> set rows" for a k
    using allocated_row [OF assms that] le [OF that] by (auto simp: assertSellable_def free)
  moreover have "distinct (map assetId (sv_assets v))"
    using loaded(2) built_variant [OF assms(2)] by (auto simp: variant_of_def distinct_map_filter)
  ultimately show ?thesis using alloc by (auto simp: list_all_iff)
qed

section \<open>A basket fits in one batch\<close>

definition fits :: "sale_variant \<Rightarrow> bool" where
  "fits v \<longleftrightarrow> sv_capacity v = sum_list (map asset_capacity (sv_assets v)) \<and> is_safe_int (sv_capacity v)"

abbreviation sale_rows :: "(string \<Rightarrow> string \<Rightarrow> int) \<Rightarrow> sale_variant \<Rightarrow> int \<Rightarrow> (string \<times> int) list" where
  "sale_rows collate v n \<equiv> allocate_rows n (js_sort (compareAssetIds collate) (sv_assets v))"

lemma allocate_fits:
  "fits v \<Longrightarrow> 0 < n \<Longrightarrow> n \<le> sv_capacity v \<Longrightarrow> allocateVariantSale collate v n = Inr (sale_rows collate v n)"
  by (auto simp: fits_def allocateVariantSale_def is_safe_int_def)

text \<open>The rows of one entry of a basket.\<close>

definition entry_rows :: "(string \<Rightarrow> string \<Rightarrow> int) \<Rightarrow> sale_variant list \<Rightarrow> string \<times> int \<Rightarrow> (string \<times> int) list" where
  "entry_rows collate vs e =
     (case by_id vs (fst e) of
        None \<Rightarrow> []
      | Some v \<Rightarrow> if min (snd e) (sv_capacity v) > 0 then sale_rows collate v (min (snd e) (sv_capacity v)) else [])"

abbreviation basket_rows :: "(string \<Rightarrow> string \<Rightarrow> int) \<Rightarrow> sale_variant list \<Rightarrow> basket \<Rightarrow> (string \<times> int) list" where
  "basket_rows collate vs b \<equiv> concat (map (entry_rows collate vs) b)"

lemma by_id_snoc: "by_id (vs @ [v]) k = (if k = sv_id v then Some v else by_id vs k)"
  by (simp add: by_id_def)

lemma by_id_Some: "by_id vs k = Some v \<Longrightarrow> v \<in> set vs \<and> sv_id v = k"
  by (induction vs rule: rev_induct) (auto simp: by_id_snoc split: if_splits, simp add: by_id_def)

lemma by_id_member: "distinct (map sv_id vs) \<Longrightarrow> v \<in> set vs \<Longrightarrow> by_id vs (sv_id v) = Some v"
proof (induction vs rule: rev_induct)
  case (snoc x xs)
  then have "v \<noteq> x \<Longrightarrow> sv_id v \<noteq> sv_id x" by (metis (no_types, lifting) UnE distinct_append imageI insert_iff list.set map_append
        set_append set_map disjoint_iff empty_iff)
  then show ?case using snoc by (auto simp: by_id_snoc)
qed simp

lemma basket_allocated:
  assumes "\<forall>v\<in>set vs. fits v"
  shows "basketAllocations collate (basketEntries b vs) = Inr (basket_rows collate vs b)"
proof (induction b)
  case (Cons e b)
  obtain k n where e: "e = (k, n)" by (cases e)
  show ?case
  proof (cases "by_id vs k")
    case None
    then show ?thesis using Cons e by (simp add: basketEntries_def List.map_filter_simps entry_rows_def)
  next
    case (Some v)
    then have "fits v" using by_id_Some assms by blast
    then have "0 < min n (sv_capacity v) \<Longrightarrow> allocateVariantSale collate v (min n (sv_capacity v)) =
        Inr (sale_rows collate v (min n (sv_capacity v)))" by (intro allocate_fits) auto
    then show ?thesis using Cons e Some by (simp add: basketEntries_def List.map_filter_simps entry_rows_def)
  qed
qed (simp add: basketEntries_def List.map_filter_simps)

lemma basket_rows_set:
  "js_map_ok b \<Longrightarrow> \<not> in_basket b k \<Longrightarrow>
   length (basket_rows collate vs (js_set k n b)) = length (basket_rows collate vs b) + length (entry_rows collate vs (k, n))"
proof (induction b)
  case (Cons e b)
  show ?case
  proof (cases "fst e = k")
    case True
    then have "snd e = 0" using Cons.prems(2) by (cases e) (simp add: in_basket_def)
    then have "entry_rows collate vs e = []" by (simp add: entry_rows_def split: option.split)
    then show ?thesis using True by (cases e) simp
  next
    case False
    then show ?thesis using Cons by (cases e) (simp add: in_basket_def js_map_ok_def)
  qed
qed simp

lemma quantityWithin_fits:
  assumes "fits v" "1 \<le> sv_capacity v" "quantityWithin collate v k = Inr n" "1 \<le> n"
  shows "n \<le> sv_capacity v \<and> allocateVariantSale collate v n = Inr (sale_rows collate v n) \<and>
    int (length (sale_rows collate v n)) \<le> k"
proof -
  let ?rows = "sale_rows collate v (sv_capacity v)"
  let ?as = "js_sort (compareAssetIds collate) (sv_assets v)"
  have cap: "0 < sv_capacity v" "sv_capacity v \<le> sum_list (map asset_capacity ?as)" using assms(1,2) by (simp_all add: fits_def)
  have k: "1 \<le> k" and n: "n = sum_list (map snd (take (nat k) ?rows))"
    using assms(3,4) allocate_fits [OF assms(1) cap(1), of collate] by (auto simp: quantityWithin_def split: if_splits)
  have "sum_list (map snd ?rows) = sum_list (map snd (take (nat k) ?rows)) + sum_list (map snd (drop (nat k) ?rows))"
    by (metis append_take_drop_id map_append sum_list_append)
  moreover have "0 \<le> sum_list (map snd (drop (nat k) ?rows))"
    using allocate_rows_props [OF cap] set_drop_subset [of "nat k" ?rows] by (intro sum_list_nonneg) fastforce
  ultimately have le: "n \<le> sv_capacity v" using n allocate_rows_props [OF cap] by simp
  have "allocate_rows n ?as = take (nat k) ?rows" unfolding n by (rule allocate_rows_take [OF cap]) (use k in simp)
  then show ?thesis using le allocate_fits [OF assms(1), of n collate] assms(4) k by simp
qed

lemma add_variants_fits:
  assumes "\<forall>v\<in>set all. fits v" "distinct (map sv_id all)"
  shows "set vs \<subseteq> set all \<Longrightarrow> js_map_ok b \<Longrightarrow> int (length (basket_rows collate all b)) \<le> 50 \<Longrightarrow>
    \<exists>b' k. add_variants collate vs b (int (length (basket_rows collate all b))) skipped = Inr (b', k) \<and>
      int (length (basket_rows collate all b')) \<le> 50"
proof (induction vs arbitrary: b skipped)
  case (Cons v vs)
  let ?n = "int (length (basket_rows collate all b))"
  have v: "fits v" "by_id all (sv_id v) = Some v" using assms by_id_member [OF assms(2)] Cons.prems(1) by auto
  show ?case
  proof (cases "sv_capacity v < 1 \<or> in_basket b (sv_id v)")
    case True
    then show ?thesis using Cons by auto
  next
    case False
    obtain n where n: "quantityWithin collate v (MAX_SALE_ACTIONS - ?n) = Inr n"
    proof (cases "MAX_SALE_ACTIONS - ?n < 1")
      case True
      then show ?thesis using that by (simp add: quantityWithin_def)
    next
      case room: False
      then show ?thesis
        using allocate_fits [OF v(1), of "sv_capacity v" collate] False that by (simp add: quantityWithin_def)
    qed
    show ?thesis
    proof (cases "n < 1")
      case True
      then show ?thesis using Cons False n by auto
    next
      case pos: False
      note q = quantityWithin_fits [OF v(1) _ n]
      have "entry_rows collate all (sv_id v, n) = sale_rows collate v n"
        using q v(2) False pos by (simp add: entry_rows_def min_def)
      then have len: "length (basket_rows collate all (js_set (sv_id v) n b)) =
          length (basket_rows collate all b) + length (sale_rows collate v n)"
        using basket_rows_set [OF Cons.prems(2)] False by simp
      have "int (length (basket_rows collate all (js_set (sv_id v) n b))) \<le> 50"
        using q False pos by (simp add: len MAX_SALE_ACTIONS_def)
      from Cons.IH [OF _ js_map_ok_set [OF Cons.prems(2)] this] show ?thesis
        using Cons.prems(1) n q False pos by (simp add: len)
    qed
  qed
qed simp

lemma built_fits:
  assumes "int (length items) \<le> 40000" "v \<in> set (buildInventoryVariants items)"
  shows "fits v"
proof -
  have variant: "variant_of items (sv_id v) v" by (rule built_variant [OF assms(2)])
  have "sum_list (map asset_capacity xs) \<le> 100 * int (length xs)" for xs
    by (induction xs) (simp_all add: asset_capacity_def)
  from this [of "sv_assets v"] have "sv_capacity v \<le> 100 * int (length (sv_assets v))" using variant by (simp add: variant_of_def)
  also have "\<dots> \<le> 100 * int (length items)" using variant by (simp add: variant_of_def)
  finally have "sv_capacity v \<le> 4000000" using assms(1) by simp
  moreover have "0 \<le> sum_list (map asset_capacity xs)" for xs by (rule sum_list_nonneg) auto
  then have "0 \<le> sv_capacity v" using variant by (simp add: variant_of_def)
  ultimately show ?thesis using variant by (simp add: fits_def variant_of_def is_safe_int_def)
qed

text \<open>
  C39: Adding variants to a basket never fails, and never lets it need more than the fifty actions of one
  batch: what does not fit is left out and counted.
\<close>

theorem basket_fits_in_a_batch:
  assumes "int (length items) \<le> 40000" "all = buildInventoryVariants items" "set vs \<subseteq> set all" "distinct (js_keys b)"
    and "basketAllocations collate (basketEntries b all) = Inr rows" "length rows \<le> 50"
  shows "\<exists>b' skipped rows'. addToBasket collate b vs all = Inr (b', skipped) \<and>
    basketAllocations collate (basketEntries b' all) = Inr rows' \<and> length rows' \<le> 50"
proof -
  have fit: "\<forall>v\<in>set all. fits v" using built_fits assms(1,2) by blast
  note allocated = basket_allocated [OF fit]
  have "rows = basket_rows collate all b" using assms(5) allocated by simp
  moreover have "js_map_ok b" using assms(4) by (simp add: js_map_ok_def js_keys_def)
  ultimately obtain b' k where "add_variants collate vs b (int (length rows)) 0 = Inr (b', k)"
    "int (length (basket_rows collate all b')) \<le> 50"
    using add_variants_fits [OF fit _ assms(3), of b collate 0] built_ids [of items] assms(2,6) by auto
  then show ?thesis using allocated assms(5) by (auto simp: addToBasket_def)
qed

section \<open>Witnesses\<close>

lemma loaded_cards: "loadInventory card_pages = Inr
    [new_item ''11'' ''7'' ''0'' (the card_description) 2 True, new_item ''12'' ''7'' ''0'' (the card_description) 1 False]"
  by code_simp

definition loaded :: "item list" where
  "loaded = [new_item ''11'' ''7'' ''0'' (the card_description) 2 True, new_item ''12'' ''7'' ''0'' (the card_description) 1 False]"

definition loaded_variant :: sale_variant where
  "loaded_variant =
     \<lparr>sv_id = ''753:6:7:0'', sv_quantity = 3, sv_duplicates = 2, sv_marketable = True, sv_tradable = True, sv_assets = loaded,
      sv_sellable = 2, sv_capacity = 2\<rparr>"

lemma built_example: "buildInventoryVariants loaded = [loaded_variant]"
  by code_simp

definition same_text :: "string \<Rightarrow> string \<Rightarrow> int" where
  "same_text a b = 0"

lemma allocation_is_sellable_witness:
  "\<exists>x. assertSellable (\<lambda>_. None) loaded ''11'' 1 = Inr x \<and> 2 + 1 \<le> copies quantity (item_group x) loaded"
proof -
  have "allocateVariantSale same_text loaded_variant 2 = Inr [(''11'', 1), (''12'', 1)]" by code_simp
  from allocation_is_sellable [OF loaded_cards [folded loaded_def] _ this] built_example show ?thesis
    by (auto split: sum.splits)
qed

lemma basket_fits_in_a_batch_witness:
  "\<exists>b' skipped rows'. addToBasket same_text [] [loaded_variant] [loaded_variant] = Inr (b', skipped) \<and>
     basketAllocations same_text (basketEntries b' [loaded_variant]) = Inr rows' \<and> length rows' \<le> 50"
proof -
  have "int (length loaded) \<le> 40000" by (simp add: loaded_def)
  from basket_fits_in_a_batch [OF this built_example [symmetric], of "[loaded_variant]" "[]" same_text "[]"]
  show ?thesis by (simp add: js_keys_def basketEntries_def List.map_filter_simps)
qed

end
