(* ===== verification/PriceText.thy ===== *)
theory PriceText
  imports AccountTables Accounts
begin

text \<open>
  Prices as text: \<open>parseMajorToMinor\<close> and \<open>formatMinorToMajor\<close> of
  \<open>apps/web/src/features/inventory/inventory-model.ts\<close>, which never use floating-point numbers.
\<close>

section \<open>Texts of digits\<close>

definition strip_zeros :: "string \<Rightarrow> string" where
  "strip_zeros s = dropWhile (\<lambda>c. c = CHR ''0'') s"

definition pad_end :: "nat \<Rightarrow> string \<Rightarrow> string" where
  "pad_end n s = s @ replicate (n - length s) (CHR ''0'')"

definition pad_start :: "nat \<Rightarrow> string \<Rightarrow> string" where
  "pad_start n s = replicate (n - length s) (CHR ''0'') @ s"

text \<open>The groups of \<open>/^(-?)(?:(\d+)(?:[.,](\d*))?|[.,](\d+))$/\<close>: sign, whole digits, fraction.\<close>

definition is_separator :: "char \<Rightarrow> bool" where
  "is_separator c \<longleftrightarrow> c \<in> {CHR ''.'', CHR '',''}"

definition price_digits :: "string \<Rightarrow> (string \<times> string) option" where
  "price_digits s =
     (let ds = takeWhile is_digit s; r = dropWhile is_digit s in
      case r of
        [] \<Rightarrow> if ds = [] then None else Some (ds, [])
      | c # f \<Rightarrow> if is_separator c \<and> list_all is_digit f \<and> (ds \<noteq> [] \<or> f \<noteq> []) then Some (ds, f) else None)"

definition price_groups :: "string \<Rightarrow> (bool \<times> string \<times> string) option" where
  "price_groups s =
     (case s of
        [] \<Rightarrow> None
      | c # cs \<Rightarrow> if c = CHR ''-'' then map_option (Pair True) (price_digits cs) else map_option (Pair False) (price_digits (c # cs)))"

definition parseMajorToMinor :: "string \<Rightarrow> js_number \<Rightarrow> bool \<Rightarrow> int option" where
  "parseMajorToMinor value minorUnit allowNegative =
     (if \<not> is_integer minorUnit \<or> int_of minorUnit < 0 \<or> int_of minorUnit > 20 then None
      else case price_groups (js_trim value) of
        None \<Rightarrow> None
      | Some (negative, whole, fraction) \<Rightarrow>
          if negative \<and> \<not> allowNegative then None
          else if int (length fraction) > int_of minorUnit then None
          else let digits = strip_zeros (whole @ pad_end (nat (int_of minorUnit)) fraction) in
            if length digits > 16 then None
            else if digits_value digits > max_safe_integer then None
            else Some (if negative then - digits_value digits else digits_value digits))"

definition formatMinorToMajor :: "js_number \<Rightarrow> js_number \<Rightarrow> string option" where
  "formatMinorToMajor amount minorUnit =
     (if \<not> is_safe_integer amount \<or> \<not> is_integer minorUnit \<or> int_of minorUnit < 0 \<or> int_of minorUnit > 20 then None
      else let a = int_of amount; m = nat (int_of minorUnit);
               digits = pad_start (m + 1) (nat_text (nat \<bar>a\<bar>));
               k = length digits - m;
               decimal = (if m = 0 then digits else take k digits @ ''.'' @ drop k digits)
        in Some ((if a < 0 then ''-'' else []) @ decimal))"

section \<open>Values of digits\<close>

lemma digit_facts [simp]: "is_digit (CHR ''0'')" "\<not> is_digit (CHR ''.'')" "\<not> is_digit (CHR ''-'')"
  "\<not> is_blank (CHR ''.'')" "\<not> is_blank (CHR ''-'')"
  by (simp_all add: is_digit_def is_blank_def)

lemma digit_not_blank: "is_digit c \<Longrightarrow> \<not> is_blank c"
  by (auto simp: is_digit_def is_blank_def)

lemma digits_value_from: "foldl (\<lambda>n c. 10 * n + digit_value c) a s = a * 10 ^ length s + digits_value s"
proof (induction s arbitrary: a)
  case (Cons c s)
  have "foldl (\<lambda>n c. 10 * n + digit_value c) a (c # s) = (10 * a + digit_value c) * 10 ^ length s + digits_value s"
    using Cons by simp
  moreover have "digits_value (c # s) = digit_value c * 10 ^ length s + digits_value s"
    using Cons [of "digit_value c"] by (simp add: digits_value_def)
  ultimately show ?case by (simp add: algebra_simps)
qed (simp add: digits_value_def)

lemma digits_value_Nil [simp]: "digits_value [] = 0"
  by (simp add: digits_value_def)

lemma digits_value_append: "digits_value (s @ s') = digits_value s * 10 ^ length s' + digits_value s'"
  using digits_value_from [of "digits_value s" s'] by (simp add: digits_value_def)

lemma digit_value_zero [simp]: "digit_value (CHR ''0'') = 0"
  by (simp add: digit_value_def)

lemma digits_value_Cons: "digits_value (c # s) = digit_value c * 10 ^ length s + digits_value s"
  using digits_value_append [of "[c]" s] by (simp add: digits_value_def)

lemma digits_value_zeros: "digits_value (replicate k (CHR ''0'') @ s) = digits_value s"
  by (induction k) (simp_all add: digits_value_Cons)

lemma digits_value_strip: "digits_value (strip_zeros s) = digits_value s"
  by (induction s) (simp_all add: strip_zeros_def digits_value_Cons)

lemma decimal_digit_props:
  assumes "n < 10"
  shows "is_digit (decimal_digit n)" "digit_value (decimal_digit n) = int n"
proof -
  have "list_all (\<lambda>n. is_digit (decimal_digit n) \<and> digit_value (decimal_digit n) = int n) [0..<10]" by code_simp
  then show "is_digit (decimal_digit n)" "digit_value (decimal_digit n) = int n" using assms by (auto simp only: list_all_iff set_upt atLeastLessThan_iff)
qed

lemma nat_text_props: "list_all is_digit (nat_text n) \<and> nat_text n \<noteq> [] \<and> digits_value (nat_text n) = int n"
proof (induction n rule: nat_text.induct)
  case (1 n)
  show ?case
  proof (cases "n < 10")
    case True
    then show ?thesis using decimal_digit_props [OF True] by (simp add: nat_text.simps [of n] digits_value_def)
  next
    case False
    then have split: "nat_text n = nat_text (n div 10) @ [decimal_digit (n mod 10)]" by (simp add: nat_text.simps [of n])
    have "int n = 10 * int (n div 10) + int (n mod 10)" by presburger
    then show ?thesis using 1 False decimal_digit_props [of "n mod 10"] by (simp add: split digits_value_append digits_value_Cons)
  qed
qed

lemma leading_digit_value: "is_digit c \<Longrightarrow> c \<noteq> CHR ''0'' \<Longrightarrow> 1 \<le> digit_value c"
  by (auto simp: is_digit_def digit_value_def)

lemma short_without_zeros:
  assumes "list_all is_digit s" "digits_value s < 10 ^ k"
  shows "length (strip_zeros s) \<le> k"
proof (cases "strip_zeros s")
  case (Cons c cs)
  have digits: "list_all is_digit (c # cs)"
  proof -
    have "set (strip_zeros s) \<subseteq> set s" by (auto simp: strip_zeros_def dest: set_dropWhileD)
    then show ?thesis using assms(1) Cons by (auto simp: list_all_iff)
  qed
  moreover have "c \<noteq> CHR ''0''" using Cons unfolding strip_zeros_def dropWhile_eq_Cons_conv by simp
  ultimately have "1 \<le> digit_value c \<and> 0 \<le> digits_value cs" using leading_digit_value digits_value_nonneg by auto
  then have "(10 :: int) ^ length cs \<le> digits_value (c # cs)"
  proof -
    assume "1 \<le> digit_value c \<and> 0 \<le> digits_value cs"
    moreover from this have "1 * (10 :: int) ^ length cs \<le> digit_value c * 10 ^ length cs" by (intro mult_right_mono) simp_all
    ultimately show ?thesis unfolding digits_value_Cons by linarith
  qed
  also have "\<dots> < 10 ^ k" using digits_value_strip [of s] assms(2) Cons by simp
  finally have "length cs < k" using power_less_imp_less_exp [of "10 :: int"] by simp
  then show ?thesis using Cons by simp
qed simp

section \<open>Parsing what was printed\<close>

lemma trim_unblank: "list_all (\<lambda>c. \<not> is_blank c) s \<Longrightarrow> js_trim s = s"
proof -
  have "dropWhile is_blank xs = xs" if "list_all (\<lambda>c. \<not> is_blank c) xs" for xs
    using that by (cases xs) auto
  from this [of s] this [of "rev s"] show "list_all (\<lambda>c. \<not> is_blank c) s \<Longrightarrow> ?thesis" by (simp add: js_trim_def list_all_iff)
qed

lemma price_digits_printed:
  assumes "list_all is_digit w" "w \<noteq> []" "list_all is_digit f"
  shows "price_digits w = Some (w, [])" "price_digits (w @ CHR ''.'' # f) = Some (w, f)"
proof -
  have all: "\<forall>c\<in>set w. is_digit c" using assms(1) by (simp add: list_all_iff)
  have whole: "takeWhile is_digit w = w" "dropWhile is_digit w = []" using all by simp_all
  show "price_digits w = Some (w, [])" using assms(2) by (simp add: price_digits_def whole)
  have "takeWhile is_digit (w @ CHR ''.'' # f) = w" "dropWhile is_digit (w @ CHR ''.'' # f) = CHR ''.'' # f"
    using all by (simp_all add: takeWhile_append dropWhile_append)
  then show "price_digits (w @ CHR ''.'' # f) = Some (w, f)" using assms by (simp add: price_digits_def is_separator_def)
qed

lemma digits_unblank: "list_all is_digit s \<Longrightarrow> list_all (\<lambda>c. \<not> is_blank c) s"
  using digit_not_blank by (auto simp: list_all_iff)

lemma printed_decimal:
  assumes "list_all is_digit digits" "m < length digits"
    and d: "decimal = (if m = 0 then digits else take (length digits - m) digits @ ''.'' @ drop (length digits - m) digits)"
    and s: "s = (if neg then ''-'' else []) @ decimal"
  shows "price_groups s = Some (neg, take (length digits - m) digits, drop (length digits - m) digits)" "js_trim s = s"
proof -
  let ?k = "length digits - m"
  have parts: "list_all is_digit (take ?k digits)" "list_all is_digit (drop ?k digits)" "take ?k digits \<noteq> []"
    using assms(1,2) by (auto simp: list_all_iff dest: in_set_takeD in_set_dropD)
  have groups: "price_digits decimal = Some (take ?k digits, drop ?k digits)"
    using price_digits_printed(1) [of digits "[]"] price_digits_printed(2) [OF parts(1,3,2)] assms(1,2)
    by (cases "m = 0") (auto simp: d)
  have "is_digit (hd digits)" using assms(1,2) by (cases digits) auto
  then have "hd digits \<noteq> CHR ''-''" by auto
  then have "decimal \<noteq> [] \<and> hd decimal \<noteq> CHR ''-''" using parts(3) assms(2) by (auto simp: d hd_append)
  then show "price_groups s = Some (neg, take ?k digits, drop ?k digits)"
    using groups by (cases decimal) (auto simp: s price_groups_def)
  have "list_all (\<lambda>c. \<not> is_blank c) digits" by (rule digits_unblank [OF assms(1)])
  then have "list_all (\<lambda>c. \<not> is_blank c) decimal"
    by (auto simp: d list_all_iff dest: in_set_takeD in_set_dropD)
  then show "js_trim s = s" by (intro trim_unblank) (simp add: s)
qed

text \<open>
  C40: A price is read back exactly as it was printed, for every safe integer and every number of decimal
  places the program allows, signs included.
\<close>

theorem printed_price_is_read_back:
  assumes "formatMinorToMajor amount minorUnit = Some s"
  shows "parseMajorToMinor s minorUnit True = Some (int_of amount) \<and>
    (0 \<le> int_of amount \<longrightarrow> parseMajorToMinor s minorUnit False = Some (int_of amount))"
proof -
  define a where "a = int_of amount"
  define m where "m = nat (int_of minorUnit)"
  define digits where "digits = pad_start (m + 1) (nat_text (nat \<bar>a\<bar>))"
  define k where "k = length digits - m"
  define decimal where "decimal = (if m = 0 then digits else take k digits @ ''.'' @ drop k digits)"
  have unit: "is_integer minorUnit" "0 \<le> int_of minorUnit" "int_of minorUnit \<le> 20"
    and safe: "\<bar>a\<bar> \<le> max_safe_integer" and s: "s = (if a < 0 then ''-'' else []) @ decimal"
    using assms by (cases amount; auto simp: formatMinorToMajor_def a_def m_def digits_def k_def decimal_def Let_def is_safe_int_def
        split: if_splits)+
  note printed = nat_text_props [of "nat \<bar>a\<bar>"]
  have digits: "list_all is_digit digits" "digits_value digits = \<bar>a\<bar>" "m < length digits"
    using printed by (auto simp: digits_def pad_start_def digits_value_zeros list_all_iff)
  note written = printed_decimal [OF digits(1,3) decimal_def [unfolded k_def] s, folded k_def]
  have "length (drop k digits) = m" using digits(3) by (simp add: k_def)
  then have "pad_end m (drop k digits) = drop k digits" by (simp add: pad_end_def)
  moreover have "length (strip_zeros digits) \<le> 16" using safe by (intro short_without_zeros digits(1)) (simp add: digits(2))
  moreover have "digits_value (strip_zeros digits) = \<bar>a\<bar>" by (simp add: digits_value_strip digits(2))
  ultimately have "parseMajorToMinor s minorUnit b = (if a < 0 \<and> \<not> b then None else Some a)" for b
    using unit safe written digits(3) by (simp add: parseMajorToMinor_def m_def k_def Let_def)
  then show ?thesis by (simp add: a_def)
qed

lemma printed_price_is_read_back_witness:
  "parseMajorToMinor ''-0.05'' (Whole 2) True = Some (- 5) \<and> parseMajorToMinor ''12.50'' (Whole 2) False = Some 1250"
proof -
  have "formatMinorToMajor (Whole (- 5)) (Whole 2) = Some ''-0.05''" "formatMinorToMajor (Whole 1250) (Whole 2) = Some ''12.50''"
    by code_simp+
  from printed_price_is_read_back [OF this(1)] printed_price_is_read_back [OF this(2)] show ?thesis by simp
qed

text \<open>Whatever is typed, an accepted price is a safe integer, and negative only where that is allowed.\<close>

lemma price_digits_digits: "price_digits s = Some (w, f) \<Longrightarrow> list_all is_digit w \<and> list_all is_digit f"
  by (auto simp: price_digits_def Let_def list_all_iff split: list.splits if_splits dest: set_takeWhileD)

lemma parsed_price_bounds:
  assumes "parseMajorToMinor s m negative = Some n"
  shows "is_safe_int n \<and> (negative \<or> 0 \<le> n)"
proof -
  obtain sign w f where groups: "price_groups (js_trim s) = Some (sign, w, f)" and allowed: "sign \<longrightarrow> negative"
    and n: "digits_value (strip_zeros (w @ pad_end (nat (int_of m)) f)) \<le> max_safe_integer"
      "n = (if sign then - digits_value (strip_zeros (w @ pad_end (nat (int_of m)) f)) else digits_value (strip_zeros (w @ pad_end (nat (int_of m)) f)))"
    using assms by (auto simp: parseMajorToMinor_def Let_def split: if_splits option.splits)
  have "list_all is_digit w \<and> list_all is_digit f"
    using groups price_digits_digits by (auto simp: price_groups_def split: list.splits if_splits)
  then have "list_all is_digit (w @ pad_end (nat (int_of m)) f)" by (auto simp: pad_end_def list_all_iff)
  then have "0 \<le> digits_value (w @ pad_end (nat (int_of m)) f)" by (rule digits_value_nonneg)
  then show ?thesis using n allowed by (auto simp: digits_value_strip is_safe_int_def)
qed

end
