(* ===== verification/Spec2Isabelle.thy ===== *)
theory Spec2Isabelle
  imports Money MarketBatch ScheduleCoordinator FarmingRules FarmingController Safety Notifications Webhooks
    AccountManager AdminAuth InstanceLease SaleSafety SaleSettings
    PriceOverview SteamLogin CommunitySession InventoryModel PriceText
begin

text \<open>
  SteamBee keeps Steam accounts online, plays games for hours or trading cards, follows schedules
  and sells cards on the market. The parts verified here are those that decide: what is sold for
  how much and how often, when an account runs, which games are played, when a cap stops it, who is
  told, and who may use the data. All paths below are under \<open>src/apps/server/src\<close> unless they name a
  package or another application.

  Parts and theories.

  \<^item> \<open>Prelude\<close>: numbers and values of type unknown, insertion-ordered maps, the stable sort with its
    comparator locale, error codes, and actions on a state that may reject (\<open>then_do\<close>,
    \<open>catching\<close>), with the collections of facts the other theories share.
  \<^item> \<open>Money\<close> (\<open>inventory/money.ts\<close>): wallet and price settings as they are read, fees, minor units and
    the binary search for the best listing price. The quote is the highest that respects the
    buyer cap; amounts stay safe integers.
  \<^item> \<open>MarketBatch\<close> (\<open>inventory/batch.ts\<close>): previews, confirmation and the running batch cut at its two
    awaits. No item is submitted twice, stopping is final, one batch per account, every batch ends.
  \<^item> \<open>RequestGate\<close>, \<open>MarketPages\<close>, \<open>PriceReader\<close> (\<open>inventory/price-reader.ts\<close>, \<open>inventory/order-book.ts\<close>):
    the gate every market request passes with its cooldown, what is read out of the pages, and the
    caches. Requests are bounded in number and waiting time; a shown price is recent.
  \<^item> \<open>InventoryPages\<close>, \<open>SaleService\<close>, \<open>SaleSafety\<close> (\<open>inventory/service.ts\<close>): the inventory and the own
    listings read page by page (with the limits on pages and items of the code), previews, sales
    and cancellations in the queue of the account, and the map of submitted assets. An asset whose submission is
    unresolved is not submitted again, a sale keeps a copy of what was seen and has the previewed price.
  \<^item> \<open>SaleBatch\<close>, \<open>SaleSettings\<close> (\<open>inventory/service.ts\<close>): the planning of a batch out of a selection,
    with the quotes shared between items, and the saving of price settings against running and
    previewed batches. They compose the sales with \<open>MarketBatch\<close>.
  \<^item> \<open>PriceOverview\<close> (\<open>inventory/price-overview.ts\<close>): contexts of viewed inventories and their rows.
  \<^item> \<open>InventoryModel\<close>, \<open>PriceText\<close> (\<open>apps/web/src/features/inventory\<close>): variants, the allocation of a
    sale to assets, the basket, composed with the check of the server; prices written and read as text.
  \<^item> \<open>Calendar\<close>, \<open>Scheduler\<close> (\<open>steam/scheduler.ts\<close>): local dates and times over a time zone given by
    its offsets, windows of days and the choice among schedules, compared with an abstract calendar
    of windows.
  \<^item> \<open>ScheduleRepo\<close>, \<open>ScheduleCoordinator\<close> (\<open>steam/schedule-repository.ts\<close>,
    \<open>steam/schedule-coordinator.ts\<close>): the markers of windows in the database, the transitions of an
    account against arbitrary ports that may fail, back-off, holds and coalesced ticks.
  \<^item> \<open>Accounts\<close>, \<open>Operations\<close> (\<open>packages/contracts\<close>, \<open>steam/retry-policy.ts\<close>,
    \<open>steam/operations-repository.ts\<close>): statuses, classes of failures, health and safety rows.
  \<^item> \<open>BoostSession\<close>, \<open>Safety\<close> (\<open>steam/boost-session-tracker.ts\<close>, \<open>steam/safety-coordinator.ts\<close>): the
    rows of boosting sessions and the caps computed from them. A refinement relates the rows to the
    time an account has really boosted without a pause.
  \<^item> \<open>SteamCredentials\<close>, \<open>AccountTables\<close>, \<open>SteamWorker\<close> (\<open>steam/worker.ts\<close>, \<open>steam/repository.ts\<close>): the
    row of an account, games, presets and libraries, and the connection of one account to Steam with every
    method, event and timer. Games are reported only when the account may play them; a halted
    account is not logged in; a failed write is followed to all later starts.
  \<^item> \<open>AccountManager\<close> (\<open>steam/manager.ts\<close>): the queue of one account over its worker, with pauses for
    safety or until a time.
  \<^item> \<open>SteamLogin\<close>, \<open>CommunitySession\<close> (\<open>steam/login.ts\<close>, \<open>steam/community-session.ts\<close>,
    \<open>steam/community.ts\<close>): logins by QR code, the broker of web sessions, and requests with their
    redirects and cookies. A login saves once; cookies stay on the host they were given for.
  \<^item> \<open>FarmingRules\<close>, \<open>FarmingController\<close> (\<open>farming/controller.ts\<close>, \<open>farming/badges.ts\<close>): filtering,
    ordering and selection of games, and the session machine, with the invariant that an active
    account has exactly one live worker and that halting is final.
  \<^item> \<open>Notifications\<close>, \<open>Webhooks\<close> (\<open>notifications/dispatcher.ts\<close>, \<open>http/routes/operations.ts\<close>): rules,
    deliveries with retries and suspension as a machine over the tables, and the policy on the
    addresses a webhook may reach, over 32- and 128-bit words.
  \<^item> \<open>AdminAuth\<close>, \<open>InstanceLease\<close> (\<open>auth/service.ts\<close>, \<open>instance-lease.ts\<close>): the administrator's password,
    sessions and setup; the guard that lets one process use a data directory and fences an
    unfinished restore.

  How the code is modelled. Records have the fields of the code's objects and rows; a thrown error is
  \<open>Inl\<close> or an option. An asynchronous function is cut at its awaits where other code may run in
  between (batches, sales, farming, deliveries, logins, reads of prices, the password check) and is one
  step or one action where it may not. Clocks, random identifiers and the answers of Steam, of the
  database driver and of the ports are arguments; the theorems hold for all of them. Loops are
  structural, or have a measure: \<open>last_fit\<close> (the interval), \<open>discover_pages\<close> (the page limit),
  \<open>run_loop\<close> (the entries left), \<open>chunks\<close>, \<open>replace_all\<close> and \<open>fetch_packages\<close> (the rest of the list), \<open>hops\<close>
  (redirects left, so at most four requests are made), and \<open>pump\<close>, a nested recursion whose measure
  is the queue, which no call makes longer. No fuel is needed.

  What the code takes from elsewhere is a parameter: the password hash and the token hash
  (\<open>AdminAuth\<close>), the locks of the operating system (\<open>InstanceLease\<close>, with the documented law of POSIX
  locks as hypothesis), JSON.parse and the parsers of HTML, the parser of URLs (\<open>CommunitySession\<close>), the time
  zone database, the collation of texts and Intl.NumberFormat.

  Interfaces are locales: \<open>js_comparator\<close> (comparison functions, interpreted for texts and used for
  every sort), \<open>downward_fit\<close> (the search of \<open>Money\<close>), \<open>schedule_store\<close> (what the coordinator
  needs of the repository), and the relations that every action of a worker keeps: \<open>kept_relation\<close>
  (composition of actions), extended by \<open>preserved\<close> (small changes), \<open>preserved_machine\<close> (the worker's own
  operations), \<open>preserved_reports\<close> and \<open>preserved_always\<close>. \<open>lawful\<close>, \<open>off\<close> and \<open>stuck\<close> interpret
  them for the three properties of the worker, \<open>pausing\<close>, \<open>m_pausing\<close> and \<open>halted\<close> for the manager.

  What modelling showed. \<open>older_snapshot_sells_the_last_copy\<close>: viewing an inventory takes no turn in the
  account's queue and may release an asset that a running sale still counts.
  \<open>refusal_is_shared\<close>: the refusal of one item is cached for all of the same name in a batch.
  \<open>failed_write_blocks_every_later_start\<close>: a flag of the worker is not reset when a write is rejected.
  \<open>login_in_progress_outlives_password_change\<close>: a login that is being checked survives a change of
  the password.

  Not modelled: the parsers of badge pages and of the card set service (regular expressions over
  third-party pages), lookups in the public Steam store, the database client, backups and encryption,
  HTTP wiring and the views of the web application, which hold no state of their own beyond what is
  above. Timers are modelled as events that may happen at any time; log records are left out;
  failures of the database driver only where the code has a branch for them.
\<close>

end
